(* ===== verification/Prelude.thy ===== *)
theory Prelude
  imports Main "HOL-Library.Word"
begin

text \<open>
  Shared vocabulary of the development: the machine integers of the C++ sources, the outcome
  type of every operation that can go wrong, and the little-endian byte layouts that the
  structures of guest memory use.

  An outcome is \<open>Inr x\<close> when the code returns, \<open>Inl (Exn e)\<close> when it throws, and
  \<open>Inl (UB u)\<close> when the C++ it translates has no defined behaviour on that input (an access
  outside the memory the process owns, a division by zero, an index past a
  \<^verbatim>\<open>std::array\<close>); \<open>Inl Blocked\<close> means the thread waits in a system call that has not
  answered yet. The code has no check in those places; the model stops there, so a theorem that
  an operation returns \<open>Inr\<close> also says that none of these accesses happens.
\<close>

section \<open>Machine integers\<close>

type_synonym u8 = "8 word"
type_synonym u16 = "16 word"
type_synonym u32 = "32 word"
type_synonym u64 = "64 word"

unbundle bit_operations_syntax

section \<open>Outcomes\<close>

datatype ub =
    GuestMemory        \<comment> \<open>an access through the guest mapping that leaves the mapping\<close>
  | HostBuffer         \<comment> \<open>an access past the end of a vector, array or stack object\<close>
  | DivideByZero
  | SignedOverflow     \<comment> \<open>an \<^verbatim>\<open>int\<close> product that does not fit\<close>
  | NullPointer
  | Uninitialised      \<comment> \<open>a call on an object that was never created\<close>

datatype exn =
    IoctlFailed string
  | RuntimeError string

datatype fault =
    UB ub
  | Exn exn
  | Blocked  \<comment> \<open>the thread is still inside a system call: the recorded answers end here\<close>

type_synonym 'a res = "fault + 'a"

definition and_then :: "'a res \<Rightarrow> ('a \<Rightarrow> 'b res) \<Rightarrow> 'b res" where
  "and_then r f = (case r of Inl e \<Rightarrow> Inl e | Inr x \<Rightarrow> f x)"

definition guard_ub :: "bool \<Rightarrow> ub \<Rightarrow> unit res" where
  "guard_ub b u = (if b then Inr () else Inl (UB u))"

lemma and_then_simps [simp]:
  "and_then (Inl e) f = Inl e"
  "and_then (Inr x) f = f x"
  by (simp_all add: and_then_def)

lemma and_then_assoc: "and_then (and_then r f) g = and_then r (\<lambda>x. and_then (f x) g)"
  by (cases r) simp_all

lemma and_then_eq_Inr [simp]:
  "and_then r f = Inr y \<longleftrightarrow> (\<exists>x. r = Inr x \<and> f x = Inr y)"
  by (cases r) auto

lemma and_then_eq_Inl:
  "and_then r f = Inl e \<longleftrightarrow> r = Inl e \<or> (\<exists>x. r = Inr x \<and> f x = Inl e)"
  by (cases r) auto

lemma and_then_cong [fundef_cong]:
  "r = s \<Longrightarrow> (\<And>x. s = Inr x \<Longrightarrow> f x = g x) \<Longrightarrow> and_then r f = and_then s g"
  by (cases s) simp_all

lemma guard_ub_eq [simp]:
  "guard_ub b u = Inr x \<longleftrightarrow> b"
  "guard_ub True u = Inr ()"
  "guard_ub False u = Inl (UB u)"
  by (simp_all add: guard_ub_def)

section \<open>Arrays, vectors and the C operators\<close>

definition arr_get :: "'a list \<Rightarrow> nat \<Rightarrow> 'a res" where
  "arr_get xs i = (if i < length xs then Inr (xs ! i) else Inl (UB HostBuffer))"

definition arr_set :: "'a list \<Rightarrow> nat \<Rightarrow> 'a \<Rightarrow> 'a list res" where
  "arr_set xs i v = (if i < length xs then Inr (xs[i := v]) else Inl (UB HostBuffer))"

text \<open>
  \<open>memcpy\<close> into a host buffer at an offset; and C's logical negation, which maps every
  non-zero value to 0 (the sources write it where a bitwise complement is meant).
\<close>

definition buf_write :: "'a list \<Rightarrow> nat \<Rightarrow> 'a list \<Rightarrow> 'a list res" where
  "buf_write buf off xs =
     (if xs = [] then Inr buf
      else if off + length xs \<le> length buf
           then Inr (take off buf @ xs @ drop (off + length xs) buf)
           else Inl (UB HostBuffer))"

definition buf_read :: "'a list \<Rightarrow> nat \<Rightarrow> nat \<Rightarrow> 'a list res" where
  "buf_read buf off n =
     (if n = 0 then Inr []
      else if off + n \<le> length buf then Inr (take n (drop off buf)) else Inl (UB HostBuffer))"

definition lognot :: "'a::len word \<Rightarrow> 'a word" where
  "lognot w = (if w = 0 then 1 else 0)"

lemma arr_get_in [simp]: "i < length xs \<Longrightarrow> arr_get xs i = Inr (xs ! i)"
  by (simp add: arr_get_def)

lemma arr_get_eq_Inr: "arr_get xs i = Inr v \<longleftrightarrow> i < length xs \<and> v = xs ! i"
  by (auto simp: arr_get_def)

lemma arr_set_in [simp]: "i < length xs \<Longrightarrow> arr_set xs i v = Inr (xs[i := v])"
  by (simp add: arr_set_def)

lemma arr_set_eq_Inr: "arr_set xs i v = Inr ys \<longleftrightarrow> i < length xs \<and> ys = xs[i := v]"
  by (auto simp: arr_set_def)

lemma length_buf_write: "buf_write buf off xs = Inr buf' \<Longrightarrow> length buf' = length buf"
  by (auto simp: buf_write_def split: if_splits)

lemma length_buf_read: "buf_read buf off n = Inr xs \<Longrightarrow> length xs = n"
  by (auto simp: buf_read_def split: if_splits)

lemma lognot_simps [simp]: "lognot 0 = 1" "w \<noteq> 0 \<Longrightarrow> lognot w = 0"
  by (simp_all add: lognot_def)

section \<open>Words and naturals\<close>

named_theorems word_nat \<open>facts that move word arithmetic without wrap-around to nat\<close>

lemma unat_add_no_wrap [word_nat]:
  fixes a b :: "'a::len word"
  shows "unat a + unat b < 2 ^ LENGTH('a) \<Longrightarrow> unat (a + b) = unat a + unat b"
  by (simp add: unat_word_ariths)

lemma unat_add_of_nat [word_nat]:
  fixes a :: "'a::len word"
  assumes "unat a + n < 2 ^ LENGTH('a)"
  shows "unat (a + of_nat n) = unat a + n"
proof -
  have "n < 2 ^ LENGTH('a)" using assms by simp
  then have "unat (of_nat n :: 'a word) = n"
    by (simp add: unat_of_nat take_bit_nat_eq_self)
  then show ?thesis using assms by (simp add: unat_add_no_wrap)
qed

lemma unat_of_nat_small [word_nat]:
  "n < 2 ^ LENGTH('a) \<Longrightarrow> unat (of_nat n :: 'a::len word) = n"
  by (simp add: unat_of_nat take_bit_nat_eq_self)

lemma unat_diff_no_wrap [word_nat]:
  fixes a b :: "'a::len word"
  shows "b \<le> a \<Longrightarrow> unat (a - b) = unat a - unat b"
  by (simp add: unat_sub word_le_nat_alt)

lemma unat_Suc_no_wrap [word_nat]:
  fixes w :: "'a::len word"
  shows "w < v \<Longrightarrow> unat (w + 1) = Suc (unat w)"
proof -
  assume "w < v"
  then have "unat w < unat v" by (simp add: word_less_nat_alt)
  moreover have "unat v < 2 ^ LENGTH('a)" by (rule unsigned_less)
  ultimately have "unat w + 1 < 2 ^ LENGTH('a)" by linarith
  then show ?thesis using unat_add_of_nat[of w 1] by simp
qed

lemma word_Suc_no_wrap [word_nat]:
  fixes w :: "'a::len word"
  assumes "w < v"
  shows "w + 1 \<noteq> 0" "w + 1 \<le> v" "w + 1 \<noteq> v \<Longrightarrow> w + 1 < v"
proof -
  have u: "unat (w + 1) = Suc (unat w)" by (rule unat_Suc_no_wrap[OF assms])
  then show "w + 1 \<noteq> 0" by auto
  show le: "w + 1 \<le> v"
    using u assms by (simp add: word_less_nat_alt word_le_nat_alt)
  show "w + 1 < v" if "w + 1 \<noteq> v" using le that by simp
qed

lemma unat_less_pow: "unat (a :: 'a::len word) < 2 ^ LENGTH('a)"
  by (rule unsigned_less)

lemma unat_less64: "unat (a :: u64) < 18446744073709551616"
  using unat_less_pow[of a] by simp

lemma unat_less32: "unat (a :: u32) < 4294967296"
  using unat_less_pow[of a] by simp

lemma unat_less16: "unat (a :: u16) < 65536"
  using unat_less_pow[of a] by simp

lemma unat_less8: "unat (a :: u8) < 256"
  using unat_less_pow[of a] by simp

lemma unat_ucast_up:
  "LENGTH('a) \<le> LENGTH('b) \<Longrightarrow> unat (ucast (a :: 'a::len word) :: 'b::len word) = unat a"
  by (simp add: unsigned_ucast_eq take_bit_nat_eq_self order.strict_trans2 [OF unat_less_pow])

lemma sint_nonneg: "unat (w :: u64) < 9223372036854775808 \<Longrightarrow> 0 \<le> sint w"
proof -
  assume "unat w < 9223372036854775808"
  then have "take_bit 63 (unat w) = unat w" by (simp add: take_bit_nat_eq_self)
  then have "\<not> bit (unat w) 63" by (metis bit_take_bit_iff less_irrefl)
  then have "\<not> bit w 63" by (simp add: bit_unsigned_iff)
  then show "0 \<le> sint w" using bit_last_iff[of w] by simp
qed

declare unat_gt_0 [simp] unat_0_iff [simp]

lemma mod_slots_distinct:
  fixes h :: nat
  assumes "i < n" "n - i < k"
  shows "(h + i) mod k \<noteq> (h + n) mod k"
proof
  assume "(h + i) mod k = (h + n) mod k"
  then have "k dvd (h + n) - (h + i)"
    using assms(1) by (subst (asm) eq_commute, subst (asm) mod_eq_dvd_iff_nat) auto
  then have "k dvd n - i" by simp
  then show False using assms nat_dvd_not_less[of "n - i" k] by simp
qed

section \<open>Little-endian layouts\<close>

definition le_bytes :: "nat \<Rightarrow> 'a::len word \<Rightarrow> u8 list" where
  "le_bytes n w = map (\<lambda>i. ucast (drop_bit (8 * i) w)) [0..<n]"

fun le_word :: "u8 list \<Rightarrow> 'a::len word" where
  "le_word [] = 0"
| "le_word (b # bs) = ucast b OR push_bit 8 (le_word bs)"

lemma length_le_bytes [simp]: "length (le_bytes n w) = n"
  by (simp add: le_bytes_def)

lemma le_bytes_Suc: "le_bytes (Suc n) w = ucast w # le_bytes n (drop_bit 8 w)"
  by (simp add: le_bytes_def upt_conv_Cons map_Suc_upt [symmetric] del: upt_Suc)
     (simp add: add.commute)

lemma le_bytes_0 [simp]: "le_bytes 0 w = []"
  by (simp add: le_bytes_def)

lemma le_word_le_bytes: "le_word (le_bytes n w) = take_bit (8 * n) (w :: 'a::len word)"
proof (induction n arbitrary: w)
  case 0
  then show ?case by simp
next
  case (Suc n)
  have "ucast (ucast w :: u8) OR push_bit 8 (take_bit (8 * n) (drop_bit 8 w))
      = take_bit (8 + 8 * n) w"
    by (rule bit_word_eqI) (auto simp: bit_simps)
  then show ?case by (simp add: le_bytes_Suc Suc)
qed

lemma le_word_le_bytes_exact [simp]:
  "8 * n \<ge> LENGTH('a) \<Longrightarrow> le_word (le_bytes n w) = (w :: 'a::len word)"
  by (simp add: le_word_le_bytes take_bit_word_eq_self)

lemma bit_le_word_bound:
  "bit (le_word bs :: 'a::len word) n \<Longrightarrow> n < 8 * length bs"
proof (induction bs arbitrary: n)
  case Nil
  then show ?case by simp
next
  case (Cons b bs)
  then show ?case
    by (auto simp: bit_simps not_le dest: bit_imp_le_length split: if_splits)
       (fastforce dest: bit_imp_le_length Cons.IH)+
qed

lemma le_bytes_le_word:
  "8 * length bs \<le> LENGTH('a) \<Longrightarrow> le_bytes (length bs) (le_word bs :: 'a::len word) = bs"
proof (induction bs)
  case Nil
  then show ?case by simp
next
  case (Cons b bs)
  let ?w = "le_word bs :: 'a word"
  have low: "ucast (ucast b OR push_bit 8 ?w :: 'a word) = b"
    using Cons.prems by (intro bit_word_eqI) (auto simp: bit_simps)
  have high: "drop_bit 8 (ucast b OR push_bit 8 ?w :: 'a word) = ?w"
  proof (rule bit_word_eqI)
    fix n assume "n < LENGTH('a)"
    show "bit (drop_bit 8 (ucast b OR push_bit 8 ?w :: 'a word)) n = bit ?w n"
      using Cons.prems bit_le_word_bound[of bs n, where 'a = 'a]
      by (auto simp: bit_simps dest: bit_imp_le_length)
  qed
  show ?case
    using Cons by (simp add: le_bytes_Suc low high del: drop_bit_or)
qed

section \<open>Replies\<close>

text \<open>\<^verbatim>\<open>std::vector<__u8> buf(size); buf[0] = v;\<close> is undefined for an empty vector.\<close>

definition zero_buf :: "u32 \<Rightarrow> u8 list" where
  "zero_buf sz = replicate (unat sz) 0"

definition byte_reply :: "u32 \<Rightarrow> u8 \<Rightarrow> u8 list" where
  "byte_reply sz v = v # replicate (unat sz - 1) 0"

lemma length_zero_buf [simp]: "length (zero_buf sz) = unat sz"
  by (simp add: zero_buf_def)

lemma arr_set_zero_buf [simp]: "sz \<noteq> 0 \<Longrightarrow> arr_set (zero_buf sz) 0 v = Inr (byte_reply sz v)"
  by (cases "unat sz") (simp_all add: zero_buf_def byte_reply_def arr_set_def)

lemma zero_buf_update [simp]: "sz \<noteq> 0 \<Longrightarrow> (zero_buf sz)[0 := v] = byte_reply sz v"
  by (cases "unat sz") (simp_all add: zero_buf_def byte_reply_def)

lemma length_byte_reply [simp]: "sz \<noteq> 0 \<Longrightarrow> length (byte_reply sz v) = unat sz"
  by (cases "unat sz") (simp_all add: byte_reply_def)

lemma hd_byte_reply [simp]: "byte_reply sz v = [] \<longleftrightarrow> False" "hd (byte_reply sz v) = v"
  "byte_reply sz v ! 0 = v"
  by (simp_all add: byte_reply_def)

lemma byte_reply_1 [simp]: "byte_reply 1 v = [v]"
  by (simp add: byte_reply_def)

lemma zero_buf_reply: "sz \<noteq> 0 \<Longrightarrow> zero_buf sz = byte_reply sz 0"
  by (cases "unat sz") (simp_all add: zero_buf_def byte_reply_def)

lemma arr_set_zero_buf_eq:
  "arr_set (zero_buf sz) 0 v = Inr buf \<longleftrightarrow> sz \<noteq> 0 \<and> buf = byte_reply sz v"
proof (cases "sz = 0")
  case True
  then show ?thesis by (simp add: arr_set_def zero_buf_def)
next
  case False
  then show ?thesis by auto
qed

section \<open>Single bits\<close>

text \<open>The sources test flags by masking; these turn the masks into bits.\<close>

named_theorems flag_bits \<open>single-bit masks as bits\<close>

lemma and_bit_flag: "(w :: 'a::len word) AND 2 ^ n = 0 \<longleftrightarrow> \<not> bit w n"
  by (rule and_exp_eq_0_iff_not_bit)

lemma flag_1 [flag_bits]: "(w :: 'a::len word) AND 1 = 0 \<longleftrightarrow> \<not> bit w 0"
  using and_bit_flag[of w 0] by simp

lemma flag_2 [flag_bits]: "(w :: 'a::len word) AND 2 = 0 \<longleftrightarrow> \<not> bit w 1"
  using and_bit_flag[of w 1] by simp

lemma flag_4 [flag_bits]: "(w :: 'a::len word) AND 4 = 0 \<longleftrightarrow> \<not> bit w 2"
  using and_bit_flag[of w 2] by simp

lemma flag_8 [flag_bits]: "(w :: 'a::len word) AND 8 = 0 \<longleftrightarrow> \<not> bit w 3"
  using and_bit_flag[of w 3] by simp

lemma flag_16 [flag_bits]: "(w :: 'a::len word) AND 16 = 0 \<longleftrightarrow> \<not> bit w 4"
  using and_bit_flag[of w 4] by simp

lemma flag_32 [flag_bits]: "(w :: 'a::len word) AND 32 = 0 \<longleftrightarrow> \<not> bit w 5"
  using and_bit_flag[of w 5] by simp

lemma flag_64 [flag_bits]: "(w :: 'a::len word) AND 64 = 0 \<longleftrightarrow> \<not> bit w 6"
  using and_bit_flag[of w 6] by simp

lemma flag_128 [flag_bits]: "(w :: 'a::len word) AND 128 = 0 \<longleftrightarrow> \<not> bit w 7"
  using and_bit_flag[of w 7] by simp

end
