(* ===== verification/Guest_Memory.thy ===== *)
theory Guest_Memory
  imports Prelude
begin

text \<open>
  The guest's physical memory as the process sees it: the anonymous mapping of
  \<^verbatim>\<open>kvm::vm\<close> (\<open>memory\<close>, \<open>memory_size\<close>) and the pointer arithmetic
  \<^verbatim>\<open>ptr + addr\<close> of \<^verbatim>\<open>virtio::queue::translate\<close>. An address is an offset into the
  mapping, 64 bits wide as in the source. \<open>load_bytes\<close> and \<open>store_bytes\<close> are the
  dereference: they fault outside the mapping, where the process would touch memory that is not
  the guest's. \<open>peek\<close> and \<open>poke\<close> are the total functions behind them that
  specifications use.
\<close>

record gmem =
  gm_size :: u64
  gm_byte :: "u64 \<Rightarrow> u8"

definition in_mem :: "gmem \<Rightarrow> u64 \<Rightarrow> nat \<Rightarrow> bool" where
  "in_mem m a n \<longleftrightarrow> n = 0 \<or> unat a + n \<le> unat (gm_size m)"

definition peek :: "gmem \<Rightarrow> u64 \<Rightarrow> nat \<Rightarrow> u8 list" where
  "peek m a n = map (\<lambda>i. gm_byte m (a + of_nat i)) [0..<n]"

definition poke :: "gmem \<Rightarrow> u64 \<Rightarrow> u8 list \<Rightarrow> gmem" where
  "poke m a bs = m\<lparr>gm_byte :=
     (\<lambda>x. if unat (x - a) < length bs then bs ! unat (x - a) else gm_byte m x)\<rparr>"

definition load_bytes :: "gmem \<Rightarrow> u64 \<Rightarrow> nat \<Rightarrow> u8 list res" where
  "load_bytes m a n = (if in_mem m a n then Inr (peek m a n) else Inl (UB GuestMemory))"

definition store_bytes :: "gmem \<Rightarrow> u64 \<Rightarrow> u8 list \<Rightarrow> gmem res" where
  "store_bytes m a bs =
     (if in_mem m a (length bs) then Inr (poke m a bs) else Inl (UB GuestMemory))"

definition peek_le :: "nat \<Rightarrow> gmem \<Rightarrow> u64 \<Rightarrow> 'a::len word" where
  "peek_le n m a = le_word (peek m a n)"

definition load_le :: "nat \<Rightarrow> gmem \<Rightarrow> u64 \<Rightarrow> 'a::len word res" where
  "load_le n m a = and_then (load_bytes m a n) (\<lambda>bs. Inr (le_word bs))"

definition store_le :: "nat \<Rightarrow> gmem \<Rightarrow> u64 \<Rightarrow> 'a::len word \<Rightarrow> gmem res" where
  "store_le n m a w = store_bytes m a (le_bytes n w)"

abbreviation load16 :: "gmem \<Rightarrow> u64 \<Rightarrow> u16 res" where "load16 \<equiv> load_le 2"
abbreviation load32 :: "gmem \<Rightarrow> u64 \<Rightarrow> u32 res" where "load32 \<equiv> load_le 4"
abbreviation load64 :: "gmem \<Rightarrow> u64 \<Rightarrow> u64 res" where "load64 \<equiv> load_le 8"
abbreviation peek16 :: "gmem \<Rightarrow> u64 \<Rightarrow> u16" where "peek16 \<equiv> peek_le 2"
abbreviation peek32 :: "gmem \<Rightarrow> u64 \<Rightarrow> u32" where "peek32 \<equiv> peek_le 4"
abbreviation peek64 :: "gmem \<Rightarrow> u64 \<Rightarrow> u64" where "peek64 \<equiv> peek_le 8"
abbreviation store16 :: "gmem \<Rightarrow> u64 \<Rightarrow> u16 \<Rightarrow> gmem res" where "store16 \<equiv> store_le 2"
abbreviation store32 :: "gmem \<Rightarrow> u64 \<Rightarrow> u32 \<Rightarrow> gmem res" where "store32 \<equiv> store_le 4"
abbreviation store64 :: "gmem \<Rightarrow> u64 \<Rightarrow> u64 \<Rightarrow> gmem res" where "store64 \<equiv> store_le 8"

definition disjoint_ranges :: "u64 \<Rightarrow> nat \<Rightarrow> u64 \<Rightarrow> nat \<Rightarrow> bool" where
  "disjoint_ranges a n b k \<longleftrightarrow> unat a + n \<le> unat b \<or> unat b + k \<le> unat a"

section \<open>Reading and writing\<close>

lemma length_peek [simp]: "length (peek m a n) = n"
  by (simp add: peek_def)

lemma gm_size_poke [simp]: "gm_size (poke m a bs) = gm_size m"
  by (simp add: poke_def)

lemma in_mem_poke [simp]: "in_mem (poke m a bs) b n = in_mem m b n"
  by (simp add: in_mem_def)

lemma in_mem_sub: "in_mem m a n \<Longrightarrow> i + k \<le> n \<Longrightarrow> in_mem m (a + of_nat i) k"
proof (cases "k = 0")
  case False
  assume "in_mem m a n" "i + k \<le> n"
  with False have b: "unat a + n \<le> unat (gm_size m)" "i < n" by (auto simp: in_mem_def)
  then have "unat a + i < 18446744073709551616"
    using unat_less64[of "gm_size m"] by linarith
  then have "unat (a + of_nat i) = unat a + i"
    by (intro unat_add_of_nat) simp
  with b \<open>i + k \<le> n\<close> show ?thesis by (simp add: in_mem_def)
qed (simp add: in_mem_def)

lemma in_mem_bound: "in_mem m a n \<Longrightarrow> n \<noteq> 0 \<Longrightarrow> unat a + n < 18446744073709551616"
  using unat_less64[of "gm_size m"] unfolding in_mem_def by linarith

lemma load_bytes_in [simp]: "in_mem m a n \<Longrightarrow> load_bytes m a n = Inr (peek m a n)"
  by (simp add: load_bytes_def)

lemma load_bytes_eq_Inr: "load_bytes m a n = Inr bs \<longleftrightarrow> in_mem m a n \<and> bs = peek m a n"
  by (auto simp: load_bytes_def)

lemma store_bytes_in [simp]:
  "in_mem m a (length bs) \<Longrightarrow> store_bytes m a bs = Inr (poke m a bs)"
  by (simp add: store_bytes_def)

lemma store_bytes_eq_Inr:
  "store_bytes m a bs = Inr m' \<longleftrightarrow> in_mem m a (length bs) \<and> m' = poke m a bs"
  by (auto simp: store_bytes_def)

lemma load_le_in [simp]: "in_mem m a n \<Longrightarrow> load_le n m a = Inr (peek_le n m a)"
  by (simp add: load_le_def peek_le_def)

lemma load_le_eq_Inr: "load_le n m a = Inr w \<longleftrightarrow> in_mem m a n \<and> w = peek_le n m a"
  by (auto simp: load_le_def load_bytes_def peek_le_def)

lemma store_le_in [simp]:
  "in_mem m a n \<Longrightarrow> store_le n m a w = Inr (poke m a (le_bytes n w))"
  by (simp add: store_le_def)

lemma store_le_eq_Inr:
  "store_le n m a w = Inr m' \<longleftrightarrow> in_mem m a n \<and> m' = poke m a (le_bytes n w)"
  by (auto simp: store_le_def store_bytes_def)

lemmas mem_access_Inr = load_bytes_eq_Inr store_bytes_eq_Inr load_le_eq_Inr store_le_eq_Inr

lemma poke_Nil [simp]: "poke m a [] = m"
  by (simp add: poke_def)

lemma peek_poke_same:
  assumes "length bs \<le> 2 ^ 64"
  shows "peek (poke m a bs) a (length bs) = bs"
proof (rule nth_equalityI)
  fix i assume "i < length (peek (poke m a bs) a (length bs))"
  then have i: "i < length bs" by simp
  then have "unat (of_nat i :: u64) = i"
    using assms by (intro unat_of_nat_small) simp
  with i show "peek (poke m a bs) a (length bs) ! i = bs ! i"
    by (simp add: peek_def poke_def)
qed simp

lemma gm_byte_poke_other:
  assumes "unat a + length bs \<le> 2 ^ 64"
    and "unat x < unat a \<or> unat a + length bs \<le> unat x"
  shows "gm_byte (poke m a bs) x = gm_byte m x"
  using assms by (auto simp: poke_def unat_sub_if')

lemma peek_poke_disjoint:
  assumes "unat a + length bs \<le> 2 ^ 64" "unat b + n \<le> 2 ^ 64"
    and "disjoint_ranges a (length bs) b n"
  shows "peek (poke m a bs) b n = peek m b n"
proof -
  have "gm_byte (poke m a bs) (b + of_nat i) = gm_byte m (b + of_nat i)" if "i < n" for i
  proof (rule gm_byte_poke_other [OF assms(1)])
    have "unat (b + of_nat i) = unat b + i"
      using that assms(2) by (intro unat_add_of_nat) simp
    then show "unat (b + of_nat i) < unat a \<or> unat a + length bs \<le> unat (b + of_nat i)"
      using that assms(3) by (auto simp: disjoint_ranges_def)
  qed
  then show ?thesis by (simp add: peek_def)
qed

lemma peek_le_poke_same [simp]:
  "8 * n \<ge> LENGTH('a) \<Longrightarrow> n \<le> 8 \<Longrightarrow>
   peek_le n (poke m a (le_bytes n w)) a = (w :: 'a::len word)"
  using peek_poke_same[of "le_bytes n w" m a] by (simp add: peek_le_def)

lemma peek_le_poke_disjoint:
  "unat a + length bs \<le> 2 ^ 64 \<Longrightarrow> unat b + n \<le> 2 ^ 64 \<Longrightarrow>
   disjoint_ranges a (length bs) b n \<Longrightarrow> peek_le n (poke m a bs) b = peek_le n m b"
  by (simp add: peek_le_def peek_poke_disjoint)

lemma peek_append: "peek m a (n + k) = peek m a n @ peek m (a + of_nat n) k"
  by (rule nth_equalityI) (auto simp: peek_def nth_append add.assoc simp flip: of_nat_add)

lemma poke_append:
  assumes "length xs + length ys \<le> 2 ^ 64"
  shows "poke (poke m a xs) (a + of_nat (length xs)) ys = poke m a (xs @ ys)"
proof -
  have eq: "(if unat (x - (a + of_nat (length xs))) < length ys
         then ys ! unat (x - (a + of_nat (length xs)))
         else if unat (x - a) < length xs then xs ! unat (x - a) else gm_byte m x)
      = (if unat (x - a) < length (xs @ ys) then (xs @ ys) ! unat (x - a) else gm_byte m x)" for x
  proof (cases "length ys = 0")
    case False
    let ?d = "x - a"
    have n: "unat (of_nat (length xs) :: u64) = length xs"
      using assms False by (intro unat_of_nat_small) (cases ys; simp)
    have "unat (?d - of_nat (length xs)) =
        (if length xs \<le> unat ?d then unat ?d - length xs else unat ?d + 2 ^ 64 - length xs)"
      by (simp add: unat_sub_if' n)
    moreover have "x - (a + of_nat (length xs)) = ?d - of_nat (length xs)"
      by (simp add: algebra_simps)
    ultimately have d: "unat (x - (a + of_nat (length xs))) =
        (if length xs \<le> unat ?d then unat ?d - length xs else unat ?d + 2 ^ 64 - length xs)"
      by (simp only:)
    show ?thesis
      unfolding d using assms by (auto simp: nth_append)
  qed simp
  obtain s f where m: "m = \<lparr>gm_size = s, gm_byte = f\<rparr>" by (cases m) auto
  show ?thesis
    using eq unfolding m poke_def by (simp only: gmem.simps)
qed

section \<open>Fields of one object\<close>

text \<open>
  Two fields at offsets \<open>i\<close> and \<open>j\<close> of an object that lies inside the mapping: a store to
  one does not change the other unless they overlap.
\<close>

lemma unat_field:
  assumes "in_mem m a n" "i < n"
  shows "unat (a + of_nat i) = unat a + i"
  using assms in_mem_bound[OF assms(1)] by (intro unat_add_of_nat) simp

lemma peek_poke_field:
  assumes "in_mem m a n" "i + length bs \<le> n" "j + k \<le> n" "i + length bs \<le> j \<or> j + k \<le> i"
  shows "peek (poke m (a + of_nat i) bs) (a + of_nat j) k = peek m (a + of_nat j) k"
proof (cases "bs = [] \<or> k = 0")
  case True
  then show ?thesis by (auto simp: peek_def)
next
  case False
  then have "i < n" "j < n" using assms(2,3) by (cases bs; auto)+
  then show ?thesis
    using False assms in_mem_bound[OF assms(1)]
    by (intro peek_poke_disjoint) (auto simp: disjoint_ranges_def unat_field)
qed

lemma peek_le_poke_field:
  assumes "in_mem m a n" "i + length bs \<le> n" "j + k \<le> n" "i + length bs \<le> j \<or> j + k \<le> i"
  shows "peek_le k (poke m (a + of_nat i) bs) (a + of_nat j) = peek_le k m (a + of_nat j)"
  by (simp add: peek_le_def peek_poke_field[OF assms])

text \<open>Objects that do not overlap.\<close>

lemma peek_poke_object:
  assumes "in_mem m a n" "i + length bs \<le> n" "in_mem m b k" "j + l \<le> k" "disjoint_ranges a n b k"
  shows "peek (poke m (a + of_nat i) bs) (b + of_nat j) l = peek m (b + of_nat j) l"
proof (cases "bs = [] \<or> l = 0")
  case True
  then show ?thesis by (auto simp: peek_def)
next
  case False
  then have ij: "i < n" "j < k" using assms(2,4) by (cases bs; auto)+
  show ?thesis
    using False assms ij in_mem_bound[OF assms(1)] in_mem_bound[OF assms(3)]
    by (intro peek_poke_disjoint) (auto simp: disjoint_ranges_def unat_field)
qed

lemma peek_le_poke_object:
  assumes "in_mem m a n" "i + length bs \<le> n" "in_mem m b k" "j + l \<le> k" "disjoint_ranges a n b k"
  shows "peek_le l (poke m (a + of_nat i) bs) (b + of_nat j) = peek_le l m (b + of_nat j)"
  by (simp add: peek_le_def peek_poke_object[OF assms])

section \<open>Arrays of words\<close>

lemma peek_poke_sub:
  assumes "unat a + length bs \<le> 2 ^ 64" "j + k \<le> length bs" "j < length bs"
  shows "peek (poke m a bs) (a + of_nat j) k = take k (drop j bs)"
proof (rule nth_equalityI)
  fix i assume "i < length (peek (poke m a bs) (a + of_nat j) k)"
  then have i: "i < k" by simp
  then have n: "j + i < 18446744073709551616" using assms(1,2) by simp
  have "unat (a + of_nat j + of_nat i - a) = unat (of_nat (j + i) :: u64)" by (simp add: algebra_simps)
  also have "\<dots> = j + i" using n by (intro unat_of_nat_small) simp
  finally show "peek (poke m a bs) (a + of_nat j) k ! i = take k (drop j bs) ! i"
    using i assms(2) by (simp add: peek_def poke_def add.commute)
qed (use assms(2) in simp)

fun store_words :: "u64 \<Rightarrow> u64 list \<Rightarrow> gmem \<Rightarrow> gmem res" where
  "store_words a [] m = Inr m"
| "store_words a (w # ws) m = and_then (store64 m a w) (store_words (a + 8) ws)"

definition word_bytes :: "u64 list \<Rightarrow> u8 list" where
  "word_bytes ws = concat (map (le_bytes 8) ws)"

lemma word_bytes_simps [simp]:
  "word_bytes [] = []" "word_bytes (w # ws) = le_bytes 8 w @ word_bytes ws"
  by (simp_all add: word_bytes_def)

lemma length_word_bytes [simp]: "length (word_bytes ws) = 8 * length ws"
  by (induction ws) auto

lemma word_bytes_nth: "i < length ws \<Longrightarrow> take 8 (drop (8 * i) (word_bytes ws)) = le_bytes 8 (ws ! i)"
proof (induction ws arbitrary: i)
  case (Cons w ws)
  then show ?case by (cases i) simp_all
qed simp

lemma store_words_poke:
  "in_mem m a (8 * length ws) \<Longrightarrow> store_words a ws m = Inr (poke m a (word_bytes ws))"
proof (induction ws arbitrary: m a)
  case (Cons w ws)
  have head: "in_mem m a 8" using Cons.prems by (auto simp: in_mem_def)
  have tail: "in_mem m (a + of_nat 8) (8 * length ws)"
    using in_mem_sub[OF Cons.prems, of 8 "8 * length ws"] by simp
  have "8 + 8 * length ws \<le> 2 ^ 64"
    using in_mem_bound[OF Cons.prems] by simp
  then have "poke (poke m a (le_bytes 8 w)) (a + of_nat 8) (word_bytes ws) = poke m a (le_bytes 8 w @ word_bytes ws)"
    using poke_append[of "le_bytes 8 w" "word_bytes ws" m a] by simp
  with Cons.IH[of "poke m a (le_bytes 8 w)" "a + of_nat 8"] head tail show ?case
    by simp
qed simp

lemma peek_words:
  assumes "unat a + 8 * length ws \<le> 2 ^ 64" "i < length ws"
  shows "peek64 (poke m a (word_bytes ws)) (a + of_nat (8 * i)) = ws ! i"
  using peek_poke_sub[of a "word_bytes ws" "8 * i" 8 m] assms
  by (simp add: peek_le_def word_bytes_nth del: of_nat_mult)

end
