(* ===== verification/Interrupt.thy ===== *)
theory Interrupt
  imports Prelude
begin

text \<open>
  \<^verbatim>\<open>src/kvm/interrupt.h\<close>: an interrupt line backed by an eventfd that KVM turns into an
  injected edge (\<^verbatim>\<open>KVM_IRQFD\<close>). \<open>irq_signals\<close> counts the events written so far; KVM
  drains the eventfd on its own. \<open>irq_fd_ok\<close> says whether \<^verbatim>\<open>eventfd(2)\<close> gave a
  descriptor that can be written to. The mutex makes each operation atomic.

  The locale \<open>signal_line\<close> is what devices rely on; it is interpreted on the model of the class.
\<close>

section \<open>The class\<close>

record interrupt =
  irq_number :: u32
  irq_fd_ok :: bool
  irq_signals :: nat
  irq_state :: bool

definition interrupt_new :: "u32 \<Rightarrow> bool \<Rightarrow> interrupt" where
  "interrupt_new num fd_ok =
     \<lparr>irq_number = num, irq_fd_ok = fd_ok, irq_signals = 0, irq_state = False\<rparr>"

lemma interrupt_new_simps [simp]:
  "irq_fd_ok (interrupt_new n b) = b" "irq_state (interrupt_new n b) = False"
  "irq_signals (interrupt_new n b) = 0" "irq_number (interrupt_new n b) = n"
  by (simp_all add: interrupt_new_def)

definition set_level :: "bool \<Rightarrow> interrupt \<Rightarrow> interrupt res" where
  "set_level update i =
     (if irq_state i = update then Inr i
      else if update
           then (if irq_fd_ok i
                 then Inr (i\<lparr>irq_signals := irq_signals i + 1, irq_state := update\<rparr>)
                 else Inl (Exn (RuntimeError ''eventfd write failed'')))
           else Inr (i\<lparr>irq_state := update\<rparr>))"

definition level :: "interrupt \<Rightarrow> bool" where
  "level i = irq_state i"

definition num :: "interrupt \<Rightarrow> u32" where
  "num i = irq_number i"

section \<open>The contract of a signalling line\<close>

fun rising_edges :: "bool \<Rightarrow> bool list \<Rightarrow> nat" where
  "rising_edges now [] = 0"
| "rising_edges now (b # bs) = (if b \<and> \<not> now then 1 else 0) + rising_edges b bs"

text \<open>
  A line that is driven high and low. Driving it may fail, but only on a rising edge; when it
  succeeds the level is the one asked for, and exactly the rising edges are signalled.
\<close>

locale signal_line =
  fixes drive :: "bool \<Rightarrow> 'i \<Rightarrow> 'i res"
    and lvl :: "'i \<Rightarrow> bool"
    and signals :: "'i \<Rightarrow> nat"
    and usable :: "'i \<Rightarrow> bool"
  assumes drive_level: "drive b i = Inr i' \<Longrightarrow> lvl i' = b"
    and drive_signals:
      "drive b i = Inr i' \<Longrightarrow> signals i' = signals i + (if b \<and> \<not> lvl i then 1 else 0)"
    and drive_usable: "drive b i = Inr i' \<Longrightarrow> usable i' = usable i"
    and drive_ok: "usable i \<or> \<not> b \<or> lvl i \<Longrightarrow> \<exists>i'. drive b i = Inr i'"
begin

fun drive_all :: "bool list \<Rightarrow> 'i \<Rightarrow> 'i res" where
  "drive_all [] i = Inr i"
| "drive_all (b # bs) i = and_then (drive b i) (drive_all bs)"

lemma drive_all_signals:
  "drive_all bs i = Inr i' \<Longrightarrow> signals i' = signals i + rising_edges (lvl i) bs"
proof (induction bs arbitrary: i)
  case (Cons b bs)
  then obtain j where "drive b i = Inr j" "drive_all bs j = Inr i'" by auto
  with Cons.IH[of j] show ?case
    by (simp add: drive_signals[of b i j] drive_level[of b i j])
qed simp

lemma drive_all_ok: "usable i \<Longrightarrow> \<exists>i'. drive_all bs i = Inr i'"
proof (induction bs arbitrary: i)
  case (Cons b bs)
  then obtain j where j: "drive b i = Inr j" using drive_ok by blast
  with Cons have "usable j" by (simp add: drive_usable)
  with Cons.IH j show ?case by auto
qed simp

lemma pulse_signals:
  assumes "drive True i = Inr j" "drive False j = Inr k"
  shows "signals k = signals i + (if lvl i then 0 else 1) \<and> \<not> lvl k"
  using drive_level[OF assms(1)] drive_level[OF assms(2)]
    drive_signals[OF assms(1)] drive_signals[OF assms(2)] by simp

lemma drive_mono: "drive b i = Inr i' \<Longrightarrow> signals i \<le> signals i'"
  by (simp add: drive_signals)

end

interpretation irq_line: signal_line set_level irq_state irq_signals irq_fd_ok
  by unfold_locales (auto simp: set_level_def split: if_splits)

section \<open>Facts for the devices\<close>

lemma set_level_same [simp]: "set_level (irq_state i) i = Inr i"
  by (simp add: set_level_def)

lemma set_level_True:
  "irq_fd_ok i \<Longrightarrow> set_level True i =
     Inr (i\<lparr>irq_signals := irq_signals i + (if irq_state i then 0 else 1), irq_state := True\<rparr>)"
  by (simp add: set_level_def)

lemma set_level_False: "set_level False i = Inr (i\<lparr>irq_state := False\<rparr>)"
  by (simp add: set_level_def)

lemma set_level_number: "set_level b i = Inr i' \<Longrightarrow> irq_number i' = irq_number i"
  by (auto simp: set_level_def split: if_splits)

text \<open>What stays with a line for good: its number and whether its event descriptor is usable.\<close>

definition irq_ident :: "interrupt \<Rightarrow> u32 \<times> bool" where
  "irq_ident i = (irq_number i, irq_fd_ok i)"

lemma set_level_ident: "set_level b i = Inr i' \<Longrightarrow> irq_ident i' = irq_ident i"
  by (auto simp: set_level_def irq_ident_def split: if_splits)

text \<open>The two calls by which the edge-triggered devices pulse their line.\<close>

definition pulse :: "interrupt \<Rightarrow> interrupt res" where
  "pulse i = and_then (set_level True i) (set_level False)"

lemma pulse_ok:
  "irq_fd_ok i \<Longrightarrow> pulse i =
     Inr (i\<lparr>irq_signals := irq_signals i + (if irq_state i then 0 else 1), irq_state := False\<rparr>)"
  by (simp add: pulse_def set_level_True set_level_False)

section \<open>Properties\<close>

fun set_levels :: "bool list \<Rightarrow> interrupt \<Rightarrow> interrupt res" where
  "set_levels [] i = Inr i"
| "set_levels (b # bs) i = and_then (set_level b i) (set_levels bs)"

lemma set_levels_drive_all: "set_levels bs i = irq_line.drive_all bs i"
  by (induction bs arbitrary: i) (auto simp: and_then_def split: sum.splits)

text \<open>C22: Whatever sequence of levels the devices ask for, a line with a working eventfd accepts
  it, and the events written to the eventfd are exactly the rising edges of that sequence: no
  edge is lost, and repeating a level signals nothing.\<close>

theorem interrupt_signals_rising_edges:
  assumes "irq_fd_ok i"
  shows "\<exists>i'. set_levels bs i = Inr i' \<and>
              irq_signals i' = irq_signals i + rising_edges (irq_state i) bs"
  using irq_line.drive_all_ok[OF assms] irq_line.drive_all_signals
  by (fastforce simp: set_levels_drive_all)

theorem interrupt_signals_rising_edges_witness:
  "\<exists>i'. set_levels [True, True, False, True] (interrupt_new 4 True) = Inr i' \<and> irq_signals i' = 2"
  using interrupt_signals_rising_edges[of "interrupt_new 4 True" "[True, True, False, True]"]
  by (simp add: numeral_2_eq_2)

end
