(* ===== verification/Fifo.thy ===== *)
theory Fifo
  imports Prelude
begin

text \<open>
  The contract of the byte queues inside the devices (the output buffer of
  \<^verbatim>\<open>src/kvm/device/i8042.h\<close> and the receive buffer of \<^verbatim>\<open>src/kvm/device/uart.h\<close>): a bounded
  FIFO that drops bytes when it is full and reads as 0 when it is empty. The lemmas about whole
  bursts of bytes are proved once here, over the contract.
\<close>

fun drain :: "('q \<Rightarrow> u8 \<times> 'q) \<Rightarrow> nat \<Rightarrow> 'q \<Rightarrow> u8 list \<times> 'q" where
  "drain deq 0 q = ([], q)"
| "drain deq (Suc n) q =
     (let (x, q') = deq q; (xs, q'') = drain deq n q' in (x # xs, q''))"

locale byte_fifo =
  fixes enq :: "u8 \<Rightarrow> 'q \<Rightarrow> 'q"
    and deq :: "'q \<Rightarrow> u8 \<times> 'q"
    and contents :: "'q \<Rightarrow> u8 list"
    and room :: "'q \<Rightarrow> nat"
    and invar :: "'q \<Rightarrow> bool"
  assumes enq_contents: "invar q \<Longrightarrow> 0 < room q \<Longrightarrow> contents (enq x q) = contents q @ [x]"
    and enq_room: "invar q \<Longrightarrow> 0 < room q \<Longrightarrow> room (enq x q) = room q - 1"
    and enq_full: "invar q \<Longrightarrow> room q = 0 \<Longrightarrow> enq x q = q"
    and enq_invar: "invar q \<Longrightarrow> invar (enq x q)"
    and deq_contents: "invar q \<Longrightarrow> contents q = x # xs \<Longrightarrow>
                       fst (deq q) = x \<and> contents (snd (deq q)) = xs"
    and deq_empty: "invar q \<Longrightarrow> contents q = [] \<Longrightarrow> deq q = (0, q)"
    and deq_invar: "invar q \<Longrightarrow> invar (snd (deq q))"
begin

lemma fold_enq_invar: "invar q \<Longrightarrow> invar (fold enq xs q)"
  by (induction xs arbitrary: q) (auto simp: enq_invar)

lemma fold_enq_contents:
  "invar q \<Longrightarrow> contents (fold enq xs q) = contents q @ take (room q) xs"
proof (induction xs arbitrary: q)
  case Nil
  then show ?case by simp
next
  case (Cons x xs)
  show ?case
  proof (cases "room q")
    case 0
    then show ?thesis using Cons by (simp add: enq_full)
  next
    case (Suc n)
    then show ?thesis using Cons by (simp add: enq_contents enq_room enq_invar)
  qed
qed

lemma drain_contents:
  "invar q \<Longrightarrow> n \<le> length (contents q) \<Longrightarrow>
   fst (drain deq n q) = take n (contents q) \<and>
   contents (snd (drain deq n q)) = drop n (contents q)"
proof (induction n arbitrary: q)
  case 0
  then show ?case by simp
next
  case (Suc n)
  then obtain x xs where c: "contents q = x # xs" by (cases "contents q") auto
  have d: "fst (deq q) = x" "contents (snd (deq q)) = xs"
    using deq_contents[OF Suc.prems(1) c] by auto
  from Suc.IH[OF deq_invar[OF Suc.prems(1)]] Suc.prems c d show ?case
    by (auto simp: Let_def split: prod.splits)
qed

text \<open>What goes in comes out, in order, for every burst that fits.\<close>

lemma burst_roundtrip:
  assumes "invar q" "contents q = []" "length xs \<le> room q"
  shows "fst (drain deq (length xs) (fold enq xs q)) = xs"
  using assms drain_contents[OF fold_enq_invar[OF assms(1)], of "length xs" xs]
  by (simp add: fold_enq_contents)

end

end
