(* ===== verification/Io_Device.thy ===== *)
theory Io_Device
  imports Interrupt
begin

text \<open>
  \<^verbatim>\<open>src/kvm/device/io_device.h\<close>: the address window every port and MMIO device derives from,
  and the virtual \<^verbatim>\<open>read\<close>/\<^verbatim>\<open>write\<close> interface as the locale \<open>port_device\<close>. The state of
  a device is the device object together with its interrupt line (and, for the serial port, its
  terminal): what the virtual functions can change.
\<close>

section \<open>The address window\<close>

record io_window =
  io_addr :: u64
  io_width :: u64

definition in_range :: "io_window \<Rightarrow> u64 \<Rightarrow> bool" where
  "in_range w port \<longleftrightarrow> port \<ge> io_addr w \<and> port < io_addr w + io_width w"

definition offset :: "io_window \<Rightarrow> u64 \<Rightarrow> u64" where
  "offset w port = port - io_addr w"

lemma in_range_nat:
  assumes "unat (io_addr w) + unat (io_width w) < 18446744073709551616"
  shows "in_range w port \<longleftrightarrow>
         unat (io_addr w) \<le> unat port \<and> unat port < unat (io_addr w) + unat (io_width w)"
proof -
  have "unat (io_addr w + io_width w) = unat (io_addr w) + unat (io_width w)"
    using assms by (intro unat_add_no_wrap) simp
  then show ?thesis by (simp add: in_range_def word_le_nat_alt word_less_nat_alt)
qed

text \<open>
  An offset handed to a device lies inside its window, also where \<open>addr + width\<close> wraps around
  (then nothing is in range that would break it).
\<close>

lemma offset_less_width:
  assumes "in_range w port"
  shows "offset w port < io_width w"
proof -
  from assms have le: "unat (io_addr w) \<le> unat port"
    and less: "unat port < unat (io_addr w + io_width w)"
    by (auto simp: in_range_def word_le_nat_alt word_less_nat_alt)
  have "unat (io_addr w + io_width w) \<le> unat (io_addr w) + unat (io_width w)"
    by (simp add: unat_word_ariths)
  with le less have "unat port - unat (io_addr w) < unat (io_width w)" by linarith
  then show ?thesis
    using le by (simp add: offset_def word_less_nat_alt unat_sub_if')
qed

lemma offset_roundtrip: "io_addr w + offset w port = port"
  by (simp add: offset_def)

definition windows_apart :: "io_window \<Rightarrow> io_window \<Rightarrow> bool" where
  "windows_apart v w \<longleftrightarrow>
     unat (io_addr v) + unat (io_width v) \<le> unat (io_addr w) \<or>
     unat (io_addr w) + unat (io_width w) \<le> unat (io_addr v)"

lemma windows_apart_in_range:
  assumes "windows_apart v w" "in_range v port"
    and "unat (io_addr v) + unat (io_width v) < 18446744073709551616"
    and "unat (io_addr w) + unat (io_width w) < 18446744073709551616"
  shows "\<not> in_range w port"
  using assms by (auto simp: in_range_nat windows_apart_def)

section \<open>The virtual interface\<close>

datatype access = Read u64 u32 | Write "u8 list" u64 u32

text \<open>A guest program, as the device sees it: a list of accesses; the result collects the reads.\<close>

fun run_accesses ::
  "(u64 \<Rightarrow> u32 \<Rightarrow> 'd \<Rightarrow> (u8 list \<times> 'd) res) \<Rightarrow> (u8 list \<Rightarrow> u64 \<Rightarrow> u32 \<Rightarrow> 'd \<Rightarrow> 'd res) \<Rightarrow>
   access list \<Rightarrow> 'd \<Rightarrow> (u8 list list \<times> 'd) res" where
  "run_accesses rd wr [] d = Inr ([], d)"
| "run_accesses rd wr (Read off sz # as) d =
     and_then (rd off sz d) (\<lambda>(buf, d').
     and_then (run_accesses rd wr as d') (\<lambda>(bufs, d'').
     Inr (buf # bufs, d'')))"
| "run_accesses rd wr (Write bs off sz # as) d =
     and_then (wr bs off sz d) (run_accesses rd wr as)"

fun read_sizes :: "access list \<Rightarrow> nat list" where
  "read_sizes [] = []"
| "read_sizes (Read off sz # as) = unat sz # read_sizes as"
| "read_sizes (Write bs off sz # as) = read_sizes as"

text \<open>
  A read returns exactly the number of bytes asked for (\<^verbatim>\<open>handle_io_device\<close> and the MMIO exit copy
  \<open>buf.size()\<close> bytes back into the exit record), and both accesses keep the device's invariant.
\<close>

locale port_device =
  fixes rd :: "u64 \<Rightarrow> u32 \<Rightarrow> 'd \<Rightarrow> (u8 list \<times> 'd) res"
    and wr :: "u8 list \<Rightarrow> u64 \<Rightarrow> u32 \<Rightarrow> 'd \<Rightarrow> 'd res"
    and invar :: "'d \<Rightarrow> bool"
  assumes rd_length: "rd off sz d = Inr (buf, d') \<Longrightarrow> length buf = unat sz"
    and rd_invar: "invar d \<Longrightarrow> rd off sz d = Inr (buf, d') \<Longrightarrow> invar d'"
    and wr_invar: "invar d \<Longrightarrow> wr bs off sz d = Inr d' \<Longrightarrow> invar d'"
begin

lemma run_invar: "invar d \<Longrightarrow> run_accesses rd wr as d = Inr (bufs, d') \<Longrightarrow> invar d'"
proof (induction as arbitrary: d bufs)
  case (Cons a as)
  then show ?case by (cases a) (auto dest: rd_invar wr_invar)
qed simp

lemma run_lengths: "run_accesses rd wr as d = Inr (bufs, d') \<Longrightarrow> map length bufs = read_sizes as"
proof (induction as arbitrary: d bufs)
  case (Cons a as)
  then show ?case by (cases a) (auto dest: rd_length)
qed simp

end

text \<open>
  The accesses KVM reports are at least one byte long. A device that serves every such access from
  every state of its invariant serves every guest program.
\<close>

fun access_ok :: "access \<Rightarrow> bool" where
  "access_ok (Read off sz) \<longleftrightarrow> sz \<noteq> 0"
| "access_ok (Write bs off sz) \<longleftrightarrow> bs \<noteq> []"

locale total_port_device = port_device +
  assumes rd_total: "invar d \<Longrightarrow> sz \<noteq> 0 \<Longrightarrow> \<exists>buf d'. rd off sz d = Inr (buf, d')"
    and wr_total: "invar d \<Longrightarrow> bs \<noteq> [] \<Longrightarrow> \<exists>d'. wr bs off sz d = Inr d'"
begin

lemma run_total:
  "invar d \<Longrightarrow> list_all access_ok as \<Longrightarrow> 
   \<exists>bufs d'. run_accesses rd wr as d = Inr (bufs, d') \<and> invar d' \<and> map length bufs = read_sizes as"
proof (induction as arbitrary: d)
  case (Cons a as)
  show ?case
  proof (cases a)
    case (Read off sz)
    with Cons.prems obtain buf d' where r: "rd off sz d = Inr (buf, d')"
      using rd_total by fastforce
    then have "invar d'" using Cons.prems rd_invar by blast
    with Cons.IH Cons.prems obtain bufs d'' where "run_accesses rd wr as d' = Inr (bufs, d'') \<and> invar d'' \<and>
        map length bufs = read_sizes as"
      by fastforce
    with r Read show ?thesis by (auto dest: rd_length)
  next
    case (Write bs off sz)
    with Cons.prems obtain d' where w: "wr bs off sz d = Inr d'"
      using wr_total by fastforce
    then have "invar d'" using Cons.prems wr_invar by blast
    with Cons.IH Cons.prems obtain bufs d'' where "run_accesses rd wr as d' = Inr (bufs, d'') \<and> invar d'' \<and>
        map length bufs = read_sizes as"
      by fastforce
    with w Write show ?thesis by auto
  qed
qed simp

end

end
