(* ===== verification/I8042.thy ===== *)
theory I8042
  imports Io_Device Fifo
begin

text \<open>
  \<^verbatim>\<open>src/kvm/device/i8042.h\<close>: the keyboard controller at port 0x60. The record holds the
  private fields of the class; \<open>kbd_buffer\<close>, \<open>kbd_head\<close>, \<open>kbd_tail\<close> are the ring of
  16 bytes with free-running 32-bit indices. The source clears status bits with C's logical
  negation (\<^verbatim>\<open>status &= !BIT\<close>), which the model keeps as \<open>lognot\<close>: it clears the whole
  register.
\<close>

section \<open>Constants and state\<close>

definition DATA_REG :: u64 where "DATA_REG = 0x0"
definition COMMAND_REG :: u64 where "COMMAND_REG = 0x04"

definition CMD_READ_CTR :: u8 where "CMD_READ_CTR = 0x20"
definition CMD_WRITE_CTR :: u8 where "CMD_WRITE_CTR = 0x60"
definition CMD_READ_OUTP :: u8 where "CMD_READ_OUTP = 0xD0"
definition CMD_WRITE_OUTP :: u8 where "CMD_WRITE_OUTP = 0xD1"
definition CMD_RESET_CPU :: u8 where "CMD_RESET_CPU = 0xFE"
definition CMD_RESET_KBD :: u8 where "CMD_RESET_KBD = 0xFF"

definition SB_OUT_DATA_AVAIL :: u8 where "SB_OUT_DATA_AVAIL = 0x01"
definition SB_I8042_CMD_DATA :: u8 where "SB_I8042_CMD_DATA = 0x08"
definition SB_KBD_ENABLED :: u8 where "SB_KBD_ENABLED = 0x10"

definition CB_KBD_INT :: u8 where "CB_KBD_INT = 0x01"
definition CB_POST_OK :: u8 where "CB_POST_OK = 0x04"

definition BUF_SIZE :: u32 where "BUF_SIZE = 16"

lemmas i8042_consts =
  DATA_REG_def COMMAND_REG_def CMD_READ_CTR_def CMD_WRITE_CTR_def CMD_READ_OUTP_def
  CMD_WRITE_OUTP_def CMD_RESET_CPU_def CMD_RESET_KBD_def SB_OUT_DATA_AVAIL_def
  SB_I8042_CMD_DATA_def SB_KBD_ENABLED_def CB_KBD_INT_def CB_POST_OK_def BUF_SIZE_def

record i8042 =
  kbd_command :: u8
  kbd_status :: u8
  kbd_control :: u8
  kbd_outp :: u8
  kbd_buffer :: "u8 list"
  kbd_head :: u32
  kbd_tail :: u32

text \<open>The array is not initialised by the constructor: its 16 bytes are a parameter.\<close>

definition i8042_new :: "u8 list \<Rightarrow> i8042" where
  "i8042_new junk =
     \<lparr>kbd_command = 0, kbd_status = SB_KBD_ENABLED, kbd_control = CB_POST_OK OR CB_KBD_INT,
      kbd_outp = 0, kbd_buffer = junk, kbd_head = 0, kbd_tail = 0\<rparr>"

section \<open>The output buffer\<close>

definition buffer_len :: "i8042 \<Rightarrow> u32" where
  "buffer_len d = kbd_tail d - kbd_head d"

definition pop :: "i8042 \<Rightarrow> u8 \<times> i8042" where
  "pop d =
     (if buffer_len d = 0 then (0, d)
      else let res = kbd_buffer d ! unat (kbd_head d mod BUF_SIZE);
               d1 = d\<lparr>kbd_head := kbd_head d + 1\<rparr>;
               d2 = (if buffer_len d1 = 0
                     then d1\<lparr>kbd_status := kbd_status d1 AND lognot SB_OUT_DATA_AVAIL\<rparr> else d1)
           in (res, d2))"

definition push :: "u8 \<Rightarrow> i8042 \<Rightarrow> i8042" where
  "push val d =
     (if buffer_len d = BUF_SIZE then d
      else d\<lparr>kbd_status := kbd_status d OR SB_OUT_DATA_AVAIL,
             kbd_buffer := (kbd_buffer d)[unat (kbd_tail d mod BUF_SIZE) := val],
             kbd_tail := kbd_tail d + 1\<rparr>)"

definition flush :: "i8042 \<Rightarrow> i8042" where
  "flush d = d\<lparr>kbd_head := 0, kbd_tail := 0,
               kbd_status := kbd_status d AND lognot SB_OUT_DATA_AVAIL\<rparr>"

section \<open>Port accesses\<close>

definition trigger_irq :: "i8042 \<Rightarrow> interrupt \<Rightarrow> interrupt res" where
  "trigger_irq d irq =
     (if kbd_control d AND CB_KBD_INT \<noteq> 0
      then and_then (set_level True irq) (set_level False)
      else Inr irq)"

definition i8042_read :: "u64 \<Rightarrow> u32 \<Rightarrow> i8042 \<times> interrupt \<Rightarrow> (u8 list \<times> i8042 \<times> interrupt) res" where
  "i8042_read off sz = (\<lambda>(d, irq).
     let buf = zero_buf sz in
     if off = COMMAND_REG then
       and_then (arr_set buf 0 (kbd_status d)) (\<lambda>buf. Inr (buf, d, irq))
     else if off = DATA_REG then
       (let (v, d') = pop d in
        and_then (arr_set buf 0 v) (\<lambda>buf.
        if kbd_status d' AND SB_OUT_DATA_AVAIL \<noteq> 0
        then and_then (trigger_irq d' irq) (\<lambda>irq'. Inr (buf, d', irq'))
        else Inr (buf, d', irq)))
     else Inr (buf, d, irq))"

definition write_command :: "u8 \<Rightarrow> i8042 \<Rightarrow> i8042" where
  "write_command cmd d =
     (if cmd = CMD_READ_CTR then (let d = flush d in push (kbd_control d) d)
      else if cmd = CMD_WRITE_CTR then
        (let d = flush d in
         d\<lparr>kbd_status := kbd_status d OR SB_I8042_CMD_DATA, kbd_command := cmd\<rparr>)
      else if cmd = CMD_READ_OUTP then (let d = flush d in push (kbd_outp d) d)
      else if cmd = CMD_WRITE_OUTP then
        d\<lparr>kbd_status := kbd_status d OR SB_I8042_CMD_DATA, kbd_command := cmd\<rparr>
      else if cmd = CMD_RESET_CPU then d
      else if cmd = CMD_RESET_KBD then d\<lparr>kbd_status := 0x0\<rparr>
      else d)"

definition i8042_write :: "u8 list \<Rightarrow> u64 \<Rightarrow> u32 \<Rightarrow> i8042 \<times> interrupt \<Rightarrow> (i8042 \<times> interrupt) res" where
  "i8042_write data off sz = (\<lambda>(d, irq).
     if off = COMMAND_REG then
       and_then (arr_get data 0) (\<lambda>cmd. Inr (write_command cmd d, irq))
     else if off = DATA_REG then
       (if kbd_status d AND SB_I8042_CMD_DATA \<noteq> 0 then
          and_then
            (if kbd_command d = CMD_WRITE_CTR then
               and_then (arr_get data 0) (\<lambda>v. Inr (d\<lparr>kbd_control := v\<rparr>))
             else if kbd_command d = CMD_WRITE_OUTP then
               and_then (arr_get data 0) (\<lambda>v. Inr (d\<lparr>kbd_outp := v\<rparr>))
             else Inr d)
            (\<lambda>d. Inr (d\<lparr>kbd_status := kbd_status d AND lognot SB_I8042_CMD_DATA\<rparr>, irq))
        else
          (let d = push 0xFA (flush d) in
           and_then (trigger_irq d irq) (\<lambda>irq'. Inr (d, irq'))))
     else Inr (d, irq))"

section \<open>The buffer is a bounded FIFO\<close>

definition kbd_contents :: "i8042 \<Rightarrow> u8 list" where
  "kbd_contents d =
     map (\<lambda>i. kbd_buffer d ! unat ((kbd_head d + of_nat i) mod BUF_SIZE))
         [0..<unat (buffer_len d)]"

definition kbd_room :: "i8042 \<Rightarrow> nat" where
  "kbd_room d = 16 - unat (buffer_len d)"

definition kbd_ring_ok :: "i8042 \<Rightarrow> bool" where
  "kbd_ring_ok d \<longleftrightarrow> length (kbd_buffer d) = 16 \<and> unat (buffer_len d) \<le> 16"

text \<open>Slots: the 32-bit indices may wrap around, since 16 divides their range.\<close>

lemma kbd_slot: "unat ((h + of_nat i) mod BUF_SIZE) = (unat h + i) mod 16"
proof -
  have "unat ((h + of_nat i) mod BUF_SIZE) = unat (h + of_nat i) mod 16"
    by (simp add: BUF_SIZE_def unat_mod)
  also have "unat (h + of_nat i) = (unat h + i) mod 2 ^ 32"
    by (simp add: unat_word_ariths unat_of_nat mod_simps take_bit_eq_mod)
  also have "(unat h + i) mod 2 ^ 32 mod 16 = (unat h + i) mod (16 :: nat)"
    by (rule mod_mod_cancel) simp
  finally show ?thesis .
qed

lemma kbd_slot_less: "unat (w mod BUF_SIZE) < 16"
  by (simp add: BUF_SIZE_def unat_mod)

lemma kbd_tail_slot: "unat (kbd_tail d mod BUF_SIZE) = (unat (kbd_head d) + unat (buffer_len d)) mod 16"
  using kbd_slot[of "kbd_head d" "unat (buffer_len d)"] by (simp add: buffer_len_def)

lemma unat_Suc_small: "unat (w :: u32) < 16 \<Longrightarrow> unat (w + 1) = Suc (unat w)"
  using unat_add_of_nat[of w 1] by simp

lemma push_ok:
  assumes "kbd_ring_ok d" "0 < kbd_room d"
  shows "kbd_contents (push x d) = kbd_contents d @ [x]"
    and "buffer_len (push x d) = buffer_len d + 1"
    and "kbd_ring_ok (push x d)"
proof -
  let ?n = "unat (buffer_len d)"
  have n: "?n < 16" using assms(2) by (simp add: kbd_room_def)
  then have nf: "buffer_len d \<noteq> BUF_SIZE" by (auto simp: BUF_SIZE_def)
  show len: "buffer_len (push x d) = buffer_len d + 1"
    using nf by (simp add: push_def buffer_len_def)
  have slot: "(unat (kbd_head d) + i) mod 16 \<noteq> (unat (kbd_head d) + ?n) mod 16" if "i < ?n" for i
    using that n by (intro mod_slots_distinct) auto
  have "kbd_buffer (push x d) ! unat ((kbd_head d + of_nat i) mod BUF_SIZE)
        = kbd_buffer d ! unat ((kbd_head d + of_nat i) mod BUF_SIZE)" if "i < ?n" for i
    using nf slot[OF that] unfolding kbd_slot
    by (simp add: push_def kbd_tail_slot nth_list_update_neq[OF slot[OF that, symmetric]])
  moreover have "kbd_buffer (push x d) ! unat ((kbd_head d + of_nat ?n) mod BUF_SIZE) = x"
    using nf assms(1) unfolding kbd_slot by (simp add: push_def kbd_tail_slot kbd_ring_ok_def)
  moreover have "unat (buffer_len (push x d)) = Suc ?n"
    using len n unat_Suc_small by simp
  moreover have "kbd_head (push x d) = kbd_head d"
    by (simp add: push_def)
  ultimately show "kbd_contents (push x d) = kbd_contents d @ [x]"
    unfolding kbd_contents_def by simp
  show "kbd_ring_ok (push x d)"
    using assms(1) len n unat_Suc_small by (simp add: kbd_ring_ok_def push_def)
qed

lemma pop_ok:
  assumes "kbd_ring_ok d" "buffer_len d \<noteq> 0"
  shows "kbd_contents d = fst (pop d) # kbd_contents (snd (pop d))"
    and "unat (buffer_len (snd (pop d))) = unat (buffer_len d) - 1"
    and "kbd_ring_ok (snd (pop d))"
proof -
  have len: "buffer_len (snd (pop d)) = buffer_len d - 1"
    using assms(2) by (simp add: pop_def buffer_len_def Let_def)
  then show u: "unat (buffer_len (snd (pop d))) = unat (buffer_len d) - 1"
    using assms(2) by (simp add: unat_minus_one)
  have pos: "0 < unat (buffer_len d)" using assms(2) by (simp add: unat_gt_0)
  have hd: "kbd_head (snd (pop d)) = kbd_head d + 1"
    and buf: "kbd_buffer (snd (pop d)) = kbd_buffer d"
    and v: "fst (pop d) = kbd_buffer d ! unat (kbd_head d mod BUF_SIZE)"
    using assms(2) by (auto simp: pop_def Let_def)
  have "[0..<unat (buffer_len d)] = 0 # map Suc [0..<unat (buffer_len d) - 1]"
    using pos by (metis Suc_pred' map_Suc_upt upt_conv_Cons)
  then show "kbd_contents d = fst (pop d) # kbd_contents (snd (pop d))"
    by (simp add: kbd_contents_def u hd buf v algebra_simps comp_def)
  show "kbd_ring_ok (snd (pop d))"
    using assms(1) u buf by (auto simp: kbd_ring_ok_def)
qed

lemma kbd_contents_empty: "kbd_contents d = [] \<longleftrightarrow> buffer_len d = 0"
  by (simp add: kbd_contents_def)

lemma push_full:
  assumes "kbd_ring_ok d" "kbd_room d = 0"
  shows "push x d = d"
proof -
  from assms have "unat (buffer_len d) = unat BUF_SIZE"
    by (simp add: kbd_ring_ok_def kbd_room_def BUF_SIZE_def)
  then have "buffer_len d = BUF_SIZE" by (simp add: word_unat_eq_iff)
  then show ?thesis by (simp add: push_def)
qed

lemma pop_empty: "buffer_len d = 0 \<Longrightarrow> pop d = (0, d)"
  by (simp add: pop_def)

interpretation kbd_fifo: byte_fifo push pop kbd_contents kbd_room kbd_ring_ok
proof (unfold_locales, goal_cases)
  case (1 q x) then show ?case by (rule push_ok)
next
  case (2 q x)
  then show ?case by (simp add: kbd_room_def push_ok unat_Suc_small)
next
  case (3 q x) then show ?case by (rule push_full)
next
  case (4 q x)
  then show ?case by (cases "0 < kbd_room q") (auto simp: push_ok push_full)
next
  case (5 q x xs)
  then have "buffer_len q \<noteq> 0" by (auto simp: kbd_contents_def)
  with 5 show ?case by (simp add: pop_ok(1))
next
  case (6 q) then show ?case by (simp add: kbd_contents_empty pop_empty)
next
  case (7 q)
  then show ?case by (cases "buffer_len q = 0") (auto simp: pop_ok pop_empty)
qed

section \<open>What the ports keep\<close>

text \<open>
  Every handler flushes before it pushes, so seen from the ports the buffer never holds more than
  one byte, and the data-available bit is only set while that byte is there.
\<close>

definition i8042_inv :: "i8042 \<Rightarrow> bool" where
  "i8042_inv d \<longleftrightarrow>
     length (kbd_buffer d) = 16 \<and>
     (kbd_head d, kbd_tail d) \<in> {(0, 0), (0, 1), (1, 1)} \<and>
     (kbd_status d AND SB_OUT_DATA_AVAIL \<noteq> 0 \<longrightarrow> buffer_len d = 1)"

abbreviation i8042_state_inv :: "i8042 \<times> interrupt \<Rightarrow> bool" where
  "i8042_state_inv s \<equiv> i8042_inv (fst s) \<and> irq_fd_ok (snd s)"

lemma flush_status: "kbd_status (flush d) = 0"
  by (simp add: flush_def SB_OUT_DATA_AVAIL_def)

lemma flush_inv: "length (kbd_buffer d) = 16 \<Longrightarrow> i8042_inv (flush d)"
  by (simp add: i8042_inv_def flush_def SB_OUT_DATA_AVAIL_def)

lemma push_flush:
  "push x (flush d) =
     d\<lparr>kbd_status := 1, kbd_buffer := (kbd_buffer d)[0 := x], kbd_head := 0, kbd_tail := 1\<rparr>"
  by (simp add: push_def flush_def buffer_len_def BUF_SIZE_def SB_OUT_DATA_AVAIL_def)

lemma push_flush_inv: "length (kbd_buffer d) = 16 \<Longrightarrow> i8042_inv (push x (flush d))"
  by (simp add: push_flush i8042_inv_def buffer_len_def)

lemma pop_inv: "i8042_inv d \<Longrightarrow> i8042_inv (snd (pop d))"
  by (auto simp: i8042_inv_def pop_def buffer_len_def Let_def SB_OUT_DATA_AVAIL_def)

lemma i8042_inv_buffer: "i8042_inv d \<Longrightarrow> length (kbd_buffer d) = 16"
  by (simp add: i8042_inv_def)

lemma expect_data_inv:
  "i8042_inv d \<Longrightarrow>
   i8042_inv (d\<lparr>kbd_status := kbd_status d OR SB_I8042_CMD_DATA, kbd_command := c\<rparr>)"
  by (simp add: i8042_inv_def buffer_len_def SB_I8042_CMD_DATA_def SB_OUT_DATA_AVAIL_def
      flag_bits bit_simps)

lemma write_command_inv: "i8042_inv d \<Longrightarrow> i8042_inv (write_command cmd d)"
  using expect_data_inv[of "flush d" CMD_WRITE_CTR]
  by (auto simp: write_command_def Let_def push_flush_inv flush_inv i8042_inv_buffer expect_data_inv)
     (auto simp: i8042_inv_def buffer_len_def)

lemma i8042_inv_simps [simp]:
  "i8042_inv (d\<lparr>kbd_control := v\<rparr>) = i8042_inv d"
  "i8042_inv (d\<lparr>kbd_outp := v\<rparr>) = i8042_inv d"
  by (simp_all add: i8042_inv_def buffer_len_def)

lemma clear_status_inv:
  "i8042_inv d \<Longrightarrow> i8042_inv (d\<lparr>kbd_status := s AND lognot SB_I8042_CMD_DATA\<rparr>)"
  by (auto simp: i8042_inv_def buffer_len_def SB_I8042_CMD_DATA_def)

lemma trigger_irq_ok:
  "irq_fd_ok i \<Longrightarrow> \<exists>i'. trigger_irq d i = Inr i' \<and> irq_fd_ok i'"
  by (auto simp: trigger_irq_def set_level_True set_level_False)

lemma trigger_irq_fd: "trigger_irq d i = Inr i' \<Longrightarrow> irq_fd_ok i' = irq_fd_ok i"
  by (auto simp: trigger_irq_def irq_line.drive_usable split: if_splits)

lemma i8042_read_cases:
  assumes "i8042_inv d" "irq_fd_ok i" "sz \<noteq> 0"
  shows "\<exists>buf d' i'. i8042_read off sz (d, i) = Inr (buf, d', i') \<and> length buf = unat sz \<and>
           i8042_inv d' \<and> irq_fd_ok i'"
  using assms trigger_irq_ok[of i "snd (pop d)"] pop_inv[of d]
  by (auto simp: i8042_read_def Let_def split: prod.splits)

lemma i8042_write_cases:
  assumes "i8042_inv d" "irq_fd_ok i" "bs \<noteq> []"
  shows "\<exists>d' i'. i8042_write bs off sz (d, i) = Inr (d', i') \<and> i8042_inv d' \<and> irq_fd_ok i'"
  using assms trigger_irq_ok[of i "push 0xFA (flush d)"]
  by (auto simp: i8042_write_def Let_def write_command_inv clear_status_inv
      push_flush_inv[of d] i8042_inv_def[of d])

lemma i8042_read_length:
  "i8042_read off sz s = Inr (buf, s') \<Longrightarrow> length buf = unat sz"
  by (auto simp: i8042_read_def Let_def arr_set_eq_Inr split: prod.splits if_splits)

interpretation kbd_port: total_port_device i8042_read i8042_write i8042_state_inv
proof (unfold_locales, goal_cases)
  case (1 off sz d buf d') then show ?case by (rule i8042_read_length)
next
  case (2 d off sz buf d')
  then have "sz \<noteq> 0 \<or> d' = d"
    by (cases d) (auto simp: i8042_read_def Let_def zero_buf_def arr_set_def split: prod.splits if_splits)
  with 2 i8042_read_cases[of "fst d" "snd d" sz off] show ?case by (cases d) auto
next
  case (3 d bs off sz d')
  then have "bs \<noteq> [] \<or> i8042_state_inv d'"
    using i8042_write_cases[of "fst d" "snd d" "[0]" off sz]
    by (cases d) (auto simp: i8042_write_def Let_def clear_status_inv arr_get_def split: if_splits)
  with 3 i8042_write_cases[of "fst d" "snd d" bs off sz] show ?case by (cases d) auto
next
  case (4 d sz off)
  with i8042_read_cases[of "fst d" "snd d" sz off] show ?case by (cases d) fastforce
next
  case (5 d bs off sz)
  with i8042_write_cases[of "fst d" "snd d" bs off sz] show ?case by (cases d) fastforce
qed

text \<open>The lock bit: no access sets bit 4 of the status register again.\<close>

definition kbd_locked :: "i8042 \<Rightarrow> bool" where
  "kbd_locked d \<longleftrightarrow> kbd_status d AND SB_KBD_ENABLED = 0"

lemma kbd_locked_bit: "kbd_locked d \<longleftrightarrow> \<not> bit (kbd_status d) 4"
  by (simp add: kbd_locked_def SB_KBD_ENABLED_def flag_bits)

lemma kbd_locked_pop: "kbd_locked d \<Longrightarrow> kbd_locked (snd (pop d))"
  by (simp add: kbd_locked_bit pop_def Let_def bit_simps)

lemma kbd_locked_flush: "kbd_locked (flush d)" "kbd_locked (push x (flush d))"
  by (simp_all add: kbd_locked_bit flush_status push_flush bit_1_iff)

lemma kbd_locked_status:
  "kbd_locked d \<Longrightarrow> kbd_locked (d\<lparr>kbd_status := kbd_status d OR SB_I8042_CMD_DATA, kbd_command := c\<rparr>)"
  "kbd_locked (d\<lparr>kbd_status := 0\<rparr>)"
  by (simp_all add: kbd_locked_bit SB_I8042_CMD_DATA_def bit_simps)

lemma kbd_locked_write_command: "kbd_locked d \<Longrightarrow> kbd_locked (write_command cmd d)"
  by (simp add: write_command_def Let_def kbd_locked_flush kbd_locked_status)

lemma kbd_locked_clear:
  "kbd_locked d \<Longrightarrow> kbd_locked (e\<lparr>kbd_status := kbd_status d AND m\<rparr>)"
  by (simp add: kbd_locked_bit bit_simps)

interpretation kbd_lock: port_device i8042_read i8042_write "\<lambda>s. kbd_locked (fst s)"
proof (unfold_locales, goal_cases)
  case (1 off sz d buf d') then show ?case by (rule i8042_read_length)
next
  case (2 d off sz buf d')
  then show ?case
    using kbd_locked_pop[of "fst d"]
    by (cases d) (auto simp: i8042_read_def Let_def split: prod.splits if_splits)
next
  case (3 d bs off sz d')
  then show ?case
    by (cases d) (auto simp: i8042_write_def Let_def kbd_locked_write_command kbd_locked_flush
        kbd_locked_clear split: if_splits)
qed

section \<open>Properties\<close>

text \<open>C20: The output buffer is a bounded FIFO of 16 bytes for every position of its free-running
  32-bit indices, wrap-around included: pushing a burst appends the bytes that fit and drops the
  rest, and popping returns them in the order they went in.\<close>

theorem kbd_buffer_is_fifo:
  assumes "kbd_ring_ok d" and "n \<le> length (kbd_contents d @ take (kbd_room d) xs)"
  shows "kbd_contents (fold push xs d) = kbd_contents d @ take (kbd_room d) xs \<and>
         fst (drain pop n (fold push xs d)) = take n (kbd_contents d @ take (kbd_room d) xs)"
  using kbd_fifo.fold_enq_contents[OF assms(1)]
    kbd_fifo.drain_contents[OF kbd_fifo.fold_enq_invar[OF assms(1)]] assms(2) by metis

theorem kbd_buffer_is_fifo_witness:
  "fst (drain pop 3 (fold push [7, 8, 9]
     ((i8042_new (replicate 16 0))\<lparr>kbd_head := 0xFFFFFFFE, kbd_tail := 0xFFFFFFFE\<rparr>))) = [7, 8, 9]"
proof -
  let ?d = "(i8042_new (replicate 16 0))\<lparr>kbd_head := 0xFFFFFFFE, kbd_tail := 0xFFFFFFFE\<rparr>"
  have "kbd_ring_ok ?d" "kbd_contents ?d = []" "kbd_room ?d = 16"
    by (simp_all add: kbd_ring_ok_def kbd_contents_def kbd_room_def buffer_len_def i8042_new_def)
  then show ?thesis using kbd_buffer_is_fifo[of ?d 3 "[7, 8, 9]"] by simp
qed

text \<open>C21: Whatever the guest writes to and reads from the ports of a freshly built controller, the
  device serves every access: it never indexes outside its buffer or the reply, each reply has the
  requested length, and the data-available bit is only up while exactly one byte is buffered.\<close>

theorem i8042_serves_every_guest:
  assumes "length junk = 16" "irq_fd_ok i" "list_all access_ok as"
  shows "\<exists>bufs d i'. run_accesses i8042_read i8042_write as (i8042_new junk, i) = Inr (bufs, d, i') \<and>
           map length bufs = read_sizes as \<and>
           (kbd_status d AND SB_OUT_DATA_AVAIL \<noteq> 0 \<longrightarrow> length (kbd_contents d) = 1)"
proof -
  have "i8042_state_inv (i8042_new junk, i)"
    using assms by (simp add: i8042_inv_def i8042_new_def SB_KBD_ENABLED_def SB_OUT_DATA_AVAIL_def)
  from kbd_port.run_total[OF this assms(3)] show ?thesis
    by (fastforce simp: i8042_inv_def kbd_contents_def)
qed

theorem i8042_serves_every_guest_witness:
  "\<exists>bufs d i'. run_accesses i8042_read i8042_write [Write [0x20] 4 1, Read 0 1, Read 4 2]
      (i8042_new (replicate 16 0xCC), interrupt_new 1 True) = Inr (bufs, d, i') \<and>
    map length bufs = [1, 2]"
  using i8042_serves_every_guest[of "replicate 16 0xCC" "interrupt_new 1 True"
      "[Write [0x20] 4 1, Read 0 1, Read 4 2]"]
  by (fastforce simp: interrupt_new_def)

text \<open>The command byte round trip of the keyboard driver: command 0x60 with a data byte stores the
  control register and command 0x20 followed by a read of port 0x60 returns that byte, from every
  state of the controller.\<close>

theorem i8042_control_roundtrip:
  assumes "i8042_inv d"
  shows "\<exists>s'. run_accesses i8042_read i8042_write
     [Write [0x60] 4 1, Write [v] 0 1, Write [0x20] 4 1, Read 0 1] (d, i) = Inr ([[v]], s') \<and>
     kbd_control (fst s') = v"
  using i8042_inv_buffer[OF assms]
  by (simp add: i8042_write_def i8042_read_def i8042_consts write_command_def Let_def push_def
      flush_def pop_def buffer_len_def zero_buf_def)

theorem i8042_control_roundtrip_witness:
  "\<exists>s'. run_accesses i8042_read i8042_write
     [Write [0x60] 4 1, Write [0x45] 0 1, Write [0x20] 4 1, Read 0 1]
     (i8042_new (replicate 16 0), interrupt_new 1 True) = Inr ([[0x45]], s') \<and>
     kbd_control (fst s') = 0x45"
proof -
  have "i8042_inv (i8042_new (replicate 16 0))"
    by (simp add: i8042_inv_def i8042_new_def SB_KBD_ENABLED_def SB_OUT_DATA_AVAIL_def)
  then show ?thesis by (rule i8042_control_roundtrip)
qed

text \<open>Clearing one status bit clears the register (\<^verbatim>\<open>status &= !BIT\<close>): once the guest has issued a
  command that flushes the buffer, the keyboard-enabled bit the constructor sets is gone, and no
  later sequence of accesses brings it back.\<close>

theorem i8042_keyboard_enabled_lost:
  assumes "cmd \<in> {CMD_READ_CTR, CMD_WRITE_CTR, CMD_READ_OUTP}"
    and "run_accesses i8042_read i8042_write (Write [cmd] COMMAND_REG 1 # as) s = Inr (bufs, d, i)"
  shows "kbd_status d AND SB_KBD_ENABLED = 0"
proof -
  obtain d0 i0 where s: "s = (d0, i0)" by (cases s)
  have "kbd_locked (write_command cmd d0)"
    using assms(1) kbd_locked_status(1)[OF kbd_locked_flush(1)[of d0]]
    by (auto simp: write_command_def Let_def kbd_locked_flush)
  moreover have "run_accesses i8042_read i8042_write as (write_command cmd d0, i0) = Inr (bufs, d, i)"
    using assms(2) by (simp add: s i8042_write_def)
  ultimately show ?thesis
    using kbd_lock.run_invar by (fastforce simp: kbd_locked_def)
qed

theorem i8042_keyboard_enabled_lost_witness:
  "\<exists>d i. run_accesses i8042_read i8042_write [Write [CMD_READ_CTR] COMMAND_REG 1, Read 4 1]
       (i8042_new (replicate 16 0), interrupt_new 1 True) = Inr ([[1]], d, i) \<and>
     kbd_status (i8042_new (replicate 16 0)) AND SB_KBD_ENABLED \<noteq> 0 \<and> kbd_status d AND SB_KBD_ENABLED = 0"
proof -
  let ?s = "(i8042_new (replicate 16 0), interrupt_new 1 True)"
  have "\<exists>d i. run_accesses i8042_read i8042_write
      [Write [CMD_READ_CTR] COMMAND_REG 1, Read 4 1] ?s = Inr ([[1]], d, i)"
    by (simp add: i8042_write_def i8042_read_def i8042_consts write_command_def Let_def push_def
      flush_def buffer_len_def zero_buf_def i8042_new_def)
  then obtain d i where r: "run_accesses i8042_read i8042_write
      [Write [CMD_READ_CTR] COMMAND_REG 1, Read 4 1] ?s = Inr ([[1]], d, i)" by blast
  have "CMD_READ_CTR \<in> {CMD_READ_CTR, CMD_WRITE_CTR, CMD_READ_OUTP}" by simp
  from i8042_keyboard_enabled_lost[OF this r] r show ?thesis
    by (auto simp: i8042_new_def SB_KBD_ENABLED_def)
qed

end
