(* ===== verification/Terminal.thy ===== *)
theory Terminal
  imports Prelude
begin

text \<open>
  \<^verbatim>\<open>src/os/terminal.h\<close>: the host terminal behind the serial port. The system calls are the
  environment; the record carries the answers they will give, in order: what \<^verbatim>\<open>write(2)\<close> returns,
  what \<^verbatim>\<open>read(2)\<close> returns (a byte, end of file, or an errno) and what \<^verbatim>\<open>poll(2)\<close> returns with
  its \<open>revents\<close>. \<open>term_out\<close> collects the bytes that reached standard output. When the
  recorded answers run out the caller is still inside the call: \<open>Blocked\<close>. The settings of
  the terminal that the constructor changes and the destructor restores are a separate small model.
\<close>

section \<open>State\<close>

datatype read_answer = RdByte u8 | RdEof | RdErr int

record terminal =
  term_writes :: "int list"
  term_reads :: "read_answer list"
  term_polls :: "(int \<times> u16) list"
  term_out :: "u8 list"

definition EAGAIN :: int where "EAGAIN = 11"
definition EINTR :: int where "EINTR = 4"
definition POLLIN :: u16 where "POLLIN = 1"

section \<open>Operations\<close>

text \<open>
  \<^verbatim>\<open>put\<close> passes the full \<open>size\<close> to every \<^verbatim>\<open>write(2)\<close>, also after a short write. The bytes
  it sends are read from the caller's array \<open>data\<close>, which may be longer than \<open>size\<close>.
\<close>

fun put_loop :: "u8 list \<Rightarrow> nat \<Rightarrow> nat \<Rightarrow> terminal \<Rightarrow> int list \<Rightarrow> (nat \<times> terminal) res" where
  "put_loop data sz off t [] =
     (if off < sz then Inl Blocked else Inr (sz, t\<lparr>term_writes := []\<rparr>))"
| "put_loop data sz off t (ret # rets) =
     (if off < sz
      then (if ret < 0 then Inr (sz - off, t\<lparr>term_writes := rets\<rparr>)
            else and_then (buf_read data off (nat ret)) (\<lambda>bs.
                 put_loop data sz (off + nat ret) (t\<lparr>term_out := term_out t @ bs\<rparr>) rets))
      else Inr (sz, t\<lparr>term_writes := ret # rets\<rparr>))"

definition put :: "u8 list \<Rightarrow> nat \<Rightarrow> terminal \<Rightarrow> (nat \<times> terminal) res" where
  "put data sz t = put_loop data sz 0 t (term_writes t)"

text \<open>\<^verbatim>\<open>get\<close> retries on EAGAIN and EINTR; any other error leaves \<open>c = 0\<close> and returns it.\<close>

fun get_loop :: "terminal \<Rightarrow> read_answer list \<Rightarrow> (int \<times> terminal) res" where
  "get_loop t [] = Inl Blocked"
| "get_loop t (RdErr e # rs) =
     (if e = EAGAIN \<or> e = EINTR then get_loop t rs else Inr (0, t\<lparr>term_reads := rs\<rparr>))"
| "get_loop t (RdEof # rs) = Inr (-1, t\<lparr>term_reads := rs\<rparr>)"
| "get_loop t (RdByte c # rs) = Inr (uint c, t\<lparr>term_reads := rs\<rparr>)"

definition get :: "terminal \<Rightarrow> (int \<times> terminal) res" where
  "get t = get_loop t (term_reads t)"

definition readable :: "terminal \<Rightarrow> (bool \<times> terminal) res" where
  "readable t =
     (case term_polls t of
        [] \<Rightarrow> Inl Blocked
      | (ret, revents) # ps \<Rightarrow>
          Inr (if ret \<le> 0 then False else revents AND POLLIN \<noteq> 0, t\<lparr>term_polls := ps\<rparr>))"

section \<open>The settings of the terminal\<close>

record termios =
  c_iflag :: u32
  c_oflag :: u32
  c_cflag :: u32
  c_lflag :: u32
  c_cc :: "u8 list"

definition ICRNL :: u32 where "ICRNL = 0x100"
definition ISIG :: u32 where "ISIG = 0x1"
definition ICANON :: u32 where "ICANON = 0x2"
definition ECHO :: u32 where "ECHO = 0x8"

definition raw_settings :: "termios \<Rightarrow> termios" where
  "raw_settings t = t\<lparr>c_iflag := c_iflag t AND NOT ICRNL, c_lflag := c_lflag t AND NOT (ICANON OR ECHO OR ISIG)\<rparr>"

text \<open>
  The constructor on a terminal with settings \<open>t\<close>: \<open>tty\<close> says whether standard input and output are
  terminals, \<open>got\<close> and \<open>accepted\<close> whether the two calls succeed. The result is the backup and the new
  settings; the destructor puts the backup back.
\<close>

definition terminal_new :: "bool \<Rightarrow> bool \<Rightarrow> bool \<Rightarrow> termios \<Rightarrow> (termios \<times> termios) res" where
  "terminal_new tty got accepted t =
     (if \<not> tty then Inl (Exn (RuntimeError ''invalid terminal''))
      else if \<not> got then Inl (Exn (RuntimeError ''unable to backup termios''))
      else if \<not> accepted then Inl (Exn (RuntimeError ''tcsetattr failed''))
      else Inr (t, raw_settings t))"

definition terminal_close :: "termios \<Rightarrow> termios \<Rightarrow> termios" where
  "terminal_close backup t = backup"

text \<open>In between, exactly four flags are off, and afterwards the settings are the old ones.\<close>

lemma terminal_settings:
  assumes "terminal_new tty got accepted t = Inr (backup, t')"
  shows "terminal_close backup t'' = t"
    and "bit (c_lflag t') n \<longleftrightarrow> bit (c_lflag t) n \<and> n \<notin> {0, 1, 3}"
    and "bit (c_iflag t') n \<longleftrightarrow> bit (c_iflag t) n \<and> n \<noteq> 8"
    and "c_oflag t' = c_oflag t" "c_cflag t' = c_cflag t" "c_cc t' = c_cc t"
proof -
  have t: "backup = t" "t' = raw_settings t"
    using assms by (auto simp: terminal_new_def split: if_splits)
  have l: "NOT (ICANON OR ECHO OR ISIG) = NOT (push_bit 0 1 OR push_bit 1 1 OR push_bit 3 (1 :: u32))"
    "NOT ICRNL = NOT (push_bit 8 (1 :: u32))"
    by (simp_all add: ICANON_def ECHO_def ISIG_def ICRNL_def)
  have f: "c_lflag t' = c_lflag t AND NOT (ICANON OR ECHO OR ISIG)" "c_iflag t' = c_iflag t AND NOT ICRNL"
    by (simp_all add: t raw_settings_def)
  note bits = bit_and_iff bit_not_iff bit_or_iff bit_push_bit_iff bit_1_iff possible_bit_word
  have "n < LENGTH(32)" if "bit (w :: u32) n" for w using that by (rule bit_imp_le_length)
  then show "bit (c_lflag t') n \<longleftrightarrow> bit (c_lflag t) n \<and> n \<notin> {0, 1, 3}"
    "bit (c_iflag t') n \<longleftrightarrow> bit (c_iflag t) n \<and> n \<noteq> 8"
    unfolding f l by (simp_all only: bits) force+
  show "terminal_close backup t'' = t" "c_oflag t' = c_oflag t" "c_cflag t' = c_cflag t" "c_cc t' = c_cc t"
    by (simp_all add: terminal_close_def t raw_settings_def)
qed

section \<open>Facts\<close>

lemma put_one:
  assumes "term_writes t = 1 # rets" "data \<noteq> []"
  shows "put data (Suc 0) t = Inr (1, t\<lparr>term_writes := rets, term_out := term_out t @ [hd data]\<rparr>)"
  using assms by (cases rets; cases data) (simp_all add: put_def buf_read_def)

lemma put_loop_done: "put_loop data sz off t rets = Inr (sz, t\<lparr>term_writes := rets\<rparr>)"
  if "sz \<le> off"
  using that by (cases rets) simp_all

lemma put_loop_sum:
  assumes "ks \<noteq> []" "off + sum_list (butlast ks) < sz" "sz \<le> off + sum_list ks"
    and "off + sum_list ks \<le> length data"
  shows "put_loop data sz off t (map int ks @ rets) =
     Inr (sz, t\<lparr>term_writes := rets,
                term_out := term_out t @ take (sum_list ks) (drop off data)\<rparr>)"
  using assms
proof (induction ks arbitrary: off t)
  case Nil
  then show ?case by simp
next
  case (Cons k ks)
  have rd: "buf_read data off k = Inr (take k (drop off data))"
    using Cons.prems by (auto simp: buf_read_def)
  have off: "off < sz" using Cons.prems by simp
  show ?case
  proof (cases "ks = []")
    case True
    then show ?thesis using Cons.prems rd off by (simp add: put_loop_done)
  next
    case False
    then show ?thesis
      using Cons.prems rd off Cons.IH[of "off + k" "t\<lparr>term_out := term_out t @ take k (drop off data)\<rparr>"]
      by (simp add: take_add add.commute add.left_commute)
  qed
qed

section \<open>Properties\<close>

text \<open>When the successive writes of \<^verbatim>\<open>put\<close> accept \<open>ks\<close> bytes and the last of them reaches the
  requested size, standard output receives the first \<open>sum_list ks\<close> bytes of the caller's array, in
  order: exactly the data when the writes add up to the size, but more than the data when the last
  write accepts more than what is left, since every call asks for the full size again.\<close>

theorem put_output:
  assumes "term_writes t = map int ks @ rets" "ks \<noteq> []"
    and "sum_list (butlast ks) < sz" "sz \<le> sum_list ks" "sum_list ks \<le> length data"
  shows "put data sz t =
     Inr (sz, t\<lparr>term_writes := rets, term_out := term_out t @ take (sum_list ks) data\<rparr>)"
  using assms put_loop_sum[of ks 0 sz data t rets] by (simp add: put_def)

theorem put_output_witness:
  "put [10, 20, 30, 99] 3 \<lparr>term_writes = [1, 3], term_reads = [], term_polls = [], term_out = []\<rparr>
   = Inr (3, \<lparr>term_writes = [], term_reads = [], term_polls = [], term_out = [10, 20, 30, 99]\<rparr>)"
  using put_output[of "\<lparr>term_writes = [1, 3], term_reads = [], term_polls = [], term_out = []\<rparr>"
      "[1, 3]" "[]" 3 "[10, 20, 30, 99]"]
  by simp

end
