(* ===== verification/Uart.thy ===== *)
theory Uart
  imports Io_Device Fifo Terminal
begin

text \<open>
  \<^verbatim>\<open>src/kvm/device/uart.h\<close>: the 16550 serial port. The record holds the private fields of the
  class. The state of the device is the object, the terminal it is attached to (\<^verbatim>\<open>nullptr\<close> for
  ttyS1 to ttyS3) and its interrupt line. The local \<^verbatim>\<open>tmp_iir\<close> of \<^verbatim>\<open>update_irq\<close> is read before
  it is written: \<open>u_stack\<close> is the unknown sequence of values it starts from, one per call, and
  every theorem holds for all such sequences. The mutex makes each access atomic.
\<close>

section \<open>Constants and state\<close>

definition DATA :: u64 where "DATA = 0"
definition IER :: u64 where "IER = 1"
definition IIR :: u64 where "IIR = 2"
definition FCR :: u64 where "FCR = 2"
definition LCR :: u64 where "LCR = 3"
definition MCR :: u64 where "MCR = 4"
definition LSR :: u64 where "LSR = 5"
definition MSR :: u64 where "MSR = 6"
definition SCR :: u64 where "SCR = 7"
definition DLAB_LOW :: u64 where "DLAB_LOW = 0"
definition DLAB_HIGH :: u64 where "DLAB_HIGH = 1"

definition IER_RECV_BIT :: u8 where "IER_RECV_BIT = 0x1"
definition IER_THR_BIT :: u8 where "IER_THR_BIT = 0x2"
definition IER_FIFO_BITS :: u8 where "IER_FIFO_BITS = 0x0f"
definition IIR_FIFO_BITS :: u8 where "IIR_FIFO_BITS = 0xc0"
definition IIR_NONE_BIT :: u8 where "IIR_NONE_BIT = 0x1"
definition IIR_THR_BIT :: u8 where "IIR_THR_BIT = 0x2"
definition IIR_RECV_BIT :: u8 where "IIR_RECV_BIT = 0x4"
definition LCR_DLAB_BIT :: u8 where "LCR_DLAB_BIT = 0x80"
definition LSR_DATA_BIT :: u8 where "LSR_DATA_BIT = 0x1"
definition LSR_BREAK_BIT :: u8 where "LSR_BREAK_BIT = 0x10"
definition LSR_EMPTY_BIT :: u8 where "LSR_EMPTY_BIT = 0x20"
definition LSR_IDLE_BIT :: u8 where "LSR_IDLE_BIT = 0x40"
definition MCR_LOOP_BIT :: u8 where "MCR_LOOP_BIT = 0x10"
definition FIFO_LEN :: u8 where "FIFO_LEN = 64"

lemmas uart_offsets = DATA_def IER_def IIR_def FCR_def LCR_def MCR_def LSR_def MSR_def SCR_def
  DLAB_LOW_def DLAB_HIGH_def
lemmas uart_bits = IER_RECV_BIT_def IER_THR_BIT_def IER_FIFO_BITS_def IIR_FIFO_BITS_def
  IIR_NONE_BIT_def IIR_THR_BIT_def IIR_RECV_BIT_def LCR_DLAB_BIT_def LSR_DATA_BIT_def
  LSR_BREAK_BIT_def LSR_EMPTY_BIT_def LSR_IDLE_BIT_def MCR_LOOP_BIT_def FIFO_LEN_def

record uart =
  u_baud_divisor :: u16
  u_ier :: u8
  u_iir :: u8
  u_fcr :: u8
  u_lcr :: u8
  u_mcr :: u8
  u_lsr :: u8
  u_msr :: u8
  u_scr :: u8
  u_rx_buf :: "u8 list"
  u_rx_cnt :: u8
  u_rx_done :: u8
  u_tx_buf :: "u8 list"
  u_tx_cnt :: u8
  u_stack :: "nat \<Rightarrow> u8"

type_synonym uart_state = "uart \<times> terminal option \<times> interrupt"

definition uart_new :: "u8 list \<Rightarrow> u8 list \<Rightarrow> (nat \<Rightarrow> u8) \<Rightarrow> uart" where
  "uart_new rx_junk tx_junk stack =
     \<lparr>u_baud_divisor = 0, u_ier = 0, u_iir = IIR_NONE_BIT, u_fcr = 0, u_lcr = 0, u_mcr = 0x08,
      u_lsr = LSR_EMPTY_BIT OR LSR_IDLE_BIT, u_msr = 0x20 OR 0x10 OR 0x80, u_scr = 0,
      u_rx_buf = rx_junk, u_rx_cnt = 0, u_rx_done = 0, u_tx_buf = tx_junk, u_tx_cnt = 0,
      u_stack = stack\<rparr>"

definition is_dlab_set :: "uart \<Rightarrow> bool" where
  "is_dlab_set u \<longleftrightarrow> u_lcr u AND LCR_DLAB_BIT \<noteq> 0"

definition is_loop :: "uart \<Rightarrow> bool" where
  "is_loop u \<longleftrightarrow> u_mcr u AND MCR_LOOP_BIT \<noteq> 0"

section \<open>Transmitter and interrupt identification\<close>

definition flush_tx :: "uart \<Rightarrow> terminal option \<Rightarrow> (uart \<times> terminal option) res" where
  "flush_tx u t =
     (let u = u\<lparr>u_lsr := u_lsr u OR (LSR_EMPTY_BIT OR LSR_IDLE_BIT)\<rparr> in
      if u_tx_cnt u \<noteq> 0
      then and_then (case t of
                       None \<Rightarrow> Inr None
                     | Some tm \<Rightarrow> and_then (put (u_tx_buf u) (unat (u_tx_cnt u)) tm)
                                           (\<lambda>(_, tm'). Inr (Some tm')))
             (\<lambda>t'. Inr (u\<lparr>u_tx_cnt := 0\<rparr>, t'))
      else Inr (u, t))"

definition update_irq :: "uart_state \<Rightarrow> uart_state res" where
  "update_irq = (\<lambda>(u, t, irq).
     let tmp_iir = u_stack u 0;
         u = u\<lparr>u_stack := (\<lambda>n. u_stack u (Suc n))\<rparr>;
         tmp_iir = (if u_ier u AND IER_RECV_BIT \<noteq> 0 \<and> u_lsr u AND LSR_DATA_BIT \<noteq> 0
                    then tmp_iir OR IIR_RECV_BIT else tmp_iir);
         tmp_iir = (if u_ier u AND IER_THR_BIT \<noteq> 0 \<and> u_lsr u AND LSR_IDLE_BIT \<noteq> 0
                    then tmp_iir OR IIR_THR_BIT else tmp_iir)
     in and_then
          (if tmp_iir = 0
           then and_then (set_level False irq) (\<lambda>irq. Inr (u\<lparr>u_iir := IIR_NONE_BIT\<rparr>, irq))
           else and_then (set_level True irq) (\<lambda>irq.
                and_then (set_level False irq) (\<lambda>irq. Inr (u\<lparr>u_iir := tmp_iir\<rparr>, irq))))
          (\<lambda>(u, irq).
             if u_ier u AND IER_THR_BIT = 0
             then and_then (flush_tx u t) (\<lambda>(u, t). Inr (u, t, irq))
             else Inr (u, t, irq)))"

section \<open>Receiver\<close>

text \<open>The loopback path of \<^verbatim>\<open>write\<close> and the \<open>DATA\<close> case of \<^verbatim>\<open>read\<close>.\<close>

definition rx_push :: "u8 \<Rightarrow> uart \<Rightarrow> uart" where
  "rx_push b u =
     (if u_rx_cnt u < FIFO_LEN
      then u\<lparr>u_rx_buf := (u_rx_buf u)[unat (u_rx_cnt u) := b], u_rx_cnt := u_rx_cnt u + 1,
             u_lsr := u_lsr u OR LSR_DATA_BIT\<rparr>
      else u)"

definition rx_pop :: "uart \<Rightarrow> u8 \<times> uart" where
  "rx_pop u =
     (if u_rx_cnt u = u_rx_done u then (0, u)
      else if u_lsr u AND LSR_BREAK_BIT \<noteq> 0
      then (0, u\<lparr>u_lsr := u_lsr u AND NOT LSR_BREAK_BIT\<rparr>)
      else let v = u_rx_buf u ! unat (u_rx_done u);
               u = u\<lparr>u_rx_done := u_rx_done u + 1\<rparr>
           in (v, if u_rx_cnt u = u_rx_done u
                  then u\<lparr>u_lsr := u_lsr u AND NOT LSR_DATA_BIT, u_rx_cnt := 0, u_rx_done := 0\<rparr>
                  else u))"

section \<open>Port accesses\<close>

definition uart_read_reg :: "u64 \<Rightarrow> u8 list \<Rightarrow> uart \<Rightarrow> (u8 list \<times> uart) res" where
  "uart_read_reg off buf u =
     (let reply = (\<lambda>v. and_then (arr_set buf 0 v) (\<lambda>buf. Inr (buf, u))) in
      if off = DATA then
        (if u_rx_cnt u = u_rx_done u then Inr (buf, u)
         else and_then (guard_ub (u_lsr u AND LSR_BREAK_BIT \<noteq> 0 \<or>
                                  unat (u_rx_done u) < length (u_rx_buf u)) HostBuffer) (\<lambda>_.
              and_then (arr_set buf 0 (fst (rx_pop u))) (\<lambda>buf. Inr (buf, snd (rx_pop u)))))
      else if off = IER then reply (u_ier u)
      else if off = IIR then reply (u_iir u OR IIR_FIFO_BITS)
      else if off = LCR then reply (u_lcr u)
      else if off = MCR then reply (u_mcr u)
      else if off = LSR then reply (u_lsr u)
      else if off = MSR then reply (u_msr u)
      else if off = SCR then reply (u_scr u)
      else Inr (buf, u))"

definition uart_read :: "u64 \<Rightarrow> u32 \<Rightarrow> uart_state \<Rightarrow> (u8 list \<times> uart_state) res" where
  "uart_read off sz = (\<lambda>(u, t, irq).
     let buf = zero_buf sz in
     if is_dlab_set u \<and> off = DLAB_LOW then
       and_then (arr_set buf 0 (ucast (u_baud_divisor u))) (\<lambda>buf. Inr (buf, u, t, irq))
     else if is_dlab_set u \<and> off = DLAB_HIGH then
       and_then (arr_set buf 0 (ucast (drop_bit 8 (u_baud_divisor u)))) (\<lambda>buf. Inr (buf, u, t, irq))
     else
       and_then (uart_read_reg off buf u) (\<lambda>(buf, u).
       and_then (update_irq (u, t, irq)) (\<lambda>s. Inr (buf, s))))"

definition tx_byte :: "u8 \<Rightarrow> uart \<Rightarrow> terminal option \<Rightarrow> (uart \<times> terminal option) res" where
  "tx_byte b u t =
     (if u_tx_cnt u < FIFO_LEN
      then and_then (arr_set (u_tx_buf u) (unat (u_tx_cnt u)) b) (\<lambda>buf.
           let u = u\<lparr>u_tx_buf := buf, u_tx_cnt := u_tx_cnt u + 1\<rparr>;
               u = u\<lparr>u_lsr := u_lsr u AND NOT LSR_IDLE_BIT\<rparr>;
               u = (if u_tx_cnt u = FIFO_LEN div 2
                    then u\<lparr>u_lsr := u_lsr u AND NOT LSR_EMPTY_BIT\<rparr> else u)
           in flush_tx u t)
      else Inr (u\<lparr>u_lsr := u_lsr u AND NOT (LSR_EMPTY_BIT OR LSR_IDLE_BIT)\<rparr>, t))"

definition set_divisor :: "u64 \<Rightarrow> u8 \<Rightarrow> uart \<Rightarrow> uart" where
  "set_divisor off b u =
     (if is_dlab_set u \<and> off = DLAB_LOW then
        u\<lparr>u_baud_divisor := (u_baud_divisor u AND 0xff00) OR ucast b\<rparr>
      else if is_dlab_set u \<and> off = DLAB_HIGH then
        u\<lparr>u_baud_divisor := (u_baud_divisor u AND 0x00ff) OR push_bit 8 (ucast b)\<rparr>
      else u)"

text \<open>
  The \<^verbatim>\<open>break\<close> inside the divisor switch leaves only that switch: the access goes on to the
  register switch, as in the source. The first byte is fetched once, for the registers that
  store it.
\<close>

definition uart_write :: "u8 list \<Rightarrow> u64 \<Rightarrow> u32 \<Rightarrow> uart_state \<Rightarrow> uart_state res" where
  "uart_write data off sz = (\<lambda>(u, t, irq).
     and_then (if off \<in> {DATA, IER, FCR, LCR, MCR, SCR} then arr_get data 0 else Inr 0) (\<lambda>b.
     let u = set_divisor off b u in
     and_then
       (if off = DATA then
          (if u_mcr u AND MCR_LOOP_BIT \<noteq> 0
           then and_then (guard_ub (u_rx_cnt u < FIFO_LEN \<longrightarrow>
                                    unat (u_rx_cnt u) < length (u_rx_buf u)) HostBuffer)
                         (\<lambda>_. Inr (rx_push b u, t))
           else tx_byte b u t)
        else if off = IER then Inr (u\<lparr>u_ier := b AND IER_FIFO_BITS\<rparr>, t)
        else if off = FCR then Inr (u\<lparr>u_fcr := b\<rparr>, t)
        else if off = LCR then Inr (u\<lparr>u_lcr := b\<rparr>, t)
        else if off = MCR then Inr (u\<lparr>u_mcr := b\<rparr>, t)
        else if off = LSR then Inr (u, t)
        else if off = MSR then Inr (u, t)
        else if off = SCR then Inr (u\<lparr>u_scr := b\<rparr>, t)
        else Inr (u, t))
       (\<lambda>(u, t). update_irq (u, t, irq))))"

section \<open>Input from the terminal\<close>

text \<open>The loop of \<^verbatim>\<open>write_stdio\<close>; each round adds a byte to a buffer of 64, so it ends.\<close>

function rx_fill :: "uart \<Rightarrow> terminal \<Rightarrow> (uart \<times> terminal) res" where
  "rx_fill u t =
     and_then (readable t) (\<lambda>(r, t).
     if r \<and> u_rx_cnt u < FIFO_LEN
     then and_then (get t) (\<lambda>(c, t).
          if c < 0 then Inr (u, t)
          else and_then (arr_set (u_rx_buf u) (unat (u_rx_cnt u)) (word_of_int c)) (\<lambda>buf.
               rx_fill (u\<lparr>u_rx_buf := buf, u_rx_cnt := u_rx_cnt u + 1,
                          u_lsr := u_lsr u OR LSR_DATA_BIT\<rparr>) t))
     else Inr (u, t))"
  by pat_completeness auto
termination
proof (relation "measure (\<lambda>(u, t). 64 - unat (u_rx_cnt u))", goal_cases)
  case (2 u t x r t1 y c t2 buf)
  then have "unat (u_rx_cnt u) < 64" by (simp add: FIFO_LEN_def word_less_nat_alt)
  moreover have "unat (u_rx_cnt u + 1) = Suc (unat (u_rx_cnt u))"
    using calculation unat_add_of_nat[of "u_rx_cnt u" 1] by simp
  ultimately show ?case by simp
qed simp

declare rx_fill.simps [simp del]

definition write_stdio :: "uart_state \<Rightarrow> (nat \<times> uart_state) res" where
  "write_stdio = (\<lambda>(u, t, irq).
     if u_mcr u AND MCR_LOOP_BIT \<noteq> 0 then Inr (0, u, t, irq)
     else if u_lsr u AND LSR_DATA_BIT \<noteq> 0 \<or> u_rx_cnt u \<noteq> 0
     then and_then (update_irq (u, t, irq)) (\<lambda>s. Inr (0, s))
     else (case t of
             None \<Rightarrow> Inl (UB NullPointer)
           | Some tm \<Rightarrow>
               and_then (rx_fill u tm) (\<lambda>(u, tm).
               and_then (update_irq (u, Some tm, irq)) (\<lambda>s. Inr (1, s)))))"

section \<open>The invariant between accesses\<close>

text \<open>
  The transmit buffer is empty, the receive indices are ordered and reset when the last byte is
  read, and the line status says exactly: transmitter idle, and data ready iff bytes are waiting.
\<close>

definition uart_inv :: "uart \<Rightarrow> bool" where
  "uart_inv u \<longleftrightarrow>
     length (u_rx_buf u) = 64 \<and> length (u_tx_buf u) = 64 \<and> u_tx_cnt u = 0 \<and>
     u_rx_cnt u \<le> 64 \<and> (u_rx_done u < u_rx_cnt u \<or> u_rx_cnt u = 0 \<and> u_rx_done u = 0) \<and>
     u_lsr u = (if u_rx_cnt u = 0 then 0x60 else 0x61)"

definition rx_contents :: "uart \<Rightarrow> u8 list" where
  "rx_contents u = drop (unat (u_rx_done u)) (take (unat (u_rx_cnt u)) (u_rx_buf u))"

definition rx_room :: "uart \<Rightarrow> nat" where
  "rx_room u = 64 - unat (u_rx_cnt u)"

text \<open>Two states that differ in the interrupt identification only.\<close>

definition iir_only :: "uart \<Rightarrow> uart \<Rightarrow> bool" where
  "iir_only u u' \<longleftrightarrow> (\<exists>stack iir. u' = u\<lparr>u_stack := stack, u_iir := iir\<rparr>)"

lemma iir_only_simps:
  assumes "iir_only u u'"
  shows "u_rx_buf u' = u_rx_buf u" "u_rx_cnt u' = u_rx_cnt u" "u_rx_done u' = u_rx_done u"
    "u_tx_buf u' = u_tx_buf u" "u_tx_cnt u' = u_tx_cnt u" "u_lsr u' = u_lsr u" "u_mcr u' = u_mcr u"
    "u_lcr u' = u_lcr u" "u_ier u' = u_ier u" "u_baud_divisor u' = u_baud_divisor u"
    "u_scr u' = u_scr u" "uart_inv u' = uart_inv u" "rx_contents u' = rx_contents u"
    "rx_room u' = rx_room u" "is_dlab_set u' = is_dlab_set u"
  using assms
  by (auto simp: iir_only_def uart_inv_def rx_contents_def rx_room_def is_dlab_set_def)

lemma uart_inv_lengths: "uart_inv u \<Longrightarrow> length (u_rx_buf u) = 64 \<and> length (u_tx_buf u) = 64"
  by (simp add: uart_inv_def)

lemma flush_tx_idle: "uart_inv u \<Longrightarrow> flush_tx u t = Inr (u, t)"
  by (auto simp: uart_inv_def flush_tx_def uart_bits Let_def)

lemma update_irq_ok:
  assumes "uart_inv u" "irq_fd_ok irq"
  shows "\<exists>u' irq'. update_irq (u, t, irq) = Inr (u', t, irq') \<and> iir_only u u' \<and> irq_fd_ok irq'"
proof -
  have inv: "uart_inv (u\<lparr>u_stack := s, u_iir := i\<rparr>)" for s i
    using assms(1) by (simp add: uart_inv_def)
  show ?thesis
    using assms(2)
    by (auto simp: update_irq_def Let_def set_level_False set_level_True flush_tx_idle[OF inv]
        iir_only_def)
qed

lemma uart_inv_fields [simp]:
  "uart_inv (u\<lparr>u_ier := a\<rparr>) = uart_inv u" "uart_inv (u\<lparr>u_fcr := a\<rparr>) = uart_inv u"
  "uart_inv (u\<lparr>u_lcr := a\<rparr>) = uart_inv u" "uart_inv (u\<lparr>u_mcr := a\<rparr>) = uart_inv u"
  "uart_inv (u\<lparr>u_scr := a\<rparr>) = uart_inv u" "uart_inv (u\<lparr>u_baud_divisor := d\<rparr>) = uart_inv u"
  "uart_inv (u\<lparr>u_tx_buf := (u_tx_buf u)[n := b]\<rparr>) = uart_inv u"
  by (simp_all add: uart_inv_def)

lemma uart_inv_set_divisor [simp]: "uart_inv (set_divisor off b u) = uart_inv u"
  by (simp add: set_divisor_def)

lemma set_divisor_fields [simp]:
  "u_mcr (set_divisor off b u) = u_mcr u" "u_lcr (set_divisor off b u) = u_lcr u"
  "u_rx_buf (set_divisor off b u) = u_rx_buf u" "u_rx_cnt (set_divisor off b u) = u_rx_cnt u"
  "u_rx_done (set_divisor off b u) = u_rx_done u" "u_ier (set_divisor off b u) = u_ier u"
  by (simp_all add: set_divisor_def)

section \<open>The receive buffer is a FIFO\<close>

lemma rx_push_inv: "uart_inv u \<Longrightarrow> uart_inv (rx_push b u)"
  using word_Suc_no_wrap[of "u_rx_cnt u" 64] unat_Suc_no_wrap[of "u_rx_cnt u" 64]
  by (auto simp: uart_inv_def rx_push_def uart_bits word_less_nat_alt)

lemma rx_pop_inv: "uart_inv u \<Longrightarrow> uart_inv (snd (rx_pop u))"
  using word_Suc_no_wrap[of "u_rx_done u" "u_rx_cnt u"]
  by (auto simp: uart_inv_def rx_pop_def uart_bits Let_def)

lemma rx_push_contents:
  assumes "uart_inv u" "0 < rx_room u"
  shows "rx_contents (rx_push b u) = rx_contents u @ [b]" "rx_room (rx_push b u) = rx_room u - 1"
proof -
  have less: "u_rx_cnt u < 64" and n: "unat (u_rx_cnt u) < 64"
    using assms(2) by (auto simp: rx_room_def word_less_nat_alt)
  have le: "unat (u_rx_done u) \<le> unat (u_rx_cnt u)"
    using assms(1) by (auto simp: uart_inv_def word_less_nat_alt)
  have "take (Suc (unat (u_rx_cnt u))) ((u_rx_buf u)[unat (u_rx_cnt u) := b])
      = take (unat (u_rx_cnt u)) (u_rx_buf u) @ [b]"
    using assms(1) n by (simp add: uart_inv_def take_Suc_conv_app_nth)
  then show "rx_contents (rx_push b u) = rx_contents u @ [b]"
    using less le assms(1) n
    by (simp add: rx_contents_def rx_push_def FIFO_LEN_def unat_Suc_no_wrap uart_inv_def)
  show "rx_room (rx_push b u) = rx_room u - 1"
    using less by (simp add: rx_room_def rx_push_def FIFO_LEN_def unat_Suc_no_wrap)
qed

lemma rx_push_full: "rx_room u = 0 \<Longrightarrow> rx_push b u = u"
  by (simp add: rx_room_def rx_push_def FIFO_LEN_def word_less_nat_alt)

lemma rx_contents_empty: "uart_inv u \<Longrightarrow> rx_contents u = [] \<longleftrightarrow> u_rx_cnt u = u_rx_done u"
  by (auto simp: uart_inv_def rx_contents_def word_less_nat_alt word_le_nat_alt)

lemma rx_pop_contents:
  assumes inv: "uart_inv u" and c: "rx_contents u = x # xs"
  shows "fst (rx_pop u) = x" "rx_contents (snd (rx_pop u)) = xs"
proof -
  have ne: "u_rx_cnt u \<noteq> u_rx_done u" using assms rx_contents_empty[of u] by auto
  then have less: "u_rx_done u < u_rx_cnt u" using inv by (auto simp: uart_inv_def)
  then have n: "unat (u_rx_done u) < unat (u_rx_cnt u)" by (simp add: word_less_nat_alt)
  have len: "unat (u_rx_cnt u) \<le> length (u_rx_buf u)"
    using inv by (simp add: uart_inv_def word_le_nat_alt)
  have nobrk: "u_lsr u AND LSR_BREAK_BIT = 0" using inv by (simp add: uart_inv_def LSR_BREAK_BIT_def)
  have cons: "rx_contents u = u_rx_buf u ! unat (u_rx_done u) #
      drop (Suc (unat (u_rx_done u))) (take (unat (u_rx_cnt u)) (u_rx_buf u))"
    using n len unfolding rx_contents_def by (subst Cons_nth_drop_Suc[symmetric]) auto
  show "fst (rx_pop u) = x"
    using c cons ne nobrk by (simp add: rx_pop_def Let_def)
  show "rx_contents (snd (rx_pop u)) = xs"
  proof (cases "u_rx_cnt u = u_rx_done u + 1")
    case True
    then have "unat (u_rx_cnt u) = Suc (unat (u_rx_done u))"
      using unat_Suc_no_wrap[OF less] by simp
    then have "xs = []" using c cons len by simp
    then show ?thesis using True nobrk by (simp add: rx_pop_def Let_def rx_contents_def)
  next
    case False
    then show ?thesis
      using c cons ne nobrk unat_Suc_no_wrap[OF less] by (simp add: rx_pop_def Let_def rx_contents_def)
  qed
qed

interpretation rx_fifo: byte_fifo rx_push rx_pop rx_contents rx_room uart_inv
proof (unfold_locales, goal_cases)
  case (6 q) then show ?case by (simp add: rx_contents_empty rx_pop_def)
qed (simp_all add: rx_push_inv rx_pop_inv rx_push_contents rx_push_full rx_pop_contents)

section \<open>One access\<close>

abbreviation uart_state_inv :: "uart_state \<Rightarrow> bool" where
  "uart_state_inv s \<equiv> uart_inv (fst s) \<and> irq_fd_ok (snd (snd s))"

lemma update_irq_inv:
  assumes "update_irq s = Inr s'" "uart_state_inv s"
  shows "iir_only (fst s) (fst s') \<and> fst (snd s') = fst (snd s) \<and> uart_state_inv s'"
  using update_irq_ok[of "fst s" "snd (snd s)" "fst (snd s)"] assms
  by (cases s) (auto simp: iir_only_simps)

lemma lsr_after_tx:
  "uart_inv u \<Longrightarrow>
   u_lsr u AND NOT LSR_IDLE_BIT OR (LSR_EMPTY_BIT OR LSR_IDLE_BIT) = u_lsr u"
  by (simp add: uart_inv_def uart_bits)

lemma tx_byte_eq:
  assumes "uart_inv u"
  shows "tx_byte b u t =
     and_then (case t of None \<Rightarrow> Inr None
                       | Some tm \<Rightarrow> and_then (put ((u_tx_buf u)[0 := b]) 1 tm) (\<lambda>(_, tm'). Inr (Some tm')))
       (\<lambda>t'. Inr (u\<lparr>u_tx_buf := (u_tx_buf u)[0 := b]\<rparr>, t'))"
proof -
  have lsr: "u_lsr u AND NOT LSR_IDLE_BIT OR (LSR_EMPTY_BIT OR LSR_IDLE_BIT) = u_lsr u"
    by (rule lsr_after_tx[OF assms])
  have idle: "u_tx_cnt u = 0" "length (u_tx_buf u) = 64" using assms by (auto simp: uart_inv_def)
  obtain baud ier iir fcr lcr mcr l msr scr rb rc rd tb tc st where
    u: "u = \<lparr>u_baud_divisor = baud, u_ier = ier, u_iir = iir, u_fcr = fcr, u_lcr = lcr, u_mcr = mcr,
      u_lsr = l, u_msr = msr, u_scr = scr, u_rx_buf = rb, u_rx_cnt = rc, u_rx_done = rd,
      u_tx_buf = tb, u_tx_cnt = tc, u_stack = st\<rparr>"
    by (cases u) auto
  show ?thesis
    using lsr idle unfolding u
    by (cases t) (simp_all add: tx_byte_def flush_tx_def FIFO_LEN_def Let_def)
qed

lemma tx_byte_None:
  "uart_inv u \<Longrightarrow> tx_byte b u None = Inr (u\<lparr>u_tx_buf := (u_tx_buf u)[0 := b]\<rparr>, None)"
  by (simp add: tx_byte_eq)

lemma tx_byte_Some:
  assumes "uart_inv u" "term_writes tm = 1 # rets"
  shows "tx_byte b u (Some tm) = Inr (u\<lparr>u_tx_buf := (u_tx_buf u)[0 := b]\<rparr>,
     Some (tm\<lparr>term_writes := rets, term_out := term_out tm @ [b]\<rparr>))"
proof -
  have "(u_tx_buf u)[0 := b] \<noteq> [] \<and> hd ((u_tx_buf u)[0 := b]) = b"
    using uart_inv_lengths[OF assms(1)] by (cases "u_tx_buf u") auto
  then show ?thesis using assms by (simp add: tx_byte_eq put_one)
qed

text \<open>The value each register reads as.\<close>

definition reg_value :: "u64 \<Rightarrow> uart \<Rightarrow> u8" where
  "reg_value off u =
     (if off = DATA then fst (rx_pop u)
      else if off = IER then u_ier u
      else if off = IIR then u_iir u OR IIR_FIFO_BITS
      else if off = LCR then u_lcr u
      else if off = MCR then u_mcr u
      else if off = LSR then u_lsr u
      else if off = MSR then u_msr u
      else if off = SCR then u_scr u
      else 0)"

definition after_read :: "u64 \<Rightarrow> uart \<Rightarrow> uart" where
  "after_read off u = (if off = DATA then snd (rx_pop u) else u)"

lemma uart_read_reg_eq:
  assumes "uart_inv u" "sz \<noteq> 0"
  shows "uart_read_reg off (zero_buf sz) u = Inr (byte_reply sz (reg_value off u), after_read off u)"
proof (cases "off = DATA")
  case True
  have "u_rx_cnt u \<noteq> u_rx_done u \<Longrightarrow> unat (u_rx_done u) < length (u_rx_buf u)"
    using assms(1) by (auto simp: uart_inv_def word_less_nat_alt word_le_nat_alt)
  moreover have "u_rx_cnt u = u_rx_done u \<Longrightarrow> rx_pop u = (0, u)"
    by (simp add: rx_pop_def)
  ultimately show ?thesis
    using True assms(2)
    by (simp add: uart_read_reg_def reg_value_def after_read_def zero_buf_reply[symmetric])
next
  case False
  then show ?thesis
    using assms(2) unfolding uart_read_reg_def reg_value_def after_read_def Let_def
    by (simp add: zero_buf_reply[symmetric])
qed

lemma after_read_inv: "uart_inv u \<Longrightarrow> uart_inv (after_read off u)"
  by (simp add: after_read_def rx_pop_inv)

lemma rx_pop_fields [simp]:
  "u_mcr (snd (rx_pop u)) = u_mcr u" "u_lcr (snd (rx_pop u)) = u_lcr u"
  "u_ier (snd (rx_pop u)) = u_ier u" "u_baud_divisor (snd (rx_pop u)) = u_baud_divisor u"
  by (simp_all add: rx_pop_def Let_def)

lemma after_read_fields [simp]:
  "u_mcr (after_read off u) = u_mcr u" "u_lcr (after_read off u) = u_lcr u"
  "u_ier (after_read off u) = u_ier u" "u_baud_divisor (after_read off u) = u_baud_divisor u"
  by (simp_all add: after_read_def)

lemma uart_read_plain:
  assumes "uart_inv u" "irq_fd_ok irq" "sz \<noteq> 0" "\<not> (is_dlab_set u \<and> off \<in> {DLAB_LOW, DLAB_HIGH})"
  shows "\<exists>u' irq'. uart_read off sz (u, t, irq) = Inr (byte_reply sz (reg_value off u), u', t, irq') \<and>
     iir_only (after_read off u) u' \<and> uart_inv u' \<and> irq_fd_ok irq'"
proof -
  obtain u' irq' where "update_irq (after_read off u, t, irq) = Inr (u', t, irq')"
    "iir_only (after_read off u) u'" "irq_fd_ok irq'"
    using update_irq_ok[OF after_read_inv[OF assms(1)] assms(2)] by blast
  then show ?thesis
    using assms after_read_inv[OF assms(1), of off] by (auto simp: uart_read_def uart_read_reg_eq iir_only_simps)
qed

lemma uart_read_cases:
  assumes "uart_inv u" "irq_fd_ok irq" "sz \<noteq> 0"
  shows "\<exists>buf u' irq'. uart_read off sz (u, t, irq) = Inr (buf, u', t, irq') \<and>
     length buf = unat sz \<and> uart_inv u' \<and> irq_fd_ok irq' \<and> u_mcr u' = u_mcr u"
proof (cases "is_dlab_set u \<and> off \<in> {DLAB_LOW, DLAB_HIGH}")
  case True
  then show ?thesis using assms by (auto simp: uart_read_def Let_def uart_offsets)
next
  case False
  from uart_read_plain[OF assms this] show ?thesis
    using assms(3) by (fastforce simp: iir_only_simps)
qed

definition transmits :: "u64 \<Rightarrow> uart \<Rightarrow> bool" where
  "transmits off u \<longleftrightarrow> off = DATA \<and> u_mcr u AND MCR_LOOP_BIT = 0"

definition after_write :: "u64 \<Rightarrow> u8 \<Rightarrow> uart \<Rightarrow> uart" where
  "after_write off b u =
     (let u = set_divisor off b u in
      if transmits off u then u\<lparr>u_tx_buf := (u_tx_buf u)[0 := b]\<rparr>
      else if off = DATA then rx_push b u
      else if off = IER then u\<lparr>u_ier := b AND IER_FIFO_BITS\<rparr>
      else if off = FCR then u\<lparr>u_fcr := b\<rparr>
      else if off = LCR then u\<lparr>u_lcr := b\<rparr>
      else if off = MCR then u\<lparr>u_mcr := b\<rparr>
      else if off = SCR then u\<lparr>u_scr := b\<rparr>
      else u)"

definition sent :: "u8 \<Rightarrow> terminal \<Rightarrow> terminal" where
  "sent b tm = tm\<lparr>term_writes := tl (term_writes tm), term_out := term_out tm @ [b]\<rparr>"

definition accepts :: "terminal option \<Rightarrow> bool" where
  "accepts t \<longleftrightarrow> (case t of None \<Rightarrow> True | Some tm \<Rightarrow> term_writes tm \<noteq> [] \<and> hd (term_writes tm) = 1)"

lemma rx_push_fields [simp]:
  "u_mcr (rx_push b u) = u_mcr u" "u_lcr (rx_push b u) = u_lcr u" "u_ier (rx_push b u) = u_ier u"
  by (simp_all add: rx_push_def)

lemma after_write_inv: "uart_inv u \<Longrightarrow> uart_inv (after_write off b u)"
  by (simp add: after_write_def Let_def rx_push_inv)

lemma after_write_mcr: "u_mcr (after_write off b u) = (if off = MCR then b else u_mcr u)"
  by (simp add: after_write_def Let_def uart_offsets transmits_def)

lemma transmits_set_divisor [simp]: "transmits off (set_divisor o' b u) = transmits off u"
  by (simp add: transmits_def)

lemma tx_byte_accepts:
  "uart_inv u \<Longrightarrow> accepts t \<Longrightarrow>
   tx_byte b u t = Inr (u\<lparr>u_tx_buf := (u_tx_buf u)[0 := b]\<rparr>, map_option (sent b) t)"
  by (cases t)
     (auto simp: tx_byte_None accepts_def sent_def neq_Nil_conv intro!: tx_byte_Some[THEN trans])

lemma uart_write_cases:
  assumes "uart_inv u" "irq_fd_ok irq" "bs \<noteq> []" "transmits off u \<Longrightarrow> accepts t"
  shows "\<exists>u' irq'. uart_write bs off sz (u, t, irq) =
       Inr (u', if transmits off u then map_option (sent (hd bs)) t else t, irq') \<and>
     iir_only (after_write off (hd bs) u) u' \<and> uart_inv u' \<and> irq_fd_ok irq'"
proof -
  let ?v = "set_divisor off (hd bs) u" and ?w = "after_write off (hd bs) u"
  let ?t = "if transmits off u then map_option (sent (hd bs)) t else t"
  have w: "uart_inv ?w" and v: "uart_inv ?v" using assms(1) by (simp_all add: after_write_inv)
  obtain u' irq' where up: "update_irq (?w, ?t, irq) = Inr (u', ?t, irq')"
    "iir_only ?w u'" "irq_fd_ok irq'"
    using update_irq_ok[OF w assms(2)] by blast
  have hd: "arr_get bs 0 = Inr (hd bs)" using assms(3) by (simp add: hd_conv_nth)
  have len: "length (u_rx_buf u) = 64" using assms(1) by (simp add: uart_inv_def)
  have other: "set_divisor off b u = u" "?w = u" if "off \<notin> {DATA, IER, FCR, LCR, MCR, SCR}" for b
    using that by (auto simp: set_divisor_def after_write_def Let_def uart_offsets transmits_def)
  have data: "transmits off u \<Longrightarrow> tx_byte (hd bs) ?v t = Inr (?w, ?t)"
    using tx_byte_accepts[OF v assms(4)] by (simp add: after_write_def Let_def)
  have loop: "off = DATA \<Longrightarrow> \<not> transmits off u \<Longrightarrow> u_mcr u AND MCR_LOOP_BIT \<noteq> 0 \<and> rx_push (hd bs) ?v = ?w"
    by (auto simp: transmits_def after_write_def Let_def)
  have "uart_write bs off sz (u, t, irq) = update_irq (?w, ?t, irq)"
  proof (cases "off \<in> {DATA, IER, FCR, LCR, MCR, SCR}")
    case False
    then show ?thesis
      using other(2)[OF False] other(1)[OF False, of 0] False
      by (auto simp: uart_write_def Let_def transmits_def)
  next
    case True
    show ?thesis
    proof (cases "off = DATA")
      case d: True
      show ?thesis
        using d hd len data loop
        by (cases "transmits off u") (auto simp: uart_write_def transmits_def FIFO_LEN_def word_less_nat_alt)
    next
      case False
      then show ?thesis
        using True hd
        by (auto simp: uart_write_def transmits_def after_write_def Let_def uart_offsets)
    qed
  qed
  then show ?thesis using up w by (auto simp: iir_only_simps)
qed

text \<open>A port with no terminal behind it (ttyS1 to ttyS3) serves every access.\<close>

abbreviation detached_inv :: "uart_state \<Rightarrow> bool" where
  "detached_inv s \<equiv> uart_inv (fst s) \<and> fst (snd s) = None \<and> irq_fd_ok (snd (snd s))"

lemma uart_read_length: "uart_read off sz s = Inr (buf, s') \<Longrightarrow> length buf = unat sz"
  by (cases s)
     (auto simp: uart_read_def uart_read_reg_def Let_def arr_set_zero_buf_eq split: if_splits)

lemma uart_read_empty:
  "uart_inv u \<Longrightarrow> irq_fd_ok irq \<Longrightarrow> uart_read off 0 (u, t, irq) = Inr (buf, s') \<Longrightarrow>
   uart_state_inv s' \<and> fst (snd s') = t"
  by (auto simp: uart_read_def uart_read_reg_def Let_def arr_set_zero_buf_eq split: if_splits
      dest!: update_irq_inv)

lemma uart_write_empty:
  assumes "uart_inv u" "irq_fd_ok irq" "uart_write [] off sz (u, t, irq) = Inr s'"
  shows "uart_state_inv s' \<and> fst (snd s') = t"
proof -
  have off: "off \<notin> {DATA, IER, FCR, LCR, MCR, SCR}"
    using assms(3) by (auto simp: uart_write_def arr_get_def split: if_splits)
  then have "set_divisor off 0 u = u"
    by (auto simp: set_divisor_def uart_offsets)
  with off assms show ?thesis
    by (auto simp: uart_write_def Let_def dest!: update_irq_inv split: if_splits)
qed

interpretation detached_uart: total_port_device uart_read uart_write detached_inv
proof (unfold_locales, goal_cases)
  case (1 off sz d buf d') then show ?case by (rule uart_read_length)
next
  case (2 d off sz buf d')
  then show ?case
    using uart_read_cases[of "fst d" "snd (snd d)" sz off "fst (snd d)"]
      uart_read_empty[of "fst d" "snd (snd d)" off "fst (snd d)" buf d']
    by (cases d; cases "sz = 0") auto
next
  case (3 d bs off sz d')
  then show ?case
    using uart_write_cases[of "fst d" "snd (snd d)" bs off "fst (snd d)" sz]
      uart_write_empty[of "fst d" "snd (snd d)" off sz "fst (snd d)" d']
    by (cases d; cases "bs = []") (auto simp: accepts_def)
next
  case (4 d sz off)
  then show ?case
    using uart_read_cases[of "fst d" "snd (snd d)" sz off "fst (snd d)"] by (cases d) auto
next
  case (5 d bs off sz)
  then show ?case
    using uart_write_cases[of "fst d" "snd (snd d)" bs off "fst (snd d)" sz]
    by (cases d) (auto simp: accepts_def)
qed

section \<open>Serial output\<close>

text \<open>
  What the code sends: the first byte of every write to the data register while the modem control
  register does not select loopback. A longer write loses its other bytes and a write to the divisor
  latch is sent as well.
\<close>

fun tx_bytes :: "u8 \<Rightarrow> access list \<Rightarrow> u8 list" where
  "tx_bytes mcr [] = []"
| "tx_bytes mcr (Read off sz # as) = tx_bytes mcr as"
| "tx_bytes mcr (Write bs off sz # as) =
     (if off = DATA \<and> mcr AND MCR_LOOP_BIT = 0 then [hd bs] else []) @
     tx_bytes (if off = MCR then hd bs else mcr) as"

lemma uart_run_output:
  assumes "uart_inv u" "irq_fd_ok irq" "list_all access_ok as"
    and "term_writes tm = replicate n 1" "length (tx_bytes (u_mcr u) as) \<le> n"
  shows "\<exists>bufs u' tm' irq'.
     run_accesses uart_read uart_write as (u, Some tm, irq) = Inr (bufs, u', Some tm', irq') \<and>
     term_out tm' = term_out tm @ tx_bytes (u_mcr u) as \<and>
     term_writes tm' = replicate (n - length (tx_bytes (u_mcr u) as)) 1 \<and> uart_inv u' \<and> irq_fd_ok irq'"
  using assms
proof (induction as arbitrary: u tm irq n)
  case Nil
  then show ?case by simp
next
  case (Cons a as)
  show ?case
  proof (cases a)
    case (Read off sz)
    then obtain buf v irq' where r: "uart_read off sz (u, Some tm, irq) = Inr (buf, v, Some tm, irq')"
      "uart_inv v" "irq_fd_ok irq'" "u_mcr v = u_mcr u"
      using uart_read_cases[of u irq sz off "Some tm"] Cons.prems by auto
    with Cons.IH[of v irq' tm n] Cons.prems Read show ?thesis by fastforce
  next
    case (Write bs off sz)
    let ?tr = "transmits off u"
    let ?tm = "if ?tr then sent (hd bs) tm else tm"
    have acc: "?tr \<Longrightarrow> accepts (Some tm)"
      using Cons.prems Write by (cases n) (auto simp: accepts_def transmits_def)
    obtain v irq' where w: "uart_write bs off sz (u, Some tm, irq) = Inr (v, Some ?tm, irq')"
      "iir_only (after_write off (hd bs) u) v" "uart_inv v" "irq_fd_ok irq'"
      using uart_write_cases[OF Cons.prems(1,2), of bs off "Some tm" sz] acc Cons.prems(3) Write
      by (auto split: if_splits)
    have mcr: "u_mcr v = (if off = MCR then hd bs else u_mcr u)"
      using w(2) by (simp add: iir_only_simps after_write_mcr)
    have "term_writes ?tm = replicate (if ?tr then n - 1 else n) 1"
      using Cons.prems(4) by (cases n) (auto simp: sent_def)
    moreover have "length (tx_bytes (u_mcr v) as) \<le> (if ?tr then n - 1 else n)"
      using Cons.prems(5) Write mcr by (auto simp: transmits_def)
    ultimately obtain bufs u' tm' irq'' where
      "run_accesses uart_read uart_write as (v, Some ?tm, irq') = Inr (bufs, u', Some tm', irq'')"
      "term_out tm' = term_out ?tm @ tx_bytes (u_mcr v) as"
      "term_writes tm' = replicate ((if ?tr then n - 1 else n) - length (tx_bytes (u_mcr v) as)) 1"
      "uart_inv u'" "irq_fd_ok irq''"
      using Cons.IH[OF w(3,4), of ?tm] Cons.prems(3) by fastforce
    moreover have "term_out ?tm = term_out tm @
        (if off = DATA \<and> u_mcr u AND MCR_LOOP_BIT = 0 then [hd bs] else [])"
      by (simp add: sent_def transmits_def)
    ultimately show ?thesis using w(1) Write mcr by (auto simp: transmits_def)
  qed
qed

text \<open>
  What a serial port promises: every byte written to the data register goes out, unless loopback is
  selected or the divisor latch is open, when the data register is not there to be written. The two
  agree on programs that write one byte at a time and do not program the latch's low byte.
\<close>

fun serial_output :: "bool \<Rightarrow> bool \<Rightarrow> access list \<Rightarrow> u8 list" where
  "serial_output loop latch [] = []"
| "serial_output loop latch (Read off sz # as) = serial_output loop latch as"
| "serial_output loop latch (Write bs off sz # as) =
     (if off = DATA \<and> \<not> loop \<and> \<not> latch then bs else []) @
     serial_output (if off = MCR then bit (last bs) 4 else loop) (if off = LCR then bit (last bs) 7 else latch) as"

fun bytewise :: "bool \<Rightarrow> access list \<Rightarrow> bool" where
  "bytewise latch [] \<longleftrightarrow> True"
| "bytewise latch (Read off sz # as) \<longleftrightarrow> sz \<noteq> 0 \<and> bytewise latch as"
| "bytewise latch (Write bs off sz # as) \<longleftrightarrow>
     length bs = 1 \<and> (off = DATA \<longrightarrow> \<not> latch) \<and> bytewise (if off = LCR then bit (hd bs) 7 else latch) as"

lemma loop_bit: "bit (b :: u8) 4 \<longleftrightarrow> b AND MCR_LOOP_BIT \<noteq> 0"
  by (simp add: MCR_LOOP_BIT_def and_exp_eq_0_iff_not_bit[of b 4, simplified])

lemma bytewise_ok: "bytewise latch as \<Longrightarrow> list_all access_ok as"
  by (induction latch as rule: bytewise.induct) auto

lemma bytewise_output:
  "bytewise latch as \<Longrightarrow> tx_bytes mcr as = serial_output (mcr AND MCR_LOOP_BIT \<noteq> 0) latch as"
proof (induction latch as arbitrary: mcr rule: bytewise.induct)
  case (3 latch bs off sz as)
  then obtain b where "bs = [b]" by (cases bs) auto
  with 3 show ?case by (auto simp: loop_bit)
qed simp_all

section \<open>Bursts through the loopback\<close>

lemma rx_contents_iir: "iir_only u u' \<Longrightarrow> rx_contents u' = rx_contents u \<and> rx_room u' = rx_room u"
  by (simp add: iir_only_simps)

lemma loop_write:
  assumes "uart_inv u" "irq_fd_ok irq" "is_loop u" "\<not> is_dlab_set u"
  shows "\<exists>u' irq'. uart_write [x] DATA 1 (u, t, irq) = Inr (u', t, irq') \<and> iir_only (rx_push x u) u' \<and>
     uart_inv u' \<and> irq_fd_ok irq' \<and> is_loop u' \<and> \<not> is_dlab_set u'"
proof -
  have nt: "\<not> transmits DATA u" using assms(3) by (simp add: transmits_def is_loop_def)
  moreover have "set_divisor DATA x u = u" using assms(4) by (simp add: set_divisor_def)
  ultimately have aw: "after_write DATA x u = rx_push x u" by (simp add: after_write_def)
  from uart_write_cases[OF assms(1,2), of "[x]" DATA t 1] nt aw obtain u' irq' where
    "uart_write [x] DATA 1 (u, t, irq) = Inr (u', t, irq')" "iir_only (rx_push x u) u'"
    "uart_inv u'" "irq_fd_ok irq'" by auto
  moreover have "is_loop u'" "\<not> is_dlab_set u'"
    using calculation(2) assms(3,4) by (auto simp: iir_only_simps is_loop_def is_dlab_set_def)
  ultimately show ?thesis by blast
qed

lemma loop_writes:
  assumes "uart_inv u" "irq_fd_ok irq" "is_loop u" "\<not> is_dlab_set u" "length xs \<le> rx_room u"
  shows "\<exists>u' irq'. (\<forall>as. run_accesses uart_read uart_write (map (\<lambda>x. Write [x] DATA 1) xs @ as) (u, t, irq) =
       run_accesses uart_read uart_write as (u', t, irq')) \<and>
     rx_contents u' = rx_contents u @ xs \<and>
     uart_inv u' \<and> irq_fd_ok irq' \<and> is_loop u' \<and> \<not> is_dlab_set u'"
  using assms
proof (induction xs arbitrary: u irq)
  case (Cons x xs)
  from loop_write[OF Cons.prems(1-4)] obtain v irq' where
    w: "uart_write [x] DATA 1 (u, t, irq) = Inr (v, t, irq')" "iir_only (rx_push x u) v"
    "uart_inv v" "irq_fd_ok irq'" "is_loop v" "\<not> is_dlab_set v" by blast
  have r: "0 < rx_room u" using Cons.prems(5) by simp
  have v: "rx_contents v = rx_contents u @ [x]" "rx_room v = rx_room u - 1"
    using rx_contents_iir[OF w(2)] rx_push_contents[OF Cons.prems(1) r] by simp_all
  with Cons.IH[OF w(3-6)] Cons.prems(5) w(1) show ?case by fastforce
qed auto

lemma data_reads:
  assumes "uart_inv u" "irq_fd_ok irq" "\<not> is_dlab_set u" "n \<le> length (rx_contents u)"
  shows "\<exists>s'. run_accesses uart_read uart_write (replicate n (Read DATA 1)) (u, t, irq) =
     Inr (map (\<lambda>x. [x]) (take n (rx_contents u)), s')"
  using assms
proof (induction n arbitrary: u irq)
  case (Suc n)
  then obtain x xs where c: "rx_contents u = x # xs" by (cases "rx_contents u") auto
  from uart_read_plain[OF Suc.prems(1,2), of 1 DATA t] Suc.prems(3) obtain v irq' where
    r: "uart_read DATA 1 (u, t, irq) = Inr (byte_reply 1 (reg_value DATA u), v, t, irq')"
    "iir_only (after_read DATA u) v" "uart_inv v" "irq_fd_ok irq'" by auto
  have v: "rx_contents v = xs" "reg_value DATA u = x"
    using rx_pop_contents[OF Suc.prems(1) c] r(2)
    by (simp_all add: iir_only_simps after_read_def reg_value_def)
  have "\<not> is_dlab_set v"
    using r(2) Suc.prems(3) by (simp add: iir_only_simps is_dlab_set_def)
  with Suc.IH[OF r(3,4)] v r(1) c Suc.prems(4) show ?case by fastforce
qed simp

lemma data_drain:
  assumes "uart_inv u" "irq_fd_ok irq" "\<not> is_dlab_set u"
  shows "\<exists>u' irq'. run_accesses uart_read uart_write (replicate (length (rx_contents u)) (Read DATA 1)) (u, t, irq) =
     Inr (map (\<lambda>x. [x]) (rx_contents u), u', t, irq') \<and> u_lsr u' AND LSR_DATA_BIT = 0"
  using assms
proof (induction "rx_contents u" arbitrary: u irq)
  case Nil
  then have "u_lsr u AND LSR_DATA_BIT = 0"
    using rx_contents_empty[OF Nil.prems(1)] by (auto simp: uart_inv_def LSR_DATA_BIT_def)
  with Nil show ?case by (metis list.size(3) list.simps(8) replicate_0 run_accesses.simps(1))
next
  case (Cons x xs)
  from uart_read_plain[OF Cons.prems(1,2), of 1 DATA t] Cons.prems(3) obtain v irq' where
    r: "uart_read DATA 1 (u, t, irq) = Inr (byte_reply 1 (reg_value DATA u), v, t, irq')"
    "iir_only (after_read DATA u) v" "uart_inv v" "irq_fd_ok irq'" by auto
  have v: "rx_contents v = xs" "reg_value DATA u = x"
    using rx_pop_contents[OF Cons.prems(1) Cons.hyps(2)[symmetric]] r(2)
    by (simp_all add: iir_only_simps after_read_def reg_value_def)
  have "\<not> is_dlab_set v"
    using r(2) Cons.prems(3) by (simp add: iir_only_simps is_dlab_set_def)
  with Cons.hyps(1)[OF v(1)[symmetric] r(3,4)] v r(1) Cons.hyps(2)[symmetric] show ?case by fastforce
qed

section \<open>Terminal input\<close>

definition ready :: "int \<times> u16" where "ready = (1, POLLIN)"

lemma rx_fill_bytes:
  assumes "uart_inv u" "length xs \<le> rx_room u"
    and "term_polls t = replicate (length xs) ready @ (0, 0) # ps" "term_reads t = map RdByte xs @ rs"
  shows "\<exists>u'. rx_fill u t = Inr (u', t\<lparr>term_polls := ps, term_reads := rs\<rparr>) \<and>
     rx_contents u' = rx_contents u @ xs \<and> uart_inv u' \<and>
     is_loop u' = is_loop u \<and> is_dlab_set u' = is_dlab_set u"
  using assms
proof (induction xs arbitrary: u t)
  case Nil
  then show ?case by (subst rx_fill.simps) (simp add: readable_def)
next
  case (Cons x xs)
  have less: "u_rx_cnt u < FIFO_LEN" and room: "0 < rx_room u"
    using Cons.prems(2) by (auto simp: rx_room_def FIFO_LEN_def word_less_nat_alt)
  have n: "unat (u_rx_cnt u) < length (u_rx_buf u)"
    using less Cons.prems(1) by (simp add: uart_inv_def FIFO_LEN_def word_less_nat_alt)
  let ?t = "t\<lparr>term_polls := replicate (length xs) ready @ (0, 0) # ps,
              term_reads := map RdByte xs @ rs\<rparr>"
  have rd: "readable t = Inr (True, t\<lparr>term_polls := replicate (length xs) ready @ (0, 0) # ps\<rparr>)"
    using Cons.prems(3) by (simp add: readable_def ready_def POLLIN_def)
  have gt: "get (t\<lparr>term_polls := replicate (length xs) ready @ (0, 0) # ps\<rparr>) = Inr (uint x, ?t)"
    using Cons.prems(4) by (simp add: get_def)
  have step: "rx_fill u t = rx_fill (rx_push x u) ?t"
    using less n by (subst rx_fill.simps) (simp add: rd gt rx_push_def)
  have "length xs \<le> rx_room (rx_push x u)"
    using Cons.prems(2) rx_push_contents(2)[OF Cons.prems(1) room, of x] by simp
  from Cons.IH[OF rx_push_inv[OF Cons.prems(1)] this, of ?t] obtain u' where
    "rx_fill (rx_push x u) ?t = Inr (u', ?t\<lparr>term_polls := ps, term_reads := rs\<rparr>)"
    "rx_contents u' = rx_contents (rx_push x u) @ xs" "uart_inv u'"
    "is_loop u' = is_loop (rx_push x u)" "is_dlab_set u' = is_dlab_set (rx_push x u)" by auto
  moreover have "is_loop (rx_push x u) = is_loop u" "is_dlab_set (rx_push x u) = is_dlab_set u"
    by (simp_all add: rx_push_def is_loop_def is_dlab_set_def Let_def)
  ultimately show ?case
    using step rx_push_contents(1)[OF Cons.prems(1) room, of x] by simp
qed

section \<open>The divisor latch\<close>

lemma divisor_bytes:
  fixes d :: u16 and lo hi :: u8
  shows "(ucast ((((d AND 0xff00) OR ucast lo) AND 0x00ff) OR push_bit 8 (ucast hi)) :: u8) = lo"
    and "(ucast (drop_bit 8 ((((d AND 0xff00) OR ucast lo) AND 0x00ff) OR push_bit 8 (ucast hi))) :: u8) = hi"
proof -
  have m: "(0xff00 :: u16) = push_bit 8 (mask 8)" "(0x00ff :: u16) = mask 8"
    by (simp_all add: mask_eq_exp_minus_1)
  show "(ucast ((((d AND 0xff00) OR ucast lo) AND 0x00ff) OR push_bit 8 (ucast hi)) :: u8) = lo"
    unfolding m by (rule bit_word_eqI) (auto simp: bit_simps)
  show "(ucast (drop_bit 8 ((((d AND 0xff00) OR ucast lo) AND 0x00ff) OR push_bit 8 (ucast hi))) :: u8) = hi"
    unfolding m by (rule bit_word_eqI) (auto simp: bit_simps dest: bit_imp_le_length)
qed

lemma set_divisor_dlab: "is_dlab_set (set_divisor off b u) = is_dlab_set u"
  by (simp add: set_divisor_def is_dlab_set_def)

lemma latch_write_low:
  assumes "uart_inv u" "irq_fd_ok irq" "is_dlab_set u" "\<not> is_loop u" "term_writes tm = 1 # rets"
  shows "\<exists>u' irq'. uart_write [lo] DLAB_LOW 1 (u, Some tm, irq) = Inr (u', Some (sent lo tm), irq') \<and>
     u_baud_divisor u' = (u_baud_divisor u AND 0xff00) OR ucast lo \<and> is_dlab_set u' \<and>
     uart_inv u' \<and> irq_fd_ok irq'"
proof -
  have tr: "transmits DATA u" using assms(4) by (simp add: transmits_def is_loop_def)
  have "u_baud_divisor (after_write DATA lo u) = (u_baud_divisor u AND 0xff00) OR ucast lo"
    "is_dlab_set (after_write DATA lo u)"
    using tr assms(3)
    by (simp_all add: after_write_def set_divisor_def uart_offsets is_dlab_set_def Let_def transmits_def)
  with uart_write_cases[OF assms(1,2), of "[lo]" DATA "Some tm" 1] tr assms(5) show ?thesis
    by (fastforce simp: iir_only_simps accepts_def DLAB_LOW_def DATA_def)
qed

lemma latch_write_high:
  assumes "uart_inv u" "irq_fd_ok irq" "is_dlab_set u"
  shows "\<exists>u' irq'. uart_write [hi] DLAB_HIGH 1 (u, t, irq) = Inr (u', t, irq') \<and>
     u_baud_divisor u' = (u_baud_divisor u AND 0x00ff) OR push_bit 8 (ucast hi) \<and> is_dlab_set u' \<and>
     u_ier u' = hi AND IER_FIFO_BITS \<and> uart_inv u' \<and> irq_fd_ok irq'"
proof -
  have tr: "\<not> transmits IER u" by (simp add: transmits_def uart_offsets)
  have "u_baud_divisor (after_write IER hi u) = (u_baud_divisor u AND 0x00ff) OR push_bit 8 (ucast hi)"
    "is_dlab_set (after_write IER hi u)" "u_ier (after_write IER hi u) = hi AND IER_FIFO_BITS"
    using tr assms(3)
    by (simp_all add: after_write_def set_divisor_def uart_offsets is_dlab_set_def transmits_def Let_def)
  with uart_write_cases[OF assms(1,2), of "[hi]" IER t 1] tr show ?thesis
    by (fastforce simp: iir_only_simps DLAB_HIGH_def IER_def)
qed

section \<open>Properties\<close>

lemma uart_new_inv:
  "length rj = 64 \<Longrightarrow> length tj = 64 \<Longrightarrow> uart_inv (uart_new rj tj st)"
  by (simp add: uart_inv_def uart_new_def uart_bits)

text \<open>The freshly built port on which the examples run.\<close>

abbreviation fresh_uart :: "u8 \<Rightarrow> uart" where
  "fresh_uart junk \<equiv> uart_new (replicate 64 0) (replicate 64 0) (\<lambda>_. junk)"

lemma fresh_uart_simps [simp]:
  "uart_inv (fresh_uart j)" "u_mcr (fresh_uart j) = 0x08" "u_ier (fresh_uart j) = 0"
  "u_lcr (fresh_uart j) = 0" "u_lsr (fresh_uart j) = 0x60" "u_stack (fresh_uart j) n = j"
  "rx_contents (fresh_uart j) = []" "rx_room (fresh_uart j) = 64"
  "rx_contents (fresh_uart j\<lparr>u_mcr := m\<rparr>) = []" "rx_room (fresh_uart j\<lparr>u_mcr := m\<rparr>) = 64"
  by (simp_all add: uart_new_inv) (simp_all add: uart_new_def uart_bits rx_contents_def rx_room_def)

text \<open>C15: Serial output is complete and in order. For every guest program that writes one byte at a
  time, to any registers, and leaves the data register alone while the divisor latch is open,
  standard output receives every byte written to the data register outside loopback mode, one write
  call each, and nothing else; and the program runs to its end. Nothing is lost, reordered or
  duplicated, whatever the other registers and the uninitialised interrupt identification hold.\<close>

theorem uart_output_exact:
  assumes "uart_inv u" "irq_fd_ok irq" "bytewise (is_dlab_set u) as"
    and "term_writes tm = replicate n 1"
    and "length (serial_output (is_loop u) (is_dlab_set u) as) \<le> n"
  shows "\<exists>bufs u' tm' irq'.
     run_accesses uart_read uart_write as (u, Some tm, irq) = Inr (bufs, u', Some tm', irq') \<and>
     term_out tm' = term_out tm @ serial_output (is_loop u) (is_dlab_set u) as \<and>
     term_writes tm' = replicate (n - length (serial_output (is_loop u) (is_dlab_set u) as)) 1"
proof -
  have tx: "tx_bytes (u_mcr u) as = serial_output (is_loop u) (is_dlab_set u) as"
    using bytewise_output[OF assms(3)] by (simp add: is_loop_def)
  from uart_run_output[OF assms(1,2) bytewise_ok[OF assms(3)] assms(4), unfolded tx, OF assms(5)]
  show ?thesis by blast
qed

theorem uart_output_exact_witness:
  "\<exists>bufs u' tm' irq'. run_accesses uart_read uart_write
       [Write [0x48] DATA 1, Read LSR 1, Write [0x10] MCR 1, Write [0x58] DATA 1, Write [0] MCR 1,
        Write [0x69] DATA 1]
       (fresh_uart 7, Some \<lparr>term_writes = [1, 1], term_reads = [], term_polls = [], term_out = []\<rparr>,
        interrupt_new 4 True) = Inr (bufs, u', Some tm', irq') \<and> term_out tm' = [0x48, 0x69]"
proof -
  let ?as = "[Write [0x48] DATA 1, Read LSR 1, Write [0x10] MCR 1, Write [0x58] DATA 1,
    Write [0] MCR 1, Write [0x69] DATA 1]"
  let ?tm = "\<lparr>term_writes = [1, 1], term_reads = [], term_polls = [], term_out = []\<rparr>"
  have tx: "serial_output (is_loop (fresh_uart 7)) (is_dlab_set (fresh_uart 7)) ?as = [0x48, 0x69]"
    "bytewise (is_dlab_set (fresh_uart 7)) ?as"
    by (simp_all add: uart_offsets is_loop_def is_dlab_set_def MCR_LOOP_BIT_def bit_numeral_rec)
  have "term_writes ?tm = replicate 2 1" by (simp add: numeral_2_eq_2)
  then show ?thesis
    using uart_output_exact[of "fresh_uart 7" "interrupt_new 4 True" ?as ?tm 2] tx(2) unfolding tx(1) by auto
qed

text \<open>C17: Loopback round trip: a burst that fits the receive buffer, written to the data register in
  loopback mode, is read back byte for byte in the same order.\<close>

theorem uart_loopback_roundtrip:
  assumes "uart_inv u" "irq_fd_ok irq" "is_loop u" "\<not> is_dlab_set u"
    and "rx_contents u = []" "length xs \<le> rx_room u"
  shows "\<exists>s'. run_accesses uart_read uart_write
       (map (\<lambda>x. Write [x] DATA 1) xs @ replicate (length xs) (Read DATA 1)) (u, t, irq) =
     Inr (map (\<lambda>x. [x]) xs, s')"
proof -
  obtain u' irq' where w: "\<And>as. run_accesses uart_read uart_write (map (\<lambda>x. Write [x] DATA 1) xs @ as) (u, t, irq)
        = run_accesses uart_read uart_write as (u', t, irq')"
    "rx_contents u' = xs" "uart_inv u'" "irq_fd_ok irq'" "\<not> is_dlab_set u'"
    using loop_writes[OF assms(1-4,6)] assms(5) by fastforce
  then show ?thesis
    using data_reads[OF w(3-5), of "length xs" t] by simp
qed

theorem uart_loopback_roundtrip_witness:
  "\<exists>s'. run_accesses uart_read uart_write
       (map (\<lambda>x. Write [x] DATA 1) [1, 2, 3] @ replicate (length [1, 2, 3 :: u8]) (Read DATA 1))
       (fresh_uart 0\<lparr>u_mcr := 0x10\<rparr>, None, interrupt_new 4 True) = Inr (map (\<lambda>x. [x]) [1, 2, 3], s')"
  by (rule uart_loopback_roundtrip) (simp_all add: is_loop_def is_dlab_set_def uart_bits)

text \<open>C16: Terminal input, from the keyboard to the guest's instructions: when the receive buffer is
  empty and the terminal has up to 64 bytes ready, \<^verbatim>\<open>write_stdio\<close> takes all of them, leaves the rest
  of the input unread and reports data ready; the guest then reads the data register and gets exactly
  these bytes in the order they were typed, after which the status says that no data is left. While
  they wait, \<^verbatim>\<open>write_stdio\<close> takes no further input.\<close>

theorem uart_input_in_order:
  assumes "uart_inv u" "irq_fd_ok irq" "\<not> is_loop u" "\<not> is_dlab_set u" "rx_contents u = []"
    and "length xs \<le> 64" "xs \<noteq> []"
    and "term_polls tm = replicate (length xs) (1, POLLIN) @ (0, 0) # ps"
    and "term_reads tm = map RdByte xs @ rs"
  shows "\<exists>u' tm' irq'. write_stdio (u, Some tm, irq) = Inr (1, u', Some tm', irq') \<and>
     term_reads tm' = rs \<and> u_lsr u' AND LSR_DATA_BIT \<noteq> 0 \<and>
     (\<exists>u'' irq''. run_accesses uart_read uart_write (replicate (length xs) (Read DATA 1)) (u', Some tm', irq') =
        Inr (map (\<lambda>x. [x]) xs, u'', Some tm', irq'') \<and> u_lsr u'' AND LSR_DATA_BIT = 0) \<and>
     (\<exists>u'' irq''. write_stdio (u', Some tm', irq') = Inr (0, u'', Some tm', irq''))"
proof -
  let ?tm = "tm\<lparr>term_polls := ps, term_reads := rs\<rparr>"
  have c0: "u_rx_cnt u = 0" "u_lsr u AND LSR_DATA_BIT = 0"
    using assms(1,5) rx_contents_empty[OF assms(1)] by (auto simp: uart_inv_def LSR_DATA_BIT_def)
  obtain v where v: "rx_fill u tm = Inr (v, ?tm)" "rx_contents v = xs" "uart_inv v"
      "is_loop v = is_loop u" "is_dlab_set v = is_dlab_set u"
    using rx_fill_bytes[OF assms(1), of xs tm ps rs] assms c0(1) by (auto simp: rx_room_def ready_def)
  obtain u' irq' where w: "update_irq (v, Some ?tm, irq) = Inr (u', Some ?tm, irq')" "iir_only v u'"
      "irq_fd_ok irq'"
    using update_irq_ok[OF v(3) assms(2)] by blast
  have inv: "uart_inv u'" using v(3) w(2) by (simp add: iir_only_simps uart_inv_def)
  have cnt: "u_rx_cnt v \<noteq> 0" using v(2) assms(7) by (auto simp: rx_contents_def)
  then have lsr: "u_lsr v AND LSR_DATA_BIT \<noteq> 0" using v(3) by (simp add: uart_inv_def LSR_DATA_BIT_def)
  have u': "rx_contents u' = xs" "\<not> is_dlab_set u'" "\<not> is_loop u'" "u_lsr u' = u_lsr v"
    using w(2) v(2,4,5) assms(3,4) by (auto simp: iir_only_simps is_loop_def is_dlab_set_def)
  have drain: "\<exists>u'' irq''. run_accesses uart_read uart_write (replicate (length xs) (Read DATA 1)) (u', Some ?tm, irq') =
        Inr (map (\<lambda>x. [x]) xs, u'', Some ?tm, irq'') \<and> u_lsr u'' AND LSR_DATA_BIT = 0"
    using data_drain[OF inv w(3) u'(2), of "Some ?tm"] unfolding u'(1) .
  have again: "\<exists>u'' irq''. write_stdio (u', Some ?tm, irq') = Inr (0, u'', Some ?tm, irq'')"
    using update_irq_ok[OF inv w(3), of "Some ?tm"] u'(3,4) lsr by (fastforce simp: write_stdio_def is_loop_def)
  have "write_stdio (u, Some tm, irq) = Inr (1, u', Some ?tm, irq')"
    using v(1) w(1) c0 assms(3) by (simp add: write_stdio_def is_loop_def)
  with drain again u'(4) lsr show ?thesis by fastforce
qed

theorem uart_input_in_order_witness:
  "\<exists>u' tm' irq'. write_stdio (fresh_uart 0,
      Some \<lparr>term_writes = [], term_reads = [RdByte 0x6c, RdByte 0x73, RdByte 0x0a],
            term_polls = [(1, POLLIN), (1, POLLIN), (0, 0)], term_out = []\<rparr>, interrupt_new 4 True) =
      Inr (1, u', Some tm', irq') \<and> term_reads tm' = [RdByte 0x0a] \<and>
      (\<exists>s. run_accesses uart_read uart_write [Read DATA 1, Read DATA 1] (u', Some tm', irq') =
         Inr ([[0x6c], [0x73]], s))"
proof -
  let ?tm = "\<lparr>term_writes = [], term_reads = [RdByte 0x6c, RdByte 0x73, RdByte 0x0a],
            term_polls = [(1, POLLIN), (1, POLLIN), (0, 0)], term_out = []\<rparr>"
  have "\<not> is_loop (fresh_uart 0)" "\<not> is_dlab_set (fresh_uart 0)"
    "term_polls ?tm = replicate (length [0x6c, 0x73 :: u8]) (1, POLLIN) @ (0, 0) # []"
    "term_reads ?tm = map RdByte [0x6c, 0x73] @ [RdByte 0x0a]"
    by (simp_all add: is_loop_def is_dlab_set_def uart_bits numeral_2_eq_2)
  from uart_input_in_order[OF _ _ this(1,2) _ _ _ this(3,4), of "interrupt_new 4 True"]
  show ?thesis by (fastforce simp: numeral_2_eq_2)
qed

text \<open>Programming the divisor latch works, but the access is not confined to the latch: the two
  bytes read back as written, while the low byte is also sent to the terminal and the high byte also
  lands in the interrupt enable register.\<close>

theorem uart_divisor_latch_leaks:
  assumes "uart_inv u" "irq_fd_ok irq" "is_dlab_set u" "\<not> is_loop u" "term_writes tm = 1 # rets"
  shows "\<exists>u' tm' irq'. run_accesses uart_read uart_write
       [Write [lo] DLAB_LOW 1, Write [hi] DLAB_HIGH 1, Read DLAB_LOW 1, Read DLAB_HIGH 1] (u, Some tm, irq) =
       Inr ([[lo], [hi]], u', Some tm', irq') \<and>
     term_out tm' = term_out tm @ [lo] \<and> u_ier u' = hi AND 0x0f"
proof -
  obtain v irq1 where v: "uart_write [lo] DLAB_LOW 1 (u, Some tm, irq) = Inr (v, Some (sent lo tm), irq1)"
    "u_baud_divisor v = (u_baud_divisor u AND 0xff00) OR ucast lo" "is_dlab_set v"
    "uart_inv v" "irq_fd_ok irq1"
    using latch_write_low[OF assms, of lo] by blast
  obtain w irq2 where w: "uart_write [hi] DLAB_HIGH 1 (v, Some (sent lo tm), irq1) = Inr (w, Some (sent lo tm), irq2)"
    "u_baud_divisor w = (u_baud_divisor v AND 0x00ff) OR push_bit 8 (ucast hi)" "is_dlab_set w"
    "u_ier w = hi AND IER_FIFO_BITS" "uart_inv w"
    using latch_write_high[OF v(4,5,3), of hi "Some (sent lo tm)"] by blast
  have "(ucast (u_baud_divisor w) :: u8) = lo" "(ucast (drop_bit 8 (u_baud_divisor w)) :: u8) = hi"
    using divisor_bytes[of "u_baud_divisor u" lo hi] by (simp_all only: v(2) w(2))
  then have "uart_read DLAB_LOW 1 (w, Some (sent lo tm), irq2) = Inr ([lo], w, Some (sent lo tm), irq2)"
    "uart_read DLAB_HIGH 1 (w, Some (sent lo tm), irq2) = Inr ([hi], w, Some (sent lo tm), irq2)"
    using w(3) by (simp_all add: uart_read_def Let_def uart_offsets arr_set_zero_buf del: arr_set_in)
  then show ?thesis using v(1) w(1,4) by (simp add: sent_def IER_FIFO_BITS_def)
qed

theorem uart_divisor_latch_leaks_witness:
  "\<exists>u' tm' irq'. run_accesses uart_read uart_write
       [Write [0x01] DLAB_LOW 1, Write [0x5A] DLAB_HIGH 1, Read DLAB_LOW 1, Read DLAB_HIGH 1]
       (fresh_uart 0\<lparr>u_lcr := 0x83\<rparr>,
        Some \<lparr>term_writes = [1], term_reads = [], term_polls = [], term_out = []\<rparr>, interrupt_new 4 True) =
       Inr ([[0x01], [0x5A]], u', Some tm', irq') \<and>
     term_out tm' = term_out \<lparr>term_writes = [1], term_reads = [], term_polls = [], term_out = []\<rparr> @ [0x01] \<and>
     u_ier u' = 0x5A AND 0x0f"
  by (rule uart_divisor_latch_leaks) (simp_all add: is_loop_def is_dlab_set_def uart_bits)

text \<open>The interrupt identification starts from an uninitialised local: with every interrupt source
  disabled, reading the line status reports no pending interrupt only if that garbage happens to be
  zero; any other garbage becomes the identification register and raises an interrupt.\<close>

theorem uart_spurious_interrupt:
  assumes "uart_inv u" "irq_fd_ok irq" "u_ier u = 0" "\<not> irq_state irq"
  shows "\<exists>u' irq'. uart_read LSR 1 (u, t, irq) = Inr ([u_lsr u], u', t, irq') \<and>
     u_iir u' = (if u_stack u 0 = 0 then IIR_NONE_BIT else u_stack u 0) \<and>
     irq_signals irq' = irq_signals irq + (if u_stack u 0 = 0 then 0 else 1)"
proof -
  have nd: "\<not> (is_dlab_set u \<and> LSR \<in> {DLAB_LOW, DLAB_HIGH})" "LSR \<noteq> DATA"
    by (simp_all add: uart_offsets)
  have rd: "uart_read LSR 1 (u, t, irq) = and_then (update_irq (u, t, irq)) (\<lambda>s. Inr ([u_lsr u], s))"
    using nd assms(1) by (auto simp: uart_read_def uart_read_reg_eq after_read_def reg_value_def
        uart_offsets Let_def)
  have inv: "uart_inv (u\<lparr>u_stack := s, u_iir := i\<rparr>)" for s i
    using assms(1) by (simp add: uart_inv_def)
  show ?thesis
    unfolding rd using assms
    by (auto simp: update_irq_def Let_def set_level_False set_level_True flush_tx_idle[OF inv])
qed

theorem uart_spurious_interrupt_witness:
  "\<exists>u' irq'. uart_read LSR 1 (fresh_uart 0x30, None, interrupt_new 3 True) = Inr ([0x60], u', None, irq') \<and>
     u_iir u' = 0x30 \<and> irq_signals irq' = 1"
  using uart_spurious_interrupt[of "fresh_uart 0x30" "interrupt_new 3 True" None] by simp

end
