(* ===== verification/Virtqueue.thy ===== *)
theory Virtqueue
  imports Guest_Memory
begin

text \<open>
  \<^verbatim>\<open>src/kvm/virtio/queue.h\<close> and the flags of \<^verbatim>\<open>include/vring_def.h\<close>: a split virtqueue in guest
  memory. The record holds the object's fields; the rings are read and written through the guest
  mapping at the offsets of the packed structures (\<open>descriptor_elem_t\<close> 16 bytes; \<open>avail_t\<close>
  with \<open>idx\<close> at 2 and \<open>ring\<close> at 4; \<open>used_t\<close> with \<open>idx\<close> at 2 and 8-byte elements at 4;
  \<open>used_event\<close> behind a ring of \<open>QUEUE_SIZE_MAX\<close> entries). The mutex makes every operation
  atomic between the device's threads; the memory argument is the guest memory at that moment.

  The locale \<open>request_source\<close> is what the device loops rely on: polling yields the pending
  requests in order. It is interpreted on the model of \<open>next\<close>.
\<close>

section \<open>State and layout\<close>

definition QUEUE_SIZE_MAX :: u32 where "QUEUE_SIZE_MAX = 0x200"

definition VRING_DESC_F_NEXT :: u16 where "VRING_DESC_F_NEXT = 1"
definition VRING_DESC_F_WRITE :: u16 where "VRING_DESC_F_WRITE = 2"
definition VRING_DESC_F_INDIRECT :: u16 where "VRING_DESC_F_INDIRECT = 4"
definition VIRTIO_RING_F_INDIRECT_DESC :: nat where "VIRTIO_RING_F_INDIRECT_DESC = 28"
definition VIRTIO_RING_F_EVENT_IDX :: nat where "VIRTIO_RING_F_EVENT_IDX = 29"

record queue =
  q_size :: u32
  q_desc_addr :: u64
  q_avail_addr :: u64
  q_used_addr :: u64
  q_notify :: u64
  q_last_avail :: u32
  q_ready :: bool

definition queue_new :: queue where
  "queue_new = \<lparr>q_size = 0, q_desc_addr = 0, q_avail_addr = 0, q_used_addr = 0, q_notify = 0,
                q_last_avail = 0, q_ready = False\<rparr>"

text \<open>\<^verbatim>\<open>&desc()->ring[i]\<close> and the fields of a descriptor behind a pointer.\<close>

definition desc_ptr :: "queue \<Rightarrow> u16 \<Rightarrow> u64" where
  "desc_ptr q i = q_desc_addr q + 16 * ucast i"

definition elem_addr :: "gmem \<Rightarrow> u64 \<Rightarrow> u64 res" where "elem_addr m p = load64 m p"
definition elem_len :: "gmem \<Rightarrow> u64 \<Rightarrow> u32 res" where "elem_len m p = load32 m (p + 8)"
definition elem_flags :: "gmem \<Rightarrow> u64 \<Rightarrow> u16 res" where "elem_flags m p = load16 m (p + 12)"
definition elem_next :: "gmem \<Rightarrow> u64 \<Rightarrow> u16 res" where "elem_next m p = load16 m (p + 14)"

definition avail_idx :: "gmem \<Rightarrow> queue \<Rightarrow> u16 res" where
  "avail_idx m q = load16 m (q_avail_addr q + 2)"

definition used_event :: "gmem \<Rightarrow> queue \<Rightarrow> u16 res" where
  "used_event m q = load16 m (q_avail_addr q + 4 + 2 * ucast QUEUE_SIZE_MAX)"

definition ring_mod :: "u32 \<Rightarrow> queue \<Rightarrow> u32 res" where
  "ring_mod i q = (if q_size q = 0 then Inl (UB DivideByZero) else Inr (i mod q_size q))"

section \<open>Operations\<close>

definition avail_id :: "gmem \<Rightarrow> queue \<Rightarrow> u16 res" where
  "avail_id m q =
     and_then (ring_mod (q_last_avail q - 1) q) (\<lambda>i.
     load16 m (q_avail_addr q + 4 + 2 * ucast i))"

text \<open>\<^verbatim>\<open>next\<close>: the pointer to the head descriptor, or \<open>None\<close> for \<^verbatim>\<open>nullptr\<close>.\<close>

definition queue_next :: "gmem \<Rightarrow> queue \<Rightarrow> (u64 option \<times> queue) res" where
  "queue_next m q =
     (if \<not> q_ready q then Inr (None, q)
      else and_then (avail_idx m q) (\<lambda>idx.
           if ucast idx \<le> q_last_avail q then Inr (None, q)
           else let q = q\<lparr>q_last_avail := q_last_avail q + 1\<rparr> in
                and_then (avail_id m q) (\<lambda>i. Inr (Some (desc_ptr q i), q))))"

definition pop_back :: "queue \<Rightarrow> queue" where
  "pop_back q = q\<lparr>q_last_avail := q_last_avail q - 1\<rparr>"

definition used_idx :: "gmem \<Rightarrow> queue \<Rightarrow> u16 res" where
  "used_idx m q = load16 m (q_used_addr q + 2)"

definition used_slot :: "gmem \<Rightarrow> queue \<Rightarrow> u64 res" where
  "used_slot m q =
     and_then (used_idx m q) (\<lambda>idx.
     and_then (ring_mod (ucast idx) q) (\<lambda>i.
     Inr (q_used_addr q + 4 + 8 * ucast i)))"

definition add_used :: "gmem \<Rightarrow> queue \<Rightarrow> u32 \<Rightarrow> u32 \<Rightarrow> (u16 \<times> gmem) res" where
  "add_used m q start len =
     and_then (used_slot m q) (\<lambda>p.
     and_then (store32 m (p + 4) len) (\<lambda>m.
     and_then (used_slot m q) (\<lambda>p.
     and_then (store32 m p start) (\<lambda>m.
     and_then (used_idx m q) (\<lambda>idx.
     and_then (store16 m (q_used_addr q + 2) (idx + 1)) (\<lambda>m.
     and_then (used_idx m q) (\<lambda>idx. Inr (idx, m))))))))"

definition set_notify :: "queue \<Rightarrow> queue" where
  "set_notify q = q\<lparr>q_notify := q_notify q + 1\<rparr>"

definition set_ready :: "queue \<Rightarrow> queue" where
  "set_ready q = q\<lparr>q_ready := True\<rparr>"

definition is_ready :: "queue \<Rightarrow> bool" where
  "is_ready q = q_ready q"

section \<open>Queues the guest has set up\<close>

text \<open>
  The rings lie inside guest memory, hold a power-of-two number of entries up to the maximum, and
  the used ring overlaps neither the descriptors nor the available ring.
\<close>

definition queue_ok :: "gmem \<Rightarrow> queue \<Rightarrow> bool" where
  "queue_ok m q \<longleftrightarrow>
     q_ready q \<and> q_size q \<noteq> 0 \<and> unat (q_size q) dvd 65536 \<and> q_size q \<le> QUEUE_SIZE_MAX \<and>
     in_mem m (q_desc_addr q) (16 * unat (q_size q)) \<and>
     in_mem m (q_avail_addr q) (4 + 2 * unat (q_size q)) \<and>
     in_mem m (q_used_addr q) (4 + 8 * unat (q_size q)) \<and>
     disjoint_ranges (q_used_addr q) (4 + 8 * unat (q_size q)) (q_avail_addr q) (4 + 2 * unat (q_size q)) \<and>
     disjoint_ranges (q_used_addr q) (4 + 8 * unat (q_size q)) (q_desc_addr q) (16 * unat (q_size q))"

definition peek_avail_idx :: "gmem \<Rightarrow> queue \<Rightarrow> u16" where
  "peek_avail_idx m q = peek16 m (q_avail_addr q + of_nat 2)"

definition peek_used_idx :: "gmem \<Rightarrow> queue \<Rightarrow> u16" where
  "peek_used_idx m q = peek16 m (q_used_addr q + of_nat 2)"

definition avail_entry :: "gmem \<Rightarrow> queue \<Rightarrow> nat \<Rightarrow> u16" where
  "avail_entry m q k = peek16 m (q_avail_addr q + of_nat (4 + 2 * (k mod unat (q_size q))))"

text \<open>The requests the guest has published and the device has not taken: the abstract queue.\<close>

definition pending :: "gmem \<Rightarrow> queue \<Rightarrow> u16 list" where
  "pending m q = map (avail_entry m q) [unat (q_last_avail q)..<unat (peek_avail_idx m q)]"

text \<open>The \<open>k\<close>-th completion as the driver reads it from the used ring.\<close>

definition used_entry :: "gmem \<Rightarrow> queue \<Rightarrow> nat \<Rightarrow> u32 \<times> u32" where
  "used_entry m q k =
     (let p = 4 + 8 * (k mod unat (q_size q)) in
      (peek32 m (q_used_addr q + of_nat p), peek32 m (q_used_addr q + of_nat (p + 4))))"

section \<open>Addresses\<close>

lemma ring_addr:
  "a + 4 + 8 * ucast (w :: u32) = (a :: u64) + of_nat (4 + 8 * unat w)"
  "a + 4 + 2 * ucast (w :: u32) = (a :: u64) + of_nat (4 + 2 * unat w)"
  by (simp_all add: of_nat_unat)

lemma desc_addr: "desc_ptr q i = q_desc_addr q + of_nat (16 * unat i)"
  by (simp add: desc_ptr_def of_nat_unat)

lemma word_2_of_nat: "(2 :: u64) = of_nat 2"
  by simp

lemma unat_ring_mod: "unat (i mod q_size q) = unat i mod unat (q_size q)"
  by (rule unat_mod)

lemma queue_ok_size: "queue_ok m q \<Longrightarrow> 0 < unat (q_size q)"
  by (simp add: queue_ok_def)

lemma avail_idx_ok: "queue_ok m q \<Longrightarrow> avail_idx m q = Inr (peek_avail_idx m q)"
  unfolding avail_idx_def peek_avail_idx_def word_2_of_nat
  by (rule load_le_in) (rule in_mem_sub, auto simp: queue_ok_def)

lemma used_idx_ok: "queue_ok m q \<Longrightarrow> used_idx m q = Inr (peek_used_idx m q)"
  unfolding used_idx_def peek_used_idx_def word_2_of_nat
  by (rule load_le_in) (rule in_mem_sub, auto simp: queue_ok_def)

lemma avail_id_ok:
  assumes "queue_ok m q"
  shows "avail_id m q = Inr (avail_entry m q (unat (q_last_avail q - 1)))"
proof -
  have "unat ((q_last_avail q - 1) mod q_size q) < unat (q_size q)"
    using queue_ok_size[OF assms] by (simp add: unat_ring_mod)
  then have "in_mem m (q_avail_addr q + of_nat (4 + 2 * unat ((q_last_avail q - 1) mod q_size q))) 2"
    using assms by (intro in_mem_sub[of _ _ "4 + 2 * unat (q_size q)"]) (auto simp: queue_ok_def)
  then show ?thesis
    using assms
    by (simp add: avail_id_def ring_mod_def queue_ok_def avail_entry_def ring_addr unat_ring_mod
        del: of_nat_add of_nat_mult)
qed

section \<open>Taking requests\<close>

text \<open>Polling \<open>n\<close> times, as the device loops do; \<open>None\<close> results are the idle rounds.\<close>

fun poll_n :: "('s \<Rightarrow> ('p option \<times> 's) res) \<Rightarrow> nat \<Rightarrow> 's \<Rightarrow> ('p list \<times> 's) res" where
  "poll_n nxt 0 s = Inr ([], s)"
| "poll_n nxt (Suc n) s =
     and_then (nxt s) (\<lambda>(r, s).
     and_then (poll_n nxt n s) (\<lambda>(ps, s).
     Inr ((case r of None \<Rightarrow> ps | Some p \<Rightarrow> p # ps), s)))"

locale request_source =
  fixes nxt :: "'s \<Rightarrow> ('p option \<times> 's) res"
    and waiting :: "'s \<Rightarrow> 'a list"
    and ptr :: "'s \<Rightarrow> 'a \<Rightarrow> 'p"
    and ok :: "'s \<Rightarrow> bool"
  assumes idle: "ok s \<Longrightarrow> waiting s = [] \<Longrightarrow> nxt s = Inr (None, s)"
    and take_one: "ok s \<Longrightarrow> waiting s = x # xs \<Longrightarrow>
      \<exists>s'. nxt s = Inr (Some (ptr s x), s') \<and> ok s' \<and> waiting s' = xs \<and> ptr s' = ptr s"
begin

lemma poll_n_takes:
  "ok s \<Longrightarrow> \<exists>s'. poll_n nxt n s = Inr (map (ptr s) (take n (waiting s)), s') \<and>
     ok s' \<and> waiting s' = drop n (waiting s) \<and> ptr s' = ptr s"
proof (induction n arbitrary: s)
  case (Suc n)
  show ?case
  proof (cases "waiting s")
    case Nil
    with Suc idle show ?thesis by fastforce
  next
    case (Cons x xs)
    with take_one[OF Suc.prems] obtain s' where s': "nxt s = Inr (Some (ptr s x), s')" "ok s'"
      "waiting s' = xs" "ptr s' = ptr s" by blast
    with Suc.IH[OF s'(2)] Cons show ?thesis by auto
  qed
qed simp

text \<open>Enough polls drain the source; further ones find nothing.\<close>

lemma poll_n_drains:
  assumes "ok s" "length (waiting s) \<le> n"
  shows "\<exists>s'. poll_n nxt n s = Inr (map (ptr s) (waiting s), s') \<and> nxt s' = Inr (None, s')"
  using poll_n_takes[OF assms(1), of n] assms(2) idle by auto

end

lemma unat_last_avail_Suc:
  "ucast (idx :: u16) > (la :: u32) \<Longrightarrow> unat (la + 1) = Suc (unat la)"
  by (rule unat_Suc_no_wrap)

lemma idx_compare: "ucast (idx :: u16) \<le> (la :: u32) \<longleftrightarrow> unat idx \<le> unat la"
  by (simp add: word_le_nat_alt unat_ucast_up)

lemma queue_next_empty:
  assumes "queue_ok m q" "pending m q = []"
  shows "queue_next m q = Inr (None, q)"
proof -
  have "unat (peek_avail_idx m q) \<le> unat (q_last_avail q)"
    using assms(2) by (auto simp: pending_def)
  then show ?thesis
    using avail_idx_ok[OF assms(1)] by (simp add: queue_next_def idx_compare)
qed

lemma queue_ok_last_avail [simp]:
  "queue_ok m (q\<lparr>q_last_avail := l\<rparr>) = queue_ok m q"
  by (simp add: queue_ok_def)

lemma avail_entry_last_avail [simp]:
  "avail_entry m (q\<lparr>q_last_avail := l\<rparr>) = avail_entry m q"
  "peek_avail_idx m (q\<lparr>q_last_avail := l\<rparr>) = peek_avail_idx m q"
  "desc_ptr (q\<lparr>q_last_avail := l\<rparr>) = desc_ptr q"
  by (auto simp: avail_entry_def peek_avail_idx_def desc_ptr_def)

lemma queue_next_pending:
  assumes "queue_ok m q" "pending m q = x # xs"
  shows "queue_next m q = Inr (Some (desc_ptr q x), q\<lparr>q_last_avail := q_last_avail q + 1\<rparr>)"
    and "pending m (q\<lparr>q_last_avail := q_last_avail q + 1\<rparr>) = xs"
    and "avail_id m (q\<lparr>q_last_avail := q_last_avail q + 1\<rparr>) = Inr x"
proof -
  let ?q = "q\<lparr>q_last_avail := q_last_avail q + 1\<rparr>"
  have less: "unat (q_last_avail q) < unat (peek_avail_idx m q)"
    using assms(2) by (cases "unat (q_last_avail q) < unat (peek_avail_idx m q)")
                      (auto simp: pending_def)
  then have suc: "unat (q_last_avail q + 1) = Suc (unat (q_last_avail q))"
    by (intro unat_last_avail_Suc[of _ "peek_avail_idx m q"]) (simp add: word_less_nat_alt unat_ucast_up)
  have x: "x = avail_entry m q (unat (q_last_avail q))"
    and xs: "xs = map (avail_entry m q) [Suc (unat (q_last_avail q))..<unat (peek_avail_idx m q)]"
    using assms(2) less by (auto simp: pending_def upt_conv_Cons)
  show "pending m ?q = xs"
    using suc xs by (simp add: pending_def)
  show "avail_id m ?q = Inr x"
    using avail_id_ok[of m ?q] assms(1) x by simp
  then show "queue_next m q = Inr (Some (desc_ptr q x), ?q)"
    using less assms(1) avail_idx_ok[OF assms(1)]
    by (simp add: queue_next_def idx_compare queue_ok_def)
qed

interpretation vq: request_source "queue_next m" "pending m" desc_ptr "queue_ok m" for m
  by unfold_locales (auto simp: queue_next_empty queue_next_pending)

section \<open>Publishing completions\<close>

definition completion :: "gmem \<Rightarrow> queue \<Rightarrow> u32 \<Rightarrow> u32 \<Rightarrow> gmem" where
  "completion m q start len =
     (let p = 4 + 8 * (unat (peek_used_idx m q) mod unat (q_size q)) in
      poke (poke (poke m (q_used_addr q + of_nat (p + 4)) (le_bytes 4 len))
                 (q_used_addr q + of_nat p) (le_bytes 4 start))
           (q_used_addr q + of_nat 2) (le_bytes 2 (peek_used_idx m q + 1)))"

lemma used_slot_ok:
  assumes "queue_ok m q"
  shows "used_slot m q =
    Inr (q_used_addr q + of_nat (4 + 8 * (unat (peek_used_idx m q) mod unat (q_size q))))"
  using assms
  by (simp add: used_slot_def used_idx_ok ring_mod_def queue_ok_def ring_addr unat_ring_mod
      unat_ucast_up del: of_nat_add of_nat_mult)

lemma queue_ok_poke [simp]: "queue_ok (poke m a bs) q = queue_ok m q"
  by (simp add: queue_ok_def)

lemma used_in_mem:
  assumes "queue_ok m q"
  shows "in_mem m (q_used_addr q) (4 + 8 * unat (q_size q))"
  using assms by (simp add: queue_ok_def)

lemma used_slot_bound:
  assumes "queue_ok m q"
  shows "4 + 8 * (k mod unat (q_size q)) + 8 \<le> 4 + 8 * unat (q_size q)"
  using mod_less_divisor[OF queue_ok_size[OF assms], of k] by linarith

lemma peek_used_idx_poke_slot:
  assumes "queue_ok m q" "4 \<le> i" "i + length bs \<le> 4 + 8 * unat (q_size q)"
  shows "peek_used_idx (poke m (q_used_addr q + of_nat i) bs) q = peek_used_idx m q"
  unfolding peek_used_idx_def
  by (rule peek_le_poke_field[OF used_in_mem[OF assms(1)]]) (use assms in auto)

lemma add_used_ok:
  assumes "queue_ok m q"
  shows "add_used m q start len = Inr (peek_used_idx m q + 1, completion m q start len)"
proof -
  let ?k = "unat (peek_used_idx m q) mod unat (q_size q)"
  let ?m1 = "poke m (q_used_addr q + of_nat (4 + 8 * ?k + 4)) (le_bytes 4 len)"
  let ?m2 = "poke ?m1 (q_used_addr q + of_nat (4 + 8 * ?k)) (le_bytes 4 start)"
  have b: "4 + 8 * ?k + 8 \<le> 4 + 8 * unat (q_size q)"
    by (rule used_slot_bound[OF assms])
  have m: "in_mem m (q_used_addr q + of_nat (4 + 8 * ?k + 4)) 4"
    "in_mem m (q_used_addr q + of_nat (4 + 8 * ?k)) 4"
    "in_mem m (q_used_addr q + of_nat 2) 2"
    using b by (intro in_mem_sub[OF used_in_mem[OF assms]]; linarith)+
  have i1: "peek_used_idx ?m1 q = peek_used_idx m q"
    using b by (intro peek_used_idx_poke_slot[OF assms]) auto
  then have i2: "peek_used_idx ?m2 q = peek_used_idx m q"
    using b by (subst peek_used_idx_poke_slot) (use assms in auto)
  have q1: "queue_ok ?m1 q" and q2: "queue_ok ?m2 q" using assms by simp_all
  have a: "q_used_addr q + of_nat (4 + 8 * ?k) + 4 = q_used_addr q + of_nat (4 + 8 * ?k + 4)"
    by (simp add: algebra_simps)
  have n: "used_idx (poke ?m2 (q_used_addr q + of_nat 2) (le_bytes 2 w)) q = Inr w" for w
  proof -
    have "queue_ok (poke ?m2 (q_used_addr q + of_nat 2) (le_bytes 2 w)) q" using assms by simp
    then show ?thesis by (simp only: used_idx_ok) (simp add: peek_used_idx_def)
  qed
  show ?thesis
    unfolding add_used_def used_slot_ok[OF assms] and_then_simps a store_le_in[OF m(1)]
      used_slot_ok[OF q1] i1
    using m n used_idx_ok[OF q2, unfolded i2]
    by (simp add: word_2_of_nat completion_def Let_def
        del: of_nat_add of_nat_mult of_nat_numeral)
qed

text \<open>What the driver sees of a completion: its entry, the new index, and nothing else moved.\<close>

lemma completion_idx: "peek_used_idx (completion m q start len) q = peek_used_idx m q + 1"
  by (simp add: completion_def Let_def peek_used_idx_def)

lemma queue_ok_completion [simp]: "queue_ok (completion m q start len) q' = queue_ok m q'"
  by (simp add: completion_def Let_def)

lemma used_field_frame:
  assumes "queue_ok m q" "gm_size m' = gm_size m"
    and "i + length bs \<le> 4 + 8 * unat (q_size q)" "j + k \<le> 4 + 8 * unat (q_size q)"
    and "i + length bs \<le> j \<or> j + k \<le> i"
  shows "peek_le k (poke m' (q_used_addr q + of_nat i) bs) (q_used_addr q + of_nat j) =
         peek_le k m' (q_used_addr q + of_nat j)"
  by (rule peek_le_poke_field[OF _ assms(3-5)])
     (use used_in_mem[OF assms(1)] assms(2) in \<open>simp add: in_mem_def\<close>)

lemma completion_entry_same:
  assumes "queue_ok m q"
  shows "used_entry (completion m q start len) q (unat (peek_used_idx m q)) = (start, len)"
proof -
  let ?k = "unat (peek_used_idx m q) mod unat (q_size q)"
  have b: "4 + 8 * ?k + 8 \<le> 4 + 8 * unat (q_size q)"
    by (rule used_slot_bound[OF assms])
  note frame = trans[OF used_field_frame[OF assms]]
  show ?thesis
    unfolding used_entry_def completion_def Let_def prod.inject
    by (rule conjI, rule frame, (use b in auto)[4], rule peek_le_poke_same, simp, simp,
        rule frame, (use b in auto)[4], rule frame, (use b in auto)[4], rule peek_le_poke_same) simp_all
qed

lemma completion_entry_other:
  assumes "queue_ok m q" "k mod unat (q_size q) \<noteq> unat (peek_used_idx m q) mod unat (q_size q)"
  shows "used_entry (completion m q start len) q k = used_entry m q k"
proof -
  let ?s = "unat (q_size q)"
  let ?i = "unat (peek_used_idx m q) mod ?s"
  have b: "4 + 8 * ?i + 8 \<le> 4 + 8 * ?s" "4 + 8 * (k mod ?s) + 8 \<le> 4 + 8 * ?s"
    by (rule used_slot_bound[OF assms(1)])+
  have apart: "?i < k mod ?s \<or> k mod ?s < ?i" using assms(2) by linarith
  note frame = trans[OF used_field_frame[OF assms(1)]]
  show ?thesis
    unfolding used_entry_def completion_def Let_def prod.inject
    by (intro conjI; (rule frame, (use b apart in auto)[4])+; rule refl)
qed

lemma completion_frame:
  assumes "queue_ok m q" "in_mem m b k" "j + l \<le> k"
    and "disjoint_ranges (q_used_addr q) (4 + 8 * unat (q_size q)) b k"
  shows "peek_le l (completion m q start len) (b + of_nat j) = peek_le l m (b + of_nat j)"
proof -
  have b: "4 + 8 * (unat (peek_used_idx m q) mod unat (q_size q)) + 8 \<le> 4 + 8 * unat (q_size q)"
    by (rule used_slot_bound[OF assms(1)])
  have frame: "peek_le l (poke m' (q_used_addr q + of_nat i) bs) (b + of_nat j) =
      peek_le l m' (b + of_nat j)"
    if "gm_size m' = gm_size m" "i + length bs \<le> 4 + 8 * unat (q_size q)" for m' i bs
    by (rule peek_le_poke_object[OF _ that(2) _ assms(3,4)])
       (use that(1) used_in_mem[OF assms(1)] assms(2) in \<open>simp_all add: in_mem_def\<close>)
  note frame = trans[OF frame]
  show ?thesis
    unfolding completion_def Let_def
    by (rule frame, simp, use b in simp, rule frame, simp, use b in simp, rule frame, simp,
        use b in simp) (rule refl)
qed

lemma completion_pending:
  assumes "queue_ok m q"
  shows "pending (completion m q start len) q = pending m q"
proof -
  have frame: "peek_le l (completion m q start len) (q_avail_addr q + of_nat j) =
      peek_le l m (q_avail_addr q + of_nat j)" if "j + l \<le> 4 + 2 * unat (q_size q)" for j l
    by (rule completion_frame[OF assms _ that]) (use assms in \<open>simp_all add: queue_ok_def\<close>)
  have "avail_entry (completion m q start len) q k = avail_entry m q k" for k
    unfolding avail_entry_def
    by (rule frame) (use mod_less_divisor[OF queue_ok_size[OF assms], of k] in linarith)
  moreover have "peek_avail_idx (completion m q start len) q = peek_avail_idx m q"
    unfolding peek_avail_idx_def by (rule frame) simp
  ultimately show ?thesis
    by (simp add: pending_def)
qed

section \<open>Runs of requests and completions\<close>

fun add_used_all :: "gmem \<Rightarrow> queue \<Rightarrow> (u32 \<times> u32) list \<Rightarrow> gmem res" where
  "add_used_all m q [] = Inr m"
| "add_used_all m q ((start, len) # cs) =
     and_then (add_used m q start len) (\<lambda>(idx, m). add_used_all m q cs)"

lemma used_idx_mod:
  assumes "queue_ok m q"
  shows "unat (i + of_nat n :: u16) mod unat (q_size q) = (unat i + n) mod unat (q_size q)"
proof -
  have "unat (i + of_nat n) = (unat i + n) mod 65536"
    by (simp add: unat_word_ariths unat_of_nat take_bit_eq_mod mod_simps)
  then show ?thesis
    using assms by (simp add: mod_mod_cancel queue_ok_def)
qed

lemma used_entry_mod: "k mod unat (q_size q) = l mod unat (q_size q) \<Longrightarrow> used_entry m q k = used_entry m q l"
  by (simp add: used_entry_def)

lemma used_idx_Suc:
  assumes "queue_ok m q"
  shows "(unat (i + 1 :: u16) + n) mod unat (q_size q) = (unat i + Suc n) mod unat (q_size q)"
proof -
  have "(unat (i + 1) + n) mod unat (q_size q) = (unat (i + 1) mod unat (q_size q) + n) mod unat (q_size q)"
    by (simp add: mod_add_left_eq)
  also have "\<dots> = ((unat i + 1) mod unat (q_size q) + n) mod unat (q_size q)"
    using used_idx_mod[OF assms, of i 1] by simp
  finally show ?thesis by (simp add: mod_add_left_eq)
qed

lemma add_used_all_spec:
  assumes "queue_ok m q"
  shows "\<exists>m'. add_used_all m q cs = Inr m' \<and> queue_ok m' q \<and>
    peek_used_idx m' q = peek_used_idx m q + of_nat (length cs) \<and> pending m' q = pending m q \<and>
    (\<forall>k. (\<forall>i < length cs. k mod unat (q_size q) \<noteq> (unat (peek_used_idx m q) + i) mod unat (q_size q))
         \<longrightarrow> used_entry m' q k = used_entry m q k) \<and>
    (length cs \<le> unat (q_size q) \<longrightarrow>
       (\<forall>i < length cs. used_entry m' q (unat (peek_used_idx m q) + i) = cs ! i))"
  using assms
proof (induction cs arbitrary: m)
  case (Cons c cs)
  obtain start len where c: "c = (start, len)" by (cases c)
  let ?m = "completion m q start len" and ?h = "unat (peek_used_idx m q)" and ?s = "unat (q_size q)"
  have idx: "peek_used_idx ?m q = peek_used_idx m q + 1" by (rule completion_idx)
  from Cons.IH[of ?m] Cons.prems obtain m' where m': "add_used_all ?m q cs = Inr m'" "queue_ok m' q"
      "peek_used_idx m' q = peek_used_idx ?m q + of_nat (length cs)" "pending m' q = pending ?m q"
      "\<And>k. (\<And>i. i < length cs \<Longrightarrow> k mod ?s \<noteq> (unat (peek_used_idx ?m q) + i) mod ?s) \<Longrightarrow>
        used_entry m' q k = used_entry ?m q k"
      "\<And>i. length cs \<le> ?s \<Longrightarrow> i < length cs \<Longrightarrow>
        used_entry m' q (unat (peek_used_idx ?m q) + i) = cs ! i"
    by (auto simp del: completion_idx)
  have frame: "used_entry m' q k = used_entry m q k"
    if "\<And>i. i < Suc (length cs) \<Longrightarrow> k mod ?s \<noteq> (?h + i) mod ?s" for k
  proof -
    have "used_entry m' q k = used_entry ?m q k"
      by (rule m'(5)) (use that[of "Suc _"] idx used_idx_Suc[OF Cons.prems] in simp)
    also have "\<dots> = used_entry m q k"
      by (rule completion_entry_other[OF Cons.prems]) (use that[of 0] in simp)
    finally show ?thesis .
  qed
  have vals: "used_entry m' q (?h + i) = (c # cs) ! i" if "Suc (length cs) \<le> ?s" "i < Suc (length cs)" for i
  proof (cases i)
    case 0
    have "used_entry m' q ?h = used_entry ?m q ?h"
    proof (rule m'(5))
      fix j assume "j < length cs"
      then have "(?h + 0) mod ?s \<noteq> (?h + Suc j) mod ?s"
        using that(1) by (intro mod_slots_distinct) auto
      then show "?h mod ?s \<noteq> (unat (peek_used_idx ?m q) + j) mod ?s"
        using idx used_idx_Suc[OF Cons.prems] by simp
    qed
    with 0 c show ?thesis by (simp add: completion_entry_same[OF Cons.prems])
  next
    case (Suc j)
    then have "used_entry m' q (?h + i) = used_entry m' q (unat (peek_used_idx ?m q) + j)"
      using idx used_idx_Suc[OF Cons.prems] by (intro used_entry_mod) simp
    then show ?thesis using Suc that m'(6)[of j] by simp
  qed
  show ?case
    using m' frame vals c idx
    by (auto simp: add_used_ok[OF Cons.prems] completion_pending[OF Cons.prems] algebra_simps)
qed simp

text \<open>
  The bytes of the used ring that \<open>n\<close> completions from the index \<open>k\<close> on may change: the index
  itself and the entries that are filled in.
\<close>

definition used_bytes :: "queue \<Rightarrow> nat \<Rightarrow> nat \<Rightarrow> u64 set" where
  "used_bytes q k n = {q_used_addr q + of_nat j |j. 2 \<le> j \<and> j < 4 \<or>
     (\<exists>i < n. 4 + 8 * ((k + i) mod unat (q_size q)) \<le> j \<and> j < 4 + 8 * ((k + i) mod unat (q_size q)) + 8)}"

lemma gm_byte_poke_eq:
  assumes "\<And>j. j < length bs \<Longrightarrow> x \<noteq> a + of_nat j"
  shows "gm_byte (poke m a bs) x = gm_byte m x"
  using assms[of "unat (x - a)"] by (auto simp: poke_def of_nat_unat)

lemma used_bytes_step:
  assumes "queue_ok m q"
  shows "used_bytes q (unat (i :: u16)) (Suc n) =
    used_bytes q (unat i) 1 \<union> used_bytes q (unat (i + 1)) n"
proof -
  have eq: "(unat (i + 1) + l) mod unat (q_size q) = (unat i + Suc l) mod unat (q_size q)" for l
    by (rule used_idx_Suc[OF assms])
  have "(\<exists>l < Suc n. P ((unat i + l) mod unat (q_size q))) \<longleftrightarrow>
      P (unat i mod unat (q_size q)) \<or> (\<exists>l < n. P ((unat (i + 1) + l) mod unat (q_size q)))" for P
    unfolding eq by (auto simp: less_Suc_eq_0_disj)
  from this[of "\<lambda>r. 4 + 8 * r \<le> j \<and> j < 4 + 8 * r + 8" for j] show ?thesis
    unfolding used_bytes_def by auto
qed

lemma completion_bytes:
  assumes "x \<notin> used_bytes q (unat (peek_used_idx m q)) 1"
  shows "gm_byte (completion m q start len) x = gm_byte m x"
proof -
  let ?p = "4 + 8 * (unat (peek_used_idx m q) mod unat (q_size q))"
  have frame: "gm_byte (poke m' (q_used_addr q + of_nat k) bs) x = gm_byte m' x"
    if "2 \<le> k \<and> k + length bs \<le> 4 \<or> ?p \<le> k \<and> k + length bs \<le> ?p + 8" for m' k bs
  proof (rule gm_byte_poke_eq)
    fix j assume "j < length bs"
    with that have "2 \<le> k + j \<and> k + j < 4 \<or> ?p \<le> k + j \<and> k + j < ?p + 8" by linarith
    then have "q_used_addr q + of_nat (k + j) \<in> used_bytes q (unat (peek_used_idx m q)) 1"
      unfolding used_bytes_def by (intro CollectI exI[of _ "k + j"]) simp
    with assms show "x \<noteq> q_used_addr q + of_nat k + of_nat j" by (auto simp: add.assoc)
  qed
  show ?thesis
    unfolding completion_def Let_def
    by (subst frame, simp, subst frame, simp, rule frame) simp
qed

lemma add_used_all_bytes:
  assumes "queue_ok m q" "add_used_all m q cs = Inr m'"
  shows "gm_size m' = gm_size m \<and>
    (\<forall>x. x \<notin> used_bytes q (unat (peek_used_idx m q)) (length cs) \<longrightarrow> gm_byte m' x = gm_byte m x)"
  using assms
proof (induction cs arbitrary: m)
  case (Cons c cs)
  obtain start len where c: "c = (start, len)" by (cases c)
  let ?m = "completion m q start len"
  have run: "add_used_all ?m q cs = Inr m'"
    using Cons.prems c by (simp add: add_used_ok)
  have size: "gm_size ?m = gm_size m" by (simp add: completion_def Let_def)
  have ok: "queue_ok ?m q" using Cons.prems(1) by simp
  have "gm_byte m' x = gm_byte m x"
    if "x \<notin> used_bytes q (unat (peek_used_idx m q)) (Suc (length cs))" for x
  proof -
    have "x \<notin> used_bytes q (unat (peek_used_idx m q)) 1" "x \<notin> used_bytes q (unat (peek_used_idx ?m q)) (length cs)"
      using that unfolding used_bytes_step[OF Cons.prems(1)] completion_idx by blast+
    with Cons.IH[OF ok run] completion_bytes show ?thesis by metis
  qed
  with Cons.IH[OF ok run] size show ?case by simp
qed simp

section \<open>Descriptors and buffers\<close>

definition desc_addr_at :: "gmem \<Rightarrow> queue \<Rightarrow> u16 \<Rightarrow> u64" where
  "desc_addr_at m q i = peek64 m (q_desc_addr q + of_nat (16 * unat i))"
definition desc_len_at :: "gmem \<Rightarrow> queue \<Rightarrow> u16 \<Rightarrow> u32" where
  "desc_len_at m q i = peek32 m (q_desc_addr q + of_nat (16 * unat i + 8))"
definition desc_flags_at :: "gmem \<Rightarrow> queue \<Rightarrow> u16 \<Rightarrow> u16" where
  "desc_flags_at m q i = peek16 m (q_desc_addr q + of_nat (16 * unat i + 12))"
definition desc_next_at :: "gmem \<Rightarrow> queue \<Rightarrow> u16 \<Rightarrow> u16" where
  "desc_next_at m q i = peek16 m (q_desc_addr q + of_nat (16 * unat i + 14))"

lemma desc_in_mem:
  assumes "queue_ok m q"
  shows "in_mem m (q_desc_addr q) (16 * unat (q_size q))"
  using assms by (simp add: queue_ok_def)

lemma elem_fields_ok:
  assumes "queue_ok m q" "unat i < unat (q_size q)"
  shows "elem_addr m (desc_ptr q i) = Inr (desc_addr_at m q i)"
    and "elem_len m (desc_ptr q i) = Inr (desc_len_at m q i)"
    and "elem_flags m (desc_ptr q i) = Inr (desc_flags_at m q i)"
    and "elem_next m (desc_ptr q i) = Inr (desc_next_at m q i)"
proof -
  have b: "16 * unat i + 16 \<le> 16 * unat (q_size q)" using assms(2) by simp
  have m: "in_mem m (q_desc_addr q + of_nat (16 * unat i + j)) k" if "j + k \<le> 16" for j k
    by (rule in_mem_sub[OF desc_in_mem[OF assms(1)]]) (use b that in linarith)
  have a: "desc_ptr q i + 8 = q_desc_addr q + of_nat (16 * unat i + 8)"
    "desc_ptr q i + 12 = q_desc_addr q + of_nat (16 * unat i + 12)"
    "desc_ptr q i + 14 = q_desc_addr q + of_nat (16 * unat i + 14)"
    "desc_ptr q i = q_desc_addr q + of_nat (16 * unat i + 0)"
    by (simp_all add: desc_addr)
  show "elem_addr m (desc_ptr q i) = Inr (desc_addr_at m q i)"
    unfolding elem_addr_def a(4) desc_addr_at_def by (subst load_le_in[OF m]) simp_all
  show "elem_len m (desc_ptr q i) = Inr (desc_len_at m q i)"
    unfolding elem_len_def a(1) desc_len_at_def by (rule load_le_in[OF m]) simp
  show "elem_flags m (desc_ptr q i) = Inr (desc_flags_at m q i)"
    unfolding elem_flags_def a(2) desc_flags_at_def by (rule load_le_in[OF m]) simp
  show "elem_next m (desc_ptr q i) = Inr (desc_next_at m q i)"
    unfolding elem_next_def a(3) desc_next_at_def by (rule load_le_in[OF m]) simp
qed

text \<open>A buffer that lies in guest memory and overlaps none of the rings.\<close>

definition buffer_ok :: "gmem \<Rightarrow> queue \<Rightarrow> u64 \<Rightarrow> nat \<Rightarrow> bool" where
  "buffer_ok m q a n \<longleftrightarrow> in_mem m a n \<and>
     disjoint_ranges a n (q_desc_addr q) (16 * unat (q_size q)) \<and>
     disjoint_ranges a n (q_avail_addr q) (4 + 2 * unat (q_size q)) \<and>
     disjoint_ranges a n (q_used_addr q) (4 + 8 * unat (q_size q))"

lemma disjoint_ranges_sym: "disjoint_ranges a n b k \<longleftrightarrow> disjoint_ranges b k a n"
  by (auto simp: disjoint_ranges_def)

lemma ring_frame:
  assumes "buffer_ok m q a (length bs)" "in_mem m b k" "j + l \<le> k" "disjoint_ranges a (length bs) b k"
  shows "peek_le l (poke m a bs) (b + of_nat j) = peek_le l m (b + of_nat j)"
  using peek_le_poke_object[of m a "length bs" 0 bs b k j l] assms
  by (simp add: buffer_ok_def)

lemma buffer_frame_desc:
  assumes "queue_ok m q" "buffer_ok m q a (length bs)" "unat i < unat (q_size q)"
  shows "desc_addr_at (poke m a bs) q i = desc_addr_at m q i"
    and "desc_len_at (poke m a bs) q i = desc_len_at m q i"
    and "desc_flags_at (poke m a bs) q i = desc_flags_at m q i"
    and "desc_next_at (poke m a bs) q i = desc_next_at m q i"
proof -
  have "peek_le l (poke m a bs) (q_desc_addr q + of_nat (16 * unat i + j)) =
      peek_le l m (q_desc_addr q + of_nat (16 * unat i + j))" if "j + l \<le> 16" for j l
    by (rule ring_frame[OF assms(2) desc_in_mem[OF assms(1)]])
       (use that assms(2,3) in \<open>auto simp: buffer_ok_def\<close>)
  from this[of 0 8] this[of 8 4] this[of 12 2] this[of 14 2]
  show "desc_addr_at (poke m a bs) q i = desc_addr_at m q i"
    "desc_len_at (poke m a bs) q i = desc_len_at m q i"
    "desc_flags_at (poke m a bs) q i = desc_flags_at m q i"
    "desc_next_at (poke m a bs) q i = desc_next_at m q i"
    by (simp_all add: desc_addr_at_def desc_len_at_def desc_flags_at_def desc_next_at_def)
qed

lemma buffer_frame_used_idx:
  assumes "queue_ok m q" "buffer_ok m q a (length bs)"
  shows "peek_used_idx (poke m a bs) q = peek_used_idx m q"
  unfolding peek_used_idx_def
  by (rule ring_frame[OF assms(2) used_in_mem[OF assms(1)]])
     (use assms(2) in \<open>simp_all add: buffer_ok_def\<close>)

lemma buffer_frame_avail:
  assumes "queue_ok m q" "buffer_ok m q a (length bs)"
  shows "avail_entry (poke m a bs) q k = avail_entry m q k"
    and "pending (poke m a bs) q = pending m q"
proof -
  have frame: "peek_le l (poke m a bs) (q_avail_addr q + of_nat j) = peek_le l m (q_avail_addr q + of_nat j)"
    if "j + l \<le> 4 + 2 * unat (q_size q)" for j l
    by (rule ring_frame[OF assms(2) _ that]) (use assms in \<open>simp_all add: queue_ok_def buffer_ok_def\<close>)
  show entry: "avail_entry (poke m a bs) q k = avail_entry m q k" for k
    unfolding avail_entry_def
    by (rule frame) (use mod_less_divisor[OF queue_ok_size[OF assms(1)], of k] in linarith)
  have "peek_avail_idx (poke m a bs) q = peek_avail_idx m q"
    unfolding peek_avail_idx_def by (rule frame) simp
  with entry show "pending (poke m a bs) q = pending m q" by (simp add: pending_def)
qed

lemma completion_buffer:
  assumes "queue_ok m q" "buffer_ok m q a n"
  shows "peek (completion m q start len) a n = peek m a n"
proof (cases "n = 0")
  case False
  have b: "4 + 8 * (unat (peek_used_idx m q) mod unat (q_size q)) + 8 \<le> 4 + 8 * unat (q_size q)"
    by (rule used_slot_bound[OF assms(1)])
  have frame: "peek (poke m' (q_used_addr q + of_nat i) bs) (a + of_nat 0) n = peek m' (a + of_nat 0) n"
    if "gm_size m' = gm_size m" "i + length bs \<le> 4 + 8 * unat (q_size q)" for m' i bs
    by (rule peek_poke_object[OF _ that(2), of _ _ _ n])
       (use that(1) used_in_mem[OF assms(1)] assms(2) in
         \<open>simp_all add: in_mem_def buffer_ok_def disjoint_ranges_sym[of "q_used_addr q"]\<close>)
  note frame = trans[OF frame[simplified]]
  show ?thesis
    unfolding completion_def Let_def
    by (rule frame, simp, use b in simp, rule frame, simp, use b in simp, rule frame, simp,
        use b in simp) (rule refl)
qed (simp add: peek_def)

lemma add_used_size: "add_used m q start len = Inr (idx, m') \<Longrightarrow> gm_size m' = gm_size m"
  by (auto simp: add_used_def mem_access_Inr)

section \<open>Life time of a queue\<close>

text \<open>
  Polls over the whole run of the machine: the driver changes the memory between two polls in any
  way it likes.
\<close>

fun poll_run :: "gmem list \<Rightarrow> queue \<Rightarrow> (u64 list \<times> queue) res" where
  "poll_run [] q = Inr ([], q)"
| "poll_run (m # ms) q =
     and_then (queue_next m q) (\<lambda>(r, q).
     and_then (poll_run ms q) (\<lambda>(ps, q).
     Inr ((case r of None \<Rightarrow> ps | Some p \<Rightarrow> p # ps), q)))"

lemma queue_next_step:
  assumes "queue_next m q = Inr (r, q')"
  shows "case r of None \<Rightarrow> q' = q
         | Some p \<Rightarrow> unat (q_last_avail q) < 65535 \<and> unat (q_last_avail q') = Suc (unat (q_last_avail q))"
proof (cases r)
  case None
  with assms show ?thesis by (auto simp: queue_next_def Let_def split: if_splits)
next
  case (Some p)
  with assms obtain idx where idx: "\<not> ucast (idx :: u16) \<le> q_last_avail q"
      and q': "q' = q\<lparr>q_last_avail := q_last_avail q + 1\<rparr>"
    by (auto simp: queue_next_def Let_def split: if_splits)
  have "unat (q_last_avail q) < unat idx" using idx by (simp add: idx_compare)
  moreover have "unat (q_last_avail q + 1) = Suc (unat (q_last_avail q))"
    by (rule unat_last_avail_Suc[of _ idx]) (use idx in simp)
  ultimately show ?thesis
    using Some q' unat_less16[of idx] by simp
qed

lemma poll_run_counts:
  "poll_run ms q = Inr (ps, q') \<Longrightarrow>
   unat (q_last_avail q') = unat (q_last_avail q) + length ps \<and> length ps \<le> 65535 - unat (q_last_avail q)"
proof (induction ms arbitrary: q ps)
  case (Cons m ms)
  then obtain r q1 ps1 where 1: "queue_next m q = Inr (r, q1)" "poll_run ms q1 = Inr (ps1, q')"
      "ps = (case r of None \<Rightarrow> ps1 | Some p \<Rightarrow> p # ps1)"
    by auto
  show ?case
    using Cons.IH[OF 1(2)] queue_next_step[OF 1(1)] 1(3) by (cases r) auto
qed simp

lemma poll_run_append:
  "poll_run (ms @ ns) q = and_then (poll_run ms q) (\<lambda>(ps, q). and_then (poll_run ns q) (\<lambda>(rs, q). Inr (ps @ rs, q)))"
proof (induction ms arbitrary: q)
  case Nil
  then show ?case by (cases "poll_run ns q") auto
next
  case (Cons m ms)
  have assoc: "and_then (and_then x f) g = and_then x (\<lambda>z. and_then (f z) g)"
    for x :: "'a res" and f :: "'a \<Rightarrow> 'b res" and g :: "'b \<Rightarrow> 'c res"
    by (cases x) auto
  show ?case
    by (simp add: Cons.IH assoc) (auto simp: and_then_def split: sum.splits option.splits)
qed

text \<open>A driver that publishes one request before each poll has each of them taken, until the index
  would have to pass 65535.\<close>

lemma poll_run_publishes:
  assumes "unat (q_last_avail q) + length ms \<le> 65535"
    and "\<And>i. i < length ms \<Longrightarrow> queue_ok (ms ! i) q \<and>
      unat (peek_avail_idx (ms ! i) q) = Suc (unat (q_last_avail q) + i)"
  shows "poll_run ms q = Inr (map (\<lambda>i. desc_ptr q (avail_entry (ms ! i) q (unat (q_last_avail q) + i))) [0..<length ms],
     q\<lparr>q_last_avail := q_last_avail q + of_nat (length ms)\<rparr>)"
  using assms
proof (induction ms arbitrary: q)
  case (Cons m ms)
  let ?q = "q\<lparr>q_last_avail := q_last_avail q + 1\<rparr>"
  have ok: "queue_ok m q" and idx: "unat (peek_avail_idx m q) = Suc (unat (q_last_avail q))"
    using Cons.prems(2)[of 0] by simp_all
  have "pending m q = [avail_entry m q (unat (q_last_avail q))]"
    by (simp add: pending_def idx)
  note nx = queue_next_pending(1)[OF ok this]
  have suc: "unat (q_last_avail ?q) = Suc (unat (q_last_avail q))"
    using idx by (simp add: unat_last_avail_Suc[of _ "peek_avail_idx m q"] word_less_nat_alt unat_ucast_up)
  have "poll_run ms ?q = Inr (map (\<lambda>i. desc_ptr ?q (avail_entry (ms ! i) ?q (unat (q_last_avail ?q) + i))) [0..<length ms],
      ?q\<lparr>q_last_avail := q_last_avail ?q + of_nat (length ms)\<rparr>)"
    by (rule Cons.IH) (use Cons.prems(1) Cons.prems(2)[of "Suc _"] suc in auto)
  then show ?case
    using nx suc by (simp add: map_upt_Suc algebra_simps del: upt_Suc)
qed simp

lemma poll_run_exhausted:
  assumes "65535 \<le> unat (q_last_avail q)" "\<forall>m \<in> set ms. queue_ok m q"
  shows "poll_run ms q = Inr ([], q)"
  using assms(2)
proof (induction ms)
  case (Cons m ms)
  have "pending m q = []" using assms(1) unat_less16[of "peek_avail_idx m q"] by (simp add: pending_def)
  with Cons queue_next_empty show ?case by simp
qed simp

section \<open>Properties\<close>

text \<open>C13: Requests are taken in the order the guest published them: on a queue the guest has set
  up, \<open>n\<close> polls return the descriptors of the first \<open>n\<close> pending ring entries, each exactly once,
  leave the rest pending, and touch no memory outside the guest's.\<close>

theorem requests_taken_in_order:
  assumes "queue_ok m q"
  shows "\<exists>q'. poll_n (queue_next m) n q = Inr (map (desc_ptr q) (take n (pending m q)), q') \<and>
              pending m q' = drop n (pending m q) \<and> queue_ok m q'"
  using vq.poll_n_takes[OF assms, of n] by auto

text \<open>A queue of four entries with two requests published (heads 3 and 1), used for the witnesses.\<close>

definition demo_queue :: queue where
  "demo_queue = \<lparr>q_size = 4, q_desc_addr = 0, q_avail_addr = 64, q_used_addr = 128, q_notify = 0,
                 q_last_avail = 0, q_ready = True\<rparr>"

definition demo_mem :: gmem where
  "demo_mem = \<lparr>gm_size = 4096, gm_byte = (\<lambda>a. if a = 66 then 2 else if a = 68 then 3
                                               else if a = 70 then 1 else 0)\<rparr>"

lemma demo_queue_ok: "queue_ok demo_mem demo_queue"
  by (simp add: queue_ok_def demo_queue_def demo_mem_def in_mem_def disjoint_ranges_def
      QUEUE_SIZE_MAX_def)

lemma demo_pending: "pending demo_mem demo_queue = [3, 1]"
  by (simp add: pending_def avail_entry_def peek_avail_idx_def demo_queue_def demo_mem_def
      peek_le_def peek_def upt_rec)

lemma demo_used_idx: "peek_used_idx demo_mem demo_queue = 0"
  by (simp add: peek_used_idx_def demo_queue_def demo_mem_def peek_le_def peek_def upt_rec)

lemma demo_size: "q_size demo_queue = 4"
  by (simp add: demo_queue_def)

theorem requests_taken_in_order_witness:
  "\<exists>q'. poll_n (queue_next demo_mem) 5 demo_queue = Inr ([48, 16], q') \<and> pending demo_mem q' = []"
  using requests_taken_in_order[OF demo_queue_ok, of 5]
  by (auto simp: demo_pending) (simp_all add: desc_ptr_def demo_queue_def)

text \<open>C14: Completions reach the driver: after any run of at most \<open>size\<close> completions every one of
  them is in the used ring, in order, at the free-running indexes that follow the old index; the
  index has advanced by their number (modulo $2^{16}$). The older entries of the used ring are as
  they were, and so is every other byte of the guest's memory: the flags word of the used ring, the
  descriptor table, the available ring, consumed entries included, and all buffers. In particular the
  requests still pending are unchanged.\<close>

theorem completions_reach_driver:
  assumes "queue_ok m q" "length cs \<le> unat (q_size q)"
  shows "\<exists>m'. add_used_all m q cs = Inr m' \<and>
    peek_used_idx m' q = peek_used_idx m q + of_nat (length cs) \<and>
    map (\<lambda>i. used_entry m' q (unat (peek_used_idx m q + of_nat i))) [0..<length cs] = cs \<and>
    (\<forall>k. (\<forall>i < length cs. k mod unat (q_size q) \<noteq> (unat (peek_used_idx m q) + i) mod unat (q_size q))
         \<longrightarrow> used_entry m' q k = used_entry m q k) \<and>
    gm_size m' = gm_size m \<and>
    (\<forall>x. x \<notin> used_bytes q (unat (peek_used_idx m q)) (length cs) \<longrightarrow> gm_byte m' x = gm_byte m x) \<and>
    pending m' q = pending m q"
proof -
  have eq: "used_entry m' q (unat (peek_used_idx m q + of_nat i)) =
      used_entry m' q (unat (peek_used_idx m q) + i)" for m' i
    using used_idx_mod[OF assms(1)] by (intro used_entry_mod) simp
  obtain m' where run: "add_used_all m q cs = Inr m'"
    "peek_used_idx m' q = peek_used_idx m q + of_nat (length cs)" "pending m' q = pending m q"
    "\<And>k. (\<And>i. i < length cs \<Longrightarrow> k mod unat (q_size q) \<noteq> (unat (peek_used_idx m q) + i) mod unat (q_size q)) \<Longrightarrow>
       used_entry m' q k = used_entry m q k"
    "\<And>i. i < length cs \<Longrightarrow> used_entry m' q (unat (peek_used_idx m q) + i) = cs ! i"
    using add_used_all_spec[OF assms(1), of cs] assms(2) by auto
  have "map (\<lambda>i. used_entry m' q (unat (peek_used_idx m q + of_nat i))) [0..<length cs] = cs"
    by (rule nth_equalityI) (simp_all add: eq run(5))
  with run add_used_all_bytes[OF assms(1) run(1)] show ?thesis by blast
qed

theorem completions_reach_driver_witness:
  "\<exists>m'. add_used_all demo_mem demo_queue [(3, 512), (1, 1)] = Inr m' \<and> peek_used_idx m' demo_queue = 2 \<and>
     used_entry m' demo_queue 2 = used_entry demo_mem demo_queue 2"
  using completions_reach_driver[OF demo_queue_ok, of "[(3, 512), (1, 1)]"]
  by (auto simp: demo_used_idx demo_size less_Suc_eq)

text \<open>C23: \<open>last_avail\<close> is 32 bits wide but is compared with the 16-bit index of the ring, which
  wraps around, so a queue lives for exactly 65535 requests. A driver that publishes one request
  before each poll has the first 65535 of them taken, each one the entry it has just written; then
  the queue is dead: in any further memories, however far the driver moves the index, it hands out
  nothing. And no driver does better: over any memories at all, the requests handed out are counted
  by \<open>last_avail\<close> and are at most 65535.\<close>

theorem queue_life_is_65535_requests:
  assumes "q_last_avail q = 0" "length ms = 65535"
    and "\<forall>i < 65535. queue_ok (ms ! i) q \<and> unat (peek_avail_idx (ms ! i) q) = Suc i"
  shows "(\<forall>ns. (\<forall>m \<in> set ns. queue_ok m q) \<longrightarrow>
      (\<exists>q'. poll_run (ms @ ns) q = Inr (map (\<lambda>i. desc_ptr q (avail_entry (ms ! i) q i)) [0..<65535], q'))) \<and>
    (\<forall>ns ps q'. poll_run ns q = Inr (ps, q') \<longrightarrow> unat (q_last_avail q') = length ps \<and> length ps \<le> 65535)"
proof (intro conjI allI impI)
  fix ns assume ns: "\<forall>m \<in> set ns. queue_ok m q"
  let ?q = "q\<lparr>q_last_avail := 65535\<rparr>"
  have "poll_run ms q = Inr (map (\<lambda>i. desc_ptr q (avail_entry (ms ! i) q i)) [0..<65535], ?q)"
    using poll_run_publishes[of q ms] assms by simp
  moreover have "poll_run ns ?q = Inr ([], ?q)"
    by (rule poll_run_exhausted) (use ns in simp_all)
  ultimately show "\<exists>q'. poll_run (ms @ ns) q =
      Inr (map (\<lambda>i. desc_ptr q (avail_entry (ms ! i) q i)) [0..<65535], q')"
    by (simp add: poll_run_append)
next
  fix ns ps q' assume "poll_run ns q = Inr (ps, q')"
  from poll_run_counts[OF this] assms(1)
  show "unat (q_last_avail q') = length ps" "length ps \<le> 65535" by simp_all
qed

text \<open>The demonstration queue over a driver that publishes one request after the other; the requests
  after the last, at the index that has wrapped around to 0 and at 9, are never taken.\<close>

definition published :: "nat \<Rightarrow> gmem" where
  "published n = poke demo_mem 66 (le_bytes 2 (of_nat n :: u16))"

lemma published_ok: "queue_ok (published n) demo_queue" "peek_avail_idx (published n) demo_queue = of_nat n"
  by (simp_all add: published_def demo_queue_ok peek_avail_idx_def) (simp add: demo_queue_def)

theorem queue_life_is_65535_requests_witness:
  "\<exists>ps q'. poll_run (map (\<lambda>i. published (Suc i)) [0..<65535] @ [published 0, published 9]) demo_queue =
     Inr (ps, q') \<and> length ps = 65535"
proof -
  let ?ms = "map (\<lambda>i. published (Suc i)) [0..<65535]"
  have "q_last_avail demo_queue = 0" "length ?ms = 65535" by (simp_all add: demo_queue_def)
  moreover have "\<forall>i < 65535. queue_ok (?ms ! i) demo_queue \<and> unat (peek_avail_idx (?ms ! i) demo_queue) = Suc i"
    by (simp add: published_ok unat_of_nat_small del: of_nat_Suc)
  ultimately have "\<exists>q'. poll_run (?ms @ [published 0, published 9]) demo_queue =
      Inr (map (\<lambda>i. desc_ptr demo_queue (avail_entry (?ms ! i) demo_queue i)) [0..<65535], q')"
    using queue_life_is_65535_requests[of demo_queue ?ms] published_ok(1)
    by (metis (no_types, lifting) empty_iff insert_iff list.set(1,2))
  then show ?thesis by fastforce
qed

end
