(* ===== verification/Virtio_Device.thy ===== *)
theory Virtio_Device
  imports Virtqueue Interrupt
begin

text \<open>
  \<^verbatim>\<open>src/kvm/virtio/device.h\<close>: the state every virtio device has (\<^verbatim>\<open>device\<close>: negotiation,
  queue selector, status) and its queues (\<^verbatim>\<open>queue_device\<close>, a \<^verbatim>\<open>std::array\<close> without a bounds
  check). The record is extended by the devices. The virtual functions are the fields of the record
  \<open>virtio_class\<close>, one value of which each device provides; \<open>dev_id\<close> is the template argument.
\<close>

section \<open>State\<close>

datatype vstatus =
    VIRTIO_DEVICE_RESET | VIRTIO_DEVICE_ACKNOWLEDGE | VIRTIO_DEVICE_DRIVER | VIRTIO_DEVICE_DRIVER_OK
  | VIRTIO_DEVICE_FEATURES_OK | VIRTIO_DEVICE_DEVICE_NEEDS_RESET | VIRTIO_DEVICE_FAILED

fun status_code :: "vstatus \<Rightarrow> u8" where
  "status_code VIRTIO_DEVICE_RESET = 0"
| "status_code VIRTIO_DEVICE_ACKNOWLEDGE = 1"
| "status_code VIRTIO_DEVICE_DRIVER = 2"
| "status_code VIRTIO_DEVICE_DRIVER_OK = 4"
| "status_code VIRTIO_DEVICE_FEATURES_OK = 8"
| "status_code VIRTIO_DEVICE_DEVICE_NEEDS_RESET = 64"
| "status_code VIRTIO_DEVICE_FAILED = 128"

record vdev =
  vd_driver_features :: u64
  vd_queue_index :: u32
  vd_device_feature_sel :: bool
  vd_driver_feature_sel :: bool
  vd_status :: u8
  vd_queues :: "queue list"

record 'd virtio_class =
  vc_device_id :: u32
  vc_features :: u32
  vc_config_generation :: "'d \<Rightarrow> u32"
  vc_read :: "u64 \<Rightarrow> u32 \<Rightarrow> 'd \<Rightarrow> u8 list res"
  vc_write :: "u8 list \<Rightarrow> u64 \<Rightarrow> u32 \<Rightarrow> 'd \<Rightarrow> 'd res"
  vc_update :: "gmem \<Rightarrow> 'd \<times> interrupt \<Rightarrow> (gmem \<times> 'd \<times> interrupt) res"

definition vdev_new :: "nat \<Rightarrow> vdev" where
  "vdev_new queue_count =
     \<lparr>vd_driver_features = 0, vd_queue_index = 0, vd_device_feature_sel = False,
      vd_driver_feature_sel = False, vd_status = status_code VIRTIO_DEVICE_RESET,
      vd_queues = replicate queue_count queue_new\<rparr>"

section \<open>Operations\<close>

definition read_status :: "'a vdev_scheme \<Rightarrow> u32" where
  "read_status d = ucast (vd_status d)"

definition write_status :: "u32 \<Rightarrow> 'a vdev_scheme \<Rightarrow> 'a vdev_scheme" where
  "write_status update d = d\<lparr>vd_status := ucast update\<rparr>"

definition irq_level :: "interrupt \<Rightarrow> bool" where
  "irq_level irq = level irq"

definition irq_ack :: "interrupt \<Rightarrow> interrupt res" where
  "irq_ack irq = set_level False irq"

text \<open>\<^verbatim>\<open>q(index)\<close> and \<^verbatim>\<open>q()\<close> return references: a getter and an update through it.\<close>

definition q_at :: "u32 \<Rightarrow> 'a vdev_scheme \<Rightarrow> queue res" where
  "q_at index d = arr_get (vd_queues d) (unat index)"

definition q_at_update :: "u32 \<Rightarrow> (queue \<Rightarrow> queue) \<Rightarrow> 'a vdev_scheme \<Rightarrow> 'a vdev_scheme res" where
  "q_at_update index f d =
     and_then (q_at index d) (\<lambda>q.
     Inr (d\<lparr>vd_queues := (vd_queues d)[unat index := f q]\<rparr>))"

definition q_cur :: "'a vdev_scheme \<Rightarrow> queue res" where
  "q_cur d = q_at (vd_queue_index d) d"

definition q_cur_update :: "(queue \<Rightarrow> queue) \<Rightarrow> 'a vdev_scheme \<Rightarrow> 'a vdev_scheme res" where
  "q_cur_update f d = q_at_update (vd_queue_index d) f d"

section \<open>Facts\<close>

lemma q_at_in [simp]: "unat i < length (vd_queues d) \<Longrightarrow> q_at i d = Inr (vd_queues d ! unat i)"
  by (simp add: q_at_def)

lemma q_at_out [simp]: "\<not> unat i < length (vd_queues d) \<Longrightarrow> q_at i d = Inl (UB HostBuffer)"
  by (simp add: q_at_def arr_get_def)

lemma q_at_update_in [simp]:
  "unat i < length (vd_queues d) \<Longrightarrow>
   q_at_update i f d = Inr (d\<lparr>vd_queues := (vd_queues d)[unat i := f (vd_queues d ! unat i)]\<rparr>)"
  by (simp add: q_at_update_def)

lemma q_at_update_out [simp]:
  "\<not> unat i < length (vd_queues d) \<Longrightarrow> q_at_update i f d = Inl (UB HostBuffer)"
  by (simp add: q_at_update_def)

lemma q_at_update_Inr:
  "q_at_update i f d = Inr d' \<longleftrightarrow> unat i < length (vd_queues d) \<and>
     d' = d\<lparr>vd_queues := (vd_queues d)[unat i := f (vd_queues d ! unat i)]\<rparr>"
  by (cases "unat i < length (vd_queues d)") auto

lemma length_vdev_new [simp]: "length (vd_queues (vdev_new n)) = n"
  by (simp add: vdev_new_def)

end
