(* ===== verification/Virtio_Mmio.thy ===== *)
theory Virtio_Mmio
  imports Virtio_Device Io_Device
begin

text \<open>
  \<^verbatim>\<open>src/kvm/virtio/mmio.h\<close>: the register window of a virtio device
  (\<^verbatim>\<open>mmio_device_holder\<close>) and the bus that dispatches physical addresses to the windows
  (\<^verbatim>\<open>mmio\<close>). The register offsets and \<^verbatim>\<open>VIRTIO_F_VERSION_1\<close> are those of the virtio
  specification (\<^verbatim>\<open>linux/virtio_mmio.h\<close>). The state of a device is the device and its interrupt line.
\<close>

section \<open>Registers\<close>

definition VIRTIO_MMIO_MAGIC_VALUE :: u64 where "VIRTIO_MMIO_MAGIC_VALUE = 0x000"
definition VIRTIO_MMIO_VERSION :: u64 where "VIRTIO_MMIO_VERSION = 0x004"
definition VIRTIO_MMIO_DEVICE_ID :: u64 where "VIRTIO_MMIO_DEVICE_ID = 0x008"
definition VIRTIO_MMIO_VENDOR_ID :: u64 where "VIRTIO_MMIO_VENDOR_ID = 0x00c"
definition VIRTIO_MMIO_DEVICE_FEATURES :: u64 where "VIRTIO_MMIO_DEVICE_FEATURES = 0x010"
definition VIRTIO_MMIO_DEVICE_FEATURES_SEL :: u64 where "VIRTIO_MMIO_DEVICE_FEATURES_SEL = 0x014"
definition VIRTIO_MMIO_DRIVER_FEATURES :: u64 where "VIRTIO_MMIO_DRIVER_FEATURES = 0x020"
definition VIRTIO_MMIO_DRIVER_FEATURES_SEL :: u64 where "VIRTIO_MMIO_DRIVER_FEATURES_SEL = 0x024"
definition VIRTIO_MMIO_GUEST_PAGE_SIZE :: u64 where "VIRTIO_MMIO_GUEST_PAGE_SIZE = 0x028"
definition VIRTIO_MMIO_QUEUE_SEL :: u64 where "VIRTIO_MMIO_QUEUE_SEL = 0x030"
definition VIRTIO_MMIO_QUEUE_NUM_MAX :: u64 where "VIRTIO_MMIO_QUEUE_NUM_MAX = 0x034"
definition VIRTIO_MMIO_QUEUE_NUM :: u64 where "VIRTIO_MMIO_QUEUE_NUM = 0x038"
definition VIRTIO_MMIO_QUEUE_ALIGN :: u64 where "VIRTIO_MMIO_QUEUE_ALIGN = 0x03c"
definition VIRTIO_MMIO_QUEUE_READY :: u64 where "VIRTIO_MMIO_QUEUE_READY = 0x044"
definition VIRTIO_MMIO_QUEUE_NOTIFY :: u64 where "VIRTIO_MMIO_QUEUE_NOTIFY = 0x050"
definition VIRTIO_MMIO_INTERRUPT_STATUS :: u64 where "VIRTIO_MMIO_INTERRUPT_STATUS = 0x060"
definition VIRTIO_MMIO_INTERRUPT_ACK :: u64 where "VIRTIO_MMIO_INTERRUPT_ACK = 0x064"
definition VIRTIO_MMIO_STATUS :: u64 where "VIRTIO_MMIO_STATUS = 0x070"
definition VIRTIO_MMIO_QUEUE_DESC_LOW :: u64 where "VIRTIO_MMIO_QUEUE_DESC_LOW = 0x080"
definition VIRTIO_MMIO_QUEUE_DESC_HIGH :: u64 where "VIRTIO_MMIO_QUEUE_DESC_HIGH = 0x084"
definition VIRTIO_MMIO_QUEUE_AVAIL_LOW :: u64 where "VIRTIO_MMIO_QUEUE_AVAIL_LOW = 0x090"
definition VIRTIO_MMIO_QUEUE_AVAIL_HIGH :: u64 where "VIRTIO_MMIO_QUEUE_AVAIL_HIGH = 0x094"
definition VIRTIO_MMIO_QUEUE_USED_LOW :: u64 where "VIRTIO_MMIO_QUEUE_USED_LOW = 0x0a0"
definition VIRTIO_MMIO_QUEUE_USED_HIGH :: u64 where "VIRTIO_MMIO_QUEUE_USED_HIGH = 0x0a4"
definition VIRTIO_MMIO_CONFIG_GENERATION :: u64 where "VIRTIO_MMIO_CONFIG_GENERATION = 0x0fc"
definition VIRTIO_MMIO_CONFIG :: u64 where "VIRTIO_MMIO_CONFIG = 0x100"

lemmas mmio_regs =
  VIRTIO_MMIO_MAGIC_VALUE_def VIRTIO_MMIO_VERSION_def VIRTIO_MMIO_DEVICE_ID_def
  VIRTIO_MMIO_VENDOR_ID_def VIRTIO_MMIO_DEVICE_FEATURES_def VIRTIO_MMIO_DEVICE_FEATURES_SEL_def
  VIRTIO_MMIO_DRIVER_FEATURES_def VIRTIO_MMIO_DRIVER_FEATURES_SEL_def
  VIRTIO_MMIO_GUEST_PAGE_SIZE_def VIRTIO_MMIO_QUEUE_SEL_def VIRTIO_MMIO_QUEUE_NUM_MAX_def
  VIRTIO_MMIO_QUEUE_NUM_def VIRTIO_MMIO_QUEUE_ALIGN_def VIRTIO_MMIO_QUEUE_READY_def
  VIRTIO_MMIO_QUEUE_NOTIFY_def VIRTIO_MMIO_INTERRUPT_STATUS_def VIRTIO_MMIO_INTERRUPT_ACK_def
  VIRTIO_MMIO_STATUS_def VIRTIO_MMIO_QUEUE_DESC_LOW_def VIRTIO_MMIO_QUEUE_DESC_HIGH_def
  VIRTIO_MMIO_QUEUE_AVAIL_LOW_def VIRTIO_MMIO_QUEUE_AVAIL_HIGH_def VIRTIO_MMIO_QUEUE_USED_LOW_def
  VIRTIO_MMIO_QUEUE_USED_HIGH_def VIRTIO_MMIO_CONFIG_GENERATION_def VIRTIO_MMIO_CONFIG_def

definition MMIO_MAGIC_VALUE :: u32 where "MMIO_MAGIC_VALUE = 0x74726976"
definition VIRT_VENDOR :: u32 where "VIRT_VENDOR = 0x4b544858"
definition VIRTIO_F_VERSION_1 :: nat where "VIRTIO_F_VERSION_1 = 32"

section \<open>Register accesses\<close>

text \<open>
  Each register read stores four bytes through \<^verbatim>\<open>buf.data()\<close>, whatever the size of the buffer.
  A read of a write-only or unknown register leaves the buffer zero.
\<close>

definition offered_features :: "'d virtio_class \<Rightarrow> u64" where
  "offered_features c = ucast (vc_features c) OR push_bit VIRTIO_F_VERSION_1 1"

definition reg_read_value ::
  "'a vdev_scheme virtio_class \<Rightarrow> u64 \<Rightarrow> 'a vdev_scheme \<Rightarrow> interrupt \<Rightarrow> u32 option res" where
  "reg_read_value c off d irq =
     (if off = VIRTIO_MMIO_MAGIC_VALUE then Inr (Some MMIO_MAGIC_VALUE)
      else if off = VIRTIO_MMIO_VERSION then Inr (Some 2)
      else if off = VIRTIO_MMIO_DEVICE_ID then Inr (Some (vc_device_id c))
      else if off = VIRTIO_MMIO_VENDOR_ID then Inr (Some VIRT_VENDOR)
      else if off = VIRTIO_MMIO_STATUS then Inr (Some (read_status d))
      else if off = VIRTIO_MMIO_DEVICE_FEATURES then
        (let shift = (if vd_device_feature_sel d then 32 else 0) in
         Inr (Some (ucast (drop_bit shift (offered_features c) AND 0xFFFFFF))))
      else if off = VIRTIO_MMIO_QUEUE_NUM_MAX then Inr (Some QUEUE_SIZE_MAX)
      else if off = VIRTIO_MMIO_QUEUE_READY then
        and_then (q_cur d) (\<lambda>q. Inr (Some (if is_ready q then 0x1 else 0x0)))
      else if off = VIRTIO_MMIO_CONFIG_GENERATION then Inr (Some (vc_config_generation c d))
      else if off = VIRTIO_MMIO_INTERRUPT_STATUS then Inr (Some (if irq_level irq then 0x1 else 0x0))
      else Inr None)"

definition holder_read ::
  "'a vdev_scheme virtio_class \<Rightarrow> u64 \<Rightarrow> u32 \<Rightarrow> 'a vdev_scheme \<times> interrupt \<Rightarrow>
   (u8 list \<times> 'a vdev_scheme \<times> interrupt) res" where
  "holder_read c off sz = (\<lambda>(d, irq).
     if off \<ge> VIRTIO_MMIO_CONFIG then
       and_then (vc_read c (off - VIRTIO_MMIO_CONFIG) sz d) (\<lambda>buf. Inr (buf, d, irq))
     else
       and_then (reg_read_value c off d irq) (\<lambda>v.
       and_then (case v of None \<Rightarrow> Inr (zero_buf sz)
                         | Some w \<Rightarrow> buf_write (zero_buf sz) 0 (le_bytes 4 w)) (\<lambda>buf.
       Inr (buf, d, irq))))"

text \<open>The 64-bit addresses are assembled by OR-ing the two halves into the field.\<close>

definition or_low :: "u32 \<Rightarrow> u64 \<Rightarrow> u64" where "or_low v a = a OR push_bit 0 (ucast v)"
definition or_high :: "u32 \<Rightarrow> u64 \<Rightarrow> u64" where "or_high v a = a OR push_bit 32 (ucast v)"

definition reg_write ::
  "u64 \<Rightarrow> u32 \<Rightarrow> 'a vdev_scheme \<times> interrupt \<Rightarrow> ('a vdev_scheme \<times> interrupt) res" where
  "reg_write off value = (\<lambda>(d, irq).
     let on_q = (\<lambda>f. and_then (q_cur_update f d) (\<lambda>d. Inr (d, irq))) in
     if off = VIRTIO_MMIO_STATUS then Inr (write_status value d, irq)
     else if off = VIRTIO_MMIO_DEVICE_FEATURES_SEL then
       Inr (d\<lparr>vd_device_feature_sel := (value = 1)\<rparr>, irq)
     else if off = VIRTIO_MMIO_DRIVER_FEATURES then
       (let shift = (if vd_driver_feature_sel d then 32 else 0) in
        Inr (d\<lparr>vd_driver_features := vd_driver_features d OR push_bit shift (ucast value)\<rparr>, irq))
     else if off = VIRTIO_MMIO_DRIVER_FEATURES_SEL then
       Inr (d\<lparr>vd_driver_feature_sel := (value = 1)\<rparr>, irq)
     else if off = VIRTIO_MMIO_QUEUE_SEL then Inr (d\<lparr>vd_queue_index := value\<rparr>, irq)
     else if off = VIRTIO_MMIO_QUEUE_NUM then on_q (\<lambda>q. q\<lparr>q_size := value\<rparr>)
     else if off = VIRTIO_MMIO_QUEUE_READY then on_q set_ready
     else if off = VIRTIO_MMIO_QUEUE_NOTIFY then
       and_then (q_at_update value set_notify d) (\<lambda>d. Inr (d, irq))
     else if off = VIRTIO_MMIO_QUEUE_DESC_LOW then on_q (q_desc_addr_update (or_low value))
     else if off = VIRTIO_MMIO_QUEUE_DESC_HIGH then on_q (q_desc_addr_update (or_high value))
     else if off = VIRTIO_MMIO_QUEUE_AVAIL_LOW then on_q (q_avail_addr_update (or_low value))
     else if off = VIRTIO_MMIO_QUEUE_AVAIL_HIGH then on_q (q_avail_addr_update (or_high value))
     else if off = VIRTIO_MMIO_QUEUE_USED_LOW then on_q (q_used_addr_update (or_low value))
     else if off = VIRTIO_MMIO_QUEUE_USED_HIGH then on_q (q_used_addr_update (or_high value))
     else if off = VIRTIO_MMIO_INTERRUPT_ACK then
       (if value = 0x1 then and_then (irq_ack irq) (\<lambda>irq. Inr (d, irq)) else Inr (d, irq))
     else Inr (d, irq))"

definition holder_write ::
  "'a vdev_scheme virtio_class \<Rightarrow> u8 list \<Rightarrow> u64 \<Rightarrow> u32 \<Rightarrow>
   'a vdev_scheme \<times> interrupt \<Rightarrow> ('a vdev_scheme \<times> interrupt) res" where
  "holder_write c data off sz = (\<lambda>(d, irq).
     and_then (buf_read data 0 4) (\<lambda>bs.
     if off \<ge> VIRTIO_MMIO_CONFIG then
       and_then (vc_write c data (off - VIRTIO_MMIO_CONFIG) sz d) (\<lambda>d. Inr (d, irq))
     else reg_write off (le_word bs) (d, irq)))"

section \<open>The bus\<close>

text \<open>
  The devices in the order they were added; each with its window, its state \<open>'s\<close> and the three
  virtual functions of \<^verbatim>\<open>mmio_device\<close> as arguments. An address no window contains reads as the
  empty vector.
\<close>

record 's mmio_slot =
  ms_window :: io_window
  ms_state :: 's

fun mmio_read ::
  "(u64 \<Rightarrow> u32 \<Rightarrow> 's \<Rightarrow> (u8 list \<times> 's) res) \<Rightarrow> u64 \<Rightarrow> u32 \<Rightarrow> 's mmio_slot list \<Rightarrow>
   (u8 list \<times> 's mmio_slot list) res" where
  "mmio_read rd off sz [] = Inr ([], [])"
| "mmio_read rd off sz (s # ss) =
     (if in_range (ms_window s) off
      then and_then (rd (offset (ms_window s) off) sz (ms_state s)) (\<lambda>(buf, st).
           Inr (buf, s\<lparr>ms_state := st\<rparr> # ss))
      else and_then (mmio_read rd off sz ss) (\<lambda>(buf, ss). Inr (buf, s # ss)))"

fun mmio_write ::
  "(u8 list \<Rightarrow> u64 \<Rightarrow> u32 \<Rightarrow> 's \<Rightarrow> 's res) \<Rightarrow> u8 list \<Rightarrow> u64 \<Rightarrow> u32 \<Rightarrow> 's mmio_slot list \<Rightarrow>
   's mmio_slot list res" where
  "mmio_write wr data off sz [] = Inr []"
| "mmio_write wr data off sz (s # ss) =
     (if in_range (ms_window s) off
      then and_then (wr data (offset (ms_window s) off) sz (ms_state s)) (\<lambda>st.
           Inr (s\<lparr>ms_state := st\<rparr> # ss))
      else and_then (mmio_write wr data off sz ss) (\<lambda>ss. Inr (s # ss)))"

fun mmio_update ::
  "(gmem \<Rightarrow> 's \<Rightarrow> (gmem \<times> 's) res) \<Rightarrow> gmem \<Rightarrow> 's mmio_slot list \<Rightarrow> (gmem \<times> 's mmio_slot list) res" where
  "mmio_update upd m [] = Inr (m, [])"
| "mmio_update upd m (s # ss) =
     and_then (upd m (ms_state s)) (\<lambda>(m, st).
     and_then (mmio_update upd m ss) (\<lambda>(m, ss). Inr (m, s\<lparr>ms_state := st\<rparr> # ss)))"

section \<open>Registers within bounds\<close>

definition queue_regs :: "u64 set" where
  "queue_regs = {VIRTIO_MMIO_QUEUE_NUM, VIRTIO_MMIO_QUEUE_READY,
     VIRTIO_MMIO_QUEUE_DESC_LOW, VIRTIO_MMIO_QUEUE_DESC_HIGH,
     VIRTIO_MMIO_QUEUE_AVAIL_LOW, VIRTIO_MMIO_QUEUE_AVAIL_HIGH,
     VIRTIO_MMIO_QUEUE_USED_LOW, VIRTIO_MMIO_QUEUE_USED_HIGH}"

lemma buf_write_fits: "xs \<noteq> [] \<Longrightarrow> length xs \<le> length buf \<Longrightarrow>
   buf_write buf 0 xs = Inr (xs @ drop (length xs) buf)"
  by (simp add: buf_write_def)

lemma le_bytes_4_Nil [simp]: "le_bytes 4 w \<noteq> []"
  by (metis length_0_conv length_le_bytes zero_neq_numeral)

lemma buf_read_4: "4 \<le> length data \<Longrightarrow> buf_read data 0 4 = Inr (take 4 data)"
  by (simp add: buf_read_def)

lemma reg_read_value_iff:
  "(\<exists>v. reg_read_value c off d irq = Inr v) \<longleftrightarrow>
     (off = VIRTIO_MMIO_QUEUE_READY \<longrightarrow> unat (vd_queue_index d) < length (vd_queues d))"
proof (cases "unat (vd_queue_index d) < length (vd_queues d)")
  case True
  then show ?thesis by (simp add: reg_read_value_def Let_def q_cur_def)
next
  case False
  then show ?thesis
    by (cases "off = VIRTIO_MMIO_QUEUE_READY") (simp_all add: reg_read_value_def Let_def q_cur_def mmio_regs)
qed

lemma reg_write_iff:
  "(\<exists>r. reg_write off value (d, irq) = Inr r) \<longleftrightarrow>
     (off \<in> queue_regs \<longrightarrow> unat (vd_queue_index d) < length (vd_queues d)) \<and>
     (off = VIRTIO_MMIO_QUEUE_NOTIFY \<longrightarrow> unat value < length (vd_queues d))"
proof -
  let ?n = "length (vd_queues d)"
  consider "unat (vd_queue_index d) < ?n" | "\<not> unat (vd_queue_index d) < ?n" by blast
  then show ?thesis
  proof cases
    case 1
    then show ?thesis
      by (cases "unat value < ?n")
         (simp_all add: reg_write_def Let_def q_cur_update_def irq_ack_def set_level_False mmio_regs)
  next
    case 2
    then show ?thesis
      by (cases "unat value < ?n"; cases "off \<in> queue_regs")
         (auto simp: reg_write_def Let_def q_cur_update_def irq_ack_def set_level_False
            queue_regs_def mmio_regs)
  qed
qed

lemma reg_write_queue_count:
  "reg_write off value (d, irq) = Inr (d', irq') \<Longrightarrow> length (vd_queues d') = length (vd_queues d)"
  by (auto simp: reg_write_def Let_def q_cur_update_def q_at_update_Inr write_status_def
      split: if_splits)

lemma reg_write_irq:
  "reg_write off value (d, irq) = Inr (d', irq') \<Longrightarrow>
   irq' = irq \<or> off = VIRTIO_MMIO_INTERRUPT_ACK \<and> irq' = irq\<lparr>irq_state := False\<rparr>"
  by (auto simp: reg_write_def Let_def irq_ack_def set_level_False split: if_splits)

text \<open>The bounds check of the configuration spaces, where it does not wrap around.\<close>

lemma cfg_no_wrap:
  "unat (off :: u64) + unat (sz :: u32) < 18446744073709551616 \<Longrightarrow> n < 18446744073709551616 \<Longrightarrow>
   off + ucast sz > of_nat n \<longleftrightarrow> unat off + unat sz > n"
  by (simp add: word_less_nat_alt unat_add_no_wrap unat_ucast_up unat_of_nat_small)

section \<open>The contract of a virtio device\<close>

text \<open>
  What the register window and the bus rely on: configuration reads answer with the bytes asked
  for, configuration writes and queue service keep the number of queues and the device's own
  invariant, and the invariant does not depend on what the registers can change.
\<close>

locale virtio_dev =
  fixes c :: "'a vdev_scheme virtio_class"
    and dinv :: "'a vdev_scheme \<Rightarrow> bool"
    and n :: nat
  assumes cfg_read: "dinv d \<Longrightarrow> unat off + unat sz < 18446744073709551616 \<Longrightarrow>
      \<exists>buf. vc_read c off sz d = Inr buf"
    and cfg_length: "vc_read c off sz d = Inr buf \<Longrightarrow> length buf = unat sz"
    and cfg_write: "dinv d \<Longrightarrow> vc_write c bs off sz d = Inr d' \<Longrightarrow> dinv d'"
    and reg_inv: "dinv d \<Longrightarrow> reg_write off v (d, irq) = Inr (d', irq') \<Longrightarrow> dinv d'"
    and queue_count: "dinv d \<Longrightarrow> length (vd_queues d) = n"
    and update_inv: "dinv d \<Longrightarrow> vc_update c m (d, irq) = Inr (m', d', irq') \<Longrightarrow>
      dinv d' \<and> gm_size m' = gm_size m \<and> vd_queue_index d' = vd_queue_index d"
begin

lemma read_length:
  "holder_read c off sz (d, irq) = Inr (buf, d', irq') \<Longrightarrow> length buf = unat sz"
  by (auto simp: holder_read_def split: if_splits option.splits dest: cfg_length dest!: length_buf_write)

lemma read_pure: "holder_read c off sz s = Inr (buf, s') \<Longrightarrow> s' = s"
  by (auto simp: holder_read_def split: if_splits option.splits prod.splits)

lemma write_inv:
  "dinv d \<Longrightarrow> holder_write c bs off sz (d, irq) = Inr (d', irq') \<Longrightarrow> dinv d'"
  by (auto simp: holder_write_def split: if_splits dest: cfg_write reg_inv)

text \<open>Four-byte reads are served as soon as the selected queue exists.\<close>

lemma read_served:
  assumes "dinv d" "unat (vd_queue_index d) < n"
  shows "\<exists>buf. holder_read c off 4 (d, irq) = Inr (buf, d, irq) \<and> length buf = 4"
proof (cases "off \<ge> VIRTIO_MMIO_CONFIG")
  case True
  have "unat (off - VIRTIO_MMIO_CONFIG) + unat (4 :: u32) < 18446744073709551616"
    using True unat_less64[of off] by (simp add: unat_diff_no_wrap) (simp add: mmio_regs word_le_nat_alt)
  from cfg_read[OF assms(1) this] True cfg_length show ?thesis
    by (fastforce simp: holder_read_def)
next
  case False
  from assms have "\<exists>v. reg_read_value c off d irq = Inr v"
    by (simp add: reg_read_value_iff queue_count)
  with False obtain v where "reg_read_value c off d irq = Inr v" by blast
  with False show ?thesis
    by (cases v) (simp_all add: holder_read_def buf_write_fits)
qed

end

sublocale virtio_dev \<subseteq> window: port_device "holder_read c" "holder_write c" "\<lambda>s. dinv (fst s)"
proof
  fix off sz and d :: "'a vdev_scheme \<times> interrupt" and buf d'
  assume r: "holder_read c off sz d = Inr (buf, d')"
  then show "length buf = unat sz" by (cases d; cases d') (auto dest: read_length)
  show "dinv (fst d) \<Longrightarrow> dinv (fst d')" using read_pure[OF r] by simp
next
  fix bs off sz and d :: "'a vdev_scheme \<times> interrupt" and d'
  assume "dinv (fst d)" "holder_write c bs off sz d = Inr d'"
  then show "dinv (fst d')" by (cases d; cases d') (auto dest: write_inv)
qed

section \<open>Setting up a queue\<close>

text \<open>The driver's register writes for one queue, and the queue they leave behind.\<close>

fun reg_writes ::
  "(u64 \<times> u32) list \<Rightarrow> 'a vdev_scheme \<times> interrupt \<Rightarrow> ('a vdev_scheme \<times> interrupt) res" where
  "reg_writes [] s = Inr s"
| "reg_writes ((off, v) # ws) s = and_then (reg_write off v s) (reg_writes ws)"

definition queue_setup :: "u32 \<Rightarrow> u32 \<Rightarrow> u64 \<Rightarrow> u64 \<Rightarrow> u64 \<Rightarrow> (u64 \<times> u32) list" where
  "queue_setup i sz desc avail used =
     [(VIRTIO_MMIO_QUEUE_SEL, i), (VIRTIO_MMIO_QUEUE_NUM, sz),
      (VIRTIO_MMIO_QUEUE_DESC_LOW, ucast desc), (VIRTIO_MMIO_QUEUE_DESC_HIGH, ucast (drop_bit 32 desc)),
      (VIRTIO_MMIO_QUEUE_AVAIL_LOW, ucast avail), (VIRTIO_MMIO_QUEUE_AVAIL_HIGH, ucast (drop_bit 32 avail)),
      (VIRTIO_MMIO_QUEUE_USED_LOW, ucast used), (VIRTIO_MMIO_QUEUE_USED_HIGH, ucast (drop_bit 32 used)),
      (VIRTIO_MMIO_QUEUE_READY, 1)]"

lemma or_halves: "or_high (ucast (drop_bit 32 (a :: u64))) (or_low (ucast a) b) = b OR a"
proof (rule bit_word_eqI)
  fix k assume k: "k < LENGTH(64)"
  show "bit (or_high (ucast (drop_bit 32 a)) (or_low (ucast a) b)) k = bit (b OR a) k"
    using k by (auto simp: or_low_def or_high_def bit_simps)
qed

definition set_up :: "queue \<Rightarrow> u32 \<Rightarrow> u64 \<Rightarrow> u64 \<Rightarrow> u64 \<Rightarrow> queue" where
  "set_up q sz desc avail used =
     q\<lparr>q_size := sz, q_desc_addr := q_desc_addr q OR desc, q_avail_addr := q_avail_addr q OR avail,
       q_used_addr := q_used_addr q OR used, q_ready := True\<rparr>"

lemma queue_setup_effect:
  assumes "unat i < length (vd_queues d)"
  shows "reg_writes (queue_setup i sz desc avail used) (d, irq) =
    Inr (d\<lparr>vd_queue_index := i,
           vd_queues := (vd_queues d)[unat i := set_up (vd_queues d ! unat i) sz desc avail used]\<rparr>, irq)"
  using assms
  by (cases "vd_queues d ! unat i")
     (simp add: queue_setup_def reg_write_def Let_def q_cur_update_def mmio_regs set_up_def
      set_ready_def or_halves)

section \<open>Dispatch\<close>

definition windows_ok :: "'s mmio_slot list \<Rightarrow> bool" where
  "windows_ok ss \<longleftrightarrow>
     list_all (\<lambda>s. unat (io_addr (ms_window s)) + unat (io_width (ms_window s)) < 18446744073709551616) ss \<and>
     (\<forall>i < length ss. \<forall>j < i. windows_apart (ms_window (ss ! j)) (ms_window (ss ! i)))"

lemma windows_ok_same:
  assumes "map ms_window ss' = map ms_window ss"
  shows "windows_ok ss' = windows_ok ss"
proof -
  have "length ss' = length ss" "\<And>j. j < length ss \<Longrightarrow> ms_window (ss' ! j) = ms_window (ss ! j)"
    using assms by (metis length_map, metis length_map nth_map)
  then show ?thesis by (simp add: windows_ok_def list_all_length)
qed

lemma windows_ok_Cons:
  "windows_ok (s # ss) \<Longrightarrow> windows_ok ss \<and>
     (in_range (ms_window (ss ! i)) off \<longrightarrow> i < length ss \<longrightarrow> \<not> in_range (ms_window s) off)"
proof
  assume w: "windows_ok (s # ss)"
  then show "windows_ok ss" by (fastforce simp: windows_ok_def)
  show "in_range (ms_window (ss ! i)) off \<longrightarrow> i < length ss \<longrightarrow> \<not> in_range (ms_window s) off"
  proof (intro impI)
    assume i: "in_range (ms_window (ss ! i)) off" "i < length ss"
    have "\<forall>i < length (s # ss). \<forall>j < i. windows_apart (ms_window ((s # ss) ! j)) (ms_window ((s # ss) ! i))"
      using w unfolding windows_ok_def by blast
    from this[rule_format, of "Suc i" 0] i(2)
    have "windows_apart (ms_window s) (ms_window (ss ! i))" by simp
    then have "windows_apart (ms_window (ss ! i)) (ms_window s)" by (auto simp: windows_apart_def)
    then show "\<not> in_range (ms_window s) off"
      using i w by (intro windows_apart_in_range[OF _ i(1)]) (auto simp: windows_ok_def list_all_length)
  qed
qed

lemma mmio_read_hit:
  "windows_ok ss \<Longrightarrow> i < length ss \<Longrightarrow> in_range (ms_window (ss ! i)) off \<Longrightarrow>
   mmio_read rd off sz ss =
     and_then (rd (offset (ms_window (ss ! i)) off) sz (ms_state (ss ! i))) (\<lambda>(buf, st).
     Inr (buf, ss[i := (ss ! i)\<lparr>ms_state := st\<rparr>]))"
proof (induction ss arbitrary: i)
  case (Cons s ss)
  then show ?case
    using windows_ok_Cons[OF Cons.prems(1)]
    by (cases i) (auto simp: and_then_assoc intro!: and_then_cong)
qed simp

lemma mmio_write_hit:
  "windows_ok ss \<Longrightarrow> i < length ss \<Longrightarrow> in_range (ms_window (ss ! i)) off \<Longrightarrow>
   mmio_write wr data off sz ss =
     and_then (wr data (offset (ms_window (ss ! i)) off) sz (ms_state (ss ! i))) (\<lambda>st.
     Inr (ss[i := (ss ! i)\<lparr>ms_state := st\<rparr>]))"
proof (induction ss arbitrary: i)
  case (Cons s ss)
  then show ?case
    using windows_ok_Cons[OF Cons.prems(1)]
    by (cases i) (auto simp: and_then_assoc intro!: and_then_cong)
qed simp

lemma mmio_miss:
  assumes "\<not> list_ex (\<lambda>s. in_range (ms_window s) off) ss"
  shows "mmio_read rd off sz ss = Inr ([], ss)" "mmio_write wr data off sz ss = Inr ss"
  using assms by (induction ss) auto

section \<open>Properties\<close>

text \<open>C18: The nine register writes by which a driver sets up a queue leave exactly that queue, with
  exactly the size and the 64-bit ring addresses the driver wrote in two halves, ready and with no
  request taken. Nothing else of the device changes but the selector: every other queue, the
  negotiated features, the status and the device's own fields are untouched, and the line is not
  driven. The queue must be in the state the constructor left it in.\<close>

theorem mmio_configures_queue:
  assumes "unat i < length (vd_queues d)" "vd_queues d ! unat i = queue_new"
  shows "reg_writes (queue_setup i sz desc avail used) (d, irq) =
    Inr (d\<lparr>vd_queue_index := i, vd_queues := (vd_queues d)[unat i :=
      \<lparr>q_size = sz, q_desc_addr = desc, q_avail_addr = avail, q_used_addr = used,
       q_notify = 0, q_last_avail = 0, q_ready = True\<rparr>]\<rparr>, irq)"
  using assms by (simp add: queue_setup_effect set_up_def queue_new_def)

theorem mmio_configures_queue_witness:
  "\<exists>d'. reg_writes (queue_setup 1 256 0x100001000 0x100002000 0x3000) (vdev_new 3, interrupt_new 14 True) =
       Inr (d', interrupt_new 14 True) \<and>
     q_desc_addr (vd_queues d' ! 1) = 0x100001000 \<and> vd_queues d' ! 2 = queue_new"
proof -
  have fresh: "vd_queues (vdev_new 3) ! unat (1 :: u32) = queue_new" by (simp add: vdev_new_def)
  have third: "vd_queues (vdev_new 3) = replicate 3 queue_new" by (simp add: vdev_new_def)
  show ?thesis
    using mmio_configures_queue[of 1 "vdev_new 3", OF _ fresh, of 256 "0x100001000" "0x100002000" "0x3000"
        "interrupt_new 14 True"] third
    by (simp add: numeral_3_eq_3 numeral_2_eq_2)
qed

text \<open>Writing 0 to the status register, the reset of the virtio specification, resets no
  queue: a driver that sets its queue up again gets the bitwise OR of the old and the new ring
  addresses, and the old position in the available ring.\<close>

theorem queue_setup_after_reset_accumulates:
  assumes "unat i < length (vd_queues d)"
  shows "\<exists>d'. reg_writes ((VIRTIO_MMIO_STATUS, 0) # queue_setup i sz desc avail used) (d, irq) = Inr (d', irq) \<and>
    vd_status d' = status_code VIRTIO_DEVICE_RESET \<and>
    (let q = vd_queues d ! unat i; q' = vd_queues d' ! unat i in
     q_desc_addr q' = q_desc_addr q OR desc \<and> q_avail_addr q' = q_avail_addr q OR avail \<and>
     q_used_addr q' = q_used_addr q OR used \<and> q_last_avail q' = q_last_avail q)"
proof -
  have w: "reg_write VIRTIO_MMIO_STATUS 0 (d, irq) = Inr (d\<lparr>vd_status := 0\<rparr>, irq)"
    by (simp add: reg_write_def write_status_def)
  show ?thesis
    using assms by (simp add: w queue_setup_effect set_up_def Let_def)
qed

theorem queue_setup_after_reset_accumulates_witness:
  "\<exists>d'. reg_writes (queue_setup 0 4 0x1000 0x2000 0x3000 @ (VIRTIO_MMIO_STATUS, 0) #
          queue_setup 0 4 0x4000 0x5000 0x6000) (vdev_new 1, interrupt_new 13 True) =
        Inr (d', interrupt_new 13 True) \<and>
     q_desc_addr (vd_queues d' ! 0) = 0x5000"
proof -
  obtain d where d: "reg_writes (queue_setup 0 4 0x1000 0x2000 0x3000) (vdev_new 1, interrupt_new 13 True) =
      Inr (d, interrupt_new 13 True)" "length (vd_queues d) = 1" "q_desc_addr (vd_queues d ! 0) = 0x1000"
    using queue_setup_effect[of 0 "vdev_new 1" 4 "0x1000" "0x2000" "0x3000" "interrupt_new 13 True"]
    by (simp add: set_up_def vdev_new_def queue_new_def)
  have app: "reg_writes (xs @ ys) s = and_then (reg_writes xs s) (reg_writes ys)"
    for xs ys and s :: "vdev \<times> interrupt"
    by (induction xs s rule: reg_writes.induct) (auto simp: and_then_assoc intro!: and_then_cong)
  show ?thesis
    using queue_setup_after_reset_accumulates[of 0 d 4 "0x4000" "0x5000" "0x6000" "interrupt_new 13 True"] d
    by (auto simp: app Let_def)
qed

text \<open>What a driver reads from the feature register: bit \<open>k\<close> of either word is offered to it
  exactly when the device has it and \<open>k < 24\<close>. The mask is 24 bits wide, so features 24 to 31 and 56
  to 63 of a device, \<^verbatim>\<open>VIRTIO_RING_F_EVENT_IDX\<close> among them, never reach the driver.\<close>

theorem mmio_features_visible:
  assumes "k < 32"
  shows "\<exists>w. holder_read c VIRTIO_MMIO_DEVICE_FEATURES 4 (d, irq) = Inr (le_bytes 4 (w :: u32), d, irq) \<and>
    (bit w k \<longleftrightarrow> k < 24 \<and>
       bit (offered_features c) (if vd_device_feature_sel d then 32 + k else k))"
proof -
  have mask: "bit (0xFFFFFF :: u64) j \<longleftrightarrow> j < 24" for j
    using bit_mask_iff[where 'a = u64, of 24 j] by (auto simp: mask_eq_exp_minus_1)
  have mask_int: "bit (0xFFFFFF :: int) j \<longleftrightarrow> j < 24" for j
    using bit_mask_iff[where 'a = int, of 24 j] by (auto simp: mask_eq_exp_minus_1)
  let ?w = "ucast (drop_bit (if vd_device_feature_sel d then 32 else 0) (offered_features c) AND 0xFFFFFF) :: u32"
  have "holder_read c VIRTIO_MMIO_DEVICE_FEATURES 4 (d, irq) = Inr (le_bytes 4 ?w, d, irq)"
    by (simp add: holder_read_def reg_read_value_def Let_def buf_write_fits mmio_regs)
  moreover have "bit ?w k \<longleftrightarrow> k < 24 \<and>
      bit (offered_features c) (if vd_device_feature_sel d then 32 + k else k)"
    using assms by (auto simp: bit_simps mask mask_int)
  ultimately show ?thesis by blast
qed

theorem mmio_features_visible_witness:
  "\<exists>w. holder_read \<lparr>vc_device_id = 2, vc_features = 0x20000006, vc_config_generation = (\<lambda>_. 0),
          vc_read = (\<lambda>_ _ _. Inr []), vc_write = (\<lambda>_ _ _ d. Inr d), vc_update = (\<lambda>m s. Inr (m, s))\<rparr>
        VIRTIO_MMIO_DEVICE_FEATURES 4 (vdev_new 1, interrupt_new 12 True) =
      Inr (le_bytes 4 (w :: u32), vdev_new 1, interrupt_new 12 True) \<and> \<not> bit w 29"
  using mmio_features_visible[of 29] by auto

text \<open>C19: Exactly which four-byte register accesses are in bounds: reading \<open>QUEUE_READY\<close> and writing
  a queue register need the selected queue to exist, writing \<open>QUEUE_NOTIFY\<close> needs the queue of that
  number to exist; every other access is served. The selector is the guest's, and the code has no
  check: outside these bounds it indexes past the \<^verbatim>\<open>std::array\<close> of queues.\<close>

theorem mmio_register_bounds:
  assumes "off < VIRTIO_MMIO_CONFIG" "length data = 4"
  shows "((\<exists>r. holder_read c off 4 (d, irq) = Inr r) \<longleftrightarrow>
           (off = VIRTIO_MMIO_QUEUE_READY \<longrightarrow> unat (vd_queue_index d) < length (vd_queues d))) \<and>
         ((\<exists>r. holder_write c data off 4 (d, irq) = Inr r) \<longleftrightarrow>
           (off \<in> queue_regs \<longrightarrow> unat (vd_queue_index d) < length (vd_queues d)) \<and>
           (off = VIRTIO_MMIO_QUEUE_NOTIFY \<longrightarrow> unat (le_word data :: u32) < length (vd_queues d)))"
proof
  have reply: "\<exists>buf. (case v of None \<Rightarrow> Inr (zero_buf 4)
      | Some w \<Rightarrow> buf_write (zero_buf 4) 0 (le_bytes 4 w)) = (Inr buf :: u8 list res)" for v :: "u32 option"
    by (cases v) (simp_all add: buf_write_fits)
  have "(\<exists>r. holder_read c off 4 (d, irq) = Inr r) \<longleftrightarrow> (\<exists>v. reg_read_value c off d irq = Inr v)"
  proof (cases "reg_read_value c off d irq")
    case (Inr v)
    with assms(1) reply[of v] show ?thesis by (auto simp: holder_read_def not_le)
  qed (use assms(1) in \<open>auto simp: holder_read_def dest: leD\<close>)
  then show "(\<exists>r. holder_read c off 4 (d, irq) = Inr r) \<longleftrightarrow>
      (off = VIRTIO_MMIO_QUEUE_READY \<longrightarrow> unat (vd_queue_index d) < length (vd_queues d))"
    by (simp only: reg_read_value_iff)
  have "holder_write c data off 4 (d, irq) = reg_write off (le_word data) (d, irq)"
    using assms by (auto simp: holder_write_def buf_read_4 dest: leD)
  then show "(\<exists>r. holder_write c data off 4 (d, irq) = Inr r) \<longleftrightarrow>
      (off \<in> queue_regs \<longrightarrow> unat (vd_queue_index d) < length (vd_queues d)) \<and>
      (off = VIRTIO_MMIO_QUEUE_NOTIFY \<longrightarrow> unat (le_word data :: u32) < length (vd_queues d))"
    by (simp only: reg_write_iff)
qed

theorem mmio_register_bounds_witness:
  "\<forall>c irq. \<not> (\<exists>r. holder_write c [7, 0, 0, 0] VIRTIO_MMIO_QUEUE_NOTIFY 4 (vdev_new 3, irq) = Inr r)"
  using mmio_register_bounds[of VIRTIO_MMIO_QUEUE_NOTIFY "[7, 0, 0, 0]" _ "vdev_new 3"]
  by (auto simp: mmio_regs)

text \<open>C27: The bus hands an access to the one device whose window contains the address, at the offset
  inside that window, and leaves every other device as it was; an address in no window reads as
  nothing and writes nothing.\<close>

theorem mmio_bus_dispatch:
  assumes "windows_ok ss"
  shows "(i < length ss \<and> in_range (ms_window (ss ! i)) off \<longrightarrow>
           mmio_read rd off sz ss =
             and_then (rd (offset (ms_window (ss ! i)) off) sz (ms_state (ss ! i)))
               (\<lambda>(buf, st). Inr (buf, ss[i := (ss ! i)\<lparr>ms_state := st\<rparr>])) \<and>
           mmio_write wr data off sz ss =
             and_then (wr data (offset (ms_window (ss ! i)) off) sz (ms_state (ss ! i)))
               (\<lambda>st. Inr (ss[i := (ss ! i)\<lparr>ms_state := st\<rparr>])) \<and>
           offset (ms_window (ss ! i)) off < io_width (ms_window (ss ! i))) \<and>
         ((\<forall>s \<in> set ss. \<not> in_range (ms_window s) off) \<longrightarrow>
           mmio_read rd off sz ss = Inr ([], ss) \<and> mmio_write wr data off sz ss = Inr ss)"
  using mmio_read_hit[OF assms] mmio_write_hit[OF assms] offset_less_width
    mmio_miss[of off ss] by (auto simp: list_ex_iff)

theorem mmio_bus_dispatch_witness:
  "let ss = [\<lparr>ms_window = \<lparr>io_addr = 0xd0000000, io_width = 0x1000\<rparr>, ms_state = 1 :: nat\<rparr>,
             \<lparr>ms_window = \<lparr>io_addr = 0xd0001000, io_width = 0x1000\<rparr>, ms_state = 2\<rparr>]
   in mmio_read (\<lambda>off sz s. Inr ([ucast off], s + 5)) 0xd0001010 4 ss =
        Inr ([0x10], ss[1 := \<lparr>ms_window = \<lparr>io_addr = 0xd0001000, io_width = 0x1000\<rparr>, ms_state = 7\<rparr>])"
proof -
  let ?ss = "[\<lparr>ms_window = \<lparr>io_addr = 0xd0000000, io_width = 0x1000\<rparr>, ms_state = 1 :: nat\<rparr>,
             \<lparr>ms_window = \<lparr>io_addr = 0xd0001000, io_width = 0x1000\<rparr>, ms_state = 2\<rparr>]"
  have ok: "windows_ok ?ss"
    by (simp add: windows_ok_def windows_apart_def less_Suc_eq)
  show ?thesis
    using mmio_bus_dispatch[OF ok, of 1 "0xd0001010" "\<lambda>off sz s. Inr ([ucast off], s + 5)" 4]
    by (simp add: in_range_def offset_def)
qed

end
