(* ===== verification/Rng.thy ===== *)
theory Rng
  imports Virtio_Mmio
begin

text \<open>
  \<^verbatim>\<open>src/kvm/virtio/rng.h\<close>: the entropy device. \<open>rng_pool\<close> holds the bytes \<^verbatim>\<open>/dev/random\<close> will
  deliver, in order; when they run out the read has not returned yet (\<open>Blocked\<close>).
\<close>

section \<open>State and operations\<close>

record rng = vdev +
  rng_pool :: "u8 list"

definition VIRTIO_ID_RNG :: u32 where "VIRTIO_ID_RNG = 4"

definition rng_new :: "u8 list \<Rightarrow> rng" where
  "rng_new pool = vdev.extend (vdev_new 1) \<lparr>rng_pool = pool\<rparr>"

definition rng_open :: "u8 list option \<Rightarrow> rng res" where
  "rng_open file =
     (case file of None \<Rightarrow> Inl (Exn (RuntimeError ''could not open file''))
      | Some pool \<Rightarrow> Inr (rng_new pool))"

definition rng_read :: "u64 \<Rightarrow> u32 \<Rightarrow> rng \<Rightarrow> u8 list res" where
  "rng_read off sz d = Inr (zero_buf sz)"

definition rng_write :: "u8 list \<Rightarrow> u64 \<Rightarrow> u32 \<Rightarrow> rng \<Rightarrow> rng res" where
  "rng_write data off sz d = Inr d"

definition rng_features :: u32 where "rng_features = 0"

definition rng_config_generation :: "rng \<Rightarrow> u32" where "rng_config_generation d = 0"

text \<open>
  One call of \<^verbatim>\<open>update\<close>. The queue is \<^verbatim>\<open>q()\<close>, the one the guest has selected; one descriptor is
  served whatever its flags say. The length is fetched again after the random bytes are stored.
\<close>

definition fill_random :: "gmem \<Rightarrow> u64 \<Rightarrow> u32 \<Rightarrow> rng \<Rightarrow> (gmem \<times> rng) res" where
  "fill_random m addr len d =
     (if length (rng_pool d) < unat len then Inl Blocked
      else and_then (store_bytes m addr (take (unat len) (rng_pool d))) (\<lambda>m.
           Inr (m, d\<lparr>rng_pool := drop (unat len) (rng_pool d)\<rparr>)))"

definition rng_update :: "gmem \<Rightarrow> rng \<times> interrupt \<Rightarrow> (gmem \<times> rng \<times> interrupt) res" where
  "rng_update m = (\<lambda>(d, irq).
     and_then (q_cur d) (\<lambda>q.
     and_then (queue_next m q) (\<lambda>(r, q).
     and_then (q_cur_update (\<lambda>_. q) d) (\<lambda>d.
     case r of
       None \<Rightarrow> Inr (m, d, irq)
     | Some nxt \<Rightarrow>
         and_then (avail_id m q) (\<lambda>desc_start.
         and_then (elem_addr m nxt) (\<lambda>addr.
         and_then (elem_len m nxt) (\<lambda>n.
         and_then (fill_random m addr n d) (\<lambda>(m, d).
         and_then (elem_len m nxt) (\<lambda>len.
         and_then (add_used m q (ucast desc_start) len) (\<lambda>(_, m).
         and_then (set_level True irq) (\<lambda>irq. Inr (m, d, irq))))))))))))"

definition rng_class :: "rng virtio_class" where
  "rng_class = \<lparr>vc_device_id = VIRTIO_ID_RNG, vc_features = rng_features,
     vc_config_generation = rng_config_generation, vc_read = rng_read, vc_write = rng_write,
     vc_update = rng_update\<rparr>"

lemma rng_class_simps [simp]:
  "vc_read rng_class = rng_read" "vc_write rng_class = rng_write" "vc_update rng_class = rng_update"
  by (simp_all add: rng_class_def)

definition rng_inv :: "rng \<Rightarrow> bool" where
  "rng_inv d \<longleftrightarrow> length (vd_queues d) = 1"

lemma fill_random_Inr:
  "fill_random m addr n d = Inr (m', d') \<Longrightarrow>
   gm_size m' = gm_size m \<and> vd_queues d' = vd_queues d \<and> vd_queue_index d' = vd_queue_index d"
  by (auto simp: fill_random_def mem_access_Inr split: if_splits)

lemma rng_update_inv:
  "rng_update m (d, irq) = Inr (m', d', irq') \<Longrightarrow>
   length (vd_queues d') = length (vd_queues d) \<and> gm_size m' = gm_size m \<and>
   vd_queue_index d' = vd_queue_index d"
  by (auto simp: rng_update_def q_cur_update_def q_at_update_Inr split: option.splits
      dest!: fill_random_Inr add_used_size)

interpretation rng_dev: virtio_dev rng_class rng_inv 1
proof
  fix d :: rng and off v irq d' irq'
  assume "rng_inv d" "reg_write off v (d, irq) = Inr (d', irq')"
  then show "rng_inv d'" by (simp add: rng_inv_def reg_write_queue_count)
next
  fix d :: rng and m irq m' d' irq'
  assume "rng_inv d" "vc_update rng_class m (d, irq) = Inr (m', d', irq')"
  then show "rng_inv d' \<and> gm_size m' = gm_size m \<and> vd_queue_index d' = vd_queue_index d"
    by (auto simp: rng_inv_def dest: rng_update_inv)
qed (auto simp: rng_read_def rng_write_def rng_inv_def)

section \<open>Properties\<close>

lemma rng_update_serves:
  assumes "q_cur d = Inr q" "queue_ok m q" "pending m q = x # xs" "unat x < unat (q_size q)"
    and "buffer_ok m q (desc_addr_at m q x) (unat (desc_len_at m q x))"
    and "unat (desc_len_at m q x) \<le> length (rng_pool d)" "irq_fd_ok irq"
  shows "\<exists>d' irq'. rng_update m (d, irq) =
      Inr (completion (poke m (desc_addr_at m q x) (take (unat (desc_len_at m q x)) (rng_pool d))) q
             (ucast x) (desc_len_at m q x), d', irq') \<and>
    q_cur d' = Inr (q\<lparr>q_last_avail := q_last_avail q + 1\<rparr>) \<and>
    rng_pool d' = drop (unat (desc_len_at m q x)) (rng_pool d) \<and> irq_state irq' \<and> irq_fd_ok irq'"
proof -
  let ?q = "q\<lparr>q_last_avail := q_last_avail q + 1\<rparr>"
  let ?a = "desc_addr_at m q x" and ?n = "desc_len_at m q x"
  let ?bs = "take (unat ?n) (rng_pool d)"
  have len: "length ?bs = unat ?n" using assms(6) by simp
  have idx: "unat (vd_queue_index d) < length (vd_queues d)"
    using assms(1) by (cases "unat (vd_queue_index d) < length (vd_queues d)") (simp_all add: q_cur_def)
  have ok: "queue_ok m ?q" "queue_ok (poke m ?a ?bs) ?q" using assms(2) by simp_all
  have fields: "elem_addr m (desc_ptr q x) = Inr ?a" "elem_len m (desc_ptr q x) = Inr ?n"
    by (rule elem_fields_ok[OF assms(2,4)])+
  have buf: "buffer_ok m q ?a (length ?bs)" using assms(5) len by simp
  have after: "elem_len (poke m ?a ?bs) (desc_ptr q x) = Inr ?n"
    using elem_fields_ok(2)[of "poke m ?a ?bs" q x] buffer_frame_desc(2)[OF assms(2) buf assms(4)]
      assms(2,4) by simp
  have store: "store_bytes m ?a ?bs = Inr (poke m ?a ?bs)"
    using buf by (simp add: buffer_ok_def)
  have used: "add_used (poke m ?a ?bs) ?q s l =
      Inr (peek_used_idx (poke m ?a ?bs) q + 1, completion (poke m ?a ?bs) q s l)" for s l
    using add_used_ok[OF ok(2), of s l] by (simp add: completion_def peek_used_idx_def)
  show ?thesis
    using assms(1,6,7) idx
    by (simp add: rng_update_def queue_next_pending[OF assms(2,3)] q_cur_update_def fields fill_random_def
        store after used set_level_True)
       (simp add: q_cur_def)
qed

text \<open>A published request for random bytes is served completely: the buffer of its first
  descriptor gets the next bytes of the host's generator, the used ring names that descriptor and
  the number of bytes, its index moves on by one, the interrupt line is raised, and the other
  requests stay pending.\<close>

theorem rng_serves_request:
  assumes "q_cur d = Inr q" "queue_ok m q" "pending m q = x # xs" "unat x < unat (q_size q)"
    and "buffer_ok m q (desc_addr_at m q x) (unat (desc_len_at m q x))"
    and "unat (desc_len_at m q x) \<le> length (rng_pool d)" "irq_fd_ok irq"
  shows "\<exists>m' d' q' irq'. rng_update m (d, irq) = Inr (m', d', irq') \<and> q_cur d' = Inr q' \<and>
    peek m' (desc_addr_at m q x) (unat (desc_len_at m q x)) = take (unat (desc_len_at m q x)) (rng_pool d) \<and>
    used_entry m' q (unat (peek_used_idx m q)) = (ucast x, desc_len_at m q x) \<and>
    peek_used_idx m' q = peek_used_idx m q + 1 \<and> pending m' q' = xs \<and> irq_state irq'"
proof -
  let ?q = "q\<lparr>q_last_avail := q_last_avail q + 1\<rparr>"
  let ?a = "desc_addr_at m q x" and ?n = "desc_len_at m q x"
  let ?bs = "take (unat ?n) (rng_pool d)"
  let ?m1 = "poke m ?a ?bs"
  let ?m2 = "completion ?m1 q (ucast x) ?n"
  have len: "length ?bs = unat ?n" using assms(6) by simp
  have buf: "buffer_ok m q ?a (length ?bs)" using assms(5) len by simp
  have ok: "queue_ok ?m1 q" using assms(2) by simp
  have buf1: "buffer_ok ?m1 q ?a (length ?bs)" using buf by (simp add: buffer_ok_def)
  have n: "length ?bs \<le> 2 ^ 64" using len unat_less32[of ?n] by simp
  have same: "peek_used_idx ?m1 q = peek_used_idx m q"
    by (rule buffer_frame_used_idx[OF assms(2) buf])
  have "peek ?m2 ?a (length ?bs) = ?bs"
    using completion_buffer[OF ok buf1] peek_poke_same[OF n] by simp
  moreover have "used_entry ?m2 q (unat (peek_used_idx m q)) = (ucast x, ?n)"
    using completion_entry_same[OF ok] by (simp add: same)
  moreover have "peek_used_idx ?m2 q = peek_used_idx m q + 1"
    using completion_idx[of ?m1 q "ucast x" ?n] by (simp add: same)
  moreover have "pending ?m2 ?q = xs"
  proof -
    have q': "queue_ok m ?q" "queue_ok ?m1 ?q" "buffer_ok m ?q ?a (length ?bs)"
      using assms(2) buf by (simp_all add: buffer_ok_def)
    have "pending ?m2 ?q = pending (completion ?m1 ?q (ucast x) ?n) ?q"
      by (simp add: completion_def peek_used_idx_def)
    also have "\<dots> = xs"
      using completion_pending[OF q'(2)] buffer_frame_avail(2)[OF q'(1,3)]
        queue_next_pending(2)[OF assms(2,3)] by simp
    finally show ?thesis .
  qed
  ultimately show ?thesis
    using rng_update_serves[OF assms] len by fastforce
qed

definition rng_demo_mem :: gmem where
  "rng_demo_mem = demo_mem\<lparr>gm_byte := (gm_byte demo_mem)(49 := 2, 56 := 3)\<rparr>"

definition rng_demo :: rng where
  "rng_demo = (rng_new [7, 8, 9, 10])\<lparr>vd_queues := [demo_queue]\<rparr>"

lemma rng_demo_facts:
  "q_cur rng_demo = Inr demo_queue" "queue_ok rng_demo_mem demo_queue"
  "pending rng_demo_mem demo_queue = [3, 1]" "desc_addr_at rng_demo_mem demo_queue 3 = 512"
  "desc_len_at rng_demo_mem demo_queue 3 = 3" "peek_used_idx rng_demo_mem demo_queue = 0"
  "buffer_ok rng_demo_mem demo_queue 512 3" "rng_pool rng_demo = [7, 8, 9, 10]"
  by (simp_all add: rng_demo_def rng_new_def vdev.extend_def vdev_new_def q_cur_def q_at_def arr_get_def
      queue_ok_def demo_queue_def rng_demo_mem_def demo_mem_def in_mem_def disjoint_ranges_def
      QUEUE_SIZE_MAX_def pending_def avail_entry_def peek_avail_idx_def peek_le_def peek_def upt_rec
      desc_addr_at_def desc_len_at_def peek_used_idx_def buffer_ok_def)

theorem rng_serves_request_witness:
  "\<exists>m' d' q' irq'. rng_update rng_demo_mem (rng_demo, interrupt_new 13 True) = Inr (m', d', irq') \<and>
     q_cur d' = Inr q' \<and> peek m' 512 3 = [7, 8, 9] \<and> used_entry m' demo_queue 0 = (3, 3) \<and>
     peek_used_idx m' demo_queue = 1 \<and> pending m' q' = [1] \<and> irq_state irq'"
  using rng_serves_request[OF rng_demo_facts(1-3), of "interrupt_new 13 True"]
  by (simp add: rng_demo_facts demo_size)

text \<open>The device serves the queue the guest's selector register names, without a check: with one
  queue, every value but 0 makes the next update of the bus index past the array of queues.\<close>

theorem rng_update_trusts_selector:
  assumes "length (vd_queues d) = 1" "vd_queue_index d \<noteq> 0"
  shows "rng_update m (d, irq) = Inl (UB HostBuffer)"
proof -
  have "\<not> unat (vd_queue_index d) < length (vd_queues d)" using assms by simp
  then show ?thesis by (simp add: rng_update_def q_cur_def)
qed

theorem rng_update_trusts_selector_witness:
  "\<forall>m. and_then (reg_write VIRTIO_MMIO_QUEUE_SEL 1 (rng_new [], interrupt_new 13 True)) (rng_update m) =
     Inl (UB HostBuffer)"
proof -
  have "reg_write VIRTIO_MMIO_QUEUE_SEL 1 (rng_new [], interrupt_new 13 True) =
      Inr ((rng_new [])\<lparr>vd_queue_index := 1\<rparr>, interrupt_new 13 True)"
    by (simp add: reg_write_def mmio_regs)
  moreover have "length (vd_queues ((rng_new [])\<lparr>vd_queue_index := 1\<rparr>)) = 1"
    by (simp add: rng_new_def vdev.extend_def vdev_new_def)
  ultimately show ?thesis
    by (simp only: and_then_simps) (intro allI rng_update_trusts_selector; simp)
qed

end
