(* ===== verification/Descriptor_Chain.thy ===== *)
theory Descriptor_Chain
  imports Virtqueue
begin

text \<open>
  Loops over chains of descriptors. The links are in guest memory, so a chain may be cyclic and
  the loops of the devices need not end: \<open>iterate\<close> is the loop combinator, \<open>None\<close> when it runs
  for ever. \<open>chain_at\<close> describes a chain that ends, \<open>gather\<close> reads the bytes of its buffers and
  \<open>scatter\<close> distributes bytes over them.
\<close>

section \<open>Loops\<close>

partial_function (option) iterate :: "('s \<Rightarrow> ('s + 'r) res) \<Rightarrow> 's \<Rightarrow> 'r res option" where
  "iterate f s =
     (case f s of
        Inl e \<Rightarrow> Some (Inl e)
      | Inr (Inl s') \<Rightarrow> iterate f s'
      | Inr (Inr r) \<Rightarrow> Some (Inr r))"

lemma iterate_step: "f s = Inr (Inl s') \<Longrightarrow> iterate f s = iterate f s'"
  by (subst iterate.simps) simp

lemma iterate_done: "f s = Inr (Inr r) \<Longrightarrow> iterate f s = Some (Inr r)"
  by (subst iterate.simps) simp

lemma iterate_fault: "f s = Inl e \<Longrightarrow> iterate f s = Some (Inl e)"
  by (subst iterate.simps) simp

text \<open>A loop whose body always goes on, from a set of states it never leaves, has no result.\<close>

lemma iterate_diverges:
  assumes inv: "P s" and step: "\<And>s. P s \<Longrightarrow> \<exists>s'. f s = Inr (Inl s') \<and> P s'"
  shows "iterate f s = None"
proof (rule ccontr)
  assume "iterate f s \<noteq> None"
  then obtain r where r: "iterate f s = Some r" by blast
  have "f = f \<longrightarrow> \<not> P s"
  proof (rule iterate.raw_induct[where P = "\<lambda>g s r. g = f \<longrightarrow> \<not> P s", OF _ r], intro impI notI)
    fix it g s r
    assume ih: "\<And>g s r. it g s = Some r \<Longrightarrow> g = f \<longrightarrow> \<not> P s"
      and body: "(case g s of Inl e \<Rightarrow> Some (Inl e) | Inr (Inl s') \<Rightarrow> it g s' | Inr (Inr r) \<Rightarrow> Some (Inr r)) = Some r"
      and gf: "g = f" and p: "P s"
    from step[OF p] obtain s' where s': "f s = Inr (Inl s')" "P s'" by blast
    then have "it f s' = Some r" using body gf by simp
    from ih[OF this] s'(2) show False by simp
  qed
  with inv show False by simp
qed

text \<open>What the body keeps, a loop that ends keeps.\<close>

lemma iterate_keeps:
  fixes r :: 'b
  assumes r: "iterate f s = Some (Inr r)" and inv: "P s"
    and step: "\<And>s s'. P s \<Longrightarrow> f s = Inr (Inl s') \<Longrightarrow> P s'" and stop: "\<And>s r. P s \<Longrightarrow> f s = Inr (Inr r) \<Longrightarrow> Q r"
  shows "Q r"
proof -
  have "f = f \<longrightarrow> P s \<longrightarrow> (\<forall>x. (Inr r :: 'b res) = Inr x \<longrightarrow> Q x)"
  proof (rule iterate.raw_induct[where P = "\<lambda>g s r. g = f \<longrightarrow> P s \<longrightarrow> (\<forall>x. r = Inr x \<longrightarrow> Q x)", OF _ r],
      intro impI allI)
    fix it g s r x
    assume ih: "\<And>g s r. it g s = Some r \<Longrightarrow> g = f \<longrightarrow> P s \<longrightarrow> (\<forall>x. r = Inr x \<longrightarrow> Q x)"
      and body: "(case g s of Inl e \<Rightarrow> Some (Inl e) | Inr (Inl s') \<Rightarrow> it g s' | Inr (Inr r) \<Rightarrow> Some (Inr r)) = Some r"
      and gf: "g = f" and p: "P s" and rx: "r = Inr x"
    show "Q x"
    proof (cases "f s")
      case (Inr y)
      then show ?thesis
        using body gf rx p ih step stop by (cases y) auto
    qed (use body gf rx in simp)
  qed
  with inv show ?thesis by simp
qed

section \<open>Chains\<close>

type_synonym buffers = "(u64 \<times> u32) list"

fun chain_at :: "gmem \<Rightarrow> queue \<Rightarrow> u16 \<Rightarrow> buffers \<Rightarrow> u16 \<Rightarrow> bool" where
  "chain_at m q i [] j \<longleftrightarrow>
     i = j \<and> unat i < unat (q_size q) \<and> desc_flags_at m q i AND VRING_DESC_F_NEXT = 0"
| "chain_at m q i ((a, n) # bufs) j \<longleftrightarrow>
     unat i < unat (q_size q) \<and> desc_flags_at m q i AND VRING_DESC_F_NEXT \<noteq> 0 \<and>
     desc_addr_at m q i = a \<and> desc_len_at m q i = n \<and> chain_at m q (desc_next_at m q i) bufs j"

definition total_len :: "buffers \<Rightarrow> nat" where
  "total_len bufs = sum_list (map (\<lambda>(a, n). unat n) bufs)"

definition total32 :: "buffers \<Rightarrow> u32" where
  "total32 bufs = sum_list (map snd bufs)"

definition gather :: "gmem \<Rightarrow> buffers \<Rightarrow> u8 list" where
  "gather m bufs = concat (map (\<lambda>(a, n). peek m a (unat n)) bufs)"

fun scatter :: "gmem \<Rightarrow> buffers \<Rightarrow> u8 list \<Rightarrow> gmem" where
  "scatter m [] bs = m"
| "scatter m ((a, n) # bufs) bs = scatter (poke m a (take (unat n) bs)) bufs (drop (unat n) bs)"

definition bufs_in :: "gmem \<Rightarrow> buffers \<Rightarrow> bool" where
  "bufs_in m bufs = list_all (\<lambda>(a, n). in_mem m a (unat n)) bufs"

definition bufs_ok :: "gmem \<Rightarrow> queue \<Rightarrow> buffers \<Rightarrow> bool" where
  "bufs_ok m q bufs = list_all (\<lambda>(a, n). buffer_ok m q a (unat n)) bufs"

fun bufs_apart :: "buffers \<Rightarrow> bool" where
  "bufs_apart [] \<longleftrightarrow> True"
| "bufs_apart ((a, n) # bufs) \<longleftrightarrow>
     list_all (\<lambda>(b, k). disjoint_ranges a (unat n) b (unat k)) bufs \<and> bufs_apart bufs"

lemma total_len_simps [simp]:
  "total_len [] = 0" "total_len ((a, n) # bufs) = unat n + total_len bufs"
  "total32 [] = 0" "total32 ((a, n) # bufs) = n + total32 bufs"
  by (simp_all add: total_len_def total32_def)

lemma total32_of_nat: "total32 bufs = of_nat (total_len bufs)"
  by (induction bufs) auto

lemma gather_simps [simp]:
  "gather m [] = []" "gather m ((a, n) # bufs) = peek m a (unat n) @ gather m bufs"
  by (simp_all add: gather_def)

lemma length_gather [simp]: "length (gather m bufs) = total_len bufs"
  by (induction bufs) auto

lemma bufs_simps [simp]:
  "bufs_in m []" "bufs_in m ((a, n) # bufs) \<longleftrightarrow> in_mem m a (unat n) \<and> bufs_in m bufs"
  "bufs_ok m q []" "bufs_ok m q ((a, n) # bufs) \<longleftrightarrow> buffer_ok m q a (unat n) \<and> bufs_ok m q bufs"
  by (simp_all add: bufs_in_def bufs_ok_def)

lemma buffer_ok_poke [simp]: "buffer_ok (poke m b bs) q a n = buffer_ok m q a n"
  by (simp add: buffer_ok_def)

lemma bufs_ok_poke [simp]: "bufs_ok (poke m b bs) q bufs = bufs_ok m q bufs"
  by (simp add: bufs_ok_def)

lemma gm_size_scatter [simp]: "gm_size (scatter m bufs bs) = gm_size m"
  by (induction m bufs bs rule: scatter.induct) auto

lemma queue_ok_size_cong: "gm_size m' = gm_size m \<Longrightarrow> queue_ok m' q = queue_ok m q"
  by (simp add: queue_ok_def in_mem_def)

lemma buffer_ok_size_cong: "gm_size m' = gm_size m \<Longrightarrow> buffer_ok m' q a n = buffer_ok m q a n"
  by (simp add: buffer_ok_def in_mem_def)

text \<open>A buffer may be filled only in part.\<close>

lemma buffer_ok_prefix: "buffer_ok m q a n \<Longrightarrow> k \<le> n \<Longrightarrow> buffer_ok m q a k"
  by (auto simp: buffer_ok_def in_mem_def disjoint_ranges_def)

lemma chain_at_poke:
  assumes "queue_ok m q" "buffer_ok m q a (length bs)"
  shows "chain_at (poke m a bs) q i bufs j = chain_at m q i bufs j"
  by (induction bufs arbitrary: i) (auto simp: buffer_frame_desc[OF assms])

lemma chain_at_index: "chain_at m q i bufs j \<Longrightarrow> unat i < unat (q_size q) \<and> unat j < unat (q_size q)"
  by (induction bufs arbitrary: i) auto

lemma peek_poke_buffers:
  assumes "in_mem m a n" "length bs \<le> n" "in_mem m b k" "disjoint_ranges a n b k"
  shows "peek (poke m a bs) b k = peek m b k"
proof -
  have "disjoint_ranges a (length bs) b k"
    using assms(2,4) by (auto simp: disjoint_ranges_def)
  moreover have "in_mem m a (length bs)"
    using assms(1,2) by (auto simp: in_mem_def)
  ultimately show ?thesis
    using peek_poke_object[of m a "length bs" 0 bs b k 0 k] assms(3) by simp
qed

lemma peek_scatter_apart:
  "bufs_in m bufs \<Longrightarrow> in_mem m b k \<Longrightarrow> list_all (\<lambda>(a, n). disjoint_ranges a (unat n) b k) bufs \<Longrightarrow>
   peek (scatter m bufs bs) b k = peek m b k"
proof (induction m bufs bs rule: scatter.induct)
  case (2 m a n bufs bs)
  then have "peek (poke m a (take (unat n) bs)) b k = peek m b k"
    by (intro peek_poke_buffers[of m a "unat n"]) auto
  with 2 show ?case by (simp add: bufs_in_def)
qed simp

lemma gather_scatter:
  "bufs_in m bufs \<Longrightarrow> bufs_apart bufs \<Longrightarrow> length bs = total_len bufs \<Longrightarrow>
   gather (scatter m bufs bs) bufs = bs"
proof (induction m bufs bs rule: scatter.induct)
  case (2 m a n bufs bs)
  let ?m = "poke m a (take (unat n) bs)"
  have len: "length (take (unat n) bs) = unat n" using 2 by simp
  have "peek (scatter ?m bufs (drop (unat n) bs)) a (unat n) = peek ?m a (unat n)"
    using 2 by (intro peek_scatter_apart)
      (auto simp: bufs_in_def disjoint_ranges_sym[of a] elim!: list.pred_mono_strong)
  also have "\<dots> = take (unat n) bs"
    using peek_poke_same[of "take (unat n) bs" m a] len unat_less32[of n] by simp
  finally show ?case using 2 by (simp add: bufs_in_def)
qed simp

lemma scatter_bufs_in [simp]: "bufs_in (scatter m bufs' bs) bufs = bufs_in m bufs"
  by (simp add: bufs_in_def in_mem_def)

lemma scatter_Nil [simp]: "scatter m bufs [] = m"
  by (induction bufs) auto

lemma scatter_take: "scatter m bufs (take (total_len bufs) bs) = scatter m bufs bs"
proof (induction bufs arbitrary: m bs)
  case (Cons b bufs)
  obtain a n where b: "b = (a, n)" by (cases b)
  have "drop (unat n) (take (unat n + total_len bufs) bs) = take (total_len bufs) (drop (unat n) bs)"
    by (simp add: drop_take)
  with b show ?case by (simp add: Cons.IH min_def)
qed simp

text \<open>Fewer bytes than the buffers hold fill a prefix.\<close>

lemma peek_poke_prefix:
  assumes "length xs \<le> k" "k \<le> 2 ^ 64"
  shows "take (length xs) (peek (poke m a xs) a k) = xs"
  using peek_append[of "poke m a xs" a "length xs" "k - length xs"] peek_poke_same[of xs m a] assms
  by simp

lemma gather_scatter_prefix:
  "bufs_in m bufs \<Longrightarrow> bufs_apart bufs \<Longrightarrow> length bs \<le> total_len bufs \<Longrightarrow>
   take (length bs) (gather (scatter m bufs bs) bufs) = bs"
proof (induction m bufs bs rule: scatter.induct)
  case (2 m a n bufs bs)
  let ?x = "take (unat n) bs"
  let ?m = "poke m a ?x"
  have m: "in_mem m a (unat n)" using 2(2) by simp
  have small: "unat n \<le> 2 ^ 64" using unat_less32[of n] by simp
  have "peek (scatter ?m bufs (drop (unat n) bs)) a (unat n) = peek ?m a (unat n)"
    using 2(2,3) by (intro peek_scatter_apart)
      (auto simp: bufs_in_def disjoint_ranges_sym[of a] elim!: list.pred_mono_strong)
  moreover have "take (length ?x) (peek ?m a (unat n)) = ?x"
    by (rule peek_poke_prefix) (use small in simp_all)
  moreover have "take (length bs - unat n) (gather (scatter ?m bufs (drop (unat n) bs)) bufs) = drop (unat n) bs"
    using 2 by (simp add: bufs_in_def)
  ultimately show ?case
    by (cases "length bs \<le> unat n") simp_all
qed simp

section \<open>Frames\<close>

text \<open>A chain without header and status: every descriptor, the last included, is a buffer.\<close>

fun frame_at :: "gmem \<Rightarrow> queue \<Rightarrow> u16 \<Rightarrow> buffers \<Rightarrow> bool" where
  "frame_at m q i [] \<longleftrightarrow> False"
| "frame_at m q i ((a, n) # bufs) \<longleftrightarrow>
     unat i < unat (q_size q) \<and> desc_addr_at m q i = a \<and> desc_len_at m q i = n \<and>
     (if bufs = [] then desc_flags_at m q i AND VRING_DESC_F_NEXT = 0
      else desc_flags_at m q i AND VRING_DESC_F_NEXT \<noteq> 0 \<and> frame_at m q (desc_next_at m q i) bufs)"

lemma frame_at_poke:
  assumes "queue_ok m q" "buffer_ok m q a (length bs)"
  shows "frame_at (poke m a bs) q i bufs = frame_at m q i bufs"
  by (induction bufs arbitrary: i) (auto simp: buffer_frame_desc[OF assms])

lemma frame_at_index: "frame_at m q i bufs \<Longrightarrow> unat i < unat (q_size q)"
  by (cases bufs) auto

section \<open>Completing after the data moved\<close>

lemma used_last_avail [simp]:
  "completion m (q\<lparr>q_last_avail := l\<rparr>) = completion m q"
  "peek_used_idx m (q\<lparr>q_last_avail := l\<rparr>) = peek_used_idx m q"
  "used_event m (q\<lparr>q_last_avail := l\<rparr>) = used_event m q"
  by (auto simp: completion_def peek_used_idx_def used_event_def Let_def fun_eq_iff)

lemma gm_size_completion [simp]: "gm_size (completion m q s l) = gm_size m"
  by (simp add: completion_def Let_def)

lemma scatter_used_idx:
  "queue_ok m q \<Longrightarrow> bufs_ok m q bufs \<Longrightarrow> peek_used_idx (scatter m bufs bs) q = peek_used_idx m q"
proof (induction m bufs bs rule: scatter.induct)
  case (2 m a n bufs bs)
  have b: "buffer_ok m q a (length (take (unat n) bs))"
    by (rule buffer_ok_prefix[of m q a "unat n"]) (use 2(3) in simp_all)
  have "bufs_ok (poke m a (take (unat n) bs)) q bufs" "queue_ok (poke m a (take (unat n) bs)) q"
    using 2(2,3) by simp_all
  from 2(1)[OF this(2,1)] show ?case by (simp add: buffer_frame_used_idx[OF 2(2) b])
qed simp

lemma scatter_queue_ok: "queue_ok m q \<Longrightarrow> queue_ok (scatter m bufs bs) q"
  by (subst queue_ok_size_cong[of _ m]) simp_all

lemma scatter_bufs_ok: "bufs_ok (scatter m bufs' bs) q bufs = bufs_ok m q bufs"
  by (simp add: bufs_ok_def buffer_ok_def in_mem_def)

lemma bufs_ok_in: "bufs_ok m q bufs \<Longrightarrow> bufs_in m bufs"
  by (auto simp: bufs_ok_def bufs_in_def buffer_ok_def elim: list.pred_mono_strong)

lemma gather_completion:
  "queue_ok m q \<Longrightarrow> bufs_ok m q bufs \<Longrightarrow> gather (completion m q start len) bufs = gather m bufs"
  by (induction bufs) (auto simp: completion_buffer)

end
