(* ===== verification/Host_File.thy ===== *)
theory Host_File
  imports Prelude
begin

text \<open>
  The host files behind the devices, as \<^verbatim>\<open>std::fstream\<close> presents them: contents, one position
  (a \<^verbatim>\<open>filebuf\<close> has a single one), and whether the stream is good. A failed operation makes every
  later one a no-op, seeking included: the sources never call \<^verbatim>\<open>clear()\<close>. The disk has room, so
  writes themselves do not fail.
\<close>

record fstream =
  fs_data :: "u8 list"
  fs_pos :: nat
  fs_good :: bool

definition file_open :: "u8 list \<Rightarrow> fstream" where
  "file_open bs = \<lparr>fs_data = bs, fs_pos = 0, fs_good = True\<rparr>"

text \<open>An offset is a signed \<^verbatim>\<open>streamoff\<close>; a negative one fails.\<close>

definition file_seek :: "u64 \<Rightarrow> fstream \<Rightarrow> fstream" where
  "file_seek off f =
     (if \<not> fs_good f then f
      else if sint off < 0 then f\<lparr>fs_good := False\<rparr>
      else f\<lparr>fs_pos := unat off\<rparr>)"

definition file_read :: "nat \<Rightarrow> fstream \<Rightarrow> u8 list \<times> fstream" where
  "file_read n f =
     (if \<not> fs_good f then ([], f)
      else let bs = take n (drop (fs_pos f) (fs_data f)) in
           (bs, f\<lparr>fs_pos := fs_pos f + length bs, fs_good := (length bs = n)\<rparr>))"

definition splice :: "nat \<Rightarrow> u8 list \<Rightarrow> u8 list \<Rightarrow> u8 list" where
  "splice pos bs xs =
     (if bs = [] then xs
      else take pos xs @ replicate (pos - length xs) 0 @ bs @ drop (pos + length bs) xs)"

definition file_write :: "u8 list \<Rightarrow> fstream \<Rightarrow> fstream" where
  "file_write bs f =
     (if \<not> fs_good f then f
      else f\<lparr>fs_data := splice (fs_pos f) bs (fs_data f), fs_pos := fs_pos f + length bs\<rparr>)"

section \<open>Facts\<close>

lemma length_splice: "length (splice pos bs xs) = (if bs = [] then length xs else max (length xs) (pos + length bs))"
  by (auto simp: splice_def)

lemma splice_same: "take (length bs) (drop pos (splice pos bs xs)) = bs"
  by (cases "pos \<le> length xs") (simp_all add: splice_def)

lemma splice_before: "pos \<le> length xs \<Longrightarrow> take pos (splice pos bs xs) = take pos xs"
  by (simp add: splice_def)

lemma splice_after: "drop (pos + length bs) (splice pos bs xs) = drop (pos + length bs) xs"
  by (cases "pos \<le> length xs") (simp_all add: splice_def)

lemma splice_splice: "splice (pos + length bs) cs (splice pos bs xs) = splice pos (bs @ cs) xs"
  by (cases "bs = []"; cases "pos \<le> length xs"; cases "pos + length bs \<le> length xs")
     (simp_all add: splice_def add_ac)

lemma file_write_append: "file_write cs (file_write bs f) = file_write (bs @ cs) f"
  by (simp add: file_write_def splice_splice add.assoc)

lemma file_write_good [simp]: "fs_good (file_write bs f) = fs_good f"
  by (simp add: file_write_def)

lemma file_write_Nil [simp]: "file_write [] f = f"
  by (simp add: file_write_def splice_def)

lemma file_seek_good: "fs_good f \<Longrightarrow> 0 \<le> sint off \<Longrightarrow> file_seek off f = f\<lparr>fs_pos := unat off\<rparr>"
  by (simp add: file_seek_def)

lemma file_read_in:
  "fs_good f \<Longrightarrow> fs_pos f + n \<le> length (fs_data f) \<Longrightarrow>
   file_read n f = (take n (drop (fs_pos f) (fs_data f)), f\<lparr>fs_pos := fs_pos f + n\<rparr>)"
  by (simp add: file_read_def Let_def)

text \<open>A stream that has failed once stays failed and does nothing.\<close>

lemma failed_stream [simp]:
  assumes "\<not> fs_good f"
  shows "file_seek off f = f" "file_read n f = ([], f)" "file_write bs f = f"
  using assms by (simp_all add: file_seek_def file_read_def file_write_def)

lemma file_read_past_end:
  "length (fs_data f) < fs_pos f + n \<Longrightarrow> 0 < n \<Longrightarrow> \<not> fs_good (snd (file_read n f))"
  by (auto simp: file_read_def Let_def)

lemma file_read_cases:
  "file_read n f = (bs, f') \<Longrightarrow> length bs \<le> n \<and> fs_data f' = fs_data f \<and>
   (fs_good f' \<longrightarrow> fs_good f \<and> length bs = n \<and> fs_pos f' = fs_pos f + n \<and>
      (n = 0 \<or> fs_pos f + n \<le> length (fs_data f)))"
  by (auto simp: file_read_def Let_def split: if_splits)

end
