(* ===== verification/Blk.thy ===== *)
theory Blk
  imports Virtio_Mmio Descriptor_Chain Host_File
begin

text \<open>
  \<^verbatim>\<open>src/kvm/virtio/blk.h\<close>: the disk. \<open>blk_config\<close> holds the bytes of \<^verbatim>\<open>virtio_blk_config\<close> (its
  length is that structure's size). \<open>blk_round\<close> is one round of the loop in \<^verbatim>\<open>run\<close>, taken as one
  step of the machine; \<open>None\<close> means that it never comes back from a cyclic chain. The constants of
  \<^verbatim>\<open>linux/virtio_blk.h\<close> are those of the virtio specification.
\<close>

section \<open>State\<close>

record blk = vdev +
  blk_file :: fstream
  blk_config :: "u8 list"
  blk_generation :: u32

definition VIRTIO_ID_BLOCK :: u32 where "VIRTIO_ID_BLOCK = 2"
definition VIRTIO_BLK_F_SIZE_MAX :: nat where "VIRTIO_BLK_F_SIZE_MAX = 1"
definition VIRTIO_BLK_F_SEG_MAX :: nat where "VIRTIO_BLK_F_SEG_MAX = 2"
definition VIRTIO_BLK_T_IN :: u32 where "VIRTIO_BLK_T_IN = 0"
definition VIRTIO_BLK_T_OUT :: u32 where "VIRTIO_BLK_T_OUT = 1"
definition VIRTIO_BLK_T_GET_ID :: u32 where "VIRTIO_BLK_T_GET_ID = 8"
definition VIRTIO_BLK_S_OK :: u8 where "VIRTIO_BLK_S_OK = 0"

text \<open>The string and its terminating zero.\<close>

definition DISK_ID :: "u8 list" where
  "DISK_ID = map of_char ''kthxvmkthxvmkthxvmdisk'' @ [0]"

text \<open>
  The constructor: capacity, \<open>size_max\<close> and \<open>seg_max\<close> at offsets 0, 8 and 12 of the configuration;
  the rest of the structure is not initialised.
\<close>

definition blk_new :: "u8 list \<Rightarrow> u8 list \<Rightarrow> blk" where
  "blk_new disk junk = vdev.extend (vdev_new 1)
     \<lparr>blk_file = file_open disk,
      blk_config = le_bytes 8 (of_nat (length disk div 512) :: u64) @ le_bytes 4 (32768 :: u32) @
                   le_bytes 4 (QUEUE_SIZE_MAX div 2) @ drop 16 junk,
      blk_generation = 0\<rparr>"

text \<open>A file that cannot be opened ends the construction; \<open>None\<close> stands for it.\<close>

definition blk_open :: "u8 list option \<Rightarrow> u8 list \<Rightarrow> blk res" where
  "blk_open file junk =
     (case file of None \<Rightarrow> Inl (Exn (RuntimeError ''could not open file''))
      | Some disk \<Rightarrow> Inr (blk_new disk junk))"

section \<open>Configuration space\<close>

definition blk_read :: "u64 \<Rightarrow> u32 \<Rightarrow> blk \<Rightarrow> u8 list res" where
  "blk_read off sz d =
     (if off + ucast sz > of_nat (length (blk_config d)) then Inr (zero_buf sz)
      else buf_read (blk_config d) (unat off) (unat sz))"

definition blk_write :: "u8 list \<Rightarrow> u64 \<Rightarrow> u32 \<Rightarrow> blk \<Rightarrow> blk res" where
  "blk_write data off sz d =
     (if off + ucast sz > of_nat (length (blk_config d)) then Inr d
      else and_then (buf_read data 0 (unat sz)) (\<lambda>bs.
           and_then (buf_write (blk_config d) (unat off) bs) (\<lambda>cfg.
           Inr (d\<lparr>blk_config := cfg, blk_generation := blk_generation d + 1\<rparr>))))"

definition blk_features :: u32 where
  "blk_features = push_bit VIRTIO_BLK_F_SIZE_MAX 1 OR push_bit VIRTIO_BLK_F_SEG_MAX 1 OR
                  push_bit VIRTIO_RING_F_EVENT_IDX 1"

definition blk_config_generation :: "blk \<Rightarrow> u32" where
  "blk_config_generation d = blk_generation d"

section \<open>Requests\<close>

text \<open>The state of the inner loops: the current descriptor, \<open>len\<close>, the file and the memory.\<close>

type_synonym walk_state = "u64 \<times> u32 \<times> fstream \<times> gmem"

definition walk_next :: "gmem \<Rightarrow> queue \<Rightarrow> u64 \<Rightarrow> u64 res" where
  "walk_next m q p = and_then (elem_next m p) (\<lambda>i. Inr (desc_ptr q i))"

text \<open>\<^verbatim>\<open>file.read\<close> stores only the bytes it got; the length is counted in full.\<close>

definition in_body :: "queue \<Rightarrow> walk_state \<Rightarrow> (walk_state + walk_state) res" where
  "in_body q = (\<lambda>(p, len, f, m).
     and_then (elem_flags m p) (\<lambda>fl.
     if fl AND VRING_DESC_F_NEXT = 0 then Inr (Inr (p, len, f, m))
     else
       and_then (elem_addr m p) (\<lambda>a.
       and_then (elem_len m p) (\<lambda>n.
       let (bs, f) = file_read (unat n) f in
       and_then (store_bytes m a bs) (\<lambda>m.
       and_then (elem_len m p) (\<lambda>n.
       and_then (walk_next m q p) (\<lambda>p. Inr (Inl (p, len + n, f, m)))))))))"

text \<open>\<^verbatim>\<open>file.write\<close> does not touch the buffer when the stream has failed.\<close>

definition out_body :: "queue \<Rightarrow> walk_state \<Rightarrow> (walk_state + walk_state) res" where
  "out_body q = (\<lambda>(p, len, f, m).
     and_then (elem_flags m p) (\<lambda>fl.
     if fl AND VRING_DESC_F_NEXT = 0 then Inr (Inr (p, len, f, m))
     else
       and_then (elem_addr m p) (\<lambda>a.
       and_then (elem_len m p) (\<lambda>n.
       and_then (if fs_good f then load_bytes m a (unat n) else Inr []) (\<lambda>bs.
       and_then (walk_next m q p) (\<lambda>p. Inr (Inl (p, len + n, file_write bs f, m))))))))"

definition write_ok :: "gmem \<Rightarrow> u64 \<Rightarrow> gmem res" where
  "write_ok m p = and_then (elem_addr m p) (\<lambda>a. store_bytes m a [VIRTIO_BLK_S_OK])"

text \<open>
  The body of the \<^verbatim>\<open>switch\<close> for the header at \<open>hdr\<close>; \<open>None\<close> inside means an unhandled type,
  where the loop goes on without completing the request.
\<close>

definition finish :: "walk_state res option \<Rightarrow> (u32 \<times> fstream \<times> gmem) option res option" where
  "finish r = (case r of None \<Rightarrow> None
     | Some r \<Rightarrow> Some (and_then r (\<lambda>(p, len, f, m).
                       and_then (write_ok m p) (\<lambda>m. Inr (Some (len + 1, f, m))))))"

definition blk_request ::
  "queue \<Rightarrow> u64 \<Rightarrow> u64 \<Rightarrow> fstream \<Rightarrow> gmem \<Rightarrow> (u32 \<times> fstream \<times> gmem) option res option" where
  "blk_request q nxt hdr f m =
     (case load32 m hdr of Inl e \<Rightarrow> Some (Inl e) | Inr type \<Rightarrow>
      if type = VIRTIO_BLK_T_IN \<or> type = VIRTIO_BLK_T_OUT then
        (case and_then (walk_next m q nxt) (\<lambda>p. and_then (load64 m (hdr + 8)) (\<lambda>sector. Inr (p, sector))) of
           Inl e \<Rightarrow> Some (Inl e)
         | Inr (p, sector) \<Rightarrow>
             finish (iterate (if type = VIRTIO_BLK_T_IN then in_body q else out_body q)
                             (p, 0, file_seek (sector * 512) f, m)))
      else if type = VIRTIO_BLK_T_GET_ID then Some (
        and_then (walk_next m q nxt) (\<lambda>p.
        and_then (elem_addr m p) (\<lambda>a.
        and_then (elem_len m p) (\<lambda>n.
        and_then (buf_read DISK_ID 0 (unat n)) (\<lambda>bs.
        and_then (store_bytes m a bs) (\<lambda>m.
        and_then (elem_len m p) (\<lambda>len.
        and_then (walk_next m q p) (\<lambda>p.
        and_then (write_ok m p) (\<lambda>m. Inr (Some (len + 1, f, m)))))))))))
      else Some (Inr None))"

text \<open>The completion: the comparison of \<open>idx - 1\<close> is done in \<^verbatim>\<open>int\<close>.\<close>

definition blk_complete ::
  "queue \<Rightarrow> u16 \<Rightarrow> blk \<times> interrupt \<Rightarrow> u32 \<times> fstream \<times> gmem \<Rightarrow>
   (gmem \<times> blk \<times> interrupt) res" where
  "blk_complete q desc_start = (\<lambda>(d, irq) (len, f, m).
       and_then (add_used m q (ucast desc_start) len) (\<lambda>(idx, m).
       and_then (used_event m q) (\<lambda>ev.
       and_then (if uint idx - 1 = uint ev then set_level True irq else Inr irq) (\<lambda>irq.
       Inr (m, d\<lparr>blk_file := f\<rparr>, irq)))))"

definition blk_serve ::
  "gmem \<Rightarrow> queue \<Rightarrow> u64 \<Rightarrow> blk \<times> interrupt \<Rightarrow> (gmem \<times> blk \<times> interrupt) res option" where
  "blk_serve m q nxt = (\<lambda>(d, irq).
     case and_then (avail_id m q) (\<lambda>i. and_then (elem_addr m nxt) (\<lambda>hdr. Inr (i, hdr))) of
       Inl e \<Rightarrow> Some (Inl e)
     | Inr (desc_start, hdr) \<Rightarrow>
         (case blk_request q nxt hdr (blk_file d) m of
            None \<Rightarrow> None
          | Some (Inl e) \<Rightarrow> Some (Inl e)
          | Some (Inr None) \<Rightarrow> Some (Inr (m, d, irq))
          | Some (Inr (Some r)) \<Rightarrow> Some (blk_complete q desc_start (d, irq) r)))"

definition blk_round :: "gmem \<Rightarrow> blk \<times> interrupt \<Rightarrow> (gmem \<times> blk \<times> interrupt) res option" where
  "blk_round m = (\<lambda>(d, irq).
     case and_then (q_cur d) (\<lambda>q. queue_next m q) of
       Inl e \<Rightarrow> Some (Inl e)
     | Inr (r, q) \<Rightarrow>
         (case q_cur_update (\<lambda>_. q) d of
            Inl e \<Rightarrow> Some (Inl e)
          | Inr d \<Rightarrow> (case r of None \<Rightarrow> Some (Inr (m, d, irq))
                             | Some nxt \<Rightarrow> blk_serve m q nxt (d, irq))))"

text \<open>\<^verbatim>\<open>update\<close> does nothing: the thread of \<^verbatim>\<open>run\<close> does the work.\<close>

definition blk_update :: "gmem \<Rightarrow> blk \<times> interrupt \<Rightarrow> (gmem \<times> blk \<times> interrupt) res" where
  "blk_update m s = Inr (m, s)"

definition blk_class :: "blk virtio_class" where
  "blk_class = \<lparr>vc_device_id = VIRTIO_ID_BLOCK, vc_features = blk_features,
     vc_config_generation = blk_config_generation, vc_read = blk_read, vc_write = blk_write,
     vc_update = blk_update\<rparr>"

section \<open>Walking a chain\<close>

lemma walk_next_ok:
  "queue_ok m q \<Longrightarrow> unat i < unat (q_size q) \<Longrightarrow>
   walk_next m q (desc_ptr q i) = Inr (desc_ptr q (desc_next_at m q i))"
  by (simp add: walk_next_def elem_fields_ok)

lemma chain_end_flags:
  "queue_ok m q \<Longrightarrow> chain_at m q i [] j \<Longrightarrow>
   j = i \<and> (\<exists>fl. elem_flags m (desc_ptr q i) = Inr fl \<and> fl AND VRING_DESC_F_NEXT = 0)"
  by (auto simp: elem_fields_ok)

lemma out_walk:
  "queue_ok m q \<Longrightarrow> chain_at m q i bufs j \<Longrightarrow> bufs_in m bufs \<Longrightarrow> fs_good f \<Longrightarrow>
   iterate (out_body q) (desc_ptr q i, len, f, m) =
     Some (Inr (desc_ptr q j, len + total32 bufs, file_write (gather m bufs) f, m))"
proof (induction bufs arbitrary: i len f)
  case Nil
  then show ?case
    by (subst iterate_done) (auto simp: out_body_def elem_fields_ok)
next
  case (Cons b bufs)
  obtain a n where b: "b = (a, n)" by (cases b)
  have "out_body q (desc_ptr q i, len, f, m) =
      Inr (Inl (desc_ptr q (desc_next_at m q i), len + n, file_write (peek m a (unat n)) f, m))"
    using Cons.prems b by (auto simp: out_body_def elem_fields_ok walk_next_ok)
  then show ?case
    using Cons.prems b by (simp add: iterate_step Cons.IH file_write_append add.assoc)
qed

lemma out_walk_failed:
  "queue_ok m q \<Longrightarrow> chain_at m q i bufs j \<Longrightarrow> \<not> fs_good f \<Longrightarrow>
   iterate (out_body q) (desc_ptr q i, len, f, m) = Some (Inr (desc_ptr q j, len + total32 bufs, f, m))"
proof (induction bufs arbitrary: i len)
  case Nil
  then show ?case
    by (subst iterate_done) (auto simp: out_body_def elem_fields_ok)
next
  case (Cons b bufs)
  obtain a n where b: "b = (a, n)" by (cases b)
  have "out_body q (desc_ptr q i, len, f, m) = Inr (Inl (desc_ptr q (desc_next_at m q i), len + n, f, m))"
    using Cons.prems b by (auto simp: out_body_def elem_fields_ok walk_next_ok)
  then show ?case
    using Cons.prems b by (simp add: iterate_step Cons.IH add.assoc)
qed

lemma in_step:
  assumes "queue_ok m q" "chain_at m q i ((a, n) # bufs) j" "buffer_ok m q a (unat n)"
    and r: "file_read (unat n) f = (bs, f')" "length bs \<le> unat n"
  shows "in_body q (desc_ptr q i, len, f, m) =
    Inr (Inl (desc_ptr q (desc_next_at m q i), len + n, f', poke m a bs))"
proof -
  have i: "unat i < unat (q_size q)" using assms(2) by simp
  have buf: "buffer_ok m q a (length bs)" by (rule buffer_ok_prefix[OF assms(3) r(2)])
  have q': "queue_ok (poke m a bs) q" using assms(1) by simp
  have st: "store_bytes m a bs = Inr (poke m a bs)" using buf by (simp add: buffer_ok_def)
  show ?thesis
    using assms i
    by (simp add: in_body_def elem_fields_ok r(1) st walk_next_ok[OF q' i]
        elem_fields_ok(2)[OF q' i] buffer_frame_desc[OF assms(1) buf i])
qed

lemma in_walk:
  "queue_ok m q \<Longrightarrow> chain_at m q i bufs j \<Longrightarrow> bufs_ok m q bufs \<Longrightarrow> fs_good f \<Longrightarrow>
   fs_pos f + total_len bufs \<le> length (fs_data f) \<Longrightarrow>
   iterate (in_body q) (desc_ptr q i, len, f, m) =
     Some (Inr (desc_ptr q j, len + total32 bufs, f\<lparr>fs_pos := fs_pos f + total_len bufs\<rparr>,
                scatter m bufs (take (total_len bufs) (drop (fs_pos f) (fs_data f)))))"
proof (induction bufs arbitrary: i len f m)
  case Nil
  then show ?case
    by (subst iterate_done) (auto simp: in_body_def elem_fields_ok)
next
  case (Cons b bufs)
  obtain a n where b: "b = (a, n)" by (cases b)
  let ?bs = "take (unat n) (drop (fs_pos f) (fs_data f))"
  let ?f = "f\<lparr>fs_pos := fs_pos f + unat n\<rparr>" and ?m = "poke m a ?bs"
  have rd: "file_read (unat n) f = (?bs, ?f)"
    using Cons.prems b by (intro file_read_in) auto
  have len: "length ?bs = unat n" using Cons.prems b by simp
  have "in_body q (desc_ptr q i, len, f, m) = Inr (Inl (desc_ptr q (desc_next_at m q i), len + n, ?f, ?m))"
    using Cons.prems b by (intro in_step rd) auto
  moreover have "chain_at ?m q (desc_next_at m q i) bufs j"
    using Cons.prems b len by (subst chain_at_poke) auto
  ultimately show ?case
    using Cons.prems b
    by (simp add: iterate_step Cons.IH take_drop add_ac)
qed

lemma in_walk_failed:
  "queue_ok m q \<Longrightarrow> chain_at m q i bufs j \<Longrightarrow> bufs_ok m q bufs \<Longrightarrow> \<not> fs_good f \<Longrightarrow>
   iterate (in_body q) (desc_ptr q i, len, f, m) = Some (Inr (desc_ptr q j, len + total32 bufs, f, m))"
proof (induction bufs arbitrary: i len)
  case Nil
  then show ?case
    by (subst iterate_done) (auto simp: in_body_def elem_fields_ok)
next
  case (Cons b bufs)
  obtain a n where b: "b = (a, n)" by (cases b)
  have "in_body q (desc_ptr q i, len, f, m) = Inr (Inl (desc_ptr q (desc_next_at m q i), len + n, f, poke m a []))"
    using Cons.prems b by (intro in_step) auto
  then show ?case
    using Cons.prems b by (simp add: iterate_step Cons.IH add.assoc)
qed

section \<open>One request\<close>

text \<open>
  A request as the driver lays it out: a header descriptor, the data buffers, the status byte. The
  status byte may not overlap the data.
\<close>

definition request_at ::
  "gmem \<Rightarrow> queue \<Rightarrow> u16 \<Rightarrow> u32 \<Rightarrow> u64 \<Rightarrow> buffers \<Rightarrow> u16 \<Rightarrow> bool" where
  "request_at m q h type sector bufs st \<longleftrightarrow>
     unat h < unat (q_size q) \<and>
     in_mem m (desc_addr_at m q h) 16 \<and> peek32 m (desc_addr_at m q h) = type \<and>
     peek64 m (desc_addr_at m q h + of_nat 8) = sector \<and>
     chain_at m q (desc_next_at m q h) bufs st \<and> bufs_ok m q bufs \<and>
     buffer_ok m q (desc_addr_at m q st) 1 \<and>
     bufs_apart ((desc_addr_at m q st, 1) # bufs)"

lemma request_header:
  assumes "queue_ok m q" "request_at m q h type sector bufs st"
  shows "elem_addr m (desc_ptr q h) = Inr (desc_addr_at m q h)"
    and "load32 m (desc_addr_at m q h) = Inr type"
    and "load64 m (desc_addr_at m q h + 8) = Inr sector"
    and "walk_next m q (desc_ptr q h) = Inr (desc_ptr q (desc_next_at m q h))"
    and "unat st < unat (q_size q)"
proof -
  let ?a = "desc_addr_at m q h"
  have m: "in_mem m ?a 16" "unat h < unat (q_size q)" using assms(2) by (simp_all add: request_at_def)
  from m(1) have "in_mem m ?a 4" by (auto simp: in_mem_def)
  moreover from in_mem_sub[OF m(1), of 8 8] have "in_mem m (?a + of_nat 8) 8" by simp
  ultimately show "load32 m ?a = Inr type" "load64 m (?a + 8) = Inr sector"
    using assms(2) by (simp_all add: request_at_def)
  show "elem_addr m (desc_ptr q h) = Inr ?a" "walk_next m q (desc_ptr q h) = Inr (desc_ptr q (desc_next_at m q h))"
    using assms(1) m(2) by (simp_all add: elem_fields_ok walk_next_ok)
  show "unat st < unat (q_size q)"
    using assms(2) chain_at_index by (auto simp: request_at_def)
qed

lemma write_ok_poke:
  assumes "queue_ok m q" "unat st < unat (q_size q)" "buffer_ok m q (desc_addr_at m q st) 1"
  shows "write_ok m (desc_ptr q st) = Inr (poke m (desc_addr_at m q st) [VIRTIO_BLK_S_OK])"
  using assms by (simp add: write_ok_def elem_fields_ok buffer_ok_def)

lemma blk_request_out:
  assumes "queue_ok m q" "request_at m q h VIRTIO_BLK_T_OUT sector bufs st"
    and "fs_good f" "0 \<le> sint (sector * 512)"
  shows "blk_request q (desc_ptr q h) (desc_addr_at m q h) f m =
    Some (Inr (Some (total32 bufs + 1, file_write (gather m bufs) (f\<lparr>fs_pos := unat (sector * 512)\<rparr>),
                     poke m (desc_addr_at m q st) [VIRTIO_BLK_S_OK])))"
proof -
  have c: "chain_at m q (desc_next_at m q h) bufs st" "bufs_in m bufs"
    and st: "buffer_ok m q (desc_addr_at m q st) 1"
    using assms(2) bufs_ok_in by (auto simp: request_at_def)
  have w: "iterate (out_body q) (desc_ptr q (desc_next_at m q h), 0, f\<lparr>fs_pos := unat (sector * 512)\<rparr>, m) =
      Some (Inr (desc_ptr q st, total32 bufs, file_write (gather m bufs) (f\<lparr>fs_pos := unat (sector * 512)\<rparr>), m))"
    using out_walk[OF assms(1) c, of "f\<lparr>fs_pos := unat (sector * 512)\<rparr>" 0] assms(3) by simp
  show ?thesis
    using assms(3,4) request_header[OF assms(1,2)]
    by (simp add: blk_request_def VIRTIO_BLK_T_IN_def VIRTIO_BLK_T_OUT_def file_seek_good w finish_def
        write_ok_poke[OF assms(1) _ st])
qed

lemma scatter_status:
  assumes "queue_ok m q" "request_at m q h type sector bufs st"
  shows "queue_ok (scatter m bufs bs) q" and "chain_at (scatter m bufs bs) q i cs j = chain_at m q i cs j"
    and "desc_addr_at (scatter m bufs bs) q st = desc_addr_at m q st"
proof -
  show "queue_ok (scatter m bufs bs) q" 
    using assms(1) by (subst queue_ok_size_cong[of _ m]) simp_all
  have st: "unat st < unat (q_size q)" by (rule request_header(5)[OF assms])
  have "bufs_ok m q bufs" using assms(2) by (simp add: request_at_def)
  with assms(1) have "chain_at (scatter m bufs bs) q i cs j = chain_at m q i cs j \<and>
      desc_addr_at (scatter m bufs bs) q st = desc_addr_at m q st"
  proof (induction m bufs bs rule: scatter.induct)
    case (2 m a n bufs bs)
    have b: "buffer_ok m q a (length (take (unat n) bs))"
      by (rule buffer_ok_prefix[of m q a "unat n"]) (use 2(3) in simp_all)
    have "bufs_ok (poke m a (take (unat n) bs)) q bufs" "queue_ok (poke m a (take (unat n) bs)) q"
      using 2(2,3) by simp_all
    from 2(1)[OF this(2,1)] show ?case
      by (simp add: chain_at_poke[OF 2(2) b] buffer_frame_desc[OF 2(2) b st])
  qed simp
  then show "chain_at (scatter m bufs bs) q i cs j = chain_at m q i cs j"
    "desc_addr_at (scatter m bufs bs) q st = desc_addr_at m q st" by simp_all
qed

lemma blk_request_in:
  assumes "queue_ok m q" "request_at m q h VIRTIO_BLK_T_IN sector bufs st"
    and "fs_good f" "0 \<le> sint (sector * 512)"
    and "unat (sector * 512) + total_len bufs \<le> length (fs_data f)"
  shows "blk_request q (desc_ptr q h) (desc_addr_at m q h) f m =
    Some (Inr (Some (total32 bufs + 1, f\<lparr>fs_pos := unat (sector * 512) + total_len bufs\<rparr>,
      poke (scatter m bufs (take (total_len bufs) (drop (unat (sector * 512)) (fs_data f))))
           (desc_addr_at m q st) [VIRTIO_BLK_S_OK])))"
proof -
  let ?f = "f\<lparr>fs_pos := unat (sector * 512)\<rparr>"
  let ?m = "scatter m bufs (take (total_len bufs) (drop (unat (sector * 512)) (fs_data f)))"
  have c: "chain_at m q (desc_next_at m q h) bufs st" "bufs_ok m q bufs"
    and st: "buffer_ok m q (desc_addr_at m q st) 1"
    using assms(2) by (auto simp: request_at_def)
  have w: "iterate (in_body q) (desc_ptr q (desc_next_at m q h), 0, ?f, m) =
      Some (Inr (desc_ptr q st, total32 bufs, ?f\<lparr>fs_pos := unat (sector * 512) + total_len bufs\<rparr>, ?m))"
    using in_walk[OF assms(1) c, of ?f 0] assms(3,5) by simp
  have wok: "write_ok ?m (desc_ptr q st) = Inr (poke ?m (desc_addr_at m q st) [VIRTIO_BLK_S_OK])"
  proof -
    have "buffer_ok ?m q (desc_addr_at m q st) 1"
      using st by (subst buffer_ok_size_cong[of _ m]) simp_all
    then show ?thesis
      using write_ok_poke[OF scatter_status(1)[OF assms(1,2)] request_header(5)[OF assms(1,2)]]
      by (simp add: scatter_status(3)[OF assms(1,2)])
  qed
  show ?thesis
    using assms(3,4) request_header[OF assms(1,2)]
    by (simp add: blk_request_def VIRTIO_BLK_T_IN_def VIRTIO_BLK_T_OUT_def file_seek_good w finish_def wok)
qed

section \<open>One round of the device thread\<close>

lemma request_last_avail [simp]:
  "walk_next m (q\<lparr>q_last_avail := l\<rparr>) = walk_next m q"
  "in_body (q\<lparr>q_last_avail := l\<rparr>) = in_body q"
  "out_body (q\<lparr>q_last_avail := l\<rparr>) = out_body q"
  "blk_request (q\<lparr>q_last_avail := l\<rparr>) = blk_request q"
proof -
  show w: "walk_next m (q\<lparr>q_last_avail := l\<rparr>) = walk_next m q" for m
    by (rule ext) (simp add: walk_next_def)
  show i: "in_body (q\<lparr>q_last_avail := l\<rparr>) = in_body q" unfolding in_body_def w ..
  show o: "out_body (q\<lparr>q_last_avail := l\<rparr>) = out_body q" unfolding out_body_def w ..
  show "blk_request (q\<lparr>q_last_avail := l\<rparr>) = blk_request q"
    by (intro ext) (simp only: blk_request_def w i o)
qed

definition event_mem :: "gmem \<Rightarrow> queue \<Rightarrow> bool" where
  "event_mem m q \<longleftrightarrow> in_mem m (q_avail_addr q + 4 + 2 * ucast QUEUE_SIZE_MAX) 2"

definition peek_event :: "gmem \<Rightarrow> queue \<Rightarrow> u16" where
  "peek_event m q = peek16 m (q_avail_addr q + 4 + 2 * ucast QUEUE_SIZE_MAX)"

lemma used_event_ok: "event_mem m q \<Longrightarrow> used_event m q = Inr (peek_event m q)"
  by (simp add: event_mem_def used_event_def peek_event_def)

lemma blk_round_serves:
  assumes "q_cur d = Inr q" "queue_ok m q" "pending m q = h # hs" "unat h < unat (q_size q)"
    and r: "blk_request q (desc_ptr q h) (desc_addr_at m q h) (blk_file d) m = Some (Inr (Some (len, f, m1)))"
    and sz: "gm_size m1 = gm_size m" and ev: "event_mem m q" and irq: "irq_fd_ok irq"
  shows "\<exists>d' irq'. blk_round m (d, irq) = Some (Inr (completion m1 q (ucast h) len, d', irq')) \<and>
    q_cur d' = Inr (q\<lparr>q_last_avail := q_last_avail q + 1\<rparr>) \<and> blk_file d' = f \<and>
    blk_config d' = blk_config d \<and>
    irq_fd_ok irq' \<and> irq_state irq' = (irq_state irq \<or>
      uint (peek_used_idx m1 q + 1) - 1 = uint (peek_event (completion m1 q (ucast h) len) q))"
proof -
  let ?q = "q\<lparr>q_last_avail := q_last_avail q + 1\<rparr>"
  let ?m = "completion m1 q (ucast h) len"
  have idx: "unat (vd_queue_index d) < length (vd_queues d)"
    using assms(1) by (cases "unat (vd_queue_index d) < length (vd_queues d)") (simp_all add: q_cur_def)
  have ok1: "queue_ok m1 ?q" using assms(2) by (subst queue_ok_size_cong[OF sz]) simp
  have "event_mem ?m q" using ev sz by (simp add: event_mem_def in_mem_def)
  note event = used_event_ok[OF this]
  have used: "add_used m1 ?q (ucast h) len = Inr (peek_used_idx m1 q + 1, ?m)"
    using add_used_ok[OF ok1, of "ucast h" len] by simp
  show ?thesis
    using assms(1) idx irq
    by (simp add: blk_round_def queue_next_pending[OF assms(2,3)] q_cur_update_def blk_serve_def
        elem_fields_ok[OF assms(2,4)] r blk_complete_def used event set_level_True)
       (simp add: q_cur_def)
qed

text \<open>Whatever the guest has put into its memory, a round that ends keeps the size of the memory, the
  number of queues and the configuration.\<close>

lemma in_body_keeps:
  assumes "iterate (in_body q) (p, len, f, m) = Some (Inr (p', len', f', m'))"
  shows "gm_size m' = gm_size m"
proof -
  have "(\<lambda>(p, len, f, m'). gm_size m' = gm_size m) (p', len', f', m')"
    by (rule iterate_keeps[OF assms, where P = "\<lambda>(p, len, f, m'). gm_size m' = gm_size m"])
       (auto simp: in_body_def mem_access_Inr Let_def case_prod_beta split: if_splits)
  then show ?thesis by simp
qed

lemma out_body_keeps:
  assumes "iterate (out_body q) (p, len, f, m) = Some (Inr (p', len', f', m'))"
  shows "gm_size m' = gm_size m"
proof -
  have "(\<lambda>(p, len, f, m'). gm_size m' = gm_size m) (p', len', f', m')"
    by (rule iterate_keeps[OF assms, where P = "\<lambda>(p, len, f, m'). gm_size m' = gm_size m"])
       (auto simp: out_body_def split: if_splits)
  then show ?thesis by simp
qed

lemma finish_Inr:
  "finish r = Some (Inr (Some (len, f, m'))) \<Longrightarrow>
   \<exists>p l m. r = Some (Inr (p, l, f, m)) \<and> gm_size m' = gm_size m"
  by (auto simp: finish_def write_ok_def mem_access_Inr split: option.splits)

lemma blk_request_keeps:
  assumes "blk_request q nxt hdr f m = Some (Inr (Some (len, f', m')))"
  shows "gm_size m' = gm_size m"
  using assms
  by (auto simp: blk_request_def Let_def write_ok_def mem_access_Inr split: sum.splits if_splits
      dest!: finish_Inr in_body_keeps out_body_keeps)

lemma blk_round_keeps:
  assumes "blk_round m (d, irq) = Some (Inr (m', d', irq'))"
  shows "gm_size m' = gm_size m" "length (vd_queues d') = length (vd_queues d)" "blk_config d' = blk_config d"
    "vd_queue_index d' = vd_queue_index d"
  using assms
  by (auto simp: blk_round_def blk_serve_def blk_complete_def q_cur_update_def q_at_update_Inr
      split: sum.splits option.splits prod.splits if_splits dest!: blk_request_keeps add_used_size)

section \<open>The contract\<close>

definition blk_inv :: "blk \<Rightarrow> bool" where
  "blk_inv d \<longleftrightarrow> length (vd_queues d) = 1 \<and> length (blk_config d) < 18446744073709551616"

lemma reg_write_blk:
  "reg_write off v (d :: blk, irq) = Inr (d', irq') \<Longrightarrow> blk_config d' = blk_config d \<and> blk_file d' = blk_file d"
  by (auto simp: reg_write_def Let_def q_cur_update_def q_at_update_Inr write_status_def split: if_splits)

interpretation blk_dev: virtio_dev blk_class blk_inv 1
proof
  fix d :: blk and off :: u64 and sz :: u32
  assume "blk_inv d" "unat off + unat sz < 18446744073709551616"
  then show "\<exists>buf. vc_read blk_class off sz d = Inr buf"
    by (simp add: blk_class_def blk_read_def blk_inv_def cfg_no_wrap buf_read_def)
next
  fix d :: blk and off sz buf
  assume "vc_read blk_class off sz d = Inr buf"
  then show "length buf = unat sz"
    by (auto simp: blk_class_def blk_read_def length_buf_read split: if_splits)
next
  fix d :: blk and bs off sz d'
  assume "blk_inv d" "vc_write blk_class bs off sz d = Inr d'"
  then show "blk_inv d'"
    by (auto simp: blk_class_def blk_write_def blk_inv_def length_buf_write split: if_splits)
next
  fix d :: blk and off v irq d' irq'
  assume "blk_inv d" "reg_write off v (d, irq) = Inr (d', irq')"
  then show "blk_inv d'" by (auto simp: blk_inv_def reg_write_queue_count dest: reg_write_blk)
qed (auto simp: blk_inv_def blk_class_def blk_update_def)

section \<open>Properties\<close>

text \<open>What a request that has been served leaves behind, seen by the driver.\<close>

definition served :: "gmem \<Rightarrow> gmem \<Rightarrow> queue \<Rightarrow> u16 \<Rightarrow> buffers \<Rightarrow> u64 \<Rightarrow> bool" where
  "served m m' q h bufs status \<longleftrightarrow>
     peek m' status 1 = [VIRTIO_BLK_S_OK] \<and>
     used_entry m' q (unat (peek_used_idx m q)) = (ucast h, total32 bufs + 1) \<and>
     peek_used_idx m' q = peek_used_idx m q + 1"

lemma served_completion:
  assumes "queue_ok m1 q" "buffer_ok m1 q status 1" "peek_used_idx m1 q = peek_used_idx m q"
  shows "served m (completion (poke m1 status [VIRTIO_BLK_S_OK]) q (ucast h) (total32 bufs + 1)) q h bufs status"
proof -
  let ?m = "poke m1 status [VIRTIO_BLK_S_OK]"
  have q: "queue_ok ?m q" using assms(1) by simp
  have b: "buffer_ok ?m q status 1" using assms(2) by simp
  have i: "peek_used_idx ?m q = peek_used_idx m q"
    using buffer_frame_used_idx[OF assms(1), of status "[VIRTIO_BLK_S_OK]"] assms(2,3) by simp
  have "peek ?m status 1 = [VIRTIO_BLK_S_OK]"
    using peek_poke_same[of "[VIRTIO_BLK_S_OK]" m1 status] by simp
  then show ?thesis
    using completion_entry_same[OF q] completion_buffer[OF q b] i
    by (simp add: served_def completion_idx)
qed

text \<open>The two kinds of request, with everything a round does to device, memory and line.\<close>

definition event_reached :: "gmem \<Rightarrow> queue \<Rightarrow> gmem \<Rightarrow> bool" where
  "event_reached m q m' \<longleftrightarrow> uint (peek_used_idx m q + 1) - 1 = uint (peek_event m' q)"

lemma blk_write_round:
  assumes "q_cur d = Inr q" "queue_ok m q" "pending m q = h # hs"
    and "request_at m q h VIRTIO_BLK_T_OUT sector bufs st"
    and "fs_good (blk_file d)" "0 \<le> sint (sector * 512)" "event_mem m q" "irq_fd_ok irq"
  shows "\<exists>m' d' irq'. blk_round m (d, irq) = Some (Inr (m', d', irq')) \<and>
    fs_data (blk_file d') = splice (unat (sector * 512)) (gather m bufs) (fs_data (blk_file d)) \<and>
    fs_good (blk_file d') \<and> served m m' q h bufs (desc_addr_at m q st) \<and>
    q_cur d' = Inr (q\<lparr>q_last_avail := q_last_avail q + 1\<rparr>) \<and>
    irq_fd_ok irq' \<and> irq_state irq' = (irq_state irq \<or> event_reached m q m')"
proof -
  let ?m1 = "poke m (desc_addr_at m q st) [VIRTIO_BLK_S_OK]"
  have st: "buffer_ok m q (desc_addr_at m q st) 1" "unat h < unat (q_size q)"
    using assms(4) by (simp_all add: request_at_def)
  have "peek_used_idx ?m1 q = peek_used_idx m q"
    using buffer_frame_used_idx[OF assms(2), of _ "[VIRTIO_BLK_S_OK]"] st by simp
  then show ?thesis
    using blk_round_serves[OF assms(1-3) st(2) blk_request_out[OF assms(2,4-6)] _ assms(7,8)]
      served_completion[OF assms(2) st(1), of m h bufs] assms(5)
    by (auto simp: file_write_def event_reached_def)
qed

lemma read_round_memory:
  assumes "queue_ok m q" "request_at m q h type sector bufs st" "length bs = total_len bufs"
  defines "m1 \<equiv> poke (scatter m bufs bs) (desc_addr_at m q st) [VIRTIO_BLK_S_OK]"
  shows "gather (completion m1 q i l) bufs = bs"
    and "served m (completion m1 q (ucast h) (total32 bufs + 1)) q h bufs (desc_addr_at m q st)"
    and "peek_used_idx m1 q = peek_used_idx m q"
proof -
  let ?s = "desc_addr_at m q st"
  let ?m0 = "scatter m bufs bs"
  have st: "buffer_ok m q ?s 1" and bufs: "bufs_ok m q bufs" and apart: "bufs_apart ((?s, 1) # bufs)"
    using assms(2) by (simp_all add: request_at_def)
  have q0: "queue_ok ?m0 q" by (rule scatter_status(1)[OF assms(1,2)])
  have st0: "buffer_ok ?m0 q ?s 1" using st by (subst buffer_ok_size_cong[of _ m]) simp_all
  have q1: "queue_ok m1 q" using q0 by (simp add: m1_def)
  note idx0 = scatter_used_idx[OF assms(1) bufs]
  show "served m (completion m1 q (ucast h) (total32 bufs + 1)) q h bufs ?s"
    unfolding m1_def by (rule served_completion[OF q0 st0 idx0])
  show "peek_used_idx m1 q = peek_used_idx m q"
    using buffer_frame_used_idx[OF q0, of ?s "[VIRTIO_BLK_S_OK]"] st0 idx0 by (simp add: m1_def)
  have "peek (completion m1 q i l) a (unat n) = peek ?m0 a (unat n)" if "(a, n) \<in> set bufs" for a n
  proof -
    have b: "buffer_ok m q a (unat n)" "disjoint_ranges ?s 1 a (unat n)"
      using bufs apart that by (auto simp: bufs_ok_def list_all_iff)
    have b0: "buffer_ok ?m0 q a (unat n)" using b(1) by (subst buffer_ok_size_cong[of _ m]) simp_all
    have "peek (completion m1 q i l) a (unat n) = peek m1 a (unat n)"
      by (rule completion_buffer[OF q1]) (use b0 in \<open>simp add: m1_def\<close>)
    also have "\<dots> = peek ?m0 a (unat n)"
      unfolding m1_def by (rule peek_poke_buffers[of _ _ 1]) (use st0 b0 b(2) in \<open>simp_all add: buffer_ok_def\<close>)
    finally show ?thesis .
  qed
  then have "gather (completion m1 q i l) bufs = gather ?m0 bufs"
    unfolding gather_def by (intro arg_cong[where f = concat] map_cong) auto
  also have "\<dots> = bs"
    using assms(3) apart bufs_ok_in[OF bufs] by (intro gather_scatter) auto
  finally show "gather (completion m1 q i l) bufs = bs" .
qed

lemma blk_read_round:
  assumes "q_cur d = Inr q" "queue_ok m q" "pending m q = h # hs"
    and "request_at m q h VIRTIO_BLK_T_IN sector bufs st"
    and "fs_good (blk_file d)" "0 \<le> sint (sector * 512)"
    and "unat (sector * 512) + total_len bufs \<le> length (fs_data (blk_file d))"
    and "event_mem m q" "irq_fd_ok irq"
  shows "\<exists>m' d' irq'. blk_round m (d, irq) = Some (Inr (m', d', irq')) \<and>
    gather m' bufs = take (total_len bufs) (drop (unat (sector * 512)) (fs_data (blk_file d))) \<and>
    fs_data (blk_file d') = fs_data (blk_file d) \<and> fs_good (blk_file d') \<and>
    served m m' q h bufs (desc_addr_at m q st) \<and>
    q_cur d' = Inr (q\<lparr>q_last_avail := q_last_avail q + 1\<rparr>) \<and>
    irq_fd_ok irq' \<and> irq_state irq' = (irq_state irq \<or> event_reached m q m')"
proof -
  let ?bs = "take (total_len bufs) (drop (unat (sector * 512)) (fs_data (blk_file d)))"
  have "length ?bs = total_len bufs" using assms(7) by simp
  note mem = read_round_memory[OF assms(2,4) this]
  have "unat h < unat (q_size q)" using assms(4) by (simp add: request_at_def)
  from blk_round_serves[OF assms(1-3) this blk_request_in[OF assms(2,4-7)] _ assms(8,9)] mem assms(5)
  show ?thesis by (auto simp: event_reached_def)
qed

text \<open>A write request reaches the disk: the bytes of its data buffers, in chain order, replace
  exactly the disk contents from \<open>sector * 512\<close> on, the status byte is OK, and the used ring names
  the request's head and the bytes counted. The interrupt line rises when the driver asked for it.\<close>

theorem blk_write_reaches_disk:
  assumes "q_cur d = Inr q" "queue_ok m q" "pending m q = h # hs"
    and "request_at m q h VIRTIO_BLK_T_OUT sector bufs st"
    and "fs_good (blk_file d)" "0 \<le> sint (sector * 512)" "event_mem m q" "irq_fd_ok irq"
  shows "\<exists>m' d' irq'. blk_round m (d, irq) = Some (Inr (m', d', irq')) \<and>
    fs_data (blk_file d') = splice (unat (sector * 512)) (gather m bufs) (fs_data (blk_file d)) \<and>
    fs_good (blk_file d') \<and> served m m' q h bufs (desc_addr_at m q st) \<and>
    irq_state irq' = (irq_state irq \<or> uint (peek_used_idx m q + 1) - 1 = uint (peek_event m' q))"
  using blk_write_round[OF assms] unfolding event_reached_def by blast

text \<open>A read request returns the disk: its data buffers hold, in chain order, the bytes of the
  disk from \<open>sector * 512\<close> on, the disk is unchanged, the request is completed with status OK, and
  the interrupt line rises when the driver asked for it.\<close>

theorem blk_read_returns_disk:
  assumes "q_cur d = Inr q" "queue_ok m q" "pending m q = h # hs"
    and "request_at m q h VIRTIO_BLK_T_IN sector bufs st"
    and "fs_good (blk_file d)" "0 \<le> sint (sector * 512)"
    and "unat (sector * 512) + total_len bufs \<le> length (fs_data (blk_file d))"
    and "event_mem m q" "irq_fd_ok irq"
  shows "\<exists>m' d' irq'. blk_round m (d, irq) = Some (Inr (m', d', irq')) \<and>
    gather m' bufs = take (total_len bufs) (drop (unat (sector * 512)) (fs_data (blk_file d))) \<and>
    fs_data (blk_file d') = fs_data (blk_file d) \<and> fs_good (blk_file d') \<and>
    served m m' q h bufs (desc_addr_at m q st) \<and>
    irq_state irq' = (irq_state irq \<or> uint (peek_used_idx m q + 1) - 1 = uint (peek_event m' q))"
  using blk_read_round[OF assms] unfolding event_reached_def by blast

text \<open>C12: The disk keeps what is written: after a write request has been served, whatever the driver
  does to the memory and the line before it asks again, a read request for the same sector and
  length returns exactly the bytes that were written.\<close>

theorem disk_keeps_what_is_written:
  assumes "q_cur d = Inr q" "queue_ok m q" "pending m q = h # hs"
    and "request_at m q h VIRTIO_BLK_T_OUT sector bufs st"
    and "fs_good (blk_file d)" "0 \<le> sint (sector * 512)" "event_mem m q" "irq_fd_ok irq"
    and "q2 = q\<lparr>q_last_avail := q_last_avail q + 1\<rparr>"
    and "queue_ok m2 q2" "pending m2 q2 = h2 # hs2"
    and "request_at m2 q2 h2 VIRTIO_BLK_T_IN sector bufs2 st2" "total_len bufs2 = total_len bufs" "0 < total_len bufs"
    and "event_mem m2 q2" "irq_fd_ok irq2"
  shows "\<exists>m' d' irq'. blk_round m (d, irq) = Some (Inr (m', d', irq')) \<and>
    (\<exists>m3 d3 irq3. blk_round m2 (d', irq2) = Some (Inr (m3, d3, irq3)) \<and>
       gather m3 bufs2 = gather m bufs \<and> served m2 m3 q2 h2 bufs2 (desc_addr_at m2 q2 st2))"
proof -
  obtain m' d' irq' where w: "blk_round m (d, irq) = Some (Inr (m', d', irq'))"
    "fs_data (blk_file d') = splice (unat (sector * 512)) (gather m bufs) (fs_data (blk_file d))"
    "fs_good (blk_file d')" "q_cur d' = Inr q2"
    using blk_write_round[OF assms(1-8)] unfolding assms(9) by blast
  have len: "length (gather m bufs) = total_len bufs2" using assms(13) by simp
  have "unat (sector * 512) + total_len bufs2 \<le> length (fs_data (blk_file d'))"
    using assms(13,14) by (cases "gather m bufs = []") (auto simp: w(2) length_splice dest: arg_cong[of _ _ length])
  from blk_read_round[OF w(4) assms(10-12) w(3) assms(6) this assms(15,16)]
  obtain m3 d3 irq3 where r: "blk_round m2 (d', irq2) = Some (Inr (m3, d3, irq3))"
    "gather m3 bufs2 = take (total_len bufs2) (drop (unat (sector * 512)) (fs_data (blk_file d')))"
    "served m2 m3 q2 h2 bufs2 (desc_addr_at m2 q2 st2)" by blast
  have "gather m3 bufs2 = gather m bufs"
    by (simp only: r(2) w(2) len[symmetric] splice_same)
  with w(1) r(1,3) show ?thesis by blast
qed

definition blk_demo_mem :: "u8 \<Rightarrow> gmem" where
  "blk_demo_mem type = \<lparr>gm_size = 4096, gm_byte = (\<lambda>_. 0)
     (1 := 3, 8 := 16, 12 := 1, 14 := 1, 17 := 4, 24 := 2, 28 := 1, 30 := 2,
      33 := 5, 40 := 1, 44 := 2, 66 := 1, 768 := type, 1024 := 11, 1025 := 22)\<rparr>"

definition blk_demo :: blk where
  "blk_demo = (blk_new [1, 2, 3, 4] (replicate 60 0))\<lparr>vd_queues := [demo_queue]\<rparr>"

lemma blk_demo_desc:
  "desc_addr_at (blk_demo_mem t) demo_queue 0 = 768" "desc_next_at (blk_demo_mem t) demo_queue 0 = 1"
  "desc_addr_at (blk_demo_mem t) demo_queue 1 = 1024" "desc_next_at (blk_demo_mem t) demo_queue 1 = 2"
  "desc_addr_at (blk_demo_mem t) demo_queue 2 = 1280" "desc_len_at (blk_demo_mem t) demo_queue 1 = 2"
  "desc_flags_at (blk_demo_mem t) demo_queue 1 = 1" "desc_flags_at (blk_demo_mem t) demo_queue 2 = 2"
  by (simp_all add: desc_addr_at_def desc_next_at_def desc_len_at_def desc_flags_at_def demo_queue_def
      blk_demo_mem_def peek_le_def peek_def upt_rec)

lemma blk_demo_facts:
  "q_cur blk_demo = Inr demo_queue" "queue_ok (blk_demo_mem t) demo_queue"
  "pending (blk_demo_mem t) demo_queue = [0]" "event_mem (blk_demo_mem t) demo_queue"
  "blk_file blk_demo = file_open [1, 2, 3, 4]" "peek_used_idx (blk_demo_mem t) demo_queue = 0"
  by (simp_all add: blk_demo_def blk_new_def vdev.extend_def vdev_new_def q_cur_def q_at_def arr_get_def
      queue_ok_def demo_queue_def blk_demo_mem_def in_mem_def disjoint_ranges_def QUEUE_SIZE_MAX_def
      pending_def avail_entry_def peek_avail_idx_def peek_le_def peek_def upt_rec event_mem_def
      peek_used_idx_def)

lemma blk_demo_request:
  assumes "t = 0 \<or> t = 1"
  shows "request_at (blk_demo_mem t) demo_queue 0 (ucast t) 0 [(1024, 2)] 2"
proof -
  have "peek32 (blk_demo_mem t) 768 = ucast t" "peek64 (blk_demo_mem t) 776 = 0"
    using assms by (auto simp: peek_le_def peek_def blk_demo_mem_def upt_rec)
  moreover have "buffer_ok (blk_demo_mem t) demo_queue 1024 2" "buffer_ok (blk_demo_mem t) demo_queue 1280 1"
    "in_mem (blk_demo_mem t) 768 16"
    by (simp_all add: buffer_ok_def in_mem_def blk_demo_mem_def demo_queue_def disjoint_ranges_def)
  ultimately show ?thesis
    by (simp add: request_at_def blk_demo_desc demo_size VRING_DESC_F_NEXT_def disjoint_ranges_def)
qed

lemma blk_demo_file:
  "fs_good (blk_file blk_demo)" "fs_data (blk_file blk_demo) = [1, 2, 3, 4]"
  by (simp_all add: blk_demo_facts file_open_def)

theorem blk_write_reaches_disk_witness:
  "\<exists>m' d' irq'. blk_round (blk_demo_mem 1) (blk_demo, interrupt_new 12 True) = Some (Inr (m', d', irq')) \<and>
     fs_data (blk_file d') = [11, 22, 3, 4]"
proof -
  have r: "request_at (blk_demo_mem 1) demo_queue 0 VIRTIO_BLK_T_OUT 0 [(1024, 2)] 2"
    using blk_demo_request[of 1] by (simp add: VIRTIO_BLK_T_OUT_def)
  have b: "peek (blk_demo_mem 1) 1024 2 = [11, 22]"
    by (simp add: peek_def blk_demo_mem_def upt_rec)
  show ?thesis
    using blk_write_reaches_disk[OF blk_demo_facts(1-3) r blk_demo_file(1) _ blk_demo_facts(4),
        of "interrupt_new 12 True"]
    by (auto simp: b blk_demo_file(2) splice_def)
qed

theorem blk_read_returns_disk_witness:
  "\<exists>m' d' irq'. blk_round (blk_demo_mem 0) (blk_demo, interrupt_new 12 True) = Some (Inr (m', d', irq')) \<and>
     gather m' [(1024, 2)] = [1, 2]"
proof -
  have r: "request_at (blk_demo_mem 0) demo_queue 0 VIRTIO_BLK_T_IN 0 [(1024, 2)] 2"
    using blk_demo_request[of 0] by (simp add: VIRTIO_BLK_T_IN_def)
  show ?thesis
    using blk_read_returns_disk[OF blk_demo_facts(1-3) r blk_demo_file(1) _ _ blk_demo_facts(4),
        of "interrupt_new 12 True"]
    by (auto simp: blk_demo_file(2))
qed

text \<open>A read request published behind the write request: the head is descriptor 1 of the ring.\<close>

definition blk_demo_next :: gmem where
  "blk_demo_next = (blk_demo_mem 0)\<lparr>gm_byte := (gm_byte (blk_demo_mem 0))(66 := 2)\<rparr>"

lemma blk_demo_next_facts:
  defines "q \<equiv> demo_queue\<lparr>q_last_avail := q_last_avail demo_queue + 1\<rparr>"
  shows "queue_ok blk_demo_next q" "pending blk_demo_next q = [0]" "event_mem blk_demo_next q"
    "request_at blk_demo_next q 0 VIRTIO_BLK_T_IN 0 [(1024, 2)] 2"
proof -
  have desc: "desc_addr_at blk_demo_next q 0 = 768" "desc_next_at blk_demo_next q 0 = 1"
    "desc_addr_at blk_demo_next q 1 = 1024" "desc_next_at blk_demo_next q 1 = 2"
    "desc_addr_at blk_demo_next q 2 = 1280" "desc_len_at blk_demo_next q 1 = 2"
    "desc_flags_at blk_demo_next q 1 = 1" "desc_flags_at blk_demo_next q 2 = 2"
    by (simp_all add: q_def desc_addr_at_def desc_next_at_def desc_len_at_def desc_flags_at_def demo_queue_def
        blk_demo_mem_def blk_demo_next_def peek_le_def peek_def upt_rec)
  have "peek32 blk_demo_next 768 = 0" "peek64 blk_demo_next 776 = 0"
    by (auto simp: peek_le_def peek_def blk_demo_mem_def blk_demo_next_def upt_rec)
  moreover have "buffer_ok blk_demo_next q 1024 2" "buffer_ok blk_demo_next q 1280 1" "in_mem blk_demo_next 768 16"
    by (simp_all add: q_def buffer_ok_def in_mem_def blk_demo_mem_def blk_demo_next_def demo_queue_def
        disjoint_ranges_def)
  ultimately show "request_at blk_demo_next q 0 VIRTIO_BLK_T_IN 0 [(1024, 2)] 2"
    by (simp add: request_at_def desc VRING_DESC_F_NEXT_def VIRTIO_BLK_T_IN_def disjoint_ranges_def)
       (simp add: q_def demo_size)
qed (simp_all add: q_def queue_ok_def demo_queue_def blk_demo_mem_def blk_demo_next_def in_mem_def
      disjoint_ranges_def QUEUE_SIZE_MAX_def pending_def avail_entry_def peek_avail_idx_def peek_le_def
      peek_def upt_rec event_mem_def)

theorem disk_keeps_what_is_written_witness:
  "\<exists>m' d' irq'. blk_round (blk_demo_mem 1) (blk_demo, interrupt_new 12 True) = Some (Inr (m', d', irq')) \<and>
     (\<exists>m3 d3 irq3. blk_round blk_demo_next (d', interrupt_new 12 True) = Some (Inr (m3, d3, irq3)) \<and>
        gather m3 [(1024, 2)] = [11, 22])"
proof -
  have r: "request_at (blk_demo_mem 1) demo_queue 0 VIRTIO_BLK_T_OUT 0 [(1024, 2)] 2"
    using blk_demo_request[of 1] by (simp add: VIRTIO_BLK_T_OUT_def)
  have b: "gather (blk_demo_mem 1) [(1024, 2)] = [11, 22]"
    by (simp add: peek_def blk_demo_mem_def upt_rec)
  have "irq_fd_ok (interrupt_new 12 True)" by simp
  from disk_keeps_what_is_written[OF blk_demo_facts(1-3) r blk_demo_file(1) _ blk_demo_facts(4) this refl
      blk_demo_next_facts(1,2,4) refl _ blk_demo_next_facts(3) this] show ?thesis
    unfolding b by fastforce
qed

section \<open>Failures\<close>

text \<open>A read request whatever the state of the file: the chain is walked to its status descriptor.\<close>

lemma in_walk_any:
  "queue_ok m q \<Longrightarrow> chain_at m q i bufs j \<Longrightarrow> bufs_ok m q bufs \<Longrightarrow> unat st < unat (q_size q) \<Longrightarrow>
   \<exists>f' m'. iterate (in_body q) (desc_ptr q i, len, f, m) =
       Some (Inr (desc_ptr q j, len + total32 bufs, f', m')) \<and>
     gm_size m' = gm_size m \<and> desc_addr_at m' q st = desc_addr_at m q st \<and>
     peek_used_idx m' q = peek_used_idx m q \<and> fs_data f' = fs_data f \<and>
     (fs_good f' \<longrightarrow> fs_good f \<and> (bufs = [] \<or> total_len bufs = 0 \<or> fs_pos f + total_len bufs \<le> length (fs_data f)))"
proof (induction bufs arbitrary: i len f m)
  case Nil
  then have "in_body q (desc_ptr q i, len, f, m) = Inr (Inr (desc_ptr q j, len, f, m))"
    by (auto simp: in_body_def elem_fields_ok)
  then show ?case by (simp add: iterate_done)
next
  case (Cons b bufs)
  obtain a n where b: "b = (a, n)" by (cases b)
  obtain bs f1 where rd: "file_read (unat n) f = (bs, f1)" by (cases "file_read (unat n) f")
  from file_read_cases[OF rd] have len: "length bs \<le> unat n" and f1: "fs_data f1 = fs_data f"
    "fs_good f1 \<longrightarrow> fs_good f \<and> length bs = unat n \<and> fs_pos f1 = fs_pos f + unat n \<and>
       (n = 0 \<or> fs_pos f + unat n \<le> length (fs_data f))"
    by auto
  have buf: "buffer_ok m q a (length bs)"
    by (rule buffer_ok_prefix[of m q a "unat n"]) (use Cons.prems(3) b len in simp_all)
  let ?m = "poke m a bs"
  have step: "in_body q (desc_ptr q i, len, f, m) = Inr (Inl (desc_ptr q (desc_next_at m q i), len + n, f1, ?m))"
    using Cons.prems b by (intro in_step[OF _ _ _ rd len]) auto
  have "queue_ok ?m q" "bufs_ok ?m q bufs" "chain_at ?m q (desc_next_at m q i) bufs j"
    using Cons.prems b by (simp_all add: chain_at_poke[OF _ buf])
  from Cons.IH[OF this(1,3,2) Cons.prems(4), of "len + n" f1] f1 show ?case
    using b buffer_frame_desc(1)[OF Cons.prems(1) buf Cons.prems(4)]
      buffer_frame_used_idx[OF Cons.prems(1) buf]
    by (auto simp: iterate_step[of "in_body q", OF step] add.assoc)
qed

lemma blk_request_in_any:
  assumes "queue_ok m q" "request_at m q h VIRTIO_BLK_T_IN sector bufs st"
  shows "\<exists>f' m'. blk_request q (desc_ptr q h) (desc_addr_at m q h) f m =
      Some (Inr (Some (total32 bufs + 1, f', poke m' (desc_addr_at m q st) [VIRTIO_BLK_S_OK]))) \<and>
    gm_size m' = gm_size m \<and> peek_used_idx m' q = peek_used_idx m q \<and> fs_data f' = fs_data f \<and>
    (fs_good f' \<longrightarrow> fs_good f \<and> (total_len bufs = 0 \<or>
       fs_pos (file_seek (sector * 512) f) + total_len bufs \<le> length (fs_data f)))"
proof -
  have c: "chain_at m q (desc_next_at m q h) bufs st" "bufs_ok m q bufs"
    and st: "buffer_ok m q (desc_addr_at m q st) 1"
    using assms(2) by (auto simp: request_at_def)
  note sti = request_header(5)[OF assms]
  from in_walk_any[OF assms(1) c sti, of 0 "file_seek (sector * 512) f"]
  obtain f' m' where w: "iterate (in_body q) (desc_ptr q (desc_next_at m q h), 0, file_seek (sector * 512) f, m) =
      Some (Inr (desc_ptr q st, total32 bufs, f', m'))" "gm_size m' = gm_size m"
      "desc_addr_at m' q st = desc_addr_at m q st" "peek_used_idx m' q = peek_used_idx m q"
      "fs_data f' = fs_data f"
      "fs_good f' \<longrightarrow> fs_good f \<and> (total_len bufs = 0 \<or>
         fs_pos (file_seek (sector * 512) f) + total_len bufs \<le> length (fs_data f))"
    by (auto simp: file_seek_def split: if_splits)
  have q': "queue_ok m' q" using assms(1) by (subst queue_ok_size_cong[OF w(2)])
  have b': "buffer_ok m' q (desc_addr_at m q st) 1" using st by (subst buffer_ok_size_cong[OF w(2)])
  have "write_ok m' (desc_ptr q st) = Inr (poke m' (desc_addr_at m q st) [VIRTIO_BLK_S_OK])"
    using write_ok_poke[OF q' sti] b' w(3) by simp
  then have "blk_request q (desc_ptr q h) (desc_addr_at m q h) f m =
      Some (Inr (Some (total32 bufs + 1, f', poke m' (desc_addr_at m q st) [VIRTIO_BLK_S_OK])))"
    using request_header[OF assms]
    by (simp add: blk_request_def VIRTIO_BLK_T_IN_def VIRTIO_BLK_T_OUT_def w(1) finish_def)
  with w show ?thesis by blast
qed

text \<open>A read that runs past the end of the disk is acknowledged with status OK and the full
  length, and leaves the file stream failed.\<close>

theorem blk_read_past_end_acknowledged:
  assumes "q_cur d = Inr q" "queue_ok m q" "pending m q = h # hs"
    and "request_at m q h VIRTIO_BLK_T_IN sector bufs st" "0 < total_len bufs"
    and "length (fs_data (blk_file d)) < fs_pos (file_seek (sector * 512) (blk_file d)) + total_len bufs"
    and "event_mem m q" "irq_fd_ok irq"
  shows "\<exists>m' d' irq'. blk_round m (d, irq) = Some (Inr (m', d', irq')) \<and>
    served m m' q h bufs (desc_addr_at m q st) \<and> \<not> fs_good (blk_file d')"
proof -
  have st: "buffer_ok m q (desc_addr_at m q st) 1" "unat h < unat (q_size q)"
    using assms(4) by (simp_all add: request_at_def)
  from blk_request_in_any[OF assms(2,4), of "blk_file d"] obtain f' m' where
    r: "blk_request q (desc_ptr q h) (desc_addr_at m q h) (blk_file d) m =
        Some (Inr (Some (total32 bufs + 1, f', poke m' (desc_addr_at m q st) [VIRTIO_BLK_S_OK])))"
      "gm_size m' = gm_size m" "peek_used_idx m' q = peek_used_idx m q" "\<not> fs_good f'"
    using assms(5,6) by fastforce
  have "queue_ok m' q" using assms(2) by (subst queue_ok_size_cong[OF r(2)])
  moreover have "buffer_ok m' q (desc_addr_at m q st) 1" using st by (subst buffer_ok_size_cong[OF r(2)])
  ultimately have "served m (completion (poke m' (desc_addr_at m q st) [VIRTIO_BLK_S_OK]) q (ucast h)
      (total32 bufs + 1)) q h bufs (desc_addr_at m q st)"
    using r(3) by (rule served_completion)
  then show ?thesis
    using blk_round_serves[OF assms(1-3) st(2) r(1) _ assms(7,8)] r(2,4) by auto
qed

text \<open>C24: From then on the disk is gone without the guest noticing: with a failed stream every write
  request is completed with status OK and its full length, and the disk keeps its old contents.\<close>

theorem blk_failed_stream_loses_writes:
  assumes "q_cur d = Inr q" "queue_ok m q" "pending m q = h # hs"
    and "request_at m q h VIRTIO_BLK_T_OUT sector bufs st" "\<not> fs_good (blk_file d)"
    and "event_mem m q" "irq_fd_ok irq"
  shows "\<exists>m' d' irq'. blk_round m (d, irq) = Some (Inr (m', d', irq')) \<and>
    served m m' q h bufs (desc_addr_at m q st) \<and> blk_file d' = blk_file d"
proof -
  let ?s = "desc_addr_at m q st"
  let ?m1 = "poke m ?s [VIRTIO_BLK_S_OK]"
  have st: "buffer_ok m q ?s 1" "unat h < unat (q_size q)" and c: "chain_at m q (desc_next_at m q h) bufs st"
    using assms(4) by (simp_all add: request_at_def)
  have "blk_request q (desc_ptr q h) (desc_addr_at m q h) (blk_file d) m =
      Some (Inr (Some (total32 bufs + 1, blk_file d, ?m1)))"
    using request_header[OF assms(2,4)] out_walk_failed[OF assms(2) c assms(5), of 0] assms(5)
    by (simp add: blk_request_def VIRTIO_BLK_T_IN_def VIRTIO_BLK_T_OUT_def finish_def
        write_ok_poke[OF assms(2) _ st(1)])
  from blk_round_serves[OF assms(1-3) st(2) this _ assms(6,7)]
    served_completion[OF assms(2) st(1), of m h bufs]
  show ?thesis by auto
qed

text \<open>A chain that leads back to itself hangs the device thread: with a data descriptor whose
  link points to itself the round of a write request never ends.\<close>

theorem blk_cyclic_chain_hangs:
  assumes "q_cur d = Inr q" "queue_ok m q" "pending m q = h # hs" "unat h < unat (q_size q)"
    and "in_mem m (desc_addr_at m q h) 16" "peek32 m (desc_addr_at m q h) = VIRTIO_BLK_T_OUT"
    and "desc_next_at m q h = i" "desc_next_at m q i = i" "unat i < unat (q_size q)"
    and "desc_flags_at m q i AND VRING_DESC_F_NEXT \<noteq> 0"
    and "in_mem m (desc_addr_at m q i) (unat (desc_len_at m q i))"
  shows "blk_round m (d, irq) = None"
proof -
  let ?q = "q\<lparr>q_last_avail := q_last_avail q + 1\<rparr>" and ?a = "desc_addr_at m q h"
  have idx: "unat (vd_queue_index d) < length (vd_queues d)"
    using assms(1) by (cases "unat (vd_queue_index d) < length (vd_queues d)") (simp_all add: q_cur_def)
  have hang: "iterate (out_body q) (desc_ptr q i, len, f, m) = None" for len f
  proof (rule iterate_diverges[where P = "\<lambda>(p, len, f, m'). p = desc_ptr q i \<and> m' = m"])
    fix s :: walk_state assume "case s of (p, len, f, m') \<Rightarrow> p = desc_ptr q i \<and> m' = m"
    then obtain len f where s: "s = (desc_ptr q i, len, f, m)" by (cases s) auto
    show "\<exists>s'. out_body q s = Inr (Inl s') \<and> (case s' of (p, len, f, m') \<Rightarrow> p = desc_ptr q i \<and> m' = m)"
      using assms(8-11) s by (auto simp: out_body_def elem_fields_ok[OF assms(2,9)] walk_next_ok[OF assms(2,9)])
  qed simp
  have "in_mem m ?a 4" "in_mem m (?a + of_nat 8) 8"
    using assms(5) in_mem_sub[OF assms(5), of 8 8] by (auto simp: in_mem_def)
  then have "blk_request q (desc_ptr q h) ?a f m = None" for f
    using assms(6,7)
    by (simp add: blk_request_def VIRTIO_BLK_T_IN_def VIRTIO_BLK_T_OUT_def walk_next_ok[OF assms(2,4)] hang
        finish_def)
  then show ?thesis
    using assms(1) idx
    by (simp add: blk_round_def queue_next_pending[OF assms(2,3)] q_cur_update_def blk_serve_def
        elem_fields_ok[OF assms(2,4)])
qed

lemma q_cur_file [simp]: "q_cur (d\<lparr>blk_file := f\<rparr>) = q_cur d"
  by (simp add: q_cur_def q_at_def)

theorem blk_read_past_end_acknowledged_witness:
  "\<exists>m' d' irq'. blk_round (blk_demo_mem 0) (blk_demo\<lparr>blk_file := file_open [1]\<rparr>, interrupt_new 12 True) =
       Some (Inr (m', d', irq')) \<and>
     served (blk_demo_mem 0) m' demo_queue 0 [(1024, 2)] 1280 \<and> \<not> fs_good (blk_file d')"
proof -
  have r: "request_at (blk_demo_mem 0) demo_queue 0 VIRTIO_BLK_T_IN 0 [(1024, 2)] 2"
    using blk_demo_request[of 0] by (simp add: VIRTIO_BLK_T_IN_def)
  show ?thesis
    using blk_read_past_end_acknowledged[of "blk_demo\<lparr>blk_file := file_open [1]\<rparr>",
        OF _ blk_demo_facts(2,3) r _ _ blk_demo_facts(4), of "interrupt_new 12 True"]
    by (simp add: blk_demo_facts(1) file_open_def file_seek_def blk_demo_desc)
qed

theorem blk_failed_stream_loses_writes_witness:
  "\<exists>m' d' irq'. blk_round (blk_demo_mem 1)
       (blk_demo\<lparr>blk_file := (file_open [1, 2, 3, 4])\<lparr>fs_good := False\<rparr>\<rparr>, interrupt_new 12 True) =
       Some (Inr (m', d', irq')) \<and>
     served (blk_demo_mem 1) m' demo_queue 0 [(1024, 2)] 1280 \<and> fs_data (blk_file d') = [1, 2, 3, 4]"
proof -
  have r: "request_at (blk_demo_mem 1) demo_queue 0 VIRTIO_BLK_T_OUT 0 [(1024, 2)] 2"
    using blk_demo_request[of 1] by (simp add: VIRTIO_BLK_T_OUT_def)
  show ?thesis
    using blk_failed_stream_loses_writes[of "blk_demo\<lparr>blk_file := (file_open [1, 2, 3, 4])\<lparr>fs_good := False\<rparr>\<rparr>",
        OF _ blk_demo_facts(2,3) r _ blk_demo_facts(4), of "interrupt_new 12 True"]
    by (auto simp: blk_demo_facts(1) file_open_def blk_demo_desc)
qed

definition blk_loop_mem :: gmem where
  "blk_loop_mem = (blk_demo_mem 1)\<lparr>gm_byte := (gm_byte (blk_demo_mem 1))(30 := 1)\<rparr>"

theorem blk_cyclic_chain_hangs_witness:
  "blk_round blk_loop_mem (blk_demo, interrupt_new 12 True) = None"
proof (rule blk_cyclic_chain_hangs[of _ demo_queue _ 0 "[]" 1])
  show "q_cur blk_demo = Inr demo_queue" by (rule blk_demo_facts)
qed (simp_all add: queue_ok_def demo_queue_def blk_demo_mem_def blk_loop_mem_def in_mem_def
      disjoint_ranges_def QUEUE_SIZE_MAX_def pending_def avail_entry_def peek_avail_idx_def
      peek_le_def peek_def upt_rec desc_addr_at_def desc_len_at_def desc_next_at_def desc_flags_at_def
      VIRTIO_BLK_T_OUT_def VRING_DESC_F_NEXT_def)

end
