(* ===== verification/Net.thy ===== *)
theory Net
  imports Virtio_Mmio Descriptor_Chain
begin

text \<open>
  \<^verbatim>\<open>src/kvm/virtio/net.h\<close>: the network device. The tap descriptor is the environment: the record
  \<open>tap\<close> carries the answers of \<^verbatim>\<open>poll(2)\<close>, \<^verbatim>\<open>read(2)\<close> (a frame, or an error) and
  \<^verbatim>\<open>write(2)\<close> and collects the frames written. The two \<^verbatim>\<open>static\<close> buffers of \<^verbatim>\<open>update_rx\<close> and
  \<^verbatim>\<open>update_tx\<close> keep their contents between calls and are part of the state. The feature numbers
  and the size of \<^verbatim>\<open>virtio_net_hdr_v1\<close> are those of the virtio specification.
\<close>

section \<open>State\<close>

record tap =
  tap_polls :: "(int \<times> u16) list"
  tap_reads :: "u8 list option list"
  tap_writes :: "int list"
  tap_sent :: "u8 list list"

record net = vdev +
  net_tap :: tap
  net_config :: "u8 list"
  net_generation :: u32
  net_rx_buffer :: "u8 list"
  net_tx_buffer :: "u8 list"

definition VIRTIO_ID_NET :: u32 where "VIRTIO_ID_NET = 1"
definition VIRTIO_NET_F_CSUM :: nat where "VIRTIO_NET_F_CSUM = 0"
definition VIRTIO_NET_F_MAC :: nat where "VIRTIO_NET_F_MAC = 5"
definition VIRTIO_NET_F_GUEST_TSO4 :: nat where "VIRTIO_NET_F_GUEST_TSO4 = 7"
definition VIRTIO_NET_F_GUEST_TSO6 :: nat where "VIRTIO_NET_F_GUEST_TSO6 = 8"
definition VIRTIO_NET_F_GUEST_UFO :: nat where "VIRTIO_NET_F_GUEST_UFO = 10"
definition VIRTIO_NET_F_HOST_TSO4 :: nat where "VIRTIO_NET_F_HOST_TSO4 = 11"
definition VIRTIO_NET_F_HOST_TSO6 :: nat where "VIRTIO_NET_F_HOST_TSO6 = 12"
definition VIRTIO_NET_F_HOST_UFO :: nat where "VIRTIO_NET_F_HOST_UFO = 14"
definition NET_POLLIN :: u16 where "NET_POLLIN = 1"

definition rx_queue :: u32 where "rx_queue = 0"
definition tx_queue :: u32 where "tx_queue = 1"
definition ctrl_queue :: u32 where "ctrl_queue = 2"

text \<open>\<^verbatim>\<open>65550 + sizeof(virtio_net_hdr_v1)\<close>\<close>

definition net_buffer_len :: nat where "net_buffer_len = 65550 + 12"

definition default_mac :: "u8 list" where
  "default_mac = [0x02, 0x15, 0x15, 0x15, 0x15, 0x15]"

definition net_new :: "tap \<Rightarrow> u8 list \<Rightarrow> net" where
  "net_new t junk = vdev.extend (vdev_new 3)
     \<lparr>net_tap = t, net_config = default_mac @ drop 6 junk, net_generation = 0,
      net_rx_buffer = replicate net_buffer_len 0, net_tx_buffer = replicate net_buffer_len 0\<rparr>"

section \<open>Setting up the tap\<close>

text \<open>
  The helper script: \<^verbatim>\<open>exited\<close> and \<open>code\<close> are what \<^verbatim>\<open>waitpid\<close> reports of the child. The
  descriptor and the results of the three \<^verbatim>\<open>ioctl\<close>s are given by the host.
\<close>

definition exec_script :: "bool \<Rightarrow> int \<Rightarrow> int" where
  "exec_script exited code = (if exited \<and> code \<noteq> 0 then -1 else 0)"

definition create_tap :: "int \<Rightarrow> int \<Rightarrow> int \<Rightarrow> int \<Rightarrow> int \<Rightarrow> int res" where
  "create_tap fd setiff offload hdrsz script =
     (if setiff < 0 then Inl (Exn (IoctlFailed ''TUNSETIFF''))
      else if offload < 0 then Inl (Exn (IoctlFailed ''TUNSETOFFLOAD''))
      else if hdrsz < 0 then Inl (Exn (IoctlFailed ''TUNSETVNETHDRSZ''))
      else if script < 0 then Inl (Exn (IoctlFailed ''exec_script''))
      else Inr fd)"

text \<open>The constructor sets the tap up first; the results of its calls are the host's.\<close>

definition net_open :: "int \<times> int \<times> int \<times> int \<times> int \<Rightarrow> tap \<Rightarrow> u8 list \<Rightarrow> net res" where
  "net_open calls t junk =
     (case calls of (fd, setiff, offload, hdrsz, script) \<Rightarrow>
        and_then (create_tap fd setiff offload hdrsz script) (\<lambda>_. Inr (net_new t junk)))"

section \<open>Configuration space\<close>

definition net_read :: "u64 \<Rightarrow> u32 \<Rightarrow> net \<Rightarrow> u8 list res" where
  "net_read off sz d =
     (if off + ucast sz > of_nat (length (net_config d)) then Inr (zero_buf sz)
      else buf_read (net_config d) (unat off) (unat sz))"

definition net_write :: "u8 list \<Rightarrow> u64 \<Rightarrow> u32 \<Rightarrow> net \<Rightarrow> net res" where
  "net_write data off sz d =
     (if off + ucast sz > of_nat (length (net_config d)) then Inr d
      else and_then (buf_read data 0 (unat sz)) (\<lambda>bs.
           and_then (buf_write (net_config d) (unat off) bs) (\<lambda>cfg.
           Inr (d\<lparr>net_config := cfg, net_generation := net_generation d + 1\<rparr>))))"

definition net_features :: u32 where
  "net_features = push_bit VIRTIO_NET_F_MAC 1 OR push_bit VIRTIO_NET_F_CSUM 1 OR
     push_bit VIRTIO_NET_F_HOST_TSO4 1 OR push_bit VIRTIO_NET_F_GUEST_TSO4 1 OR
     push_bit VIRTIO_NET_F_HOST_TSO6 1 OR push_bit VIRTIO_NET_F_GUEST_TSO6 1 OR
     push_bit VIRTIO_NET_F_HOST_UFO 1 OR push_bit VIRTIO_NET_F_GUEST_UFO 1"

definition net_config_generation :: "net \<Rightarrow> u32" where
  "net_config_generation d = net_generation d"

section \<open>The tap\<close>

definition poll_fd_in :: "tap \<Rightarrow> (bool \<times> tap) res" where
  "poll_fd_in t =
     (case tap_polls t of
        [] \<Rightarrow> Inl Blocked
      | (ret, revents) # ps \<Rightarrow>
          Inr (if ret \<le> 0 then False else revents AND NET_POLLIN \<noteq> 0, t\<lparr>tap_polls := ps\<rparr>))"

text \<open>\<^verbatim>\<open>read(tap, buffer, net_buffer_len)\<close>: the size, and the buffer it leaves; a longer frame is cut.\<close>

definition tap_read :: "tap \<Rightarrow> u8 list \<Rightarrow> (int \<times> u8 list \<times> tap) res" where
  "tap_read t buf =
     (case tap_reads t of
        [] \<Rightarrow> Inl Blocked
      | None # rs \<Rightarrow> Inr (-1, buf, t\<lparr>tap_reads := rs\<rparr>)
      | Some frame # rs \<Rightarrow>
          let frame = take (length buf) frame in
          Inr (int (length frame), frame @ drop (length frame) buf, t\<lparr>tap_reads := rs\<rparr>))"

text \<open>
  A tap takes one frame with each write, whole or not at all: whatever count it returns, a call that
  does not fail has sent the frame it was given.
\<close>

definition tap_write :: "tap \<Rightarrow> u8 list \<Rightarrow> (int \<times> tap) res" where
  "tap_write t frame =
     (case tap_writes t of
        [] \<Rightarrow> Inl Blocked
      | ret # rs \<Rightarrow>
          Inr (ret, t\<lparr>tap_writes := rs, tap_sent := (if ret < 0 then tap_sent t else tap_sent t @ [frame])\<rparr>))"

section \<open>Receiving\<close>

text \<open>
  The loop of \<^verbatim>\<open>update_rx\<close> over the descriptor, \<open>len\<close> and the memory. \<open>size - len\<close> is computed in
  \<^verbatim>\<open>ssize_t\<close> and cut to 32 bits; the comparison with \<open>size\<close> is signed and 64 bits wide.
\<close>

definition rx_body ::
  "queue \<Rightarrow> int \<Rightarrow> u8 list \<Rightarrow> u64 \<times> u32 \<times> gmem \<Rightarrow> (u64 \<times> u32 \<times> gmem + u32 \<times> gmem) res" where
  "rx_body q sz buf = (\<lambda>(p, len, m).
     and_then (elem_len m p) (\<lambda>n.
     let write_len = min (word_of_int (sz - uint len)) n in
     and_then (elem_addr m p) (\<lambda>a.
     and_then (buf_read buf (unat len) (unat write_len)) (\<lambda>bs.
     and_then (store_bytes m a bs) (\<lambda>m.
     let len = len + write_len in
     if uint len = sz then Inr (Inr (len, m))
     else and_then (elem_flags m p) (\<lambda>fl.
          if fl AND VRING_DESC_F_NEXT = 0 then Inr (Inr (len, m))
          else and_then (elem_next m p) (\<lambda>i. Inr (Inl (desc_ptr q i, len, m)))))))))"

definition rx_deliver ::
  "gmem \<Rightarrow> queue \<Rightarrow> u64 \<Rightarrow> int \<Rightarrow> u8 list \<Rightarrow> interrupt \<Rightarrow> (gmem \<times> interrupt) res option" where
  "rx_deliver m q nxt sz buf irq =
     (case avail_id m q of
        Inl e \<Rightarrow> Some (Inl e)
      | Inr desc_start \<Rightarrow>
          (case iterate (rx_body q sz buf) (nxt, 0, m) of
             None \<Rightarrow> None
           | Some r \<Rightarrow> Some (and_then r (\<lambda>(len, m).
               and_then (add_used m q (ucast desc_start) len) (\<lambda>(_, m).
               and_then (set_level True irq) (\<lambda>irq. Inr (m, irq)))))))"

definition update_rx :: "u32 \<Rightarrow> gmem \<Rightarrow> net \<times> interrupt \<Rightarrow> (gmem \<times> net \<times> interrupt) res option" where
  "update_rx i m = (\<lambda>(d, irq).
     case and_then (q_at i d) (\<lambda>q. queue_next m q) of
       Inl e \<Rightarrow> Some (Inl e)
     | Inr (None, q) \<Rightarrow> Some (Inr (m, d, irq))
     | Inr (Some nxt, q) \<Rightarrow>
         (case poll_fd_in (net_tap d) of
            Inl e \<Rightarrow> Some (Inl e)
          | Inr (False, t) \<Rightarrow>
              Some (and_then (q_at_update i (\<lambda>_. pop_back q) (d\<lparr>net_tap := t\<rparr>)) (\<lambda>d. Inr (m, d, irq)))
          | Inr (True, t) \<Rightarrow>
              (case and_then (tap_read t (net_rx_buffer d)) (\<lambda>(sz, buf, t).
                    and_then (q_at_update i (\<lambda>_. q) (d\<lparr>net_tap := t, net_rx_buffer := buf\<rparr>)) (\<lambda>d.
                    Inr (sz, buf, d))) of
                 Inl e \<Rightarrow> Some (Inl e)
               | Inr (sz, buf, d) \<Rightarrow>
                   (case rx_deliver m q nxt sz buf irq of
                      None \<Rightarrow> None
                    | Some r \<Rightarrow> Some (and_then r (\<lambda>(m, irq). Inr (m, d, irq)))))))"

section \<open>Transmitting\<close>

definition tx_body ::
  "gmem \<Rightarrow> queue \<Rightarrow> u64 \<times> u32 \<times> u8 list \<Rightarrow> (u64 \<times> u32 \<times> u8 list + u32 \<times> u8 list) res" where
  "tx_body m q = (\<lambda>(p, written, buf).
     and_then (elem_addr m p) (\<lambda>a.
     and_then (elem_len m p) (\<lambda>n.
     and_then (load_bytes m a (unat n)) (\<lambda>bs.
     and_then (buf_write buf (unat written) bs) (\<lambda>buf.
     let written = written + n in
     and_then (elem_flags m p) (\<lambda>fl.
     if fl AND VRING_DESC_F_NEXT = 0 then Inr (Inr (written, buf))
     else and_then (elem_next m p) (\<lambda>i. Inr (Inl (desc_ptr q i, written, buf)))))))))"

definition tx_send ::
  "gmem \<Rightarrow> queue \<Rightarrow> u16 \<Rightarrow> u32 \<times> u8 list \<Rightarrow> net \<times> interrupt \<Rightarrow> (gmem \<times> net \<times> interrupt) res" where
  "tx_send m q desc_start = (\<lambda>(written, buf) (d, irq).
     and_then (buf_read buf 0 (unat written)) (\<lambda>frame.
     and_then (tap_write (net_tap d) frame) (\<lambda>(ret, t).
     and_then (add_used m q (ucast desc_start) (word_of_int ret)) (\<lambda>(_, m).
     and_then (set_level True irq) (\<lambda>irq.
     Inr (m, d\<lparr>net_tap := t, net_tx_buffer := buf\<rparr>, irq))))))"

definition update_tx :: "u32 \<Rightarrow> gmem \<Rightarrow> net \<times> interrupt \<Rightarrow> (gmem \<times> net \<times> interrupt) res option" where
  "update_tx i m = (\<lambda>(d, irq).
     case and_then (q_at i d) (\<lambda>q. queue_next m q) of
       Inl e \<Rightarrow> Some (Inl e)
     | Inr (None, q) \<Rightarrow> Some (Inr (m, d, irq))
     | Inr (Some nxt, q) \<Rightarrow>
         (case and_then (q_at_update i (\<lambda>_. q) d) (\<lambda>d. and_then (avail_id m q) (\<lambda>s. Inr (d, s))) of
            Inl e \<Rightarrow> Some (Inl e)
          | Inr (d, desc_start) \<Rightarrow>
              (case iterate (tx_body m q) (nxt, 0, net_tx_buffer d) of
                 None \<Rightarrow> None
               | Some r \<Rightarrow> Some (and_then r (\<lambda>s. tx_send m q desc_start s (d, irq))))))"

text \<open>\<^verbatim>\<open>update_ctrl\<close> is written but \<^verbatim>\<open>update\<close> does not call it.\<close>

definition update_ctrl :: "u32 \<Rightarrow> gmem \<Rightarrow> net \<times> interrupt \<Rightarrow> (gmem \<times> net \<times> interrupt) res" where
  "update_ctrl i m = (\<lambda>(d, irq).
     and_then (q_at i d) (\<lambda>q.
     and_then (queue_next m q) (\<lambda>(r, q).
     and_then (q_at_update i (\<lambda>_. q) d) (\<lambda>d.
     case r of
       None \<Rightarrow> Inr (m, d, irq)
     | Some nxt \<Rightarrow>
         and_then (avail_id m q) (\<lambda>desc_start.
         and_then (add_used m q (ucast desc_start) 0) (\<lambda>(_, m).
         and_then (set_level True irq) (\<lambda>irq. Inr (m, d, irq))))))))"

definition run_rx :: "gmem \<Rightarrow> net \<times> interrupt \<Rightarrow> (gmem \<times> net \<times> interrupt) res option" where
  "run_rx = update_rx rx_queue"

definition run_tx :: "gmem \<Rightarrow> net \<times> interrupt \<Rightarrow> (gmem \<times> net \<times> interrupt) res option" where
  "run_tx = update_tx tx_queue"

definition net_update :: "gmem \<Rightarrow> net \<times> interrupt \<Rightarrow> (gmem \<times> net \<times> interrupt) res" where
  "net_update m s = Inr (m, s)"

definition net_class :: "net virtio_class" where
  "net_class = \<lparr>vc_device_id = VIRTIO_ID_NET, vc_features = net_features,
     vc_config_generation = net_config_generation, vc_read = net_read, vc_write = net_write,
     vc_update = net_update\<rparr>"

section \<open>The loops\<close>

lemma buf_write_splice:
  "off + length xs \<le> length buf \<Longrightarrow>
   buf_write buf off xs = Inr (take off buf @ xs @ drop (off + length xs) buf)"
  by (simp add: buf_write_def)

lemma tx_loop:
  "queue_ok m q \<Longrightarrow> frame_at m q i bufs \<Longrightarrow> bufs_in m bufs \<Longrightarrow>
   unat written + total_len bufs \<le> length buf \<Longrightarrow> length buf < 4294967296 \<Longrightarrow>
   iterate (tx_body m q) (desc_ptr q i, written, buf) =
     Some (Inr (written + total32 bufs,
       take (unat written) buf @ gather m bufs @ drop (unat written + total_len bufs) buf))"
proof (induction bufs arbitrary: i written buf)
  case (Cons b bufs)
  obtain a n where b: "b = (a, n)" by (cases b)
  let ?buf = "take (unat written) buf @ peek m a (unat n) @ drop (unat written + unat n) buf"
  have i: "unat i < unat (q_size q)" using frame_at_index Cons.prems(2) by blast
  have w: "unat (written + n) = unat written + unat n"
    using Cons.prems b by (intro unat_add_no_wrap) simp
  have bw: "buf_write buf (unat written) (peek m a (unat n)) = Inr ?buf"
    using Cons.prems b by (subst buf_write_splice) auto
  show ?case
  proof (cases "bufs = []")
    case True
    then have "tx_body m q (desc_ptr q i, written, buf) = Inr (Inr (written + n, ?buf))"
      using Cons.prems b bw by (simp add: tx_body_def elem_fields_ok Let_def)
    with True b show ?thesis by (simp add: iterate_done)
  next
    case False
    then have step: "tx_body m q (desc_ptr q i, written, buf) =
        Inr (Inl (desc_ptr q (desc_next_at m q i), written + n, ?buf))"
      using Cons.prems b bw by (simp add: tx_body_def elem_fields_ok Let_def)
    have "iterate (tx_body m q) (desc_ptr q (desc_next_at m q i), written + n, ?buf) =
      Some (Inr (written + n + total32 bufs,
        take (unat (written + n)) ?buf @ gather m bufs @ drop (unat (written + n) + total_len bufs) ?buf))"
      using Cons.prems b False w by (intro Cons.IH) auto
    moreover have "drop (unat written + unat n + total_len bufs) ?buf =
        drop (unat written + (unat n + total_len bufs)) buf"
      using Cons.prems b by (simp add: add_ac)
    ultimately show ?thesis
      using b w Cons.prems by (simp add: iterate_step[of "tx_body m q", OF step] add_ac)
  qed
qed simp

lemma tx_loop_overflow:
  "queue_ok m q \<Longrightarrow> frame_at m q i bufs \<Longrightarrow> bufs_in m bufs \<Longrightarrow>
   unat written \<le> length buf \<Longrightarrow> length buf < unat written + total_len bufs \<Longrightarrow>
   length buf < 4294967296 \<Longrightarrow>
   iterate (tx_body m q) (desc_ptr q i, written, buf) = Some (Inl (UB HostBuffer))"
proof (induction bufs arbitrary: i written buf)
  case (Cons b bufs)
  obtain a n where b: "b = (a, n)" by (cases b)
  have i: "unat i < unat (q_size q)" using frame_at_index Cons.prems(2) by blast
  show ?case
  proof (cases "unat written + unat n \<le> length buf")
    case False
    then have "peek m a (unat n) \<noteq> []" using Cons.prems(4) by (auto simp flip: length_0_conv)
    with False have "buf_write buf (unat written) (peek m a (unat n)) = Inl (UB HostBuffer)"
      by (simp add: buf_write_def)
    then have "tx_body m q (desc_ptr q i, written, buf) = Inl (UB HostBuffer)"
      using Cons.prems b by (simp add: tx_body_def elem_fields_ok)
    then show ?thesis by (simp add: iterate_fault)
  next
    case True
    let ?buf = "take (unat written) buf @ peek m a (unat n) @ drop (unat written + unat n) buf"
    have w: "unat (written + n) = unat written + unat n"
      using True Cons.prems by (intro unat_add_no_wrap) simp
    have "buf_write buf (unat written) (peek m a (unat n)) = Inr ?buf"
      using True by (subst buf_write_splice) auto
    then have step: "tx_body m q (desc_ptr q i, written, buf) =
        Inr (Inl (desc_ptr q (desc_next_at m q i), written + n, ?buf))"
      using Cons.prems b True by (auto simp: tx_body_def elem_fields_ok Let_def split: if_splits)
    have "iterate (tx_body m q) (desc_ptr q (desc_next_at m q i), written + n, ?buf) =
        Some (Inl (UB HostBuffer))"
      using Cons.prems b True w by (intro Cons.IH) (auto split: if_splits)
    then show ?thesis by (simp add: iterate_step[of "tx_body m q", OF step])
  qed
qed simp

lemma of_nat_unat_id: "of_nat (unat w) = (w :: u32)"
  by simp

lemma rx_write_len:
  assumes "unat len \<le> sz" "sz < 4294967296"
  shows "unat (min (word_of_int (int sz - uint len)) (n :: u32)) = min (sz - unat len) (unat n)"
proof -
  have "int sz - uint len = int (sz - unat len)"
    unfolding uint_nat of_nat_diff[OF assms(1)] ..
  then have "unat (word_of_int (int sz - uint len) :: u32) = sz - unat len"
    using assms(2) by (simp add: unat_of_nat_small)
  then show ?thesis by (simp add: min_def word_le_nat_alt)
qed

lemma rx_loop:
  "queue_ok m q \<Longrightarrow> frame_at m q i bufs \<Longrightarrow> bufs_ok m q bufs \<Longrightarrow>
   unat len \<le> length fr \<Longrightarrow> length fr < 4294967296 \<Longrightarrow>
   iterate (rx_body q (int (length fr)) (fr @ rest)) (desc_ptr q i, len, m) =
     Some (Inr (len + of_nat (min (length fr - unat len) (total_len bufs)),
                scatter m bufs (drop (unat len) fr)))"
proof (induction bufs arbitrary: i len m)
  case (Cons b bufs)
  obtain a n where b: "b = (a, n)" by (cases b)
  let ?f = "rx_body q (int (length fr)) (fr @ rest)"
  let ?w = "min (word_of_int (int (length fr) - uint len)) n :: u32"
  let ?bs = "take (unat n) (drop (unat len) fr)"
  let ?m = "poke m a ?bs"
  have i: "unat i < unat (q_size q)" using frame_at_index Cons.prems(2) by blast
  have w: "unat ?w = min (length fr - unat len) (unat n)"
    by (rule rx_write_len[OF Cons.prems(4,5)])
  have lw: "unat (len + ?w) = unat len + unat ?w"
    using w Cons.prems(4,5) by (intro unat_add_no_wrap) simp
  have bs: "buf_read (fr @ rest) (unat len) (unat ?w) = Inr ?bs"
    using Cons.prems(4) unfolding w by (auto simp: buf_read_def min_def)
  have buf: "buffer_ok m q a (length ?bs)"
    by (rule buffer_ok_prefix[of m q a "unat n"]) (use Cons.prems(3) b in simp_all)
  then have st: "store_bytes m a ?bs = Inr ?m" by (simp add: buffer_ok_def)
  have q': "queue_ok ?m q" using Cons.prems(1) by simp
  have fields: "elem_addr m (desc_ptr q i) = Inr a" "elem_len m (desc_ptr q i) = Inr n"
    "elem_flags ?m (desc_ptr q i) = Inr (desc_flags_at m q i)"
    "elem_next ?m (desc_ptr q i) = Inr (desc_next_at m q i)"
    using Cons.prems(2) b
    by (simp_all add: elem_fields_ok[OF Cons.prems(1) i] elem_fields_ok[OF q' i]
        buffer_frame_desc[OF Cons.prems(1) buf i])
  have end_iff: "uint (len + ?w) = int (length fr) \<longleftrightarrow> length fr - unat len \<le> unat n"
    unfolding uint_nat[of "len + ?w"] lw w of_nat_eq_iff using Cons.prems(4) by (auto simp: min_def)
  have body: "?f (desc_ptr q i, len, m) =
      (if length fr - unat len \<le> unat n then Inr (Inr (len + ?w, ?m))
       else if desc_flags_at m q i AND VRING_DESC_F_NEXT = 0 then Inr (Inr (len + ?w, ?m))
       else Inr (Inl (desc_ptr q (desc_next_at m q i), len + ?w, ?m)))"
    by (simp only: rx_body_def case_prod_conv fields and_then_simps Let_def bs st end_iff)
  have len': "len + ?w = len + of_nat (min (length fr - unat len) (unat n))"
    unfolding w[symmetric] of_nat_unat_id ..
  show ?case
  proof (cases "length fr - unat len \<le> unat n \<or> bufs = []")
    case True
    then have "?f (desc_ptr q i, len, m) = Inr (Inr (len + ?w, ?m))"
      using body Cons.prems(2) b by (auto split: if_splits)
    moreover have "min (length fr - unat len) (total_len (b # bufs)) = min (length fr - unat len) (unat n)"
      using True b by auto
    moreover have "scatter m (b # bufs) (drop (unat len) fr) = ?m"
      using True b by auto
    ultimately show ?thesis by (simp only: iterate_done[of ?f] len')
  next
    case False
    have step: "?f (desc_ptr q i, len, m) = Inr (Inl (desc_ptr q (desc_next_at m q i), len + n, ?m))"
    proof -
      have "unat ?w = unat n" unfolding w using False by simp
      then have "?w = n" by (rule word_unat_eq_iff[THEN iffD2])
      then show ?thesis using False Cons.prems(2) b unfolding body by simp
    qed
    have ln: "unat (len + n) = unat len + unat n"
      using False Cons.prems(4,5) by (intro unat_add_no_wrap) auto
    have "iterate ?f (desc_ptr q (desc_next_at m q i), len + n, ?m) =
        Some (Inr (len + n + of_nat (min (length fr - unat (len + n)) (total_len bufs)),
          scatter ?m bufs (drop (unat (len + n)) fr)))"
      using Cons.prems False b ln q' by (intro Cons.IH) (auto simp: frame_at_poke[OF Cons.prems(1) buf])
    moreover have "of_nat (min (length fr - unat len) (unat n + total_len bufs)) =
        n + (of_nat (min (length fr - (unat len + unat n)) (total_len bufs)) :: u32)"
    proof -
      have "min (length fr - unat len) (unat n + total_len bufs) =
          unat n + min (length fr - (unat len + unat n)) (total_len bufs)"
        using False by auto
      then show ?thesis by simp
    qed
    ultimately show ?thesis
      using b ln by (simp add: iterate_step[of ?f, OF step] add_ac)
  qed
qed simp

text \<open>Whatever the guest has put into its memory, a round that ends keeps the size of the memory, the
  number of queues, the configuration and the sizes of the two buffers.\<close>

lemma rx_body_keeps:
  assumes "iterate (rx_body q sz buf) (p, len, m) = Some (Inr (len', m'))"
  shows "gm_size m' = gm_size m"
proof -
  have "(\<lambda>(len, m'). gm_size m' = gm_size m) (len', m')"
    by (rule iterate_keeps[OF assms, where P = "\<lambda>(p, len, m'). gm_size m' = gm_size m"])
       (auto simp: rx_body_def Let_def mem_access_Inr split: if_splits)
  then show ?thesis by simp
qed

lemma tx_body_keeps:
  assumes "iterate (tx_body m q) (p, w, buf) = Some (Inr (w', buf'))"
  shows "length buf' = length buf"
proof -
  have "(\<lambda>(w, buf'). length buf' = length buf) (w', buf')"
    by (rule iterate_keeps[OF assms, where P = "\<lambda>(p, w, buf'). length buf' = length buf"])
       (auto simp: tx_body_def Let_def dest!: length_buf_write split: if_splits)
  then show ?thesis by simp
qed

lemma tap_read_length: "tap_read t buf = Inr (sz, buf', t') \<Longrightarrow> length buf' = length buf"
  by (auto simp: tap_read_def Let_def split: list.splits option.splits)

lemma rx_deliver_keeps:
  "rx_deliver m q nxt sz buf irq = Some (Inr (m', irq')) \<Longrightarrow> gm_size m' = gm_size m"
  by (auto simp: rx_deliver_def split: sum.splits option.splits dest!: rx_body_keeps add_used_size)

definition net_shape :: "net \<Rightarrow> nat \<times> u8 list \<times> nat \<times> nat" where
  "net_shape d = (length (vd_queues d), net_config d, length (net_rx_buffer d), length (net_tx_buffer d))"

lemma run_rx_keeps:
  assumes "run_rx m (d, irq) = Some (Inr (m', d', irq'))"
  shows "gm_size m' = gm_size m" "net_shape d' = net_shape d" "vd_queue_index d' = vd_queue_index d"
  using assms
  by (auto simp: run_rx_def update_rx_def q_at_update_Inr net_shape_def
      split: sum.splits option.splits prod.splits if_splits bool.splits dest!: rx_deliver_keeps tap_read_length)

lemma run_tx_keeps:
  assumes "run_tx m (d, irq) = Some (Inr (m', d', irq'))"
  shows "gm_size m' = gm_size m" "net_shape d' = net_shape d" "vd_queue_index d' = vd_queue_index d"
  using assms
  by (auto simp: run_tx_def update_tx_def q_at_update_Inr net_shape_def tx_send_def
      split: sum.splits option.splits prod.splits if_splits dest!: tx_body_keeps add_used_size)

section \<open>The contract\<close>

definition net_inv :: "net \<Rightarrow> bool" where
  "net_inv d \<longleftrightarrow> length (vd_queues d) = 3 \<and> length (net_config d) < 18446744073709551616 \<and>
     length (net_rx_buffer d) = net_buffer_len \<and> length (net_tx_buffer d) = net_buffer_len"

lemma reg_write_net:
  "reg_write off v (d :: net, irq) = Inr (d', irq') \<Longrightarrow> net_config d' = net_config d \<and>
     net_rx_buffer d' = net_rx_buffer d \<and> net_tx_buffer d' = net_tx_buffer d"
  by (auto simp: reg_write_def Let_def q_cur_update_def q_at_update_Inr write_status_def split: if_splits)

interpretation net_dev: virtio_dev net_class net_inv 3
proof
  fix d :: net and off :: u64 and sz :: u32
  assume "net_inv d" "unat off + unat sz < 18446744073709551616"
  then show "\<exists>buf. vc_read net_class off sz d = Inr buf"
    by (simp add: net_class_def net_read_def net_inv_def cfg_no_wrap buf_read_def)
next
  fix d :: net and off sz buf
  assume "vc_read net_class off sz d = Inr buf"
  then show "length buf = unat sz"
    by (auto simp: net_class_def net_read_def length_buf_read split: if_splits)
next
  fix d :: net and bs off sz d'
  assume "net_inv d" "vc_write net_class bs off sz d = Inr d'"
  then show "net_inv d'"
    by (auto simp: net_class_def net_write_def net_inv_def length_buf_write split: if_splits)
next
  fix d :: net and off v irq d' irq'
  assume "net_inv d" "reg_write off v (d, irq) = Inr (d', irq')"
  then show "net_inv d'" by (auto simp: net_inv_def reg_write_queue_count dest: reg_write_net)
qed (auto simp: net_inv_def net_class_def net_update_def)

section \<open>Properties\<close>

lemma buf_read_prefix: "buf_read (xs @ ys) 0 (length xs) = Inr xs"
  by (cases xs) (simp_all add: buf_read_def)

lemma q_at_index: "q_at i d = Inr q \<Longrightarrow> unat i < length (vd_queues d) \<and> vd_queues d ! unat i = q"
  by (cases "unat i < length (vd_queues d)") simp_all

text \<open>What a completed transfer shows the driver.\<close>

definition completed :: "gmem \<Rightarrow> gmem \<Rightarrow> queue \<Rightarrow> u16 \<Rightarrow> u32 \<Rightarrow> bool" where
  "completed m m' q h len \<longleftrightarrow>
     used_entry m' q (unat (peek_used_idx m q)) = (ucast h, len) \<and>
     peek_used_idx m' q = peek_used_idx m q + 1"

lemma completed_completion:
  "queue_ok m1 q \<Longrightarrow> peek_used_idx m1 q = peek_used_idx m q \<Longrightarrow>
   completed m (completion m1 q (ucast h) len) q h len"
  using completion_entry_same[of m1 q "ucast h" len] by (simp add: completed_def completion_idx)

lemma net_tx_exact:
  assumes "length (net_tx_buffer d) = net_buffer_len" "q_at tx_queue d = Inr q" "queue_ok m q" "pending m q = h # hs"
    and "frame_at m q h bufs" "bufs_in m bufs" "total_len bufs \<le> net_buffer_len"
    and "tap_writes (net_tap d) = ret # rets" "0 \<le> ret" "irq_fd_ok irq"
  shows "\<exists>d' irq'. run_tx m (d, irq) = Some (Inr (completion m q (ucast h) (word_of_int ret), d', irq')) \<and>
    net_tap d' = (net_tap d)\<lparr>tap_writes := rets, tap_sent := tap_sent (net_tap d) @ [gather m bufs]\<rparr> \<and>
    q_at tx_queue d' = Inr (q\<lparr>q_last_avail := q_last_avail q + 1\<rparr>) \<and>
    length (net_tx_buffer d') = net_buffer_len \<and> irq_state irq' \<and> irq_fd_ok irq'"
proof -
  let ?q = "q\<lparr>q_last_avail := q_last_avail q + 1\<rparr>"
  let ?buf = "gather m bufs @ drop (total_len bufs) (net_tx_buffer d)"
  note qi = q_at_index[OF assms(2)]
  have ok: "queue_ok m ?q" using assms(3) by simp
  have small: "total_len bufs < 4294967296" using assms(7) by (simp add: net_buffer_len_def)
  have t32: "unat (total32 bufs) = total_len bufs"
    using small by (simp add: total32_of_nat unat_of_nat_small)
  have body: "tx_body m ?q = tx_body m q" unfolding tx_body_def avail_entry_last_avail ..
  have loop: "iterate (tx_body m q) (desc_ptr q h, 0, net_tx_buffer d) = Some (Inr (total32 bufs, ?buf))"
    using tx_loop[OF assms(3,5,6), of 0 "net_tx_buffer d"] assms(1,7) by (simp add: net_buffer_len_def)
  have rd: "buf_read ?buf 0 (unat (total32 bufs)) = Inr (gather m bufs)"
    using buf_read_prefix[of "gather m bufs"] t32 by simp
  have used: "add_used m ?q (ucast h) l = Inr (peek_used_idx m q + 1, completion m q (ucast h) l)" for l
    using add_used_ok[OF ok, of "ucast h" l] by simp
  show ?thesis
    using qi assms(1,2,7-10)
    by (simp add: run_tx_def update_tx_def queue_next_pending[OF assms(3,4)] body loop tx_send_def rd
        tap_write_def used set_level_True)
qed

lemma net_tx_round:
  assumes "length (net_tx_buffer d) = net_buffer_len" "q_at tx_queue d = Inr q" "queue_ok m q" "pending m q = h # hs"
    and "frame_at m q h bufs" "bufs_in m bufs" "total_len bufs \<le> net_buffer_len"
    and "tap_writes (net_tap d) = ret # rets" "0 \<le> ret" "irq_fd_ok irq"
  shows "\<exists>m' d' irq'. run_tx m (d, irq) = Some (Inr (m', d', irq')) \<and>
    tap_sent (net_tap d') = tap_sent (net_tap d) @ [gather m bufs] \<and>
    completed m m' q h (word_of_int ret) \<and> irq_state irq' \<and> irq_fd_ok irq'"
  using net_tx_exact[OF assms] completed_completion[OF assms(3), of m h "word_of_int ret"] by fastforce

text \<open>A frame the guest transmits reaches the tap as one piece: the bytes of all descriptors of
  the chain in order, exactly once, as long as they fit the 65562-byte buffer; the descriptor chain
  is returned to the guest with the result of the write and the interrupt is raised.\<close>

theorem net_transmits_frame:
  assumes "net_inv d" "q_at tx_queue d = Inr q" "queue_ok m q" "pending m q = h # hs"
    and "frame_at m q h bufs" "bufs_in m bufs" "total_len bufs \<le> net_buffer_len"
    and "tap_writes (net_tap d) = ret # rets" "0 \<le> ret" "irq_fd_ok irq"
  shows "\<exists>m' d' irq'. run_tx m (d, irq) = Some (Inr (m', d', irq')) \<and>
    tap_sent (net_tap d') = tap_sent (net_tap d) @ [gather m bufs] \<and>
    completed m m' q h (word_of_int ret) \<and> irq_state irq'"
  using net_tx_round[OF _ assms(2-)] assms(1) by (auto simp: net_inv_def)

text \<open>A chain longer than the buffer is copied past its end: the total length is the guest's to
  choose and is not compared with the size of the static buffer.\<close>

theorem net_transmit_overflow:
  assumes "net_inv d" "q_at tx_queue d = Inr q" "queue_ok m q" "pending m q = h # hs"
    and "frame_at m q h bufs" "bufs_in m bufs" "net_buffer_len < total_len bufs"
  shows "run_tx m (d, irq) = Some (Inl (UB HostBuffer))"
proof -
  let ?q = "q\<lparr>q_last_avail := q_last_avail q + 1\<rparr>"
  note qi = q_at_index[OF assms(2)]
  have body: "tx_body m ?q = tx_body m q" unfolding tx_body_def avail_entry_last_avail ..
  have "iterate (tx_body m q) (desc_ptr q h, 0, net_tx_buffer d) = Some (Inl (UB HostBuffer))"
    using assms(1,7) by (intro tx_loop_overflow[OF assms(3,5,6)]) (simp_all add: net_inv_def net_buffer_len_def)
  then show ?thesis
    using qi assms(2)
    by (simp add: run_tx_def update_tx_def queue_next_pending[OF assms(3,4)] body)
qed

lemma net_rx_exact:
  assumes "length (net_rx_buffer d) = net_buffer_len" "q_at rx_queue d = Inr q" "queue_ok m q" "pending m q = h # hs"
    and "frame_at m q h bufs" "bufs_ok m q bufs"
    and "tap_polls (net_tap d) = (1, NET_POLLIN) # ps" "tap_reads (net_tap d) = Some frame # rs"
    and "length frame \<le> net_buffer_len" "irq_fd_ok irq"
  shows "\<exists>d' irq'. run_rx m (d, irq) = Some (Inr (completion (scatter m bufs frame) q (ucast h)
      (of_nat (min (length frame) (total_len bufs))), d', irq')) \<and>
    net_tap d' = (net_tap d)\<lparr>tap_polls := ps, tap_reads := rs\<rparr> \<and>
    q_at rx_queue d' = Inr (q\<lparr>q_last_avail := q_last_avail q + 1\<rparr>) \<and>
    length (net_rx_buffer d') = net_buffer_len \<and> irq_state irq' \<and> irq_fd_ok irq'"
proof -
  let ?q = "q\<lparr>q_last_avail := q_last_avail q + 1\<rparr>"
  let ?n = "min (length frame) (total_len bufs)"
  let ?m1 = "scatter m bufs frame"
  let ?buf = "frame @ drop (length frame) (net_rx_buffer d)"
  note qi = q_at_index[OF assms(2)]
  have body: "rx_body ?q s b = rx_body q s b" for s b unfolding rx_body_def avail_entry_last_avail ..
  have ok1: "queue_ok ?m1 q" using assms(3) by (simp add: scatter_queue_ok)
  have idx: "peek_used_idx ?m1 q = peek_used_idx m q" by (rule scatter_used_idx[OF assms(3,6)])
  have loop: "iterate (rx_body q (int (length frame)) ?buf) (desc_ptr q h, 0, m) =
      Some (Inr (of_nat ?n, ?m1))"
    using rx_loop[OF assms(3,5,6), of 0 frame] assms(9) by (simp add: net_buffer_len_def)
  have used: "add_used ?m1 ?q (ucast h) l = Inr (peek_used_idx m q + 1, completion ?m1 q (ucast h) l)" for l
    using add_used_ok[of ?m1 ?q "ucast h" l] ok1 idx by simp
  show ?thesis
    using qi assms(1,2,7-10)
    by (simp add: run_rx_def update_rx_def queue_next_pending[OF assms(3,4)] poll_fd_in_def NET_POLLIN_def
        tap_read_def rx_deliver_def body loop used set_level_True Let_def del: of_nat_min)
qed

text \<open>A frame longer than its chain fills the chain.\<close>

lemma gather_scatter_frame:
  fixes frame :: "u8 list"
  assumes "bufs_in m bufs" "bufs_apart bufs"
  defines "n \<equiv> min (length frame) (total_len bufs)"
  shows "take n (gather (scatter m bufs frame) bufs) = take n frame"
proof -
  let ?fr = "take (total_len bufs) frame"
  have "take (length ?fr) (gather (scatter m bufs ?fr) bufs) = ?fr"
    by (rule gather_scatter_prefix[OF assms(1,2)]) simp
  then have "take (length ?fr) (gather (scatter m bufs frame) bufs) = ?fr" by (simp only: scatter_take)
  moreover have "length ?fr = n" "?fr = take n frame" by (simp_all add: min_def n_def)
  ultimately show ?thesis by simp
qed

lemma net_rx_round:
  assumes "length (net_rx_buffer d) = net_buffer_len" "q_at rx_queue d = Inr q" "queue_ok m q" "pending m q = h # hs"
    and "frame_at m q h bufs" "bufs_ok m q bufs" "bufs_apart bufs"
    and "tap_polls (net_tap d) = (1, NET_POLLIN) # ps" "tap_reads (net_tap d) = Some frame # rs"
    and "length frame \<le> net_buffer_len" "irq_fd_ok irq"
  shows "\<exists>m' d' irq'. run_rx m (d, irq) = Some (Inr (m', d', irq')) \<and>
    (let n = min (length frame) (total_len bufs) in
     take n (gather m' bufs) = take n frame \<and> completed m m' q h (of_nat n)) \<and> irq_state irq' \<and>
    irq_fd_ok irq'"
proof -
  let ?n = "min (length frame) (total_len bufs)"
  let ?m1 = "scatter m bufs frame"
  have ok1: "queue_ok ?m1 q" "bufs_ok ?m1 q bufs"
    using assms(3,6) by (simp_all add: scatter_queue_ok scatter_bufs_ok)
  have idx: "peek_used_idx ?m1 q = peek_used_idx m q" by (rule scatter_used_idx[OF assms(3,6)])
  have "take ?n (gather (completion ?m1 q (ucast h) (of_nat ?n)) bufs) = take ?n frame"
    using gather_scatter_frame[OF bufs_ok_in[OF assms(6)] assms(7)] gather_completion[OF ok1] by simp
  with net_rx_exact[OF assms(1-6,8-)] completed_completion[OF ok1(1) idx, of h "of_nat ?n"] show ?thesis
    unfolding Let_def by blast
qed

text \<open>A frame that arrives is delivered into the first waiting chain of buffers: its bytes fill the
  buffers in order (a chain too short for the frame gets the part that fits), the number of bytes
  delivered is reported, and the interrupt is raised.\<close>

theorem net_delivers_frame:
  assumes "net_inv d" "q_at rx_queue d = Inr q" "queue_ok m q" "pending m q = h # hs"
    and "frame_at m q h bufs" "bufs_ok m q bufs" "bufs_apart bufs"
    and "tap_polls (net_tap d) = (1, NET_POLLIN) # ps" "tap_reads (net_tap d) = Some frame # rs"
    and "length frame \<le> net_buffer_len" "irq_fd_ok irq"
  shows "\<exists>m' d' irq'. run_rx m (d, irq) = Some (Inr (m', d', irq')) \<and>
    (let n = min (length frame) (total_len bufs) in
     take n (gather m' bufs) = take n frame \<and> completed m m' q h (of_nat n)) \<and> irq_state irq'"
  using net_rx_round[OF _ assms(2-)] assms(1) by (auto simp: net_inv_def Let_def)

text \<open>When reading the tap fails the code warns and goes on with size -1: the guest is given
  whatever the static buffer still holds (the bytes of an earlier frame) as a frame of the full
  length of its descriptor, and a descriptor longer than the buffer reads past its end.\<close>

theorem net_read_error_delivers_stale_bytes:
  assumes "net_inv d" "q_at rx_queue d = Inr q" "queue_ok m q" "pending m q = h # hs"
    and "frame_at m q h [(a, n)]" "buffer_ok m q a (unat n)"
    and "tap_polls (net_tap d) = (1, NET_POLLIN) # ps" "tap_reads (net_tap d) = None # rs"
    and "irq_fd_ok irq"
  shows "if unat n \<le> net_buffer_len
         then \<exists>m' d' irq'. run_rx m (d, irq) = Some (Inr (m', d', irq')) \<and>
           peek m' a (unat n) = take (unat n) (net_rx_buffer d) \<and> completed m m' q h n
         else run_rx m (d, irq) = Some (Inl (UB HostBuffer))"
proof -
  let ?q = "q\<lparr>q_last_avail := q_last_avail q + 1\<rparr>"
  let ?bs = "take (unat n) (net_rx_buffer d)"
  let ?m1 = "poke m a ?bs"
  note qi = q_at_index[OF assms(2)]
  have lb: "length (net_rx_buffer d) = net_buffer_len" using assms(1) by (simp add: net_inv_def)
  have body: "rx_body ?q s b = rx_body q s b" for s b unfolding rx_body_def avail_entry_last_avail ..
  have h: "unat h < unat (q_size q)" using assms(5) by simp
  have fields: "elem_addr m (desc_ptr q h) = Inr a" "elem_len m (desc_ptr q h) = Inr n"
    using assms(5) by (simp_all add: elem_fields_ok[OF assms(3) h])
  have all_ones: "min (- 1) n = n" by (simp add: min.absorb2)
  show ?thesis
  proof (cases "unat n \<le> net_buffer_len")
    case False
    then have "unat n \<noteq> 0" by linarith
    with False have "buf_read (net_rx_buffer d) 0 (unat n) = Inl (UB HostBuffer)"
      using lb by (simp add: buf_read_def)
    then have "rx_body q (- 1) (net_rx_buffer d) (desc_ptr q h, 0, m) = Inl (UB HostBuffer)"
      by (simp add: rx_body_def fields all_ones)
    then have "iterate (rx_body q (- 1) (net_rx_buffer d)) (desc_ptr q h, 0, m) = Some (Inl (UB HostBuffer))"
      by (rule iterate_fault)
    then show ?thesis
      using False qi assms(2,7,8)
      by (simp add: run_rx_def update_rx_def queue_next_pending[OF assms(3,4)] poll_fd_in_def NET_POLLIN_def
          tap_read_def rx_deliver_def body)
  next
    case True
    have len: "length ?bs = unat n" using True lb by simp
    have buf: "buffer_ok m q a (length ?bs)" using assms(6) len by simp
    have ok1: "queue_ok ?m1 q" "buffer_ok ?m1 q a (unat n)" using assms(3,6) by simp_all
    have idx: "peek_used_idx ?m1 q = peek_used_idx m q" by (rule buffer_frame_used_idx[OF assms(3) buf])
    have rd: "buf_read (net_rx_buffer d) 0 (unat n) = Inr ?bs" using True lb by (simp add: buf_read_def)
    have st: "store_bytes m a ?bs = Inr ?m1" using buf by (simp add: buffer_ok_def)
    have fl: "elem_flags ?m1 (desc_ptr q h) = Inr (desc_flags_at m q h)"
      using elem_fields_ok(3)[OF ok1(1) h] buffer_frame_desc(3)[OF assms(3) buf h] by simp
    have "rx_body q (- 1) (net_rx_buffer d) (desc_ptr q h, 0, m) = Inr (Inr (n, ?m1))"
      using assms(5) by (simp add: rx_body_def fields all_ones rd st fl Let_def)
    then have loop: "iterate (rx_body q (- 1) (net_rx_buffer d)) (desc_ptr q h, 0, m) = Some (Inr (n, ?m1))"
      by (rule iterate_done)
    have used: "add_used ?m1 ?q (ucast h) l = Inr (peek_used_idx m q + 1, completion ?m1 q (ucast h) l)" for l
      using add_used_ok[of ?m1 ?q "ucast h" l] ok1(1) idx by simp
    have "peek (completion ?m1 q (ucast h) n) a (unat n) = ?bs"
      using completion_buffer[OF ok1] peek_poke_same[of ?bs m a] len unat_less32[of n] by simp
    then show ?thesis
      using True qi assms(2,7-9) completed_completion[OF ok1(1) idx, of h n]
      by (simp add: run_rx_def update_rx_def queue_next_pending[OF assms(3,4)] poll_fd_in_def NET_POLLIN_def
          tap_read_def rx_deliver_def body loop used set_level_True)
  qed
qed

section \<open>Witnesses\<close>

definition net_demo_mem :: gmem where
  "net_demo_mem = \<lparr>gm_size = 0x20000, gm_byte = (\<lambda>_. 0)
     (1 := 4, 8 := 2, 12 := 1, 14 := 1, 17 := 5, 24 := 1, 66 := 1, 1024 := 5, 1025 := 6, 1280 := 7)\<rparr>"

definition net_demo_tap :: tap where
  "net_demo_tap = \<lparr>tap_polls = [(1, NET_POLLIN)], tap_reads = [Some [8, 9, 10]], tap_writes = [3],
                   tap_sent = []\<rparr>"

definition net_demo :: "tap \<Rightarrow> net" where
  "net_demo t = (net_new t (replicate 12 0))\<lparr>vd_queues := [demo_queue, demo_queue, queue_new]\<rparr>"

lemma net_demo_facts:
  "net_inv (net_demo t)" "q_at rx_queue (net_demo t) = Inr demo_queue"
  "q_at tx_queue (net_demo t) = Inr demo_queue" "net_tap (net_demo t) = t"
  by (simp_all add: net_inv_def net_demo_def net_new_def vdev.extend_def vdev_new_def default_mac_def
      q_at_def arr_get_def rx_queue_def tx_queue_def)

lemma net_demo_mem_facts:
  "queue_ok net_demo_mem demo_queue" "pending net_demo_mem demo_queue = [0]"
  "frame_at net_demo_mem demo_queue 0 [(1024, 2), (1280, 1)]"
  "bufs_ok net_demo_mem demo_queue [(1024, 2), (1280, 1)]"
  "bufs_apart [(1024, 2), (1280, 1)]"
  "gather net_demo_mem [(1024, 2), (1280, 1)] = [5, 6, 7]"
  by (simp_all add: queue_ok_def demo_queue_def net_demo_mem_def in_mem_def disjoint_ranges_def
      QUEUE_SIZE_MAX_def pending_def avail_entry_def peek_avail_idx_def peek_le_def peek_def upt_rec
      desc_addr_at_def desc_len_at_def desc_next_at_def desc_flags_at_def VRING_DESC_F_NEXT_def buffer_ok_def)

theorem net_transmits_frame_witness:
  "\<exists>m' d' irq'. run_tx net_demo_mem (net_demo net_demo_tap, interrupt_new 14 True) = Some (Inr (m', d', irq')) \<and>
     tap_sent (net_tap d') = [[5, 6, 7]]"
  using net_transmits_frame[OF net_demo_facts(1,3) net_demo_mem_facts(1-3) bufs_ok_in[OF net_demo_mem_facts(4)],
      of net_demo_tap 3 "[]" "interrupt_new 14 True"]
  by (auto simp: net_demo_facts net_demo_tap_def net_demo_mem_facts(6)[simplified] net_buffer_len_def)

theorem net_delivers_frame_witness:
  "\<exists>m' d' irq'. run_rx net_demo_mem (net_demo net_demo_tap, interrupt_new 14 True) = Some (Inr (m', d', irq')) \<and>
     gather m' [(1024, 2), (1280, 1)] = [8, 9, 10]"
  using net_delivers_frame[OF net_demo_facts(1,2) net_demo_mem_facts(1-5),
      of net_demo_tap "[]" "[8, 9, 10]" "[]" "interrupt_new 14 True"]
  by (auto simp: net_demo_facts net_demo_tap_def net_buffer_len_def Let_def)

definition net_big_mem :: gmem where
  "net_big_mem = \<lparr>gm_size = 0x20000, gm_byte = (\<lambda>_. 0)(1 := 16, 8 := 0x1B, 10 := 1, 66 := 1)\<rparr>"

lemma net_big_mem_facts:
  "queue_ok net_big_mem demo_queue" "pending net_big_mem demo_queue = [0]"
  "frame_at net_big_mem demo_queue 0 [(4096, 65563)]"
  "bufs_in net_big_mem [(4096, 65563)]" "buffer_ok net_big_mem demo_queue 4096 65563"
  by (simp_all add: queue_ok_def demo_queue_def net_big_mem_def in_mem_def disjoint_ranges_def
      QUEUE_SIZE_MAX_def pending_def avail_entry_def peek_avail_idx_def peek_le_def peek_def upt_rec
      desc_addr_at_def desc_len_at_def desc_next_at_def desc_flags_at_def VRING_DESC_F_NEXT_def buffer_ok_def)

theorem net_transmit_overflow_witness:
  "\<forall>irq. run_tx net_big_mem (net_demo net_demo_tap, irq) = Some (Inl (UB HostBuffer))"
  using net_transmit_overflow[OF net_demo_facts(1,3) net_big_mem_facts(1-4)]
  by (simp add: net_buffer_len_def)

theorem net_read_error_delivers_stale_bytes_witness:
  "run_rx net_big_mem (net_demo (net_demo_tap\<lparr>tap_reads := [None]\<rparr>), interrupt_new 14 True) =
     Some (Inl (UB HostBuffer))"
  using net_read_error_delivers_stale_bytes[OF net_demo_facts(1,2) net_big_mem_facts(1-3),
      of "net_demo_tap\<lparr>tap_reads := [None]\<rparr>" "[]" "[]" "interrupt_new 14 True"]
    net_big_mem_facts(5)
  by (simp add: net_buffer_len_def net_demo_facts net_demo_tap_def)

end
