(* ===== verification/Gdt.thy ===== *)
theory Gdt
  imports Prelude
begin

text \<open>
  \<^verbatim>\<open>src/kvm/gdt.h\<close>: segment descriptors. \<open>entry\<close> packs flags, base and limit into the
  scattered fields of a descriptor, the \<open>get_\<close> functions unpack it, \<open>segment\<close> builds the
  \<^verbatim>\<open>kvm_segment\<close> register image, \<open>table\<close> is the table the boot code uses. The masks and
  shifts are those of the source, on 64-bit words.
\<close>

section \<open>Descriptors\<close>

definition entry :: "u16 \<Rightarrow> u32 \<Rightarrow> u32 \<Rightarrow> u64" where
  "entry flags base limit =
     push_bit (56 - 24) (ucast base AND 0xff000000) OR
     push_bit 40 (ucast flags AND 0x0000f0ff) OR
     push_bit (48 - 16) (ucast limit AND 0x000f0000) OR
     push_bit 16 (ucast base AND 0x00ffffff) OR
     (ucast limit AND 0x0000ffff)"

definition get_base :: "u64 \<Rightarrow> u64" where
  "get_base e = drop_bit 32 (e AND 0xFF00000000000000) OR
                drop_bit 16 (e AND 0x000000FF00000000) OR
                drop_bit 16 (e AND 0x00000000FFFF0000)"

definition get_limit :: "u64 \<Rightarrow> u32" where
  "get_limit e = ucast (drop_bit 32 (e AND 0x000F000000000000) OR (e AND 0x000000000000FFFF))"

definition get_g :: "u64 \<Rightarrow> u8" where "get_g e = ucast (drop_bit 55 (e AND 0x0080000000000000))"
definition get_db :: "u64 \<Rightarrow> u8" where "get_db e = ucast (drop_bit 54 (e AND 0x0040000000000000))"
definition get_l :: "u64 \<Rightarrow> u8" where "get_l e = ucast (drop_bit 53 (e AND 0x0020000000000000))"
definition get_avl :: "u64 \<Rightarrow> u8" where "get_avl e = ucast (drop_bit 52 (e AND 0x0010000000000000))"
definition get_p :: "u64 \<Rightarrow> u8" where "get_p e = ucast (drop_bit 47 (e AND 0x0000800000000000))"
definition get_dpl :: "u64 \<Rightarrow> u8" where "get_dpl e = ucast (drop_bit 45 (e AND 0x0000600000000000))"
definition get_s :: "u64 \<Rightarrow> u8" where "get_s e = ucast (drop_bit 44 (e AND 0x0000100000000000))"
definition get_type :: "u64 \<Rightarrow> u8" where "get_type e = ucast (drop_bit 40 (e AND 0x00000F0000000000))"

record kvm_segment =
  seg_base :: u64
  seg_limit :: u32
  seg_selector :: u16
  seg_type :: u8
  seg_present :: u8
  seg_dpl :: u8
  seg_db :: u8
  seg_s :: u8
  seg_l :: u8
  seg_g :: u8
  seg_avl :: u8
  seg_unusable :: u8
  seg_padding :: u8

definition segment :: "u8 \<Rightarrow> u64 \<Rightarrow> kvm_segment" where
  "segment index e =
     \<lparr>seg_base = get_base e, seg_limit = get_limit e, seg_selector = ucast index * 8,
      seg_type = get_type e, seg_present = get_p e, seg_dpl = get_dpl e, seg_db = get_db e,
      seg_s = get_s e, seg_l = get_l e, seg_g = get_g e, seg_avl = get_avl e,
      seg_unusable = (if get_p e = 0 then 1 else 0), seg_padding = 0\<rparr>"

definition NULL_ENTRY :: nat where "NULL_ENTRY = 0"
definition CODE_ENTRY :: nat where "CODE_ENTRY = 1"
definition DATA_ENTRY :: nat where "DATA_ENTRY = 2"
definition TSS_ENTRY :: nat where "TSS_ENTRY = 3"

definition table :: "u64 list" where
  "table = [entry 0 0 0, entry 0xa09b 0 0xfffff, entry 0xc093 0 0xfffff, entry 0x808b 0 0xfffff]"

section \<open>Bits of the masks\<close>

lemma bit_field_mask:
  "bit (push_bit k (mask n) :: u64) i \<longleftrightarrow> k \<le> i \<and> i < k + n \<and> i < 64"
  by (auto simp: bit_simps)

lemma gdt_masks:
  "(0xff000000 :: u64) = push_bit 24 (mask 8)" "(0x000f0000 :: u64) = push_bit 16 (mask 4)"
  "(0x00ffffff :: u64) = push_bit 0 (mask 24)" "(0x0000ffff :: u64) = push_bit 0 (mask 16)"
  "(0xFF00000000000000 :: u64) = push_bit 56 (mask 8)" "(0x000000FF00000000 :: u64) = push_bit 32 (mask 8)"
  "(0x00000000FFFF0000 :: u64) = push_bit 16 (mask 16)" "(0x000F000000000000 :: u64) = push_bit 48 (mask 4)"
  "(0x0080000000000000 :: u64) = push_bit 55 (mask 1)" "(0x0040000000000000 :: u64) = push_bit 54 (mask 1)"
  "(0x0020000000000000 :: u64) = push_bit 53 (mask 1)" "(0x0010000000000000 :: u64) = push_bit 52 (mask 1)"
  "(0x0000800000000000 :: u64) = push_bit 47 (mask 1)" "(0x0000600000000000 :: u64) = push_bit 45 (mask 2)"
  "(0x0000100000000000 :: u64) = push_bit 44 (mask 1)" "(0x00000F0000000000 :: u64) = push_bit 40 (mask 4)"
  "(0x0000f0ff :: u64) = push_bit 12 (mask 4) OR mask 8"
  by (simp_all add: mask_eq_exp_minus_1)

text \<open>Every bit of a descriptor, from the fields it packs.\<close>

lemma bit_packed:
  assumes "k + j + n \<le> 64"
  shows "bit (push_bit k (ucast (x :: 'a::len word) AND push_bit j (mask n)) :: u64) i \<longleftrightarrow>
    k + j \<le> i \<and> i < k + j + n \<and> bit x (i - k)"
proof (cases "k \<le> i \<and> i < 64")
  case True
  then have "bit (push_bit k (ucast x AND push_bit j (mask n)) :: u64) i \<longleftrightarrow>
      bit x (i - k) \<and> j \<le> i - k \<and> i - k < j + n"
    by (auto simp: bit_simps)
  with True show ?thesis by auto
next
  case False
  then show ?thesis using assms by (auto simp: bit_simps)
qed

lemma bit_packed_flags:
  "bit (push_bit 40 (ucast (flags :: u16) AND (push_bit 12 (mask 4) OR mask 8)) :: u64) i \<longleftrightarrow>
     (40 \<le> i \<and> i < 48 \<or> 52 \<le> i \<and> i < 56) \<and> bit flags (i - 40)"
proof -
  have "push_bit 40 (ucast flags AND (push_bit 12 (mask 4) OR mask 8)) =
      push_bit 40 (ucast flags AND push_bit 12 (mask 4)) OR
      (push_bit 40 (ucast flags AND push_bit 0 (mask 8)) :: u64)"
    by (simp add: bit.conj_disj_distrib push_bit_or)
  then show ?thesis by (simp only: bit_or_iff bit_packed) auto
qed

lemma bit_entry:
  "bit (entry flags base limit) i \<longleftrightarrow>
     (if i < 16 then bit limit i
      else if i < 40 then bit base (i - 16)
      else if i < 48 then bit flags (i - 40)
      else if i < 52 then bit limit (i - 32)
      else if i < 56 then bit flags (i - 40)
      else i < 64 \<and> bit base (i - 32))"
proof -
  have low: "bit (ucast limit AND push_bit 0 (mask 16) :: u64) i \<longleftrightarrow> i < 16 \<and> bit limit i"
    using bit_packed[of 0 0 16 limit i] by auto
  note fields = bit_packed[of "56 - 24" 24 8 base i] bit_packed[of "48 - 16" 16 4 limit i]
    bit_packed[of 16 0 24 base i]
  have p: "(56 - 24) + 24 + 8 \<le> (64 :: nat)" "(48 - 16) + 16 + 4 \<le> (64 :: nat)" "16 + 0 + 24 \<le> (64 :: nat)"
    by simp_all
  show ?thesis
    unfolding entry_def gdt_masks bit_or_iff bit_packed_flags low fields(1)[OF p(1)] fields(2)[OF p(2)]
      fields(3)[OF p(3)]
    by auto
qed

section \<open>Properties\<close>

text \<open>The one- and two-bit fields: bits of the flags argument.\<close>

lemma get_field:
  assumes "k + n \<le> 64" "n \<le> 8"
  shows "bit (ucast (drop_bit k (e AND push_bit k (mask n))) :: u8) i \<longleftrightarrow> i < n \<and> bit (e :: u64) (k + i)"
  using assms by (auto simp: bit_simps bit_field_mask)

lemma flag_field:
  assumes "(40 \<le> k \<and> k + n \<le> 48) \<or> (52 \<le> k \<and> k + n \<le> 56)"
  shows "(ucast (drop_bit k (entry flags base limit AND push_bit k (mask n))) :: u8) =
    ucast (drop_bit (k - 40) flags) AND mask n"
proof (rule bit_word_eqI)
  fix i assume "i < LENGTH(8)"
  then show "bit (ucast (drop_bit k (entry flags base limit AND push_bit k (mask n))) :: u8) i =
      bit (ucast (drop_bit (k - 40) flags) AND mask n :: u8) i"
    using assms by (subst get_field) (auto simp: bit_entry bit_simps)
qed

text \<open>C25: Packing a segment descriptor loses nothing the hardware keeps: the accessors return the
  base, the low 20 bits of the limit, and each flag that was packed.\<close>

theorem gdt_entry_roundtrip:
  "get_base (entry flags base limit) = ucast base \<and>
   get_limit (entry flags base limit) = limit AND 0xfffff \<and>
   get_type (entry flags base limit) = ucast flags AND 0xf \<and>
   get_s (entry flags base limit) = ucast (drop_bit 4 flags) AND 1 \<and>
   get_dpl (entry flags base limit) = ucast (drop_bit 5 flags) AND 3 \<and>
   get_p (entry flags base limit) = ucast (drop_bit 7 flags) AND 1 \<and>
   get_avl (entry flags base limit) = ucast (drop_bit 12 flags) AND 1 \<and>
   get_l (entry flags base limit) = ucast (drop_bit 13 flags) AND 1 \<and>
   get_db (entry flags base limit) = ucast (drop_bit 14 flags) AND 1 \<and>
   get_g (entry flags base limit) = ucast (drop_bit 15 flags) AND 1"
proof (intro conjI)
  show "get_base (entry flags base limit) = ucast base"
    unfolding get_base_def gdt_masks
    by (rule bit_word_eqI) (auto simp: bit_simps bit_field_mask bit_entry dest: bit_imp_le_length)
  have m: "(0xfffff :: u32) = mask 20" by (simp add: mask_eq_exp_minus_1)
  show "get_limit (entry flags base limit) = limit AND 0xfffff"
    unfolding get_limit_def gdt_masks m
    by (rule bit_word_eqI) (auto simp: bit_simps bit_field_mask bit_entry)
  have small: "(0xf :: u8) = mask 4" "(3 :: u8) = mask 2" "(1 :: u8) = mask 1"
    by (simp_all add: mask_eq_exp_minus_1)
  show "get_type (entry flags base limit) = ucast flags AND 0xf"
    unfolding get_type_def gdt_masks small using flag_field[of 40 4] by simp
  show "get_s (entry flags base limit) = ucast (drop_bit 4 flags) AND 1"
    unfolding get_s_def gdt_masks small using flag_field[of 44 1] by simp
  show "get_dpl (entry flags base limit) = ucast (drop_bit 5 flags) AND 3"
    unfolding get_dpl_def gdt_masks small using flag_field[of 45 2] by simp
  show "get_p (entry flags base limit) = ucast (drop_bit 7 flags) AND 1"
    unfolding get_p_def gdt_masks small using flag_field[of 47 1] by simp
  show "get_avl (entry flags base limit) = ucast (drop_bit 12 flags) AND 1"
    unfolding get_avl_def gdt_masks small using flag_field[of 52 1] by simp
  show "get_l (entry flags base limit) = ucast (drop_bit 13 flags) AND 1"
    unfolding get_l_def gdt_masks small using flag_field[of 53 1] by simp
  show "get_db (entry flags base limit) = ucast (drop_bit 14 flags) AND 1"
    unfolding get_db_def gdt_masks small using flag_field[of 54 1] by simp
  show "get_g (entry flags base limit) = ucast (drop_bit 15 flags) AND 1"
    unfolding get_g_def gdt_masks small using flag_field[of 55 1] by simp
qed

text \<open>The segments the boot code loads: flat, present, ring 0; 64-bit code; a busy 64-bit TSS.\<close>

lemma boot_segments:
  "segment 1 (table ! CODE_ENTRY) = \<lparr>seg_base = 0, seg_limit = 0xfffff, seg_selector = 8, seg_type = 11,
     seg_present = 1, seg_dpl = 0, seg_db = 0, seg_s = 1, seg_l = 1, seg_g = 1, seg_avl = 0,
     seg_unusable = 0, seg_padding = 0\<rparr>"
  "segment 2 (table ! DATA_ENTRY) = \<lparr>seg_base = 0, seg_limit = 0xfffff, seg_selector = 16, seg_type = 3,
     seg_present = 1, seg_dpl = 0, seg_db = 1, seg_s = 1, seg_l = 0, seg_g = 1, seg_avl = 0,
     seg_unusable = 0, seg_padding = 0\<rparr>"
  "segment 3 (table ! TSS_ENTRY) = \<lparr>seg_base = 0, seg_limit = 0xfffff, seg_selector = 24, seg_type = 11,
     seg_present = 1, seg_dpl = 0, seg_db = 0, seg_s = 0, seg_l = 0, seg_g = 1, seg_avl = 0,
     seg_unusable = 0, seg_padding = 0\<rparr>"
  by (simp_all add: segment_def table_def entry_def CODE_ENTRY_def DATA_ENTRY_def TSS_ENTRY_def
      get_base_def get_limit_def get_type_def get_p_def get_dpl_def get_db_def get_s_def get_l_def
      get_g_def get_avl_def)

lemma table_values:
  "table = [0, 0x00af9b000000ffff, 0x00cf93000000ffff, 0x008f8b000000ffff]"
  by (simp add: table_def entry_def)

end
