(* ===== verification/Long_Mode.thy ===== *)
theory Long_Mode
  imports Guest_Memory Gdt
begin

text \<open>
  \<^verbatim>\<open>src/kvm/regs.h\<close> with the constants of \<^verbatim>\<open>layout.h\<close> and \<^verbatim>\<open>def.h\<close>: the page tables, the
  descriptor tables and the register images with which the boot processor enters the kernel in
  64-bit mode. Reading and setting registers are KVM calls; their results are arguments.
  \<open>page_walk\<close> is the four-level walk of the processor for 2 MB pages, the specification the
  tables are built for.
\<close>

section \<open>Constants\<close>

definition ZERO_PAGE_START :: u64 where "ZERO_PAGE_START = 0x7000"
definition BOOT_STACK_START :: u64 where "BOOT_STACK_START = 0x8000"
definition BOOT_STACK_POINTER :: u64 where "BOOT_STACK_POINTER = 0x8ff0"
definition BOOT_GDT_OFFSET :: u64 where "BOOT_GDT_OFFSET = 0x500"
definition BOOT_IDT_OFFSET :: u64 where "BOOT_IDT_OFFSET = 0x520"
definition PML4_START :: u64 where "PML4_START = 0x9000"
definition PDPTE_START :: u64 where "PDPTE_START = 0xa000"
definition PDE_START :: u64 where "PDE_START = 0xb000"
definition CMDLINE_START :: u64 where "CMDLINE_START = 0x20000"
definition CMDLINE_MAX_SIZE :: u64 where "CMDLINE_MAX_SIZE = 0x10000"
definition EBDA_START :: u64 where "EBDA_START = 0x9fc00"
definition HIMEM_START :: u64 where "HIMEM_START = 0x100000"

lemmas layout_defs = ZERO_PAGE_START_def BOOT_STACK_START_def BOOT_STACK_POINTER_def
  BOOT_GDT_OFFSET_def BOOT_IDT_OFFSET_def PML4_START_def PDPTE_START_def PDE_START_def
  CMDLINE_START_def CMDLINE_MAX_SIZE_def EBDA_START_def HIMEM_START_def

definition CR0_PE :: u64 where "CR0_PE = 1"
definition CR0_MP :: u64 where "CR0_MP = push_bit 1 1"
definition CR0_ET :: u64 where "CR0_ET = push_bit 4 1"
definition CR0_NE :: u64 where "CR0_NE = push_bit 5 1"
definition CR0_WP :: u64 where "CR0_WP = push_bit 16 1"
definition CR0_AM :: u64 where "CR0_AM = push_bit 18 1"
definition CR0_PG :: u64 where "CR0_PG = push_bit 31 1"
definition CR4_PAE :: u64 where "CR4_PAE = push_bit 5 1"
definition CR4_OSFXSR :: u64 where "CR4_OSFXSR = push_bit 9 1"
definition CR4_OSXMMEXCPT :: u64 where "CR4_OSXMMEXCPT = push_bit 10 1"
definition EFER_SCE :: u64 where "EFER_SCE = 1"
definition EFER_LME :: u64 where "EFER_LME = push_bit 8 1"
definition EFER_LMA :: u64 where "EFER_LMA = push_bit 10 1"
definition PDE64_PRESENT :: u64 where "PDE64_PRESENT = 0x1"
definition PDE64_RW :: u64 where "PDE64_RW = 0x2"
definition PDE64_PS :: u64 where "PDE64_PS = 0x80"

lemmas cpu_bits = CR0_PE_def CR0_MP_def CR0_ET_def CR0_NE_def CR0_WP_def CR0_AM_def CR0_PG_def
  CR4_PAE_def CR4_OSFXSR_def CR4_OSXMMEXCPT_def EFER_SCE_def EFER_LME_def EFER_LMA_def

section \<open>Register images\<close>

record kvm_dtable =
  dt_base :: u64
  dt_limit :: u16

record kvm_sregs =
  sr_cs :: kvm_segment
  sr_ds :: kvm_segment
  sr_es :: kvm_segment
  sr_fs :: kvm_segment
  sr_gs :: kvm_segment
  sr_ss :: kvm_segment
  sr_tr :: kvm_segment
  sr_ldt :: kvm_segment
  sr_gdt :: kvm_dtable
  sr_idt :: kvm_dtable
  sr_cr0 :: u64
  sr_cr2 :: u64
  sr_cr3 :: u64
  sr_cr4 :: u64
  sr_cr8 :: u64
  sr_efer :: u64
  sr_apic_base :: u64
  sr_interrupt_bitmap :: "u64 list"

record kvm_regs =
  kr_rax :: u64  kr_rbx :: u64  kr_rcx :: u64  kr_rdx :: u64
  kr_rsi :: u64  kr_rdi :: u64  kr_rsp :: u64  kr_rbp :: u64
  kr_r8 :: u64  kr_r9 :: u64  kr_r10 :: u64  kr_r11 :: u64
  kr_r12 :: u64  kr_r13 :: u64  kr_r14 :: u64  kr_r15 :: u64
  kr_rip :: u64  kr_rflags :: u64

record kvm_fpu =
  fpu_fcw :: u16
  fpu_mxcsr :: u32

definition setup_regs :: "u64 \<Rightarrow> u64 \<Rightarrow> u64 \<Rightarrow> kvm_regs" where
  "setup_regs rip rsp rsi =
     \<lparr>kr_rax = 0, kr_rbx = 0, kr_rcx = 0, kr_rdx = 0, kr_rsi = rsi, kr_rdi = 0, kr_rsp = rsp,
      kr_rbp = 0, kr_r8 = 0, kr_r9 = 0, kr_r10 = 0, kr_r11 = 0, kr_r12 = 0, kr_r13 = 0, kr_r14 = 0,
      kr_r15 = 0, kr_rip = rip, kr_rflags = 0x2\<rparr>"

definition setup_fpu :: kvm_fpu where
  "setup_fpu = \<lparr>fpu_fcw = 0x37f, fpu_mxcsr = 0x1f80\<rparr>"

section \<open>Entering long mode\<close>

definition pde_entry :: "nat \<Rightarrow> u64" where
  "pde_entry i = (push_bit 21 (of_nat i) + PDE64_PRESENT) OR PDE64_RW OR PDE64_PS"

text \<open>\<^verbatim>\<open>gdt_table.size()\<close> counts entries: the \<^verbatim>\<open>memcpy\<close> moves four bytes.\<close>

definition setup_tables :: "gmem \<Rightarrow> gmem res" where
  "setup_tables m =
     and_then (store64 m PML4_START (PDPTE_START OR PDE64_PRESENT OR PDE64_RW)) (\<lambda>m.
     and_then (store64 m PDPTE_START (PDE_START OR PDE64_PRESENT OR PDE64_RW)) (\<lambda>m.
     and_then (store_words PDE_START (map pde_entry [0..<512]) m) (\<lambda>m.
     and_then (store_bytes m BOOT_GDT_OFFSET (take (length table) (word_bytes table))) (\<lambda>m.
     store_bytes m BOOT_IDT_OFFSET (replicate 8 0)))))"

definition setup_sregs :: "'a kvm_sregs_scheme \<Rightarrow> 'a kvm_sregs_scheme" where
  "setup_sregs s = (let code_seg = segment 1 (table ! 1); data_seg = segment 2 (table ! 2);
                        tss_seg = segment 3 (table ! 3) in
     s\<lparr>sr_cr0 := CR0_PE OR CR0_MP OR CR0_ET OR CR0_NE OR CR0_WP OR CR0_AM OR CR0_PG,
       sr_cr3 := PML4_START, sr_cr4 := CR4_PAE OR CR4_OSFXSR OR CR4_OSXMMEXCPT,
       sr_efer := EFER_LME OR EFER_LMA OR EFER_SCE,
       sr_gdt := \<lparr>dt_base = BOOT_GDT_OFFSET, dt_limit = of_nat (length table * 8 - 1)\<rparr>,
       sr_idt := \<lparr>dt_base = BOOT_IDT_OFFSET, dt_limit = 8 - 1\<rparr>,
       sr_cs := code_seg, sr_ds := data_seg, sr_es := data_seg, sr_fs := data_seg,
       sr_gs := data_seg, sr_ss := data_seg, sr_tr := tss_seg\<rparr>)"

definition setup_long_mode ::
  "'a kvm_sregs_scheme res \<Rightarrow> ('a kvm_sregs_scheme \<Rightarrow> unit res) \<Rightarrow> gmem \<Rightarrow>
   ('a kvm_sregs_scheme \<times> gmem) res" where
  "setup_long_mode get_sregs set_sregs m =
     and_then get_sregs (\<lambda>s.
     and_then (setup_tables m) (\<lambda>m.
     and_then (set_sregs (setup_sregs s)) (\<lambda>_. Inr (setup_sregs s, m))))"

section \<open>The walk of the processor\<close>

definition frame_mask :: u64 where "frame_mask = 0x000FFFFFFFFFF000"

definition page_walk :: "gmem \<Rightarrow> u64 \<Rightarrow> u64 \<Rightarrow> u64 option" where
  "page_walk m cr3 va =
     (let pml4e = peek64 m ((cr3 AND frame_mask) + 8 * (drop_bit 39 va AND 511)) in
      if pml4e AND 1 = 0 \<or> pml4e AND 2 = 0 then None else
      let pdpte = peek64 m ((pml4e AND frame_mask) + 8 * (drop_bit 30 va AND 511)) in
      if pdpte AND 1 = 0 \<or> pdpte AND 2 = 0 \<or> pdpte AND 0x80 \<noteq> 0 then None else
      let pde = peek64 m ((pdpte AND frame_mask) + 8 * (drop_bit 21 va AND 511)) in
      if pde AND 1 = 0 \<or> pde AND 2 = 0 \<or> pde AND 0x80 = 0 then None
      else Some ((pde AND 0x000FFFFFFFE00000) OR (va AND 0x1FFFFF)))"

section \<open>The memory the boot code leaves\<close>

definition tables_written :: "gmem \<Rightarrow> gmem" where
  "tables_written m =
     poke (poke (poke (poke (poke m
       PML4_START (le_bytes 8 (0xa003 :: u64)))
       PDPTE_START (le_bytes 8 (0xb003 :: u64)))
       PDE_START (word_bytes (map pde_entry [0..<512])))
       BOOT_GDT_OFFSET (replicate 4 0))
       BOOT_IDT_OFFSET (replicate 8 0)"

lemma le_bytes_zero: "le_bytes n 0 = replicate n 0"
  by (simp add: le_bytes_def map_replicate_const)

lemma setup_tables_ok:
  assumes "0xc000 \<le> gm_size m"
  shows "setup_tables m = Inr (tables_written m)"
proof -
  have sz: "49152 \<le> unat (gm_size m)" using assms by (simp add: word_le_nat_alt)
  have gdt: "take (length table) (word_bytes table) = replicate 4 (0 :: u8)"
    by (simp add: table_values le_bytes_zero) (simp add: numeral_eq_Suc)
  show ?thesis
    unfolding setup_tables_def gdt
    using sz by (simp add: store_words_poke in_mem_def layout_defs PDE64_PRESENT_def PDE64_RW_def
        tables_written_def)
qed

lemma peek_tables_other:
  assumes "unat a + n \<le> 0x500 \<or> 0x504 \<le> unat a \<and> unat a + n \<le> 0x520 \<or>
    0x528 \<le> unat a \<and> unat a + n \<le> 0x9000 \<or> 0xc000 \<le> unat a \<and> unat a + n \<le> 2 ^ 64"
  shows "peek (tables_written m) a n = peek m a n"
  unfolding tables_written_def layout_defs using assms
  by (elim disjE conjE) (simp_all add: peek_poke_disjoint disjoint_ranges_def)

lemma table_entries:
  "peek64 (tables_written m) 0x9000 = 0xa003"
  "peek64 (tables_written m) 0xa000 = 0xb003"
  "i < 512 \<Longrightarrow> peek64 (tables_written m) (0xb000 + of_nat (8 * i)) = pde_entry i"
proof -
  show "peek64 (tables_written m) 0x9000 = 0xa003" "peek64 (tables_written m) 0xa000 = 0xb003"
    by (simp_all add: tables_written_def layout_defs peek_le_poke_disjoint disjoint_ranges_def)
  assume i: "i < 512"
  have u: "unat (0xb000 + of_nat (8 * i) :: u64) = 0xb000 + 8 * i"
    using i unat_add_of_nat[of "0xb000 :: u64" "8 * i"] by simp
  show "peek64 (tables_written m) (0xb000 + of_nat (8 * i)) = pde_entry i"
    unfolding tables_written_def layout_defs
    using i peek_words[of "0xb000" "map pde_entry [0..<512]" i]
    by (simp add: peek_le_poke_disjoint disjoint_ranges_def u del: of_nat_mult)
qed

section \<open>Properties\<close>

lemma pde_entry_or: "i < 512 \<Longrightarrow> pde_entry i = push_bit 21 (of_nat i) OR 0x83"
proof -
  have "push_bit 21 (of_nat i) AND 1 = (0 :: u64)"
    by (simp add: flag_1 bit_simps)
  then have "push_bit 21 (of_nat i) + 1 = (push_bit 21 (of_nat i) OR 1 :: u64)"
    by (rule disjunctive_add_eq_or)
  then show ?thesis
    by (simp add: pde_entry_def PDE64_PRESENT_def PDE64_RW_def PDE64_PS_def or.assoc)
qed

text \<open>Page tables that map the first gigabyte onto itself.\<close>

definition identity_tables :: "gmem \<Rightarrow> bool" where
  "identity_tables m \<longleftrightarrow>
     peek64 m 0x9000 = 0xa003 \<and> peek64 m 0xa000 = 0xb003 \<and>
     (\<forall>i < 512. peek64 m (0xb000 + of_nat (8 * i)) = pde_entry i)"

lemma identity_tables_written: "identity_tables (tables_written m)"
  unfolding identity_tables_def using table_entries by blast

lemma page_walk_identity:
  assumes "identity_tables m" "va < 0x40000000"
  shows "page_walk m PML4_START va = Some va"
proof -
  let ?i = "unat (drop_bit 21 va)"
  have small: "unat va < 2 ^ 30" using assms(2) by (simp add: word_less_nat_alt)
  have va: "k < 30" if "bit va k" for k
  proof (rule ccontr)
    assume "\<not> k < 30"
    then have "(2 :: nat) ^ 30 \<le> 2 ^ k" by (intro power_increasing) simp_all
    with small have "unat va div 2 ^ k = 0" by simp
    moreover have "bit (unat va) k" using that by (simp add: bit_unsigned_iff)
    ultimately show False by (simp add: bit_iff_odd)
  qed
  have i: "?i < 512"
    unfolding unat_drop_bit_eq drop_bit_eq_div[where 'a = nat] using small by simp
  have m511: "(511 :: u64) = mask 9" by (simp add: mask_eq_exp_minus_1)
  have idx: "drop_bit 39 va AND 511 = 0" "drop_bit 30 va AND 511 = 0" "drop_bit 21 va AND 511 = drop_bit 21 va"
    unfolding m511 by (rule bit_word_eqI; auto simp: bit_simps dest: va)+
  have tabs: "peek64 m 0x9000 = 0xa003" "peek64 m 0xa000 = 0xb003"
    "peek64 m (0xb000 + of_nat (8 * ?i)) = pde_entry ?i"
    using assms(1) i unfolding identity_tables_def by blast+
  have pd: "peek64 m (0xb000 + 8 * drop_bit 21 va) = push_bit 21 (drop_bit 21 va) OR 0x83"
    using tabs(3) by (simp add: pde_entry_or[OF i])
  have flags: "(push_bit 21 (drop_bit 21 va) OR 0x83) AND 1 \<noteq> 0"
    "(push_bit 21 (drop_bit 21 va) OR 0x83) AND 2 \<noteq> 0"
    "(push_bit 21 (drop_bit 21 va) OR 0x83) AND 0x80 \<noteq> 0"
    by (simp_all add: bit.conj_disj_distrib2)
  have masks: "(0x000FFFFFFFE00000 :: u64) = push_bit 21 (mask 31)" "(0x1FFFFF :: u64) = mask 21"
    by (simp_all add: mask_eq_exp_minus_1)
  have "((push_bit 21 (drop_bit 21 va) OR 0x83) AND 0x000FFFFFFFE00000) =
      push_bit 21 (drop_bit 21 va) AND 0x000FFFFFFFE00000"
    by (simp add: bit.conj_disj_distrib2)
  moreover have "(push_bit 21 (drop_bit 21 va) AND 0x000FFFFFFFE00000) OR (va AND 0x1FFFFF) = va"
    unfolding masks by (rule bit_word_eqI) (auto simp: bit_simps dest: va)
  ultimately have pa: "((push_bit 21 (drop_bit 21 va) OR 0x83) AND 0x000FFFFFFFE00000) OR (va AND 0x1FFFFF) = va"
    by simp
  show ?thesis
    unfolding page_walk_def idx
    using flags pa by (simp add: layout_defs frame_mask_def tabs(1,2) pd)
qed

text \<open>The page tables the boot code writes map the first gigabyte onto itself, every page present
  and writable: walking them from the CR3 value it loads translates each address below 1 GB to
  itself, whatever was in memory before.\<close>

theorem boot_tables_identity_map:
  assumes "0xc000 \<le> gm_size m" "va < 0x40000000"
  shows "\<exists>m'. setup_tables m = Inr m' \<and> page_walk m' PML4_START va = Some va"
  using setup_tables_ok[OF assms(1)] page_walk_identity[OF identity_tables_written assms(2)] by blast

definition empty_mem :: "u64 \<Rightarrow> gmem" where
  "empty_mem n = \<lparr>gm_size = n, gm_byte = (\<lambda>_. 0)\<rparr>"

theorem boot_tables_identity_map_witness:
  "\<exists>m'. setup_tables (empty_mem 0x100000) = Inr m' \<and> page_walk m' PML4_START 0x1234567 = Some 0x1234567"
  using boot_tables_identity_map[of "empty_mem 0x100000" "0x1234567"] by (simp add: empty_mem_def)

text \<open>The register image that goes with the tables puts the processor into 64-bit mode: protection,
  paging, PAE and long mode are on and active, CR3 points to the tables, the code segment is a
  present 64-bit ring-0 segment, and the descriptor table limits cover exactly the tables.\<close>

theorem boot_registers_long_mode:
  assumes "0xc000 \<le> gm_size m"
  shows "\<exists>m'. setup_long_mode (Inr s) (\<lambda>_. Inr ()) m = Inr (setup_sregs s, m') \<and>
    bit (sr_cr0 (setup_sregs s)) 0 \<and> bit (sr_cr0 (setup_sregs s)) 31 \<and> bit (sr_cr4 (setup_sregs s)) 5 \<and>
    bit (sr_efer (setup_sregs s)) 8 \<and> bit (sr_efer (setup_sregs s)) 10 \<and>
    sr_cr3 (setup_sregs s) = PML4_START \<and> seg_l (sr_cs (setup_sregs s)) = 1 \<and>
    seg_db (sr_cs (setup_sregs s)) = 0 \<and> seg_present (sr_cs (setup_sregs s)) = 1 \<and>
    seg_dpl (sr_cs (setup_sregs s)) = 0 \<and> seg_type (sr_tr (setup_sregs s)) = 11 \<and>
    dt_limit (sr_gdt (setup_sregs s)) = 31"
proof -
  have len: "length table = 4" by (simp add: table_def)
  note segs = boot_segments[unfolded CODE_ENTRY_def DATA_ENTRY_def TSS_ENTRY_def One_nat_def]
  have "setup_sregs s = s\<lparr>sr_cr0 := 0x80050033, sr_cr3 := PML4_START, sr_cr4 := 0x620, sr_efer := 0x501,
       sr_gdt := \<lparr>dt_base = BOOT_GDT_OFFSET, dt_limit = 31\<rparr>,
       sr_idt := \<lparr>dt_base = BOOT_IDT_OFFSET, dt_limit = 7\<rparr>,
       sr_cs := segment 1 (table ! 1), sr_ds := segment 2 (table ! 2), sr_es := segment 2 (table ! 2),
       sr_fs := segment 2 (table ! 2), sr_gs := segment 2 (table ! 2), sr_ss := segment 2 (table ! 2),
       sr_tr := segment 3 (table ! 3)\<rparr>"
    by (simp add: setup_sregs_def Let_def len cpu_bits)
  then show ?thesis
    by (simp add: setup_long_mode_def setup_tables_ok[OF assms] segs bit_simps bit_numeral_rec)
qed

theorem boot_registers_long_mode_witness:
  "\<forall>s :: kvm_sregs. \<exists>m'. setup_long_mode (Inr s) (\<lambda>_. Inr ()) (empty_mem 0x100000) = Inr (setup_sregs s, m') \<and>
     bit (sr_cr0 (setup_sregs s)) 31"
proof
  fix s :: kvm_sregs
  show "\<exists>m'. setup_long_mode (Inr s) (\<lambda>_. Inr ()) (empty_mem 0x100000) = Inr (setup_sregs s, m') \<and>
     bit (sr_cr0 (setup_sregs s)) 31"
    using boot_registers_long_mode[of "empty_mem 0x100000" s] by (auto simp: empty_mem_def)
qed

text \<open>The descriptor table itself does not reach the guest: \<^verbatim>\<open>memcpy\<close> is given the number of entries,
  four bytes of the null descriptor are copied, and the code, data and TSS descriptors at
  \<open>BOOT_GDT_OFFSET\<close> hold whatever memory held before.\<close>

theorem boot_gdt_not_copied:
  assumes "0xc000 \<le> gm_size m" "1 \<le> i" "i < 4"
  shows "\<exists>m'. setup_tables m = Inr m' \<and>
    peek64 m' (BOOT_GDT_OFFSET + of_nat (8 * i)) = peek64 m (BOOT_GDT_OFFSET + of_nat (8 * i))"
proof -
  have i: "i = 1 \<or> i = 2 \<or> i = 3" using assms(2,3) by linarith
  then have "peek (tables_written m) (BOOT_GDT_OFFSET + of_nat (8 * i)) 8 = peek m (BOOT_GDT_OFFSET + of_nat (8 * i)) 8"
    by (intro peek_tables_other) (auto simp: layout_defs)
  then show ?thesis using setup_tables_ok[OF assms(1)] by (simp add: peek_le_def)
qed

theorem boot_gdt_not_copied_witness:
  "\<exists>m'. setup_tables (empty_mem 0x100000) = Inr m' \<and>
     peek64 m' (BOOT_GDT_OFFSET + of_nat (8 * CODE_ENTRY)) = 0 \<and> table ! CODE_ENTRY \<noteq> 0"
  using boot_gdt_not_copied[of "empty_mem 0x100000" CODE_ENTRY]
  by (auto simp: empty_mem_def CODE_ENTRY_def table_values peek_le_def peek_def upt_rec)

end
