(* ===== verification/Mptable.thy ===== *)
theory Mptable
  imports Guest_Memory
begin

text \<open>
  \<^verbatim>\<open>src/kvm/mptable.h\<close> over the structures of \<^verbatim>\<open>include/mpspec_def.h\<close> and the constants of
  \<^verbatim>\<open>include/apic.h\<close> and \<^verbatim>\<open>include/apicdef.h\<close>: the MP configuration table that tells the guest
  its processors, bus, IO-APIC and local interrupts. Each structure is a record with the function
  that lays out its bytes; the table is built in a buffer and copied below the EBDA.
\<close>

section \<open>Constants\<close>

definition APIC_DEFAULT_PHYS_BASE :: u32 where "APIC_DEFAULT_PHYS_BASE = 0xfee00000"
definition IO_APIC_DEFAULT_PHYS_BASE :: u32 where "IO_APIC_DEFAULT_PHYS_BASE = 0xfec00000"
definition APIC_BASE_ADDR_STEP :: u32 where "APIC_BASE_ADDR_STEP = 0x00400000"
definition IOAPIC_BASE_ADDR_STEP :: u32 where "IOAPIC_BASE_ADDR_STEP = 0x00100000"
definition KVM_APIC_VERSION :: u8 where "KVM_APIC_VERSION = 0x14"

definition APIC_ADDR :: "u32 \<Rightarrow> u32" where
  "APIC_ADDR apic = APIC_DEFAULT_PHYS_BASE + apic * APIC_BASE_ADDR_STEP"

definition IOAPIC_ADDR :: "u32 \<Rightarrow> u32" where
  "IOAPIC_ADDR ioapic = IO_APIC_DEFAULT_PHYS_BASE + ioapic * IOAPIC_BASE_ADDR_STEP"

definition MP_PROCESSOR :: u8 where "MP_PROCESSOR = 0"
definition MP_BUS :: u8 where "MP_BUS = 1"
definition MP_IOAPIC :: u8 where "MP_IOAPIC = 2"
definition MP_INTSRC :: u8 where "MP_INTSRC = 3"
definition MP_LINTSRC :: u8 where "MP_LINTSRC = 4"
definition CPU_ENABLED :: u32 where "CPU_ENABLED = 1"
definition CPU_BOOTPROCESSOR :: u32 where "CPU_BOOTPROCESSOR = 2"
definition MPC_APIC_USABLE :: u8 where "MPC_APIC_USABLE = 0x01"
definition MP_IRQPOL_DEFAULT :: u16 where "MP_IRQPOL_DEFAULT = 0x0"

datatype mp_irq_source_types = mp_INT | mp_NMI | mp_SMI | mp_ExtINT

fun irq_source_code :: "mp_irq_source_types \<Rightarrow> u8" where
  "irq_source_code mp_INT = 0"
| "irq_source_code mp_NMI = 1"
| "irq_source_code mp_SMI = 2"
| "irq_source_code mp_ExtINT = 3"

definition chars :: "string \<Rightarrow> u8 list" where "chars s = map of_char s"

definition MPC_SIGNATURE :: "u8 list" where "MPC_SIGNATURE = chars ''PCMP''"
definition MPTABLE_SIG_FLOATING :: "u8 list" where "MPTABLE_SIG_FLOATING = chars ''_MP_''"
definition MPTABLE_OEM :: "u8 list" where "MPTABLE_OEM = chars ''KVMCPU00''"
definition MPTABLE_PRODUCTID :: "u8 list" where "MPTABLE_PRODUCTID = chars ''0.1         ''"
definition MPTABLE_PCIBUSTYPE :: "u8 list" where "MPTABLE_PCIBUSTYPE = chars ''PCI   ''"

definition MPTABLE_START :: u64 where "MPTABLE_START = 0x9fc00"
definition MPTABLE_MAX_SIZE :: nat where "MPTABLE_MAX_SIZE = 32 * 2 ^ 20"

section \<open>Structures\<close>

record mpf_intel =
  mpf_signature :: "u8 list"
  mpf_physptr :: u32
  mpf_length :: u8
  mpf_specification :: u8
  mpf_checksum_field :: u8

definition mpf_bytes :: "mpf_intel \<Rightarrow> u8 list" where
  "mpf_bytes f = mpf_signature f @ le_bytes 4 (mpf_physptr f) @
     [mpf_length f, mpf_specification f, mpf_checksum_field f, 0, 0, 0, 0, 0]"

record mpc_table =
  mpc_signature :: "u8 list"
  mpc_length :: u16
  mpc_spec :: u8
  mpc_checksum :: u8
  mpc_oem :: "u8 list"
  mpc_productid :: "u8 list"
  mpc_oemcount :: u16
  mpc_lapic :: u32

definition mpc_bytes :: "mpc_table \<Rightarrow> u8 list" where
  "mpc_bytes t = mpc_signature t @ le_bytes 2 (mpc_length t) @ [mpc_spec t, mpc_checksum t] @
     mpc_oem t @ mpc_productid t @ le_bytes 4 (0 :: u32) @ le_bytes 2 (0 :: u16) @
     le_bytes 2 (mpc_oemcount t) @ le_bytes 4 (mpc_lapic t) @ le_bytes 4 (0 :: u32)"

definition mpc_cpu :: "u8 \<Rightarrow> u8 \<Rightarrow> u8 \<Rightarrow> u8 \<Rightarrow> u32 \<Rightarrow> u32 \<Rightarrow> u8 list" where
  "mpc_cpu type apicid apicver cpuflag cpufeature featureflag =
     [type, apicid, apicver, cpuflag] @ le_bytes 4 cpufeature @ le_bytes 4 featureflag @
     le_bytes 4 (0 :: u32) @ le_bytes 4 (0 :: u32)"

definition mpc_bus :: "u8 \<Rightarrow> u8 \<Rightarrow> u8 list \<Rightarrow> u8 list" where
  "mpc_bus type busid bustype = [type, busid] @ bustype"

definition mpc_ioapic :: "u8 \<Rightarrow> u8 \<Rightarrow> u8 \<Rightarrow> u8 \<Rightarrow> u32 \<Rightarrow> u8 list" where
  "mpc_ioapic type apicid apicver flags apicaddr = [type, apicid, apicver, flags] @ le_bytes 4 apicaddr"

definition mpc_intsrc :: "u8 \<Rightarrow> mp_irq_source_types \<Rightarrow> u16 \<Rightarrow> u8 \<Rightarrow> u8 \<Rightarrow> u8 \<Rightarrow> u8 \<Rightarrow> u8 list" where
  "mpc_intsrc type irqtype irqflag srcbus srcbusirq dstapic dstirq =
     [type, irq_source_code irqtype] @ le_bytes 2 irqflag @ [srcbus, srcbusirq, dstapic, dstirq]"

section \<open>Building the table\<close>

definition gen_cpu_flag :: "u32 \<Rightarrow> u32 \<Rightarrow> u32" where
  "gen_cpu_flag cpu ncpu =
     (if cpu < ncpu then CPU_ENABLED else 0) OR (if cpu = 0 then CPU_BOOTPROCESSOR else 0)"

definition mpf_checksum :: "u8 list \<Rightarrow> u32" where
  "mpf_checksum mp = sum_list (map ucast mp) AND 0xFF"

text \<open>The loop over the processors; the counter is a \<^verbatim>\<open>__u32\<close> and stored into a byte.\<close>

definition cpu_entry :: "u32 \<Rightarrow> u32 \<Rightarrow> u8 list" where
  "cpu_entry ncpus i =
     mpc_cpu MP_PROCESSOR (ucast i) KVM_APIC_VERSION (ucast (gen_cpu_flag i ncpus)) 0x600 0x201"

text \<open>\<open>irqtype\<close> of the first local interrupt is assigned twice; the second assignment stays.\<close>

definition mp_entries :: "u32 \<Rightarrow> u8 list list" where
  "mp_entries ncpus =
     map (\<lambda>i. cpu_entry ncpus (of_nat i)) [0..<unat ncpus] @
     [mpc_bus MP_BUS 0 MPTABLE_PCIBUSTYPE,
      mpc_ioapic MP_IOAPIC (ucast (ncpus + 1)) KVM_APIC_VERSION MPC_APIC_USABLE (IOAPIC_ADDR 0),
      mpc_intsrc MP_LINTSRC mp_INT MP_IRQPOL_DEFAULT 0 0 0 0,
      mpc_intsrc MP_LINTSRC mp_NMI MP_IRQPOL_DEFAULT 0 0 0 1]"

definition mp_floating :: mpf_intel where
  "mp_floating =
     (let f = \<lparr>mpf_signature = MPTABLE_SIG_FLOATING, mpf_physptr = ucast MPTABLE_START,
               mpf_length = 1, mpf_specification = 4, mpf_checksum_field = 0\<rparr>
      in f\<lparr>mpf_checksum_field := ucast (- mpf_checksum (mpf_bytes f))\<rparr>)"

definition mp_header :: "u32 \<Rightarrow> u8 list \<Rightarrow> mpc_table" where
  "mp_header ncpus entries =
     (let t = \<lparr>mpc_signature = MPC_SIGNATURE, mpc_length = of_nat (44 + length entries), mpc_spec = 4,
               mpc_checksum = 0, mpc_oem = MPTABLE_OEM, mpc_productid = MPTABLE_PRODUCTID,
               mpc_oemcount = ucast (ncpus + 4), mpc_lapic = APIC_ADDR 0\<rparr>
      in t\<lparr>mpc_checksum := ucast (- mpf_checksum (take (unat (mpc_length t)) (mpc_bytes t @ entries)))\<rparr>)"

text \<open>\<^verbatim>\<open>__ALIGN_KERNEL(x, 16)\<close>\<close>

definition align16 :: "nat \<Rightarrow> nat" where
  "align16 n = (n + 15) div 16 * 16"

definition mptable_image :: "u32 \<Rightarrow> u8 list" where
  "mptable_image ncpus =
     (let entries = concat (mp_entries ncpus);
          body = mpc_bytes (mp_header ncpus entries) @ entries
      in body @ replicate (align16 (length body) - length body) 0 @ mpf_bytes mp_floating)"

definition setup_mptable :: "u32 \<Rightarrow> gmem \<Rightarrow> gmem res" where
  "setup_mptable ncpus m =
     and_then (guard_ub (length (mptable_image ncpus) \<le> MPTABLE_MAX_SIZE) HostBuffer) (\<lambda>_.
     store_bytes m MPTABLE_START (mptable_image ncpus))"

section \<open>Facts\<close>

lemma length_structures [simp]:
  "length (cpu_entry ncpus i) = 20" "length (mpf_bytes mp_floating) = 16"
  "length (mpc_bytes (mp_header ncpus es)) = 44"
  by (simp_all add: cpu_entry_def mpc_cpu_def mpf_bytes_def mp_floating_def mpc_bytes_def mp_header_def
      Let_def MPTABLE_SIG_FLOATING_def MPC_SIGNATURE_def MPTABLE_OEM_def MPTABLE_PRODUCTID_def chars_def)

lemma length_cpu_entries:
  "length (concat (map (\<lambda>i. cpu_entry ncpus (of_nat i)) [0..<n])) = 20 * n"
  by (induction n) auto

lemma length_entries: "length (concat (mp_entries ncpus)) = 20 * unat ncpus + 32"
  by (simp add: mp_entries_def length_cpu_entries mpc_bus_def mpc_ioapic_def mpc_intsrc_def
      MPTABLE_PCIBUSTYPE_def chars_def del: concat_append)
     (simp add: length_cpu_entries)

text \<open>Checksums are sums modulo 256: the cut to a byte commutes with the sum.\<close>

lemma ucast_add_u8: "(ucast (x + y :: u32) :: u8) = ucast x + ucast y"
proof (rule bit_word_eqI)
  fix n
  assume "n < LENGTH(8)"
  have "take_bit 8 (uint (x + y)) = take_bit 8 (uint x + uint y)"
    by (simp add: uint_word_ariths take_bit_eq_mod mod_mod_cancel)
  also have "\<dots> = uint (ucast x + ucast y :: u8)"
    by (simp add: uint_word_ariths unsigned_ucast_eq take_bit_eq_mod mod_simps unsigned_take_bit_eq)
  finally have "uint (ucast (x + y) :: u8) = uint (ucast x + ucast y :: u8)"
    by (simp add: unsigned_ucast_eq unsigned_take_bit_eq)
  then have "(ucast (x + y) :: u8) = ucast x + ucast y" by (simp only: word_uint_eq_iff)
  then show "bit (ucast (x + y) :: u8) n = bit (ucast x + ucast y :: u8) n" by simp
qed

lemma ucast_minus_u8: "(ucast (- x :: u32) :: u8) = - ucast x"
  using ucast_add_u8[of x "- x"] by (simp add: eq_neg_iff_add_eq_0 add.commute)

lemma ucast_and_255: "(ucast (x AND 0xFF :: u32) :: u8) = ucast x"
proof -
  have "(0xFF :: u32) = mask 8" by (simp add: mask_eq_exp_minus_1)
  then have "ucast (x AND 0xFF) = (ucast (x AND mask 8) :: u8)" by simp
  also have "\<dots> = ucast x" by (rule bit_word_eqI) (auto simp: bit_simps)
  finally show ?thesis .
qed

lemma ucast_up_u8: "(ucast (ucast (a :: u8) :: u32) :: u8) = a"
  by (rule bit_word_eqI) (simp add: bit_simps)

lemma ucast_checksum: "(ucast (- mpf_checksum bs) :: u8) = - sum_list bs"
proof -
  have "(ucast (sum_list (map ucast bs) :: u32) :: u8) = sum_list bs"
    by (induction bs) (simp_all add: ucast_add_u8 ucast_up_u8)
  then show ?thesis by (simp add: mpf_checksum_def ucast_minus_u8 ucast_and_255)
qed

lemma mp_floating_sum: "sum_list (mpf_bytes mp_floating) = 0"
proof -
  have set: "sum_list (mpf_bytes (f\<lparr>mpf_checksum_field := c\<rparr>)) = sum_list (mpf_bytes f) + c"
    if "mpf_checksum_field f = 0" for f :: mpf_intel and c
    using that by (simp add: mpf_bytes_def)
  show ?thesis
    unfolding mp_floating_def Let_def by (subst set) (simp_all only: mpf_intel.select_convs ucast_checksum, simp)
qed

lemma mp_header_sum:
  assumes "44 + length es < 65536"
  shows "sum_list (mpc_bytes (mp_header ncpus es) @ es) = 0"
proof -
  have set: "sum_list (mpc_bytes (t\<lparr>mpc_checksum := c\<rparr>) @ es) = sum_list (mpc_bytes t @ es) + c"
    if "mpc_checksum t = 0" for t :: mpc_table and c
    using that by (simp add: mpc_bytes_def)
  have len: "unat (of_nat (44 + length es) :: u16) = 44 + length es"
    using assms by (intro unat_of_nat_small) simp
  define t where "t = \<lparr>mpc_signature = MPC_SIGNATURE, mpc_length = of_nat (44 + length es), mpc_spec = 4,
               mpc_checksum = 0, mpc_oem = MPTABLE_OEM, mpc_productid = MPTABLE_PRODUCTID,
               mpc_oemcount = ucast (ncpus + 4), mpc_lapic = APIC_ADDR 0\<rparr>"
  have h: "mp_header ncpus es =
      t\<lparr>mpc_checksum := ucast (- mpf_checksum (take (unat (mpc_length t)) (mpc_bytes t @ es)))\<rparr>"
    by (simp only: mp_header_def Let_def t_def)
  have l: "length (mpc_bytes t) = 44"
    by (simp add: t_def mpc_bytes_def MPC_SIGNATURE_def MPTABLE_OEM_def MPTABLE_PRODUCTID_def chars_def)
  have mt: "mpc_length t = of_nat (44 + length es)" by (simp only: t_def mpc_table.select_convs)
  have "take (unat (mpc_length t)) (mpc_bytes t @ es) = mpc_bytes t @ es"
    unfolding mt len using l by simp
  moreover have "mpc_checksum t = 0" by (simp only: t_def mpc_table.select_convs)
  ultimately show ?thesis
    unfolding h by (subst set) (simp_all only: ucast_checksum, simp)
qed

lemma mp_header_fields:
  "mpc_length (mp_header ncpus es) = of_nat (44 + length es)"
  "mpc_oemcount (mp_header ncpus es) = ucast (ncpus + 4)"
  by (simp_all add: mp_header_def Let_def)

section \<open>Properties\<close>

definition table_length :: "nat \<Rightarrow> nat" where "table_length n = 76 + 20 * n"

lemma align16_bounds: "n \<le> align16 n" "align16 n < n + 16" "align16 n mod 16 = 0"
  unfolding align16_def by presburger+

lemma align16_mono: "n \<le> k \<Longrightarrow> align16 n \<le> align16 k"
  unfolding align16_def by (simp add: div_le_mono)

lemma image_parts:
  "mptable_image ncpus =
     (mpc_bytes (mp_header ncpus (concat (mp_entries ncpus))) @ concat (mp_entries ncpus)) @
     replicate (align16 (table_length (unat ncpus)) - table_length (unat ncpus)) 0 @ mpf_bytes mp_floating"
  by (simp add: mptable_image_def Let_def length_entries table_length_def add.commute)

lemma length_image: "length (mptable_image ncpus) = align16 (table_length (unat ncpus)) + 16"
  using align16_bounds(1)[of "table_length (unat ncpus)"]
  by (simp add: image_parts length_entries table_length_def)

lemma take_image:
  "take (table_length (unat ncpus)) (mptable_image ncpus) =
     mpc_bytes (mp_header ncpus (concat (mp_entries ncpus))) @ concat (mp_entries ncpus)"
  by (simp add: image_parts length_entries table_length_def)

lemma drop_image:
  "drop (align16 (table_length (unat ncpus))) (mptable_image ncpus) = mpf_bytes mp_floating"
  using align16_bounds(1)[of "table_length (unat ncpus)"]
  by (simp add: image_parts length_entries table_length_def)

lemma drop_cpu_entries:
  "i < n \<Longrightarrow> take 20 (drop (20 * i) (concat (map (\<lambda>i. cpu_entry ncpus (of_nat i)) [0..<n]) @ xs)) =
     cpu_entry ncpus (of_nat i)"
proof (induction n arbitrary: xs)
  case (Suc n)
  show ?case
  proof (cases "i = n")
    case True
    then show ?thesis by (simp add: length_cpu_entries)
  next
    case False
    with Suc.prems Suc.IH[of "cpu_entry ncpus (of_nat n) @ xs"] show ?thesis by simp
  qed
qed simp

lemma take_drop_entries:
  assumes "i < unat ncpus"
  shows "take 20 (drop (44 + 20 * i) (mptable_image ncpus)) = cpu_entry ncpus (of_nat i)"
proof -
  obtain xs where "mptable_image ncpus = mpc_bytes (mp_header ncpus (concat (mp_entries ncpus))) @
      (concat (map (\<lambda>i. cpu_entry ncpus (of_nat i)) [0..<unat ncpus]) @ xs)"
    by (simp add: image_parts mp_entries_def)
  then have "drop (44 + 20 * i) (mptable_image ncpus) =
      drop (20 * i) (concat (map (\<lambda>i. cpu_entry ncpus (of_nat i)) [0..<unat ncpus]) @ xs)"
    by (simp only: drop_append length_structures) simp
  then show ?thesis using drop_cpu_entries[OF assms, of ncpus xs] by simp
qed

lemma floating_fields:
  "take 4 (mpf_bytes mp_floating) = MPTABLE_SIG_FLOATING"
  "take 4 (drop 4 (mpf_bytes mp_floating)) = le_bytes 4 (ucast MPTABLE_START :: u32)"
  by (simp_all add: mpf_bytes_def mp_floating_def MPTABLE_SIG_FLOATING_def chars_def Let_def)

lemma cpu_entry_head:
  assumes "i < unat ncpus" "unat ncpus \<le> 255"
  shows "take 4 (cpu_entry ncpus (of_nat i)) =
     [MP_PROCESSOR, of_nat i, KVM_APIC_VERSION, if i = 0 then 3 else 1]"
proof -
  have "unat (of_nat i :: u32) = i" using assms by (intro unat_of_nat_small) simp
  then have "(of_nat i :: u32) < ncpus" "(of_nat i :: u32) = 0 \<longleftrightarrow> i = 0"
    using assms by (simp_all add: word_less_nat_alt flip: unat_0_iff)
  moreover have "(ucast (of_nat i :: u32) :: u8) = of_nat i"
    using assms by (simp add: unsigned_of_nat take_bit_nat_eq_self)
  ultimately show ?thesis
    by (simp add: cpu_entry_def mpc_cpu_def gen_cpu_flag_def CPU_ENABLED_def CPU_BOOTPROCESSOR_def)
qed

lemma header_fields:
  "take 2 (drop 4 (mptable_image ncpus)) = le_bytes 2 (of_nat (table_length (unat ncpus)) :: u16)"
  "take 2 (drop 34 (mptable_image ncpus)) = le_bytes 2 (ucast (ncpus + 4) :: u16)"
  by (simp_all add: image_parts mpc_bytes_def mp_header_def Let_def MPC_SIGNATURE_def MPTABLE_OEM_def
      MPTABLE_PRODUCTID_def chars_def length_entries table_length_def add.commute numeral_eq_Suc)

text \<open>A well-formed table for \<open>n\<close> processors in guest memory.\<close>

definition mp_table_at :: "nat \<Rightarrow> gmem \<Rightarrow> bool" where
  "mp_table_at n m \<longleftrightarrow>
    sum_list (peek m MPTABLE_START (table_length n)) = 0 \<and>
    peek16 m (MPTABLE_START + of_nat 4) = of_nat (table_length n) \<and>
    peek16 m (MPTABLE_START + of_nat 34) = of_nat (n + 4) \<and>
    (\<forall>i < n. peek m (MPTABLE_START + of_nat (44 + 20 * i)) 4 =
       [MP_PROCESSOR, of_nat i, KVM_APIC_VERSION, if i = 0 then 3 else 1]) \<and>
    (let fp = align16 (table_length n) in
       fp mod 16 = 0 \<and> fp + 16 \<le> 1024 \<and> peek m (MPTABLE_START + of_nat fp) 4 = MPTABLE_SIG_FLOATING \<and>
       peek32 m (MPTABLE_START + of_nat (fp + 4)) = ucast MPTABLE_START \<and>
       sum_list (peek m (MPTABLE_START + of_nat fp) 16) = 0)"

lemma setup_mptable_ok:
  assumes "unat ncpus \<le> 46" "0xa0000 \<le> gm_size m"
  shows "setup_mptable ncpus m = Inr (poke m MPTABLE_START (mptable_image ncpus)) \<and>
    mp_table_at (unat ncpus) (poke m MPTABLE_START (mptable_image ncpus)) \<and>
    length (mptable_image ncpus) \<le> 1024"
proof -
  let ?n = "unat ncpus"
  let ?L = "table_length ?n"
  let ?I = "mptable_image ncpus"
  let ?m = "poke m MPTABLE_START ?I"
  have L: "?L \<le> 996" using assms(1) by (simp add: table_length_def)
  have fp: "align16 ?L + 16 \<le> 1024" using align16_mono[OF L] by (simp add: align16_def)
  have size: "0xa0000 \<le> unat (gm_size m)" using assms(2) by (simp add: word_le_nat_alt)
  then have ok: "setup_mptable ncpus m = Inr ?m"
    using fp by (simp add: setup_mptable_def MPTABLE_MAX_SIZE_def MPTABLE_START_def length_image in_mem_def)
  have sub: "peek ?m (MPTABLE_START + of_nat j) k = take k (drop j ?I)"
    if "j + k \<le> align16 ?L + 16" "0 < k" for j k
    using that fp by (intro peek_poke_sub) (simp_all add: length_image MPTABLE_START_def)
  have "44 + length (concat (mp_entries ncpus)) < 65536"
    using assms(1) by (simp add: length_entries)
  note hsum = mp_header_sum[OF this, of ncpus]
  have lens: "44 \<le> ?L" "?L \<le> align16 ?L" using align16_bounds(1)[of ?L] by (simp_all add: table_length_def)
  have "peek ?m MPTABLE_START ?L = take ?L ?I" using sub[of 0 ?L] lens by simp
  then have sum: "sum_list (peek ?m MPTABLE_START ?L) = 0" using hsum by (simp only: take_image)
  have cpus: "peek ?m (MPTABLE_START + of_nat (44 + 20 * i)) 4 =
       [MP_PROCESSOR, of_nat i, KVM_APIC_VERSION, if i = 0 then 3 else 1]" if i: "i < ?n" for i
  proof -
    have "44 + 20 * i + 4 \<le> ?L" using i by (simp add: table_length_def)
    then have "peek ?m (MPTABLE_START + of_nat (44 + 20 * i)) 4 = take 4 (take 20 (drop (44 + 20 * i) ?I))"
      using lens sub[of "44 + 20 * i" 4] by simp
    also have "\<dots> = take 4 (cpu_entry ncpus (of_nat i))" by (simp only: take_drop_entries[OF i])
    finally show ?thesis using i assms(1) cpu_entry_head[of i ncpus] by simp
  qed
  have "4 + 2 \<le> align16 ?L + 16" "34 + 2 \<le> align16 ?L + 16" using lens by linarith+
  then have fields: "peek16 ?m (MPTABLE_START + of_nat 4) = of_nat ?L"
    "peek16 ?m (MPTABLE_START + of_nat 34) = ucast (ncpus + 4)"
    unfolding peek_le_def by (simp_all only: sub header_fields zero_less_numeral) simp_all
  have "unat (ncpus + 4) = ?n + 4" using assms(1) unat_add_of_nat[of ncpus 4] by simp
  then have n4: "(ucast (ncpus + 4) :: u16) = of_nat (?n + 4)"
    by (metis of_nat_unat)
  have "drop (align16 ?L + 4) ?I = drop 4 (mpf_bytes mp_floating)"
    unfolding drop_image[of ncpus, symmetric] by (simp add: add.commute)
  then have home: "peek32 ?m (MPTABLE_START + of_nat (align16 ?L + 4)) = ucast MPTABLE_START"
    unfolding peek_le_def by (subst sub) (simp_all only: floating_fields, simp_all)
  have float: "peek ?m (MPTABLE_START + of_nat (align16 ?L)) 4 = MPTABLE_SIG_FLOATING"
    "peek ?m (MPTABLE_START + of_nat (align16 ?L)) 16 = mpf_bytes mp_floating"
    by (simp_all add: sub drop_image floating_fields)
  show ?thesis
    unfolding Let_def mp_table_at_def
    using ok sum cpus fields n4 home float fp align16_bounds(3)[of ?L] mp_floating_sum
    by (simp add: length_image)
qed

text \<open>For as many processors as fit the first kilobyte above \<open>MPTABLE_START\<close>, where a kernel searches for
  it, the table is well formed: the bytes of the table and of the floating pointer add up to zero, the
  length field is the length of the table, the floating pointer stands on a 16-byte boundary behind it and
  points back to it, and every processor has its entry, the first one marked as the boot processor.\<close>

theorem mptable_well_formed:
  assumes "unat ncpus \<le> 46" "0xa0000 \<le> gm_size m"
  shows "\<exists>m'. setup_mptable ncpus m = Inr m' \<and>
    sum_list (peek m' MPTABLE_START (table_length (unat ncpus))) = 0 \<and>
    peek16 m' (MPTABLE_START + of_nat 4) = of_nat (table_length (unat ncpus)) \<and>
    peek16 m' (MPTABLE_START + of_nat 34) = of_nat (unat ncpus + 4) \<and>
    (\<forall>i < unat ncpus. peek m' (MPTABLE_START + of_nat (44 + 20 * i)) 4 =
       [MP_PROCESSOR, of_nat i, KVM_APIC_VERSION, if i = 0 then 3 else 1]) \<and>
    (let fp = align16 (table_length (unat ncpus)) in
       fp mod 16 = 0 \<and> fp + 16 \<le> 1024 \<and> peek m' (MPTABLE_START + of_nat fp) 4 = MPTABLE_SIG_FLOATING \<and>
       peek32 m' (MPTABLE_START + of_nat (fp + 4)) = ucast MPTABLE_START \<and>
       sum_list (peek m' (MPTABLE_START + of_nat fp) 16) = 0)"
  using setup_mptable_ok[OF assms] unfolding mp_table_at_def by blast

theorem mptable_well_formed_witness:
  "\<exists>m'. setup_mptable 2 \<lparr>gm_size = 0x100000, gm_byte = (\<lambda>_. 0)\<rparr> = Inr m' \<and>
     sum_list (peek m' MPTABLE_START 116) = 0 \<and> peek16 m' (MPTABLE_START + of_nat 34) = 6 \<and>
     peek m' (MPTABLE_START + of_nat 64) 4 = [0, 1, 0x14, 1] \<and>
     peek m' (MPTABLE_START + of_nat 128) 4 = MPTABLE_SIG_FLOATING"
proof -
  have l: "table_length (unat (2 :: u32)) = 116" "align16 116 = 128"
    by (simp_all add: table_length_def align16_def)
  from mptable_well_formed[of 2 "\<lparr>gm_size = 0x100000, gm_byte = (\<lambda>_. 0)\<rparr>"] obtain m' where
    "setup_mptable 2 \<lparr>gm_size = 0x100000, gm_byte = (\<lambda>_. 0)\<rparr> = Inr m'"
    "sum_list (peek m' MPTABLE_START 116) = 0" "peek16 m' (MPTABLE_START + of_nat 34) = of_nat (unat (2 :: u32) + 4)"
    "\<forall>i < unat (2 :: u32). peek m' (MPTABLE_START + of_nat (44 + 20 * i)) 4 =
       [MP_PROCESSOR, of_nat i, KVM_APIC_VERSION, if i = 0 then 3 else 1]"
    "peek m' (MPTABLE_START + of_nat 128) 4 = MPTABLE_SIG_FLOATING"
    unfolding l Let_def by auto
  moreover from this(4) have "peek m' (MPTABLE_START + of_nat 64) 4 = [0, 1, 0x14, 1]"
    by (auto dest: spec[of _ 1] simp: MP_PROCESSOR_def KVM_APIC_VERSION_def)
  ultimately show ?thesis by auto
qed

end
