(* ===== verification/Elf.thy ===== *)
theory Elf
  imports Host_File Guest_Memory
begin

text \<open>
  \<^verbatim>\<open>src/elf/elf.h\<close>: the kernel loader. The file is read through one \<^verbatim>\<open>ifstream\<close>
  (\<open>Host_File\<close>), the segments go straight into the guest mapping. Nothing the file says is
  checked against the size of the mapping, and the error code of a malformed segment is returned
  through the same value as the entry address. The layouts are those of \<^verbatim>\<open>elf.h\<close> of the C library.
\<close>

section \<open>Layouts\<close>

definition ELFMAG :: "u8 list" where "ELFMAG = [0x7f, 0x45, 0x4c, 0x46]"
definition PT_LOAD :: u32 where "PT_LOAD = 1"
definition EINVAL :: u64 where "EINVAL = 22"
definition ehdr_size :: nat where "ehdr_size = 64"
definition phdr_size :: nat where "phdr_size = 56"

record Elf64_Ehdr =
  e_ident :: "u8 list"
  e_entry :: u64
  e_phoff :: u64
  e_phentsize :: u16
  e_phnum :: u16

definition field :: "nat \<Rightarrow> nat \<Rightarrow> u8 list \<Rightarrow> 'a::len word" where
  "field off n bs = le_word (take n (drop off bs))"

definition parse_ehdr :: "u8 list \<Rightarrow> Elf64_Ehdr" where
  "parse_ehdr bs = \<lparr>e_ident = take 16 bs, e_entry = field 24 8 bs, e_phoff = field 32 8 bs,
     e_phentsize = field 54 2 bs, e_phnum = field 56 2 bs\<rparr>"

text \<open>One field of the \<open>i\<close>-th program header in the buffer the table was read into.\<close>

definition phdr_field :: "u8 list \<Rightarrow> nat \<Rightarrow> nat \<Rightarrow> nat \<Rightarrow> 'a::len word res" where
  "phdr_field buf i off n =
     and_then (buf_read buf (phdr_size * i + off) n) (\<lambda>bs. Inr (le_word bs))"

abbreviation phdr_type :: "u8 list \<Rightarrow> nat \<Rightarrow> u32 res" where "phdr_type buf i \<equiv> phdr_field buf i 0 4"
abbreviation phdr_offset :: "u8 list \<Rightarrow> nat \<Rightarrow> u64 res" where "phdr_offset buf i \<equiv> phdr_field buf i 8 8"
abbreviation phdr_paddr :: "u8 list \<Rightarrow> nat \<Rightarrow> u64 res" where "phdr_paddr buf i \<equiv> phdr_field buf i 24 8"
abbreviation phdr_filesz :: "u8 list \<Rightarrow> nat \<Rightarrow> u64 res" where "phdr_filesz buf i \<equiv> phdr_field buf i 32 8"
abbreviation phdr_memsz :: "u8 list \<Rightarrow> nat \<Rightarrow> u64 res" where "phdr_memsz buf i \<equiv> phdr_field buf i 40 8"

section \<open>Reading\<close>

text \<open>\<^verbatim>\<open>vector buf(n); file.read(buf.data(), n)\<close>: what a short read leaves out stays zero.\<close>

definition read_vector :: "nat \<Rightarrow> fstream \<Rightarrow> u8 list \<times> fstream" where
  "read_vector n f = (let (bs, f') = file_read n f in (bs @ replicate (n - length bs) 0, f'))"

text \<open>A count is a signed \<^verbatim>\<open>streamsize\<close>; a negative one reads nothing and fails.\<close>

definition read_count :: "u64 \<Rightarrow> fstream \<Rightarrow> u8 list \<times> fstream" where
  "read_count n f =
     (if sint n < 0 then ([], f\<lparr>fs_good := False\<rparr>) else file_read (unat n) f)"

section \<open>The loader\<close>

text \<open>\<open>Some e\<close> is an early return with \<open>e\<close>.\<close>

fun load_segments :: "u8 list \<Rightarrow> nat list \<Rightarrow> fstream \<Rightarrow> gmem \<Rightarrow> (u64 option \<times> gmem) res" where
  "load_segments buf [] f m = Inr (None, m)"
| "load_segments buf (i # is) f m =
     and_then (phdr_type buf i) (\<lambda>t.
     if t \<noteq> PT_LOAD then load_segments buf is f m else
     and_then (phdr_filesz buf i) (\<lambda>filesz.
     and_then (phdr_memsz buf i) (\<lambda>memsz.
     if filesz > memsz then Inr (Some (- EINVAL), m)
     else if filesz = 0 then Inr (Some (- EINVAL), m) else
     and_then (phdr_offset buf i) (\<lambda>off.
     and_then (phdr_paddr buf i) (\<lambda>paddr.
     let (bs, f) = read_count filesz (file_seek off f) in
     and_then (store_bytes m paddr bs) (\<lambda>m.
     load_segments buf is f m))))))"

definition elf_load :: "u8 list option \<Rightarrow> gmem \<Rightarrow> (u64 \<times> gmem) res" where
  "elf_load file m =
     (case file of None \<Rightarrow> Inl (Exn (RuntimeError ''could not open file''))
      | Some contents \<Rightarrow>
        let (ehdr_buf, f) = read_vector ehdr_size (file_open contents);
            header = parse_ehdr ehdr_buf;
            table_size = unat (e_phentsize header) * unat (e_phnum header) in
        if take 4 (e_ident header) \<noteq> ELFMAG then Inl (Exn (RuntimeError ''not an elf file'')) else
        and_then (guard_ub (table_size < 2 ^ 31) SignedOverflow) (\<lambda>_.
        let (phdr_buf, f) = read_vector table_size (file_seek (e_phoff header) f) in
        and_then (load_segments phdr_buf [0..<unat (e_phnum header)] f m) (\<lambda>(early, m).
        Inr (case early of None \<Rightarrow> e_entry header | Some e \<Rightarrow> e, m))))"

text \<open>\<^verbatim>\<open>binary_load\<close> of \<^verbatim>\<open>util.h\<close>, which nothing calls: the whole file at the pointer it is given.\<close>

definition binary_load :: "u8 list option \<Rightarrow> gmem \<Rightarrow> u64 \<Rightarrow> (int \<times> gmem) res" where
  "binary_load file m a =
     (case file of None \<Rightarrow> Inl (Exn (RuntimeError ''could not open file''))
      | Some contents \<Rightarrow> and_then (store_bytes m a contents) (\<lambda>m. Inr (0, m)))"

section \<open>What a well-formed file says\<close>

record Elf64_Phdr =
  p_type :: u32
  p_offset :: u64
  p_paddr :: u64
  p_filesz :: u64
  p_memsz :: u64

definition parse_phdr :: "u8 list \<Rightarrow> Elf64_Phdr" where
  "parse_phdr bs = \<lparr>p_type = field 0 4 bs, p_offset = field 8 8 bs, p_paddr = field 24 8 bs,
     p_filesz = field 32 8 bs, p_memsz = field 40 8 bs\<rparr>"

definition phdr_table :: "u8 list \<Rightarrow> nat \<Rightarrow> Elf64_Phdr list" where
  "phdr_table buf n = map (\<lambda>i. parse_phdr (drop (phdr_size * i) buf)) [0..<n]"

definition ehdr_of :: "u8 list \<Rightarrow> Elf64_Ehdr" where
  "ehdr_of file = parse_ehdr (take ehdr_size file)"

definition phdrs_of :: "u8 list \<Rightarrow> Elf64_Phdr list" where
  "phdrs_of file = phdr_table (drop (unat (e_phoff (ehdr_of file))) file) (unat (e_phnum (ehdr_of file)))"

definition loads :: "Elf64_Phdr list \<Rightarrow> Elf64_Phdr list" where
  "loads ps = [p\<leftarrow>ps. p_type p = PT_LOAD]"

definition ehdr_ok :: "u8 list \<Rightarrow> bool" where
  "ehdr_ok file \<longleftrightarrow>
     length file < 2 ^ 63 \<and> ehdr_size \<le> length file \<and> take 4 file = ELFMAG \<and>
     unat (e_phentsize (ehdr_of file)) = phdr_size \<and>
     unat (e_phoff (ehdr_of file)) + phdr_size * unat (e_phnum (ehdr_of file)) \<le> length file"

definition segment_ok :: "u8 list \<Rightarrow> gmem \<Rightarrow> Elf64_Phdr \<Rightarrow> bool" where
  "segment_ok file m p \<longleftrightarrow>
     p_filesz p \<noteq> 0 \<and> p_filesz p \<le> p_memsz p \<and>
     unat (p_offset p) + unat (p_filesz p) \<le> length file \<and> in_mem m (p_paddr p) (unat (p_filesz p))"

abbreviation segments_apart :: "Elf64_Phdr \<Rightarrow> Elf64_Phdr \<Rightarrow> bool" where
  "segments_apart p q \<equiv>
     disjoint_ranges (p_paddr p) (unat (p_filesz p)) (p_paddr q) (unat (p_filesz q))"

definition segment_bytes :: "u8 list \<Rightarrow> Elf64_Phdr \<Rightarrow> u8 list" where
  "segment_bytes file p = take (unat (p_filesz p)) (drop (unat (p_offset p)) file)"

section \<open>Facts\<close>

lemma phdr_field_in:
  assumes "phdr_size * i + phdr_size \<le> length buf" "off + n \<le> phdr_size" "0 < n"
  shows "phdr_field buf i off n = Inr (field off n (drop (phdr_size * i) buf))"
  using assms by (simp add: phdr_field_def field_def buf_read_def add.commute add.left_commute)

lemma phdr_fields:
  assumes "phdr_size * i + phdr_size \<le> length buf"
  shows "phdr_type buf i = Inr (p_type (parse_phdr (drop (phdr_size * i) buf)))"
    and "phdr_offset buf i = Inr (p_offset (parse_phdr (drop (phdr_size * i) buf)))"
    and "phdr_paddr buf i = Inr (p_paddr (parse_phdr (drop (phdr_size * i) buf)))"
    and "phdr_filesz buf i = Inr (p_filesz (parse_phdr (drop (phdr_size * i) buf)))"
    and "phdr_memsz buf i = Inr (p_memsz (parse_phdr (drop (phdr_size * i) buf)))"
  by (simp_all add: phdr_field_in[OF assms] phdr_size_def parse_phdr_def)

definition place :: "u8 list \<Rightarrow> Elf64_Phdr \<Rightarrow> gmem \<Rightarrow> gmem" where
  "place file p m = poke m (p_paddr p) (segment_bytes file p)"

lemma length_segment_bytes: "segment_ok file m p \<Longrightarrow> length (segment_bytes file p) = unat (p_filesz p)"
  by (auto simp: segment_ok_def segment_bytes_def min_def)

lemma segment_ok_place [simp]: "segment_ok file (place file q m) p = segment_ok file m p"
  by (simp add: segment_ok_def place_def)

lemma read_segment:
  assumes "segment_ok file m p" "length file < 2 ^ 63" "fs_good f" "fs_data f = file"
  obtains f' where "read_count (p_filesz p) (file_seek (p_offset p) f) = (segment_bytes file p, f')"
    "fs_good f'" "fs_data f' = file"
proof -
  have "unat (p_offset p) < 2 ^ 63" "unat (p_filesz p) < 2 ^ 63"
    using assms(1,2) by (auto simp: segment_ok_def)
  then have "0 \<le> sint (p_offset p)" "0 \<le> sint (p_filesz p)" by (simp_all add: sint_nonneg)
  then show thesis
    using assms that by (simp add: read_count_def file_seek_good file_read_in segment_ok_def segment_bytes_def)
qed

text \<open>Segments that are in order are placed one after the other; the rest of the table is then processed.\<close>

lemma load_segments_prefix:
  assumes "\<forall>i \<in> set is. phdr_size * i + phdr_size \<le> length buf"
    and "\<forall>p \<in> set (loads (map (\<lambda>i. parse_phdr (drop (phdr_size * i) buf)) is)). segment_ok file m p"
    and "length file < 2 ^ 63" "fs_good f" "fs_data f = file"
  shows "\<exists>f'. load_segments buf (is @ js) f m = load_segments buf js f'
    (fold (place file) (loads (map (\<lambda>i. parse_phdr (drop (phdr_size * i) buf)) is)) m) \<and>
    fs_good f' \<and> fs_data f' = file"
  using assms
proof (induction "is" arbitrary: f m)
  case (Cons i "is")
  let ?p = "parse_phdr (drop (phdr_size * i) buf)"
  have i: "phdr_size * i + phdr_size \<le> length buf" using Cons.prems(1) by simp
  show ?case
  proof (cases "p_type ?p = PT_LOAD")
    case False
    then show ?thesis
      using Cons.IH[of m f] Cons.prems by (simp add: phdr_fields[OF i] loads_def)
  next
    case True
    then have ok: "segment_ok file m ?p" using Cons.prems(2) by (simp add: loads_def)
    obtain f' where f': "read_count (p_filesz ?p) (file_seek (p_offset ?p) f) = (segment_bytes file ?p, f')"
      "fs_good f'" "fs_data f' = file"
      by (rule read_segment[OF ok Cons.prems(3-5)])
    have "\<forall>p \<in> set (loads (map (\<lambda>i. parse_phdr (drop (phdr_size * i) buf)) is)).
        segment_ok file (place file ?p m) p"
      using Cons.prems(2) True by (simp add: loads_def)
    from Cons.IH[OF _ this Cons.prems(3) f'(2,3)] Cons.prems(1)
    obtain f'' where "load_segments buf (is @ js) f' (place file ?p m) = load_segments buf js f''
        (fold (place file) (loads (map (\<lambda>i. parse_phdr (drop (phdr_size * i) buf)) is)) (place file ?p m))"
      "fs_good f''" "fs_data f'' = file"
      by auto
    moreover have "store_bytes m (p_paddr ?p) (segment_bytes file ?p) = Inr (place file ?p m)"
      using ok length_segment_bytes[OF ok] by (simp add: place_def segment_ok_def)
    moreover have "p_filesz ?p \<noteq> 0" "\<not> p_memsz ?p < p_filesz ?p" using ok by (simp_all add: segment_ok_def not_less)
    ultimately show ?thesis
      using True f' by (auto simp: phdr_fields[OF i] loads_def)
  qed
qed (auto simp: loads_def)

text \<open>Laying segments out that do not overlap.\<close>

lemma fold_place_other:
  assumes "\<forall>p \<in> set ps. segment_ok file m p \<and> disjoint_ranges (p_paddr p) (unat (p_filesz p)) a n"
    and "unat a + n \<le> 2 ^ 64"
  shows "peek (fold (place file) ps m) a n = peek m a n"
  using assms(1)
proof (induction ps arbitrary: m)
  case (Cons p ps)
  then have p: "segment_ok file m p" "disjoint_ranges (p_paddr p) (unat (p_filesz p)) a n" by simp_all
  then have "peek (place file p m) a n = peek m a n"
    using in_mem_bound[of m "p_paddr p" "unat (p_filesz p)"] assms(2)
    by (auto simp: place_def length_segment_bytes[OF p(1)] segment_ok_def intro!: peek_poke_disjoint)
  with Cons show ?case by simp
qed simp

lemma place_peek:
  assumes "segment_ok file m p"
  shows "peek (place file p m) (p_paddr p) (unat (p_filesz p)) = segment_bytes file p"
proof -
  have "length (segment_bytes file p) \<le> 2 ^ 64"
    using unat_less_pow[of "p_filesz p"] by (simp add: length_segment_bytes[OF assms])
  from peek_poke_same[OF this] show ?thesis
    by (simp add: place_def length_segment_bytes[OF assms])
qed

lemma fold_place_segment:
  assumes "\<forall>p \<in> set ps. segment_ok file m p" "sorted_wrt segments_apart ps" "p \<in> set ps"
  shows "peek (fold (place file) ps m) (p_paddr p) (unat (p_filesz p)) = segment_bytes file p"
  using assms
proof (induction ps arbitrary: m)
  case (Cons q ps)
  show ?case
  proof (cases "p \<in> set ps")
    case True
    with Cons.IH[of "place file q m"] Cons.prems show ?thesis by simp
  next
    case False
    then have p: "p = q" using Cons.prems(3) by simp
    have ok: "segment_ok file m q" using Cons.prems(1) by simp
    then have "unat (p_paddr q) + unat (p_filesz q) \<le> 2 ^ 64"
      using in_mem_bound[of m "p_paddr q" "unat (p_filesz q)"] by (simp add: segment_ok_def)
    moreover have "\<forall>x \<in> set ps. segment_ok file (place file q m) x \<and>
        disjoint_ranges (p_paddr x) (unat (p_filesz x)) (p_paddr q) (unat (p_filesz q))"
      using Cons.prems(1,2) by (auto simp: disjoint_ranges_def)
    ultimately show ?thesis
      using fold_place_other[of ps "file" "place file q m"] place_peek[OF ok] by (simp add: p)
  qed
qed simp

lemma drop_table: "drop (phdr_size * i) (take (phdr_size * n) xs) = take (phdr_size * n - phdr_size * i) (drop (phdr_size * i) xs)"
  by (simp add: drop_take)

lemma parse_phdr_take: "phdr_size \<le> n \<Longrightarrow> parse_phdr (take n bs) = parse_phdr bs"
  by (simp add: parse_phdr_def field_def drop_take phdr_size_def min_def)

text \<open>What is left of the loader when the header is in order.\<close>

lemma elf_load_start:
  assumes "ehdr_ok file"
  obtains buf f where "elf_load (Some file) m =
      and_then (load_segments buf [0..<unat (e_phnum (ehdr_of file))] f m) (\<lambda>(early, m).
      Inr (case early of None \<Rightarrow> e_entry (ehdr_of file) | Some e \<Rightarrow> e, m))"
    "length buf = phdr_size * unat (e_phnum (ehdr_of file))"
    "map (\<lambda>i. parse_phdr (drop (phdr_size * i) buf)) [0..<unat (e_phnum (ehdr_of file))] = phdrs_of file"
    "length file < 2 ^ 63" "fs_good f" "fs_data f = file"
proof -
  let ?h = "ehdr_of file"
  let ?n = "unat (e_phnum ?h)"
  let ?off = "unat (e_phoff ?h)"
  let ?buf = "take (phdr_size * ?n) (drop ?off file)"
  have ok: "length file < 2 ^ 63" "ehdr_size \<le> length file" "take 4 file = ELFMAG"
    "unat (e_phentsize ?h) = phdr_size" "?off + phdr_size * ?n \<le> length file"
    using assms(1) by (simp_all add: ehdr_ok_def)
  have len: "length ?buf = phdr_size * ?n" using ok(5) by simp
  have head: "read_vector ehdr_size (file_open file) =
      (take ehdr_size file, (file_open file)\<lparr>fs_pos := ehdr_size\<rparr>)"
    using ok(2) by (simp add: read_vector_def file_read_in file_open_def)
  have magic: "take 4 (e_ident ?h) = ELFMAG"
    using ok(3) by (simp add: ehdr_of_def parse_ehdr_def ehdr_size_def)
  have size: "guard_ub (phdr_size * ?n < 2 ^ 31) SignedOverflow = Inr ()"
    using unat_less16[of "e_phnum ?h"] by (simp add: phdr_size_def)
  have "?off < 2 ^ 63" using ok(1,5) by simp
  then have "0 \<le> sint (e_phoff ?h)" by (simp add: sint_nonneg)
  then obtain f where f: "read_vector (phdr_size * ?n)
      (file_seek (e_phoff ?h) ((file_open file)\<lparr>fs_pos := ehdr_size\<rparr>)) = (?buf, f)"
    "fs_good f" "fs_data f = file"
    using ok(5) len by (simp add: read_vector_def file_seek_good file_open_def file_read_in)
  have table: "map (\<lambda>i. parse_phdr (drop (phdr_size * i) ?buf)) [0..<?n] = phdrs_of file"
    unfolding phdrs_of_def phdr_table_def
  proof (rule map_cong[OF refl])
    fix i assume "i \<in> set [0..<?n]"
    then have "phdr_size \<le> phdr_size * ?n - phdr_size * i"
      by (auto simp: phdr_size_def)
    then show "parse_phdr (drop (phdr_size * i) ?buf) = parse_phdr (drop (phdr_size * i) (drop ?off file))"
      by (simp only: drop_table parse_phdr_take)
  qed
  have "elf_load (Some file) m = and_then (load_segments ?buf [0..<?n] f m) (\<lambda>(early, m).
      Inr (case early of None \<Rightarrow> e_entry ?h | Some e \<Rightarrow> e, m))"
    unfolding elf_load_def option.case head Let_def prod.case ehdr_of_def[symmetric]
    by (simp only: magic ok(4) size f(1) and_then_simps prod.case refl not_True_eq_False if_False)
  then show thesis using that len table ok(1) f(2,3) by blast
qed

section \<open>Properties\<close>

lemma elf_load_ok:
  assumes "ehdr_ok file" "\<forall>p \<in> set (loads (phdrs_of file)). segment_ok file m p"
    and "sorted_wrt segments_apart (loads (phdrs_of file))"
  shows "\<exists>m'. elf_load (Some file) m = Inr (e_entry (ehdr_of file), m') \<and> gm_size m' = gm_size m \<and>
    (\<forall>p \<in> set (loads (phdrs_of file)). peek m' (p_paddr p) (unat (p_filesz p)) = segment_bytes file p) \<and>
    (\<forall>a n. unat a + n \<le> 2 ^ 64 \<longrightarrow>
       (\<forall>p \<in> set (loads (phdrs_of file)). disjoint_ranges (p_paddr p) (unat (p_filesz p)) a n) \<longrightarrow>
       peek m' a n = peek m a n)"
proof -
  let ?n = "unat (e_phnum (ehdr_of file))"
  let ?m = "fold (place file) (loads (phdrs_of file)) m"
  obtain buf f where s: "elf_load (Some file) m = and_then (load_segments buf [0..<?n] f m) (\<lambda>(early, m).
      Inr (case early of None \<Rightarrow> e_entry (ehdr_of file) | Some e \<Rightarrow> e, m))"
    "length buf = phdr_size * ?n" "map (\<lambda>i. parse_phdr (drop (phdr_size * i) buf)) [0..<?n] = phdrs_of file"
    "length file < 2 ^ 63" "fs_good f" "fs_data f = file"
    by (rule elf_load_start[OF assms(1)])
  have "\<forall>i \<in> set [0..<?n]. phdr_size * i + phdr_size \<le> length buf"
    by (auto simp: phdr_size_def s(2))
  from load_segments_prefix[OF this, of "file" m f "[]"] s assms(2)
  have "load_segments buf [0..<?n] f m = Inr (None, ?m)" by auto
  then have run: "elf_load (Some file) m = Inr (e_entry (ehdr_of file), ?m)"
    by (simp add: s(1))
  have gm: "gm_size (fold (place file) ps m) = gm_size m" for ps m
    by (induction ps arbitrary: m) (simp_all add: place_def)
  show ?thesis
    using run gm fold_place_segment[OF assms(2,3)] fold_place_other[of "loads (phdrs_of file)" "file" m] assms(2)
    by blast
qed

text \<open>C37: A well-formed kernel file is loaded exactly: the entry address of its header is returned, every
  loadable segment stands at its physical address with the bytes of the file, and no other byte of
  guest memory changes. The segments lie in the file and in guest memory and do not overlap.\<close>

theorem elf_loads_segments:
  assumes "ehdr_ok file" "\<forall>p \<in> set (loads (phdrs_of file)). segment_ok file m p"
    and "sorted_wrt segments_apart (loads (phdrs_of file))"
  shows "\<exists>m'. elf_load (Some file) m = Inr (e_entry (ehdr_of file), m') \<and> gm_size m' = gm_size m \<and>
    (\<forall>p \<in> set (loads (phdrs_of file)). peek m' (p_paddr p) (unat (p_filesz p)) = segment_bytes file p) \<and>
    (\<forall>a n. unat a + n \<le> 2 ^ 64 \<longrightarrow>
       (\<forall>p \<in> set (loads (phdrs_of file)). disjoint_ranges (p_paddr p) (unat (p_filesz p)) a n) \<longrightarrow>
       peek m' a n = peek m a n)"
  using elf_load_ok[OF assms] .

text \<open>A loadable segment whose size in the file is zero or exceeds its size in memory does not stop the
  boot: \<^verbatim>\<open>-EINVAL\<close> comes back as the entry address, with the segments before it already placed.\<close>

theorem elf_error_becomes_entry:
  assumes "ehdr_ok file" "phdrs_of file = ps @ p # qs" "p_type p = PT_LOAD"
    and "p_filesz p = 0 \<or> p_memsz p < p_filesz p"
    and "\<forall>p \<in> set (loads ps). segment_ok file m p"
  shows "elf_load (Some file) m = Inr (2 ^ 64 - 22, fold (place file) (loads ps) m)"
proof -
  let ?n = "unat (e_phnum (ehdr_of file))"
  let ?k = "length ps"
  obtain buf f where s: "elf_load (Some file) m = and_then (load_segments buf [0..<?n] f m) (\<lambda>(early, m).
      Inr (case early of None \<Rightarrow> e_entry (ehdr_of file) | Some e \<Rightarrow> e, m))"
    "length buf = phdr_size * ?n" "map (\<lambda>i. parse_phdr (drop (phdr_size * i) buf)) [0..<?n] = phdrs_of file"
    "length file < 2 ^ 63" "fs_good f" "fs_data f = file"
    by (rule elf_load_start[OF assms(1)])
  have "length (phdrs_of file) = ?n" by (simp add: phdrs_of_def phdr_table_def)
  then have k: "?k < ?n" by (simp add: assms(2))
  then have split: "[0..<?n] = [0..<?k] @ ?k # [Suc ?k..<?n]"
    using upt_add_eq_append[of 0 ?k "?n - ?k"] k by (simp add: upt_conv_Cons)
  have p: "parse_phdr (drop (phdr_size * ?k) buf) = p" "map (\<lambda>i. parse_phdr (drop (phdr_size * i) buf)) [0..<?k] = ps"
    using s(3) unfolding split assms(2) by simp_all
  have bound: "phdr_size * i + phdr_size \<le> length buf" if "i < ?n" for i
    using that by (simp add: phdr_size_def s(2))
  obtain f' where "load_segments buf ([0..<?k] @ ?k # [Suc ?k..<?n]) f m =
      load_segments buf (?k # [Suc ?k..<?n]) f' (fold (place file) (loads ps) m)"
    using load_segments_prefix[of "[0..<?k]" buf "file" m f "?k # [Suc ?k..<?n]"] bound k s(4-6) assms(5)
    unfolding p(2) by auto
  moreover have "p_memsz p < p_filesz p \<or> p_filesz p = 0" using assms(4) by blast
  ultimately have "load_segments buf [0..<?n] f m = Inr (Some (- EINVAL), fold (place file) (loads ps) m)"
    unfolding split by (auto simp: phdr_fields[OF bound[OF k]] p assms(3))
  then show ?thesis by (simp add: s(1) EINVAL_def)
qed

section \<open>A small kernel\<close>

definition demo_elf :: "u8 \<Rightarrow> u8 \<Rightarrow> u8 list" where
  "demo_elf filesz memsz =
    [0x7f, 0x45, 0x4c, 0x46, 0x02, 0x01, 0x01, 0, 0, 0, 0, 0, 0, 0, 0, 0,
     0x02, 0, 0x3e, 0, 0x01, 0, 0, 0, 0, 0, 0, 0x01, 0, 0, 0, 0,
     0x40, 0, 0, 0, 0, 0, 0, 0, 0, 0, 0, 0, 0, 0, 0, 0,
     0, 0, 0, 0, 0x40, 0, 0x38, 0, 0x01, 0, 0, 0, 0, 0, 0, 0,
     0x01, 0, 0, 0, 0x05, 0, 0, 0, 0x78, 0, 0, 0, 0, 0, 0, 0,
     0, 0, 0, 0, 0, 0, 0, 0, 0, 0, 0, 0x01, 0, 0, 0, 0,
     filesz, 0, 0, 0, 0, 0, 0, 0, memsz, 0, 0, 0, 0, 0, 0, 0,
     0, 0, 0, 0, 0, 0, 0, 0, 0xfa, 0xf4, 0x90, 0x90]"

lemma demo_elf_header:
  "ehdr_of (demo_elf a b) = \<lparr>e_ident = [0x7f, 0x45, 0x4c, 0x46, 2, 1, 1, 0, 0, 0, 0, 0, 0, 0, 0, 0],
     e_entry = 0x1000000, e_phoff = 64, e_phentsize = 56, e_phnum = 1\<rparr>"
  by (simp add: ehdr_of_def demo_elf_def parse_ehdr_def field_def ehdr_size_def)

lemma demo_elf_phdrs:
  "phdrs_of (demo_elf a b) = [\<lparr>p_type = 1, p_offset = 120, p_paddr = 0x1000000, p_filesz = ucast a, p_memsz = ucast b\<rparr>]"
  unfolding phdrs_of_def phdr_table_def demo_elf_header
  by (simp add: demo_elf_def parse_phdr_def field_def)

lemma demo_elf_ok: "ehdr_ok (demo_elf a b)"
  unfolding ehdr_ok_def demo_elf_header
  by (simp add: demo_elf_def ELFMAG_def ehdr_size_def phdr_size_def)

lemma demo_elf_data: "length (demo_elf a b) = 124" "drop 120 (demo_elf a b) = [0xfa, 0xf4, 0x90, 0x90]"
  by (simp_all add: demo_elf_def)

theorem elf_loads_segments_witness:
  "\<exists>m'. elf_load (Some (demo_elf 4 4)) \<lparr>gm_size = 0x2000000, gm_byte = (\<lambda>_. 0)\<rparr> = Inr (0x1000000, m') \<and>
     peek m' 0x1000000 4 = [0xfa, 0xf4, 0x90, 0x90]"
proof -
  have "\<forall>p \<in> set (loads (phdrs_of (demo_elf 4 4))).
      segment_ok (demo_elf 4 4) \<lparr>gm_size = 0x2000000, gm_byte = (\<lambda>_. 0)\<rparr> p"
    by (simp add: demo_elf_phdrs loads_def PT_LOAD_def segment_ok_def in_mem_def demo_elf_data)
  from elf_loads_segments[OF demo_elf_ok this] show ?thesis
    by (auto simp: demo_elf_phdrs demo_elf_header loads_def PT_LOAD_def segment_bytes_def demo_elf_data)
qed

theorem elf_error_becomes_entry_witness:
  "elf_load (Some (demo_elf 0 4)) \<lparr>gm_size = 0x2000000, gm_byte = (\<lambda>_. 0)\<rparr> =
     Inr (0xFFFFFFFFFFFFFFEA, \<lparr>gm_size = 0x2000000, gm_byte = (\<lambda>_. 0)\<rparr>)"
  using elf_error_becomes_entry[OF demo_elf_ok, of 0 4 "[]"]
  by (simp add: demo_elf_phdrs loads_def PT_LOAD_def)

end
