(* ===== verification/Kvm_Api.thy ===== *)
theory Kvm_Api
  imports Long_Mode
begin

text \<open>
  \<^verbatim>\<open>src/kvm/kvm.h\<close>, \<^verbatim>\<open>src/kvm/vcpu.h\<close> and the error helpers of \<^verbatim>\<open>src/kvm/util.h\<close>: the
  calls into the kernel. The kernel itself is a parameter: \<open>kvm_host\<close> holds what it will answer
  (the results of \<^verbatim>\<open>ioctl\<close> in order, the structures the GET calls fill in, the exits of
  every processor) and the log of the calls made so far, with their file descriptor and the structure
  they pass. A call beyond the recorded answers is \<open>Blocked\<close>.
\<close>

named_theorems host_steps \<open>what a call leaves of the host's answers\<close>

section \<open>Structures of the interface\<close>

record kvm_cpuid_entry2 =
  ce_function :: u32
  ce_index :: u32
  ce_flags :: u32
  ce_eax :: u32
  ce_ebx :: u32
  ce_ecx :: u32
  ce_edx :: u32

record kvm_msr_entry =
  msr_index :: u32
  msr_data :: u64

record kvm_irq_routing_entry =
  re_gsi :: u32
  re_type :: u32
  re_flags :: u32
  re_irqchip :: u32
  re_pin :: u32

record kvm_userspace_memory_region =
  mr_slot :: u32
  mr_flags :: u32
  mr_guest_phys_addr :: u64
  mr_memory_size :: u64
  mr_userspace_addr :: u64

datatype kvm_call =
    KVM_GET_API_VERSION
  | KVM_GET_VCPU_MMAP_SIZE
  | KVM_CREATE_VM
  | KVM_GET_SUPPORTED_CPUID u32
  | KVM_GET_EMULATED_CPUID u32
  | KVM_CHECK_EXTENSION u64
  | KVM_ENABLE_CAP u32
  | KVM_SET_USER_MEMORY_REGION kvm_userspace_memory_region
  | KVM_SET_TSS_ADDR u64
  | KVM_CREATE_IRQCHIP
  | KVM_CREATE_PIT2 u32
  | KVM_CREATE_VCPU u64
  | KVM_IRQFD u32 bool                                   \<comment> \<open>line, and whether its eventfd is a descriptor\<close>
  | KVM_SET_GSI_ROUTING "kvm_irq_routing_entry list"
  | KVM_IRQ_LINE u32 u32
  | KVM_GET_LAPIC
  | KVM_SET_LAPIC "u8 list"
  | KVM_GET_SREGS
  | KVM_SET_SREGS kvm_sregs
  | KVM_SET_REGS kvm_regs
  | KVM_SET_FPU kvm_fpu
  | KVM_SET_MSRS "kvm_msr_entry list"
  | KVM_SET_CPUID2 "kvm_cpuid_entry2 list"
  | KVM_SET_GUEST_DEBUG u32

text \<open>
  An exit of the processor, as far as the monitor looks at it. \<open>io_data\<close> is the part of the
  shared page that starts at \<^verbatim>\<open>data_offset\<close>.
\<close>

record kvm_exit_io =
  io_out :: bool
  io_size :: u8
  io_port :: u16
  io_count :: u32
  io_data :: "u8 list"

record kvm_exit_mmio =
  mm_phys_addr :: u64
  mm_data :: "u8 list"
  mm_len :: u32
  mm_is_write :: bool

datatype kvm_exit =
    KVM_EXIT_IO kvm_exit_io
  | KVM_EXIT_MMIO kvm_exit_mmio
  | KVM_EXIT_DEBUG
  | KVM_EXIT_SHUTDOWN
  | KVM_EXIT_HLT
  | KVM_EXIT_INTR
  | KVM_EXIT_OTHER u32

record kvm_host =
  kh_answers :: "(int \<times> int) list"                       \<comment> \<open>result and \<^verbatim>\<open>errno\<close>\<close>
  kh_log :: "(int \<times> kvm_call) list"
  kh_cpuid :: "kvm_cpuid_entry2 list"
  kh_lapic :: "int \<Rightarrow> u8 list"
  kh_sregs :: "int \<Rightarrow> kvm_sregs"
  kh_runs :: "int \<Rightarrow> (int \<times> int \<times> kvm_exit) list"         \<comment> \<open>answers to \<^verbatim>\<open>KVM_RUN\<close>, with the exit\<close>

section \<open>Calling\<close>

definition ioctl :: "int \<Rightarrow> kvm_call \<Rightarrow> kvm_host \<Rightarrow> (int \<times> int \<times> kvm_host) res" where
  "ioctl fd call h =
     (case kh_answers h of [] \<Rightarrow> Inl Blocked
      | (r, e) # as \<Rightarrow> Inr (r, e, h\<lparr>kh_answers := as, kh_log := kh_log h @ [(fd, call)]\<rparr>))"

definition ioctl_err :: "string \<Rightarrow> 'a res" where
  "ioctl_err ctl = Inl (Exn (IoctlFailed ctl))"

text \<open>\<^verbatim>\<open>if (ioctl(fd, C, x) < 0) ioctl_err("C");\<close>\<close>

definition ioctl_check :: "string \<Rightarrow> int \<Rightarrow> kvm_call \<Rightarrow> kvm_host \<Rightarrow> kvm_host res" where
  "ioctl_check ctl fd call h =
     and_then (ioctl fd call h) (\<lambda>(r, e, h). if r < 0 then ioctl_err ctl else Inr h)"

section \<open>The system handle\<close>

record kvm =
  kvm_fd :: int
  kvm_version :: int

definition KVM_API_VERSION :: int where "KVM_API_VERSION = 12"

definition api_version :: "int \<Rightarrow> kvm_host \<Rightarrow> (int \<times> kvm_host) res" where
  "api_version fd h = and_then (ioctl fd KVM_GET_API_VERSION h) (\<lambda>(r, e, h). Inr (r, h))"

text \<open>The version is asked for before the descriptor is looked at; \<open>fd\<close> is the answer of \<^verbatim>\<open>open\<close>.\<close>

definition kvm_new :: "int \<Rightarrow> kvm_host \<Rightarrow> (kvm \<times> kvm_host) res" where
  "kvm_new fd h =
     and_then (api_version fd h) (\<lambda>(version, h).
     if fd < 0 then Inl (Exn (RuntimeError ''kvm open failed''))
     else if version \<noteq> KVM_API_VERSION then Inl (Exn (RuntimeError ''invalid KVM_GET_API_VERSION''))
     else Inr (\<lparr>kvm_fd = fd, kvm_version = version\<rparr>, h))"

definition vcpu_mmap_size :: "kvm \<Rightarrow> kvm_host \<Rightarrow> (int \<times> kvm_host) res" where
  "vcpu_mmap_size k h = and_then (ioctl (kvm_fd k) KVM_GET_VCPU_MMAP_SIZE h) (\<lambda>(r, e, h). Inr (r, h))"

definition create_vm :: "kvm \<Rightarrow> kvm_host \<Rightarrow> (int \<times> kvm_host) res" where
  "create_vm k h = and_then (ioctl (kvm_fd k) KVM_CREATE_VM h) (\<lambda>(r, e, h). Inr (r, h))"

definition get_supported_cpuid :: "u32 \<Rightarrow> kvm \<Rightarrow> kvm_host \<Rightarrow> (kvm_cpuid_entry2 list \<times> kvm_host) res" where
  "get_supported_cpuid nent k h =
     and_then (ioctl_check ''KVM_GET_SUPPORTED_CPUID'' (kvm_fd k) (KVM_GET_SUPPORTED_CPUID nent) h) (\<lambda>h.
     Inr (take (unat nent) (kh_cpuid h), h))"

definition get_emulated_cpuid :: "u32 \<Rightarrow> kvm \<Rightarrow> kvm_host \<Rightarrow> (kvm_cpuid_entry2 list \<times> kvm_host) res" where
  "get_emulated_cpuid nent k h =
     and_then (ioctl_check ''KVM_GET_EMULATED_CPUID'' (kvm_fd k) (KVM_GET_EMULATED_CPUID nent) h) (\<lambda>h.
     Inr (take (unat nent) (kh_cpuid h), h))"

text \<open>The \<^verbatim>\<open>int\<close> is converted to \<^verbatim>\<open>bool\<close>: a failing call counts as support.\<close>

definition supports :: "u64 \<Rightarrow> kvm \<Rightarrow> kvm_host \<Rightarrow> (bool \<times> kvm_host) res" where
  "supports cap k h =
     and_then (ioctl (kvm_fd k) (KVM_CHECK_EXTENSION cap) h) (\<lambda>(r, e, h). Inr (r \<noteq> 0, h))"

section \<open>A virtual processor\<close>

text \<open>The shared page is the exit that the last \<^verbatim>\<open>KVM_RUN\<close> left; \<open>mapped\<close> says whether \<^verbatim>\<open>mmap\<close> succeeded.\<close>

definition vcpu_new :: "int \<Rightarrow> int \<Rightarrow> bool \<Rightarrow> int res" where
  "vcpu_new fd mmap_size mapped =
     (if fd < 0 then Inl (Exn (RuntimeError ''kvm vcpu create failed''))
      else if mmap_size \<le> 0 then Inl (Exn (RuntimeError ''invalid KVM_GET_VCPU_MMAP_SIZE''))
      else if \<not> mapped then Inl (Exn (RuntimeError ''mmap kvm_run failed''))
      else Inr fd)"

definition get_lapic :: "int \<Rightarrow> kvm_host \<Rightarrow> (u8 list \<times> kvm_host) res" where
  "get_lapic fd h = and_then (ioctl_check ''KVM_GET_LAPIC'' fd KVM_GET_LAPIC h) (\<lambda>h. Inr (kh_lapic h fd, h))"

definition set_lapic :: "int \<Rightarrow> u8 list \<Rightarrow> kvm_host \<Rightarrow> kvm_host res" where
  "set_lapic fd lapic = ioctl_check ''KVM_SET_LAPIC'' fd (KVM_SET_LAPIC lapic)"

definition get_sregs :: "int \<Rightarrow> kvm_host \<Rightarrow> (kvm_sregs \<times> kvm_host) res" where
  "get_sregs fd h = and_then (ioctl_check ''KVM_GET_SREGS'' fd KVM_GET_SREGS h) (\<lambda>h. Inr (kh_sregs h fd, h))"

definition set_sreg :: "int \<Rightarrow> kvm_sregs \<Rightarrow> kvm_host \<Rightarrow> kvm_host res" where
  "set_sreg fd sregs = ioctl_check ''KVM_SET_SREGS'' fd (KVM_SET_SREGS sregs)"

definition set_regs :: "int \<Rightarrow> kvm_regs \<Rightarrow> kvm_host \<Rightarrow> kvm_host res" where
  "set_regs fd regs = ioctl_check ''KVM_SET_REGS'' fd (KVM_SET_REGS regs)"

definition set_fpu :: "int \<Rightarrow> kvm_fpu \<Rightarrow> kvm_host \<Rightarrow> kvm_host res" where
  "set_fpu fd fpu = ioctl_check ''KVM_SET_FPU'' fd (KVM_SET_FPU fpu)"

definition set_msrs :: "int \<Rightarrow> kvm_msr_entry list \<Rightarrow> kvm_host \<Rightarrow> kvm_host res" where
  "set_msrs fd msrs = ioctl_check ''KVM_SET_MSRS'' fd (KVM_SET_MSRS msrs)"

definition set_cpuid2 :: "int \<Rightarrow> kvm_cpuid_entry2 list \<Rightarrow> kvm_host \<Rightarrow> kvm_host res" where
  "set_cpuid2 fd cpuid = ioctl_check ''KVM_SET_CPUID2'' fd (KVM_SET_CPUID2 cpuid)"

text \<open>
  \<^verbatim>\<open>run\<close>: an interrupted system call with \<^verbatim>\<open>EAGAIN\<close> (11) is repeated, one with
  \<^verbatim>\<open>EINTR\<close> (4) returns to the caller like a success. The result is the exit and the answers
  that are left.
\<close>

fun run_retry :: "(int \<times> int \<times> kvm_exit) list \<Rightarrow> (kvm_exit \<times> (int \<times> int \<times> kvm_exit) list) res" where
  "run_retry [] = Inl Blocked"
| "run_retry ((r, e, x) # as) =
     (if r < 0
      then if e = 11 then run_retry as
           else if e \<noteq> 4 then ioctl_err ''KVM_RUN''
           else Inr (x, as)
      else Inr (x, as))"

definition KVM_GUESTDBG_ENABLE :: u32 where "KVM_GUESTDBG_ENABLE = 1"
definition KVM_GUESTDBG_SINGLESTEP :: u32 where "KVM_GUESTDBG_SINGLESTEP = 2"

definition vcpu_run :: "int \<Rightarrow> bool \<Rightarrow> kvm_host \<Rightarrow> (kvm_exit \<times> kvm_host) res" where
  "vcpu_run fd single_step h =
     and_then (if single_step
       then ioctl_check ''KVM_SET_GUEST_DEBUG'' fd
              (KVM_SET_GUEST_DEBUG (KVM_GUESTDBG_ENABLE OR KVM_GUESTDBG_SINGLESTEP)) h
       else Inr h) (\<lambda>h.
     and_then (run_retry (kh_runs h fd)) (\<lambda>(x, as).
     Inr (x, h\<lparr>kh_runs := (kh_runs h)(fd := as)\<rparr>)))"

section \<open>Facts\<close>

text \<open>A host that answers the next \<open>n\<close> calls with success.\<close>

definition willing :: "nat \<Rightarrow> kvm_host \<Rightarrow> bool" where
  "willing n h \<longleftrightarrow> n \<le> length (kh_answers h) \<and> (\<forall>a \<in> set (take n (kh_answers h)). 0 \<le> fst a)"

lemma ioctl_check_ok:
  assumes "willing (Suc n) h"
  shows "ioctl_check ctl fd call h =
      Inr (h\<lparr>kh_answers := tl (kh_answers h), kh_log := kh_log h @ [(fd, call)]\<rparr>)"
    and "willing n (h\<lparr>kh_answers := tl (kh_answers h), kh_log := kh_log h @ [(fd, call)]\<rparr>)"
proof -
  obtain r e as where a: "kh_answers h = (r, e) # as" "0 \<le> r"
    using assms by (cases "kh_answers h") (auto simp: willing_def)
  then show "ioctl_check ctl fd call h =
      Inr (h\<lparr>kh_answers := tl (kh_answers h), kh_log := kh_log h @ [(fd, call)]\<rparr>)"
    by (simp add: ioctl_check_def ioctl_def)
  show "willing n (h\<lparr>kh_answers := tl (kh_answers h), kh_log := kh_log h @ [(fd, call)]\<rparr>)"
    using assms a by (simp add: willing_def)
qed

text \<open>
  What any run of successful calls leaves: each call is in the log and used up one answer, which was
  not negative; the exits of the processors are untouched. The rules of \<open>host_steps\<close> follow it
  through the calls of a function, backwards from the last one.
\<close>

definition host_moves :: "kvm_host \<Rightarrow> kvm_host \<Rightarrow> bool" where
  "host_moves h h' \<longleftrightarrow> kh_runs h' = kh_runs h \<and>
     (\<exists>calls as. kh_log h' = kh_log h @ calls \<and> kh_answers h = as @ kh_answers h' \<and>
        length as = length calls \<and> list_all (\<lambda>a. 0 \<le> fst a) as)"

lemma host_moves_refl [simp]: "host_moves h h"
  by (auto simp: host_moves_def)

lemma host_moves_trans: "host_moves h h' \<Longrightarrow> host_moves h' h'' \<Longrightarrow> host_moves h h''"
  unfolding host_moves_def by (elim conjE exE, intro conjI, simp, rule exI, rule exI[of _ "_ @ _"]) auto

lemma host_moves_log: "host_moves h h' \<Longrightarrow> set (kh_log h) \<subseteq> set (kh_log h')"
  by (auto simp: host_moves_def)

lemma ioctl_step:
  "ioctl fd call h = Inr (r, e, h') \<Longrightarrow> 0 \<le> r \<Longrightarrow> host_moves g h \<Longrightarrow> host_moves g h'"
  by (rule host_moves_trans[of g h h']) (auto simp: host_moves_def ioctl_def split: list.splits)

lemma ioctl_check_step [host_steps]:
  "ioctl_check ctl fd call h = Inr h' \<Longrightarrow> host_moves g h \<Longrightarrow> host_moves g h'"
  by (auto simp: ioctl_check_def ioctl_err_def intro: ioctl_step split: if_splits)

lemma get_steps [host_steps]:
  "get_supported_cpuid nent k h = Inr (c, h') \<Longrightarrow> host_moves g h \<Longrightarrow> host_moves g h'"
  "get_lapic fd h = Inr (l, h') \<Longrightarrow> host_moves g h \<Longrightarrow> host_moves g h'"
  "get_sregs fd h = Inr (s, h') \<Longrightarrow> host_moves g h \<Longrightarrow> host_moves g h'"
  by (auto simp: get_supported_cpuid_def get_lapic_def get_sregs_def intro: host_steps)

lemma set_steps [host_steps]:
  "set_cpuid2 fd c h = Inr h' \<Longrightarrow> host_moves g h \<Longrightarrow> host_moves g h'"
  "set_lapic fd l h = Inr h' \<Longrightarrow> host_moves g h \<Longrightarrow> host_moves g h'"
  "set_sreg fd s h = Inr h' \<Longrightarrow> host_moves g h \<Longrightarrow> host_moves g h'"
  "set_regs fd r h = Inr h' \<Longrightarrow> host_moves g h \<Longrightarrow> host_moves g h'"
  "set_fpu fd f h = Inr h' \<Longrightarrow> host_moves g h \<Longrightarrow> host_moves g h'"
  "set_msrs fd m h = Inr h' \<Longrightarrow> host_moves g h \<Longrightarrow> host_moves g h'"
  by (auto simp: set_cpuid2_def set_lapic_def set_sreg_def set_regs_def set_fpu_def set_msrs_def intro: host_steps)

lemma kvm_new_step [host_steps]:
  "kvm_new fd h = Inr (k, h') \<Longrightarrow> host_moves g h \<Longrightarrow> host_moves g h'"
  by (auto simp: kvm_new_def api_version_def KVM_API_VERSION_def intro: ioctl_step split: if_splits)

lemma ioctl_check_fails:
  "kh_answers h = (r, e) # as \<Longrightarrow> r < 0 \<Longrightarrow> ioctl_check ctl fd call h = Inl (Exn (IoctlFailed ctl))"
  by (simp add: ioctl_check_def ioctl_def ioctl_err_def)

lemma run_retry_again: "run_retry (map (\<lambda>x. (-1, 11, x)) xs @ as) = run_retry as"
  by (induction xs) simp_all

text \<open>A host that grants the next \<open>n\<close> calls, with processors fresh from reset.\<close>

definition zero_sregs :: kvm_sregs where
  "zero_sregs = (let s = segment 0 0; d = \<lparr>dt_base = 0, dt_limit = 0\<rparr> in
     \<lparr>sr_cs = s, sr_ds = s, sr_es = s, sr_fs = s, sr_gs = s, sr_ss = s, sr_tr = s, sr_ldt = s, sr_gdt = d, sr_idt = d,
      sr_cr0 = 0, sr_cr2 = 0, sr_cr3 = 0, sr_cr4 = 0, sr_cr8 = 0, sr_efer = 0, sr_apic_base = 0,
      sr_interrupt_bitmap = replicate 4 0\<rparr>)"

definition host_ok :: "nat \<Rightarrow> kvm_host" where
  "host_ok n = \<lparr>kh_answers = replicate n (0, 0), kh_log = [], kh_cpuid = [],
     kh_lapic = (\<lambda>_. replicate 1024 0), kh_sregs = (\<lambda>_. zero_sregs), kh_runs = (\<lambda>_. [])\<rparr>"

lemma host_ok_willing [simp]: "willing n (host_ok n)"
  by (simp add: willing_def host_ok_def)

lemma host_ok_simps [simp]:
  "kh_log (host_ok n) = []" "kh_lapic (host_ok n) fd = replicate 1024 0"
  by (simp_all add: host_ok_def)

section \<open>Properties\<close>

text \<open>Running a processor: however often the call is turned away with \<^verbatim>\<open>EAGAIN\<close>, the exit that is
  returned is that of the first answer of another kind, provided it is a success or an
  interrupted call; any other error is thrown. No answer beyond it is consumed.\<close>

theorem vcpu_run_retries:
  assumes "kh_runs h fd = map (\<lambda>x. (-1, 11, x)) xs @ (r, e, x) # as" "0 \<le> r \<or> e \<noteq> 11"
  shows "vcpu_run fd False h =
    (if 0 \<le> r \<or> e = 4 then Inr (x, h\<lparr>kh_runs := (kh_runs h)(fd := as)\<rparr>)
     else Inl (Exn (IoctlFailed ''KVM_RUN'')))"
proof -
  have "run_retry (kh_runs h fd) = run_retry ((r, e, x) # as)"
    by (simp only: assms(1) run_retry_again)
  then show ?thesis using assms(2) by (auto simp: vcpu_run_def ioctl_err_def)
qed

theorem vcpu_run_retries_witness:
  "vcpu_run 7 False ((host_ok 0)\<lparr>kh_runs := (\<lambda>_. [(-1, 11, KVM_EXIT_INTR), (-1, 4, KVM_EXIT_INTR), (0, 0, KVM_EXIT_HLT)])\<rparr>) =
     Inr (KVM_EXIT_INTR, (host_ok 0)\<lparr>kh_runs := (\<lambda>fd. if fd = 7 then [(0, 0, KVM_EXIT_HLT)]
       else [(-1, 11, KVM_EXIT_INTR), (-1, 4, KVM_EXIT_INTR), (0, 0, KVM_EXIT_HLT)])\<rparr>)"
  using vcpu_run_retries[of "(host_ok 0)\<lparr>kh_runs := (\<lambda>_. [(-1, 11, KVM_EXIT_INTR), (-1, 4, KVM_EXIT_INTR), (0, 0, KVM_EXIT_HLT)])\<rparr>"
      7 "[KVM_EXIT_INTR]" "-1" 4 KVM_EXIT_INTR "[(0, 0, KVM_EXIT_HLT)]"]
  by (simp add: fun_upd_def)

text \<open>A failing capability check is taken for support.\<close>

lemma supports_failed_call:
  "kh_answers h = (-1, e) # as \<Longrightarrow> \<exists>h'. supports cap k h = Inr (True, h')"
  by (simp add: supports_def ioctl_def)

end
