(* ===== verification/Cpuid.thy ===== *)
theory Cpuid
  imports Kvm_Api
begin

text \<open>
  \<^verbatim>\<open>src/kvm/cpuid.h\<close>: what the guest is told about its processor. \<open>filter_cpuid_copy\<close> is
  the filter the boot code uses, \<open>filter_cpuid\<close> an unused second one that writes logical
  negations where complements are meant, \<open>print_cpuid\<close> the listing for the user; its output is
  the string it prints.
\<close>

section \<open>Bit positions\<close>

definition LEAFBH_INDEX1_APICID_SHIFT :: u32 where "LEAFBH_INDEX1_APICID_SHIFT = 6"
definition HYPERVISOR_SHIFT :: nat where "HYPERVISOR_SHIFT = 31"
definition HTT_SHIFT :: nat where "HTT_SHIFT = 28"
definition CACHE_LEVEL :: nat where "CACHE_LEVEL = 5"
definition MAX_ADDR_IDS_SHARING_CACHE :: nat where "MAX_ADDR_IDS_SHARING_CACHE = 14"
definition MAX_ADDR_IDS_IN_PACKAGE :: nat where "MAX_ADDR_IDS_IN_PACKAGE = 26"
definition TURBO_BOOST_SHIFT :: nat where "TURBO_BOOST_SHIFT = 1"
definition EPB_SHIFT :: nat where "EPB_SHIFT = 3"
definition LEVEL_TYPE_INVALID :: u32 where "LEVEL_TYPE_INVALID = 0"
definition LEVEL_TYPE_CORE :: u32 where "LEVEL_TYPE_CORE = 2"
definition LEVEL_TYPE_SHIFT :: nat where "LEVEL_TYPE_SHIFT = 8"
definition MAX_KVM_CPUID_ENTRIES :: u32 where "MAX_KVM_CPUID_ENTRIES = 80"

lemmas cpuid_shifts = LEAFBH_INDEX1_APICID_SHIFT_def HYPERVISOR_SHIFT_def HTT_SHIFT_def CACHE_LEVEL_def
  MAX_ADDR_IDS_SHARING_CACHE_def MAX_ADDR_IDS_IN_PACKAGE_def TURBO_BOOST_SHIFT_def EPB_SHIFT_def
  LEVEL_TYPE_INVALID_def LEVEL_TYPE_CORE_def LEVEL_TYPE_SHIFT_def

section \<open>The filter of the boot code\<close>

text \<open>The twelve characters of a vendor name as three words.\<close>

definition signature :: "string \<Rightarrow> nat \<Rightarrow> u32" where
  "signature name i = le_word (map of_char (take 4 (drop (4 * i) name)))"

text \<open>The fields of leaf \<^verbatim>\<open>0xa\<close>, the bit fields of \<^verbatim>\<open>cpuid10_eax\<close>.\<close>

definition version_id :: "u32 \<Rightarrow> u8" where "version_id eax = ucast eax"
definition num_counters :: "u32 \<Rightarrow> u8" where "num_counters eax = ucast (drop_bit 8 eax)"

definition filter_copy_entry :: "kvm_cpuid_entry2 \<Rightarrow> kvm_cpuid_entry2" where
  "filter_copy_entry e =
     (if ce_function e = 0x0 then
        e\<lparr>ce_ebx := signature ''LKVMLKVMLKVM'' 0, ce_ecx := signature ''LKVMLKVMLKVM'' 1,
          ce_edx := signature ''LKVMLKVMLKVM'' 2\<rparr>
      else if ce_function e = 0x1 then
        (if ce_index e = 0 then e\<lparr>ce_ecx := ce_ecx e OR push_bit 31 1\<rparr> else e)
      else if ce_function e = 0x6 then e\<lparr>ce_ecx := ce_ecx e AND NOT (push_bit 3 1)\<rparr>
      else if ce_function e = 0xa then
        (if ce_eax e \<noteq> 0 \<and> (version_id (ce_eax e) \<noteq> 2 \<or> num_counters (ce_eax e) = 0)
         then e\<lparr>ce_eax := 0\<rparr> else e)
      else e)"

fun filter_cpuid_copy :: "kvm_cpuid_entry2 list \<Rightarrow> kvm_cpuid_entry2 list" where
  "filter_cpuid_copy [] = []"
| "filter_cpuid_copy (e # es) = filter_copy_entry e # filter_cpuid_copy es"

section \<open>The second filter\<close>

definition filter_cache_leaf :: "kvm_cpuid_entry2 \<Rightarrow> kvm_cpuid_entry2" where
  "filter_cache_leaf e =
     (let cache_level = drop_bit CACHE_LEVEL (ce_eax e) AND 7;
          e = (if cache_level = 1 \<or> cache_level = 2
               then e\<lparr>ce_eax := ce_eax e AND lognot (push_bit MAX_ADDR_IDS_SHARING_CACHE 0xFFF)\<rparr>
               else if cache_level = 3
               then e\<lparr>ce_eax := ce_eax e AND lognot (push_bit MAX_ADDR_IDS_SHARING_CACHE 0xFFF)\<rparr>
               else e)
      in e\<lparr>ce_eax := ce_eax e AND lognot (push_bit MAX_ADDR_IDS_IN_PACKAGE 0x3F)\<rparr>)"

definition filter_topology_leaf :: "kvm_cpuid_entry2 \<Rightarrow> kvm_cpuid_entry2" where
  "filter_topology_leaf e =
     (if ce_index e = 0 then
        e\<lparr>ce_eax := 0, ce_ebx := 1, ce_ecx := push_bit LEVEL_TYPE_SHIFT LEVEL_TYPE_CORE\<rparr>
      else if ce_index e = 1 then
        e\<lparr>ce_eax := LEAFBH_INDEX1_APICID_SHIFT, ce_ebx := 0,
          ce_ecx := ce_index e OR push_bit LEVEL_TYPE_SHIFT LEVEL_TYPE_INVALID\<rparr>
      else e\<lparr>ce_eax := 0, ce_ebx := 0, ce_ecx := ce_index e\<rparr>)"

definition filter_entry :: "kvm_cpuid_entry2 \<Rightarrow> kvm_cpuid_entry2" where
  "filter_entry e =
     (if ce_function e = 0x0 then
        e\<lparr>ce_ebx := signature ''GenuineIntel'' 0, ce_edx := signature ''GenuineIntel'' 1,
          ce_ecx := signature ''GenuineIntel'' 2\<rparr>
      else if ce_function e = 0x1 then
        e\<lparr>ce_ecx := ce_ecx e OR push_bit HYPERVISOR_SHIFT 1,
          ce_edx := ce_edx e AND NOT (push_bit HTT_SHIFT 1)\<rparr>
      else if ce_function e = 0x4 then filter_cache_leaf e
      else if ce_function e = 0x6 then
        e\<lparr>ce_eax := ce_eax e AND lognot (push_bit TURBO_BOOST_SHIFT 1),
          ce_ecx := ce_ecx e AND lognot (push_bit EPB_SHIFT 1)\<rparr>
      else if ce_function e = 0xA then e\<lparr>ce_eax := 0, ce_ebx := 0, ce_ecx := 0, ce_edx := 0\<rparr>
      else if ce_function e = 0xB then filter_topology_leaf e
      else e)"

fun filter_cpuid :: "kvm_cpuid_entry2 list \<Rightarrow> kvm_cpuid_entry2 list" where
  "filter_cpuid [] = []"
| "filter_cpuid (e # es) = filter_entry e # filter_cpuid es"

section \<open>The listing\<close>

definition newline :: string where "newline = [CHR 0x0A]"

definition print_feature :: "u32 \<Rightarrow> string \<Rightarrow> string" where
  "print_feature test name = (if test \<noteq> 0 then ''YES'' else ''NO '') @ '' - '' @ name @ newline"

definition print_ebchar4 :: "u32 \<Rightarrow> string" where
  "print_ebchar4 a = map (\<lambda>b. char_of (unat b)) (le_bytes 4 a)"

type_synonym feature_table = "((kvm_cpuid_entry2 \<Rightarrow> u32) \<times> nat \<times> string) list"

definition print_features :: "feature_table \<Rightarrow> kvm_cpuid_entry2 \<Rightarrow> string" where
  "print_features tbl e = concat (map (\<lambda>(reg, bit, name). print_feature (reg e AND push_bit bit 1) name) tbl)"

definition features_0x1 :: feature_table where
  "features_0x1 =
    [(ce_edx, 0, ''FPU           (Floating-point Unit on-chip)''),
     (ce_edx, 1, ''VME           (Virtual Mode Extension)''),
     (ce_edx, 2, ''DE            (Debugging Extension)''),
     (ce_edx, 3, ''PSE           (Page Size Extension)''),
     (ce_edx, 4, ''TSC           (Time Stamp Counter)''),
     (ce_edx, 5, ''MSR           (Model Specific Registers)''),
     (ce_edx, 6, ''PAE           (Physical Address Extension)''),
     (ce_edx, 7, ''MCE           (Machine Check Exception)''),
     (ce_edx, 8, ''CX8           (CMPXCHG8 Instructions)''),
     (ce_edx, 9, ''APIC          (On-chip APIC hardware)''),
     (ce_edx, 11, ''SEP           (Fast System Call)''),
     (ce_edx, 12, ''MTRR          (Memory type Range Registers)''),
     (ce_edx, 13, ''PGE           (Page Global Enable)''),
     (ce_edx, 14, ''MCA           (Machine Check Architecture)''),
     (ce_edx, 15, ''CMOV          (Conditional Move Instruction)''),
     (ce_edx, 16, ''PAT           (Page Attribute Table)''),
     (ce_edx, 17, ''PSE36         (36bit Page Size Extension''),
     (ce_edx, 18, ''PSN           (Processor Serial Number)''),
     (ce_edx, 19, ''CLFSH         (CFLUSH Instruction)''),
     (ce_edx, 21, ''DS            (Debug Store)''),
     (ce_edx, 22, ''ACPI          (Thermal Monitor & Software Controlled Clock)''),
     (ce_edx, 23, ''MMX           (Multi-Media Extension)''),
     (ce_edx, 24, ''FXSR          (Fast Floating Point Save & Restore)''),
     (ce_edx, 25, ''SSE           (Streaming SIMD Extension 1)''),
     (ce_edx, 26, ''SSE2          (Streaming SIMD Extension 2)''),
     (ce_edx, 27, ''SS            (Self Snoop)''),
     (ce_edx, 28, ''HTT           (Hyper Threading Technology)''),
     (ce_edx, 29, ''TM            (Thermal Monitor)''),
     (ce_edx, 31, ''PBE           (Pend Break Enabled)''),
     (ce_ecx, 0, ''SSE3          (Streaming SMD Extension 3)''),
     (ce_ecx, 3, ''MW            (Monitor Wait Instruction''),
     (ce_ecx, 4, ''CPL           (CPL-qualified Debug Store)''),
     (ce_ecx, 5, ''VMX           (Virtual Machine Extensions)''),
     (ce_ecx, 7, ''EST           (Enchanced Speed Test)''),
     (ce_ecx, 8, ''TM2           (Thermal Monitor 2)''),
     (ce_ecx, 9, ''SSSE3         (Supplemental Streaming SIMD Extensions 3)''),
     (ce_ecx, 10, ''L1            (L1 Context ID)''),
     (ce_ecx, 12, ''FMA3          (Fused Multiply-Add 3-operand Form)''),
     (ce_ecx, 13, ''CAE           (Compare And Exchange 16B)''),
     (ce_ecx, 19, ''SSE41         (Streaming SIMD Extensions 4.1)''),
     (ce_ecx, 20, ''SSE42         (Streaming SIMD Extensions 4.2)''),
     (ce_ecx, 21, ''X2APIC        (x2apic)''),
     (ce_ecx, 22, ''MOVBE         (MOVBE instruction (big-endian))''),
     (ce_ecx, 23, ''POPCNT        (Advanced Bit Manipulation - Bit Population Count Instruction)''),
     (ce_ecx, 25, ''AES           (Advanced Encryption Standard)''),
     (ce_ecx, 28, ''AVX           (Advanced Vector Extensions)''),
     (ce_ecx, 30, ''RDRAND        (Random Number Generator)'')]"

definition features_0x7 :: feature_table where
  "features_0x7 =
    [(ce_ebx, 5, ''AVX2          (Advanced Vector Extensions 2)''),
     (ce_ebx, 3, ''BMI1          (Bit Manipulations Instruction Set 1)''),
     (ce_ebx, 8, ''BMI2          (Bit Manipulations Instruction Set 2)''),
     (ce_ebx, 19, ''ADX           (Multi-Precision Add-Carry Instruction Extensions)''),
     (ce_ebx, 16, ''AVX512F       (512-bit extensions to Advanced Vector Extensions Foundation)''),
     (ce_ebx, 26, ''AVX512PFI     (512-bit extensions to Advanced Vector Extensions Prefetch Instructions)''),
     (ce_ebx, 27, ''AVX512ERI     (512-bit extensions to Advanced Vector Extensions Exponential and Reciprocal Instructions)''),
     (ce_ebx, 28, ''AVX512CDI     (512-bit extensions to Advanced Vector Extensions Conflict Detection Instructions)''),
     (ce_ebx, 29, ''SHA           (Secure Hash Algorithm)'')]"

definition features_0x80000001 :: feature_table where
  "features_0x80000001 =
    [(ce_edx, 29, ''X64           (64-bit Extensions/Long mode)''),
     (ce_ecx, 0, ''LAHFSAHF      (LAHF and SAHF instruction support in 64-bit mode)''),
     (ce_ecx, 1, ''CmpLegacy     (core multi-processing legacy mode)''),
     (ce_ecx, 2, ''SVM           (Secure Virtual Machine)''),
     (ce_ecx, 5, ''LZCNT         (Advanced Bit Manipulation - Leading Zero Bit Count Instruction)''),
     (ce_ecx, 6, ''SSE4A         (Streaming SIMD Extensions 4a)''),
     (ce_ecx, 7, ''MISALIGNSSE   (Misaligned SSE mode)''),
     (ce_ecx, 8, ''3DNOWPREFETCH (PREFETCH and PREFETCHW instruction support)''),
     (ce_ecx, 10, ''IBS           (Instruction Based Sampling)''),
     (ce_ecx, 11, ''XOP           (Extended Operations)''),
     (ce_ecx, 13, ''WDT           (Watchdog Timer Support)''),
     (ce_ecx, 15, ''LWP           (Light Weight Profiling Support)''),
     (ce_ecx, 16, ''FMA4          (Fused Multiply-Add 4-operand Form)''),
     (ce_ecx, 21, ''TBM           (Trailing Bit Manipulation Instruction)'')]"

text \<open>Numbers as \<^verbatim>\<open>printf\<close> and \<^verbatim>\<open>fmt\<close> write them.\<close>

definition digit :: "nat \<Rightarrow> char" where
  "digit d = char_of (if d < 10 then 48 + d else 87 + d)"

fun digits :: "nat \<Rightarrow> nat \<Rightarrow> string" where
  "digits base n =
     (if base < 2 \<or> n < base then [digit n] else digits base (n div base) @ [digit (n mod base)])"

declare digits.simps [simp del]

definition dec :: "u32 \<Rightarrow> string" where "dec w = digits 10 (unat w)"
definition hex :: "u32 \<Rightarrow> string" where "hex w = ''0x'' @ digits 16 (unat w)"

definition print_vendor :: "kvm_cpuid_entry2 \<Rightarrow> string" where
  "print_vendor e =
     ''Vendor    = '' @ print_ebchar4 (ce_ebx e) @ print_ebchar4 (ce_edx e) @ print_ebchar4 (ce_ecx e) @ newline"

definition print_brand :: "kvm_cpuid_entry2 \<Rightarrow> string" where
  "print_brand e =
     print_ebchar4 (ce_eax e) @ print_ebchar4 (ce_ebx e) @ print_ebchar4 (ce_ecx e) @ print_ebchar4 (ce_edx e)"

definition print_entry :: "kvm_cpuid_entry2 \<Rightarrow> string" where
  "print_entry e =
     (if ce_function e = 0x0 then print_vendor e
      else if ce_function e = 0x1 then print_features features_0x1 e
      else if ce_function e = 0x7 then print_features features_0x7 e
      else if ce_function e = 0x80000000 then print_vendor e
      else if ce_function e = 0x80000001 then print_features features_0x80000001 e
      else if ce_function e = 0x80000002 then ''Processor = '' @ print_brand e
      else if ce_function e = 0x80000003 then print_brand e
      else if ce_function e = 0x80000004 then print_brand e @ newline
      else if ce_function e = 0x80000008 then ''Core Count = '' @ dec (ce_ecx e AND 0xf) @ newline
      else ''kvm::cpuid function '' @ hex (ce_function e) @ '' eax '' @ hex (ce_eax e) @ '' ebx '' @
           hex (ce_ebx e) @ '' ecx '' @ hex (ce_ecx e) @ '' edx '' @ hex (ce_edx e) @ newline)"

fun print_entries :: "kvm_cpuid_entry2 list \<Rightarrow> string" where
  "print_entries [] = []"
| "print_entries (e # es) = print_entry e @ print_entries es"

definition print_cpuid :: "kvm \<Rightarrow> kvm_host \<Rightarrow> (string \<times> kvm_host) res" where
  "print_cpuid k h =
     and_then (get_supported_cpuid MAX_KVM_CPUID_ENTRIES k h) (\<lambda>(entries, h). Inr (print_entries entries, h))"

section \<open>Facts\<close>

lemma filter_cpuid_copy_map: "filter_cpuid_copy es = map filter_copy_entry es"
  by (induction es) simp_all

lemma filter_cpuid_map: "filter_cpuid es = map filter_entry es"
  by (induction es) simp_all

lemma filter_copy_entry_key [simp]:
  "ce_function (filter_copy_entry e) = ce_function e" "ce_index (filter_copy_entry e) = ce_index e"
  by (simp_all add: filter_copy_entry_def)

lemma vendor_words:
  "signature ''LKVMLKVMLKVM'' 0 = 0x4D564B4C" "signature ''LKVMLKVMLKVM'' 1 = 0x4D564B4C"
  "signature ''LKVMLKVMLKVM'' 2 = 0x4D564B4C" "signature ''GenuineIntel'' 0 = 0x756E6547"
  "signature ''GenuineIntel'' 1 = 0x49656E69" "signature ''GenuineIntel'' 2 = 0x6C65746E"
  by (simp_all add: signature_def)

lemma print_ebchar4_signature:
  "length s = 4 \<Longrightarrow> print_ebchar4 (le_word (map of_char s)) = s"
proof -
  assume len: "length s = 4"
  then have "le_bytes 4 (le_word (map of_char s) :: u32) = map of_char s"
    using le_bytes_le_word[of "map of_char s", where 'a = 32] by simp
  moreover have "char_of (unat (of_char c :: u8)) = c" for c
  proof -
    have "unat (of_char c :: u8) = of_char c"
      by (cases c) (simp add: of_char_def unat_of_nat take_bit_nat_eq_self flip: of_nat_of_char)
    then show ?thesis by simp
  qed
  ultimately show ?thesis by (simp add: print_ebchar4_def comp_def)
qed

lemma vendor_printed:
  assumes "ce_function e = 0"
  shows "print_entry (filter_copy_entry e) = ''Vendor    = LKVMLKVMLKVM'' @ newline"
    and "print_entry (filter_entry e) = ''Vendor    = GenuineIntel'' @ newline"
  using assms
  by (simp_all add: print_entry_def print_vendor_def filter_copy_entry_def filter_entry_def signature_def
      print_ebchar4_signature del: list.map le_word.simps)

text \<open>Where the complement is written as a logical negation, the whole register is cleared.\<close>

lemma logical_negation_clears:
  "ce_function e = 0x4 \<Longrightarrow> ce_eax (filter_entry e) = 0"
  "ce_function e = 0x6 \<Longrightarrow> ce_eax (filter_entry e) = 0 \<and> ce_ecx (filter_entry e) = 0"
  by (simp_all add: filter_entry_def filter_cache_leaf_def Let_def cpuid_shifts)

lemma bit_set_clear:
  fixes w :: u32
  shows "n < 32 \<Longrightarrow> bit (w OR push_bit 31 1) n = (n = 31 \<or> bit w n)"
    and "n < 32 \<Longrightarrow> bit (w AND NOT (push_bit 3 1)) n = (n \<noteq> 3 \<and> bit w n)"
  by (simp only: bit_or_iff bit_and_iff bit_not_iff bit_push_bit_iff bit_1_iff possible_bit_word, force)+

lemma counter_fields:
  "version_id eax = 2 \<longleftrightarrow> unat eax mod 256 = 2" "num_counters eax = 0 \<longleftrightarrow> unat eax div 256 mod 256 = 0"
  by (simp_all add: version_id_def num_counters_def word_unat_eq_iff unsigned_ucast_eq take_bit_eq_mod
      unat_drop_bit_eq drop_bit_eq_div unat_div)

text \<open>
  An entry of the host's list and what the guest is to see of it. Each leaf that is changed is pinned
  by the new value of the changed registers and by an equation that leaves everything else alone.
\<close>

definition cpuid_shown :: "kvm_cpuid_entry2 \<Rightarrow> kvm_cpuid_entry2 \<Rightarrow> bool" where
  "cpuid_shown e e' \<longleftrightarrow>
     (ce_function e = 0x0 \<longrightarrow> print_entry e' = ''Vendor    = LKVMLKVMLKVM'' @ newline \<and>
        e' = e\<lparr>ce_ebx := ce_ebx e', ce_ecx := ce_ecx e', ce_edx := ce_edx e'\<rparr>) \<and>
     (ce_function e = 0x1 \<and> ce_index e = 0 \<longrightarrow>
        (\<forall>n < 32. bit (ce_ecx e') n = (n = HYPERVISOR_SHIFT \<or> bit (ce_ecx e) n)) \<and>
        e' = e\<lparr>ce_ecx := ce_ecx e'\<rparr>) \<and>
     (ce_function e = 0x6 \<longrightarrow>
        (\<forall>n < 32. bit (ce_ecx e') n = (n \<noteq> EPB_SHIFT \<and> bit (ce_ecx e) n)) \<and>
        e' = e\<lparr>ce_ecx := ce_ecx e'\<rparr>) \<and>
     (ce_function e = 0xa \<longrightarrow>
        ce_eax e' = (if unat (ce_eax e) mod 256 = 2 \<and> unat (ce_eax e) div 256 mod 256 \<noteq> 0 then ce_eax e else 0) \<and>
        e' = e\<lparr>ce_eax := ce_eax e'\<rparr>) \<and>
     (ce_function e = 0x1 \<and> ce_index e \<noteq> 0 \<or> ce_function e \<notin> {0x0, 0x1, 0x6, 0xa} \<longrightarrow> e' = e)"

section \<open>Properties\<close>

text \<open>C38: What the guest is shown, register by register: the list keeps its length, and each entry
  differs from the host's at most as follows. The vendor leaf has three new registers and prints as
  the KVM tool's name whatever the host is; leaf 1, in its first index, has the hypervisor bit of ECX
  set; leaf 6 has the energy-bias bit of ECX cleared; the performance leaf has EAX zero unless the
  host offers version 2 (bits 0 to 7) with counters (bits 8 to 15), and then EAX is the host's.
  Everything else, the other registers and bits of these leaves included, is the host's.\<close>

theorem cpuid_guest_view:
  "list_all2 cpuid_shown es (filter_cpuid_copy es)"
proof -
  have "cpuid_shown e (filter_copy_entry e)" for e
    unfolding cpuid_shown_def
  proof (intro conjI impI)
    show "print_entry (filter_copy_entry e) = ''Vendor    = LKVMLKVMLKVM'' @ newline" if "ce_function e = 0x0"
      using that by (rule vendor_printed(1))
    show "\<forall>n < 32. bit (ce_ecx (filter_copy_entry e)) n = (n = HYPERVISOR_SHIFT \<or> bit (ce_ecx e) n)"
      if "ce_function e = 0x1 \<and> ce_index e = 0"
      using that bit_set_clear(1)[of _ "ce_ecx e"] by (simp add: filter_copy_entry_def HYPERVISOR_SHIFT_def)
    show "\<forall>n < 32. bit (ce_ecx (filter_copy_entry e)) n = (n \<noteq> EPB_SHIFT \<and> bit (ce_ecx e) n)"
      if "ce_function e = 0x6"
      using that bit_set_clear(2)[of _ "ce_ecx e"] by (simp add: filter_copy_entry_def EPB_SHIFT_def)
    show "ce_eax (filter_copy_entry e) =
        (if unat (ce_eax e) mod 256 = 2 \<and> unat (ce_eax e) div 256 mod 256 \<noteq> 0 then ce_eax e else 0)"
      if "ce_function e = 0xa"
      using that counter_fields[of "ce_eax e"] by (simp add: filter_copy_entry_def)
  qed (auto simp: filter_copy_entry_def)
  then show ?thesis by (simp add: filter_cpuid_copy_map list_all2_conv_all_nth)
qed

theorem cpuid_guest_view_witness:
  "let e = \<lparr>ce_function = 6, ce_index = 0, ce_flags = 0, ce_eax = 0x77, ce_ebx = 2, ce_ecx = 9, ce_edx = 1\<rparr>;
       e' = filter_cpuid_copy [e] ! 0
   in ce_eax e' = 0x77 \<and> ce_ebx e' = 2 \<and> bit (ce_ecx e') 0 \<and> \<not> bit (ce_ecx e') 3 \<and> ce_edx e' = 1"
proof -
  let ?e = "\<lparr>ce_function = 6, ce_index = 0, ce_flags = 0, ce_eax = 0x77, ce_ebx = 2, ce_ecx = 9, ce_edx = 1\<rparr>"
  have "cpuid_shown ?e (filter_cpuid_copy [?e] ! 0)"
    using cpuid_guest_view[of "[?e]"] by (auto simp: list_all2_conv_all_nth)
  then have b: "\<forall>n < 32. bit (ce_ecx (filter_cpuid_copy [?e] ! 0)) n = (n \<noteq> EPB_SHIFT \<and> bit (9 :: u32) n)"
    and f: "filter_cpuid_copy [?e] ! 0 = ?e\<lparr>ce_ecx := ce_ecx (filter_cpuid_copy [?e] ! 0)\<rparr>"
    by (simp_all add: cpuid_shown_def del: filter_cpuid_copy.simps)
  have "ce_eax (filter_cpuid_copy [?e] ! 0) = 0x77" "ce_ebx (filter_cpuid_copy [?e] ! 0) = 2"
    "ce_edx (filter_cpuid_copy [?e] ! 0) = 1" by (subst f, simp)+
  with b show ?thesis by (simp add: Let_def EPB_SHIFT_def bit_numeral_rec del: filter_cpuid_copy.simps)
qed

text \<open>Filtering is done once and for all: a list that has been filtered is left as it is.\<close>

theorem cpuid_filter_idempotent:
  "filter_cpuid_copy (filter_cpuid_copy es) = filter_cpuid_copy es"
proof -
  have "filter_copy_entry (filter_copy_entry e) = filter_copy_entry e" for e
  proof -
    have "(a OR b) OR b = a OR b" "(a AND b) AND b = a AND b" for a b :: u32
      by (rule bit_word_eqI; auto simp: bit_simps)+
    then show ?thesis by (simp add: filter_copy_entry_def)
  qed
  then show ?thesis by (simp add: filter_cpuid_copy_map)
qed

end
