(* ===== verification/Irq_Routing.thy ===== *)
theory Irq_Routing
  imports Kvm_Api
begin

text \<open>
  \<^verbatim>\<open>src/kvm/irq.h\<close> and \<^verbatim>\<open>vm::set_gsi_routing\<close>: the table that connects the interrupt
  numbers of the devices (GSIs) to the pins of the two PICs and the IO-APIC. An entry is a local
  variable of which only four fields are assigned; its flags are a parameter.
\<close>

definition IRQCHIP_MASTER :: u32 where "IRQCHIP_MASTER = 0"
definition IRQCHIP_SLAVE :: u32 where "IRQCHIP_SLAVE = 1"
definition IRQCHIP_IOAPIC :: u32 where "IRQCHIP_IOAPIC = 2"
definition KVM_IRQ_ROUTING_IRQCHIP :: u32 where "KVM_IRQ_ROUTING_IRQCHIP = 1"

lemmas irqchips = IRQCHIP_MASTER_def IRQCHIP_SLAVE_def IRQCHIP_IOAPIC_def KVM_IRQ_ROUTING_IRQCHIP_def

definition create_irq_routing_entry :: "u32 \<Rightarrow> u32 \<Rightarrow> u32 \<Rightarrow> u32 \<Rightarrow> u32 \<Rightarrow> kvm_irq_routing_entry" where
  "create_irq_routing_entry junk gsi type irqchip pin =
     \<lparr>re_gsi = gsi, re_type = type, re_flags = junk, re_irqchip = irqchip, re_pin = pin\<rparr>"

text \<open>The three loops; \<open>junk chip i\<close> is what the stack holds when the entry for \<open>i\<close> is made.\<close>

definition master_entries :: "(u32 \<Rightarrow> nat \<Rightarrow> u32) \<Rightarrow> kvm_irq_routing_entry list" where
  "master_entries junk =
     [create_irq_routing_entry (junk IRQCHIP_MASTER i) (of_nat i) KVM_IRQ_ROUTING_IRQCHIP IRQCHIP_MASTER (of_nat i).
        i \<leftarrow> [0..<8], i \<noteq> 2]"

definition slave_entries :: "(u32 \<Rightarrow> nat \<Rightarrow> u32) \<Rightarrow> kvm_irq_routing_entry list" where
  "slave_entries junk =
     [create_irq_routing_entry (junk IRQCHIP_SLAVE i) (of_nat i) KVM_IRQ_ROUTING_IRQCHIP IRQCHIP_SLAVE (of_nat i - 8).
        i \<leftarrow> [8..<16]]"

definition ioapic_entries :: "(u32 \<Rightarrow> nat \<Rightarrow> u32) \<Rightarrow> kvm_irq_routing_entry list" where
  "ioapic_entries junk = concat (map (\<lambda>i.
     if i = 0
     then [create_irq_routing_entry (junk IRQCHIP_IOAPIC i) (of_nat i) KVM_IRQ_ROUTING_IRQCHIP IRQCHIP_IOAPIC 2]
     else if i \<noteq> 2
     then [create_irq_routing_entry (junk IRQCHIP_IOAPIC i) (of_nat i) KVM_IRQ_ROUTING_IRQCHIP IRQCHIP_IOAPIC (of_nat i)]
     else []) [0..<24])"

definition routing_entries :: "(u32 \<Rightarrow> nat \<Rightarrow> u32) \<Rightarrow> kvm_irq_routing_entry list" where
  "routing_entries junk = master_entries junk @ slave_entries junk @ ioapic_entries junk"

definition set_gsi_routing :: "int \<Rightarrow> kvm_irq_routing_entry list \<Rightarrow> kvm_host \<Rightarrow> kvm_host res" where
  "set_gsi_routing fd router = ioctl_check ''KVM_SET_GSI_ROUTING'' fd (KVM_SET_GSI_ROUTING router)"

definition setup_irq_routing :: "(u32 \<Rightarrow> nat \<Rightarrow> u32) \<Rightarrow> int \<Rightarrow> kvm_host \<Rightarrow> kvm_host res" where
  "setup_irq_routing junk fd h = set_gsi_routing fd (routing_entries junk) h"

section \<open>The wiring\<close>

text \<open>
  A GSI of the legacy range reaches one pin of a PIC and one of the IO-APIC; GSI 0, the timer, sits on
  IO-APIC pin 2, and GSI 2, the cascade, is not connected.
\<close>

definition pins :: "kvm_irq_routing_entry list \<Rightarrow> u32 \<Rightarrow> (u32 \<times> u32) list" where
  "pins es g = [(re_irqchip e, re_pin e). e \<leftarrow> es, re_gsi e = g]"

definition wiring :: "nat \<Rightarrow> (u32 \<times> u32) list" where
  "wiring g =
     (if g = 2 \<or> 24 \<le> g then []
      else (if g < 8 then [(IRQCHIP_MASTER, of_nat g)]
            else if g < 16 then [(IRQCHIP_SLAVE, of_nat (g - 8))] else []) @
           [(IRQCHIP_IOAPIC, if g = 0 then 2 else of_nat g)])"

text \<open>The flags do not matter for the wiring; without them the table is closed.\<close>

definition wire :: "kvm_irq_routing_entry \<Rightarrow> u32 \<times> u32 \<times> u32" where
  "wire e = (re_gsi e, re_irqchip e, re_pin e)"

definition wires :: "(u32 \<times> u32 \<times> u32) list" where
  "wires = [(0, 0, 0), (1, 0, 1), (3, 0, 3), (4, 0, 4), (5, 0, 5), (6, 0, 6), (7, 0, 7), (8, 1, 0), (9, 1, 1), (10, 1, 2), (11, 1, 3), (12, 1, 4), (13, 1, 5), (14, 1, 6), (15, 1, 7), (0, 2, 2), (1, 2, 1), (3, 2, 3), (4, 2, 4), (5, 2, 5), (6, 2, 6), (7, 2, 7), (8, 2, 8), (9, 2, 9), (10, 2, 10), (11, 2, 11), (12, 2, 12), (13, 2, 13), (14, 2, 14), (15, 2, 15), (16, 2, 16), (17, 2, 17), (18, 2, 18), (19, 2, 19), (20, 2, 20), (21, 2, 21), (22, 2, 22), (23, 2, 23)]"

lemma wire_entry [simp]: "wire (create_irq_routing_entry j g t c p) = (g, c, p)"
  by (simp add: wire_def create_irq_routing_entry_def)

lemma pins_wires: "pins es g = map snd (filter (\<lambda>w. fst w = g) (map wire es))"
  by (induction es) (simp_all add: pins_def wire_def)

lemma upto: "[0..<8] = [0, 1, 2, 3, 4, 5, 6, 7]" "[8..<16] = [8, 9, 10, 11, 12, 13, 14, 15]"
  "[0..<24] = [0, 1, 2, 3, 4, 5, 6, 7, 8, 9, 10, 11, 12, 13, 14, 15, 16, 17, 18, 19, 20, 21, 22, 23]"
  by (simp_all add: upt_rec)

lemma wires_of_table: "map wire (routing_entries junk) = wires"
  by (simp add: wires_def routing_entries_def master_entries_def slave_entries_def ioapic_entries_def upto irqchips)

lemma wires_closed: "list_all (\<lambda>g. map snd (filter (\<lambda>w. fst w = of_nat g) wires) = wiring g) [0..<24]"
  "list_all (\<lambda>w. fst w < 24) wires" "distinct (map snd wires)"
  by (simp_all add: wires_def upto wiring_def irqchips)

lemma pins_routing: "g < 24 \<Longrightarrow> pins (routing_entries junk) (of_nat g) = wiring g"
  using wires_closed(1) by (simp add: pins_wires wires_of_table list_all_iff)

lemma routing_gsis: "\<forall>e \<in> set (routing_entries junk). re_gsi e < 24"
proof -
  have "\<forall>w \<in> set (map wire (routing_entries junk)). fst w < 24"
    using wires_closed(2) unfolding wires_of_table by (simp add: list_all_iff)
  then show ?thesis by (simp add: wire_def)
qed

lemma routing_pins_distinct: "distinct (map (\<lambda>e. (re_irqchip e, re_pin e)) (routing_entries junk))"
proof -
  have "distinct (map snd (map wire (routing_entries junk)))"
    using wires_closed(3) unfolding wires_of_table .
  then show ?thesis by (simp add: wire_def comp_def)
qed

section \<open>Properties\<close>

text \<open>C39: The one call the set-up makes hands KVM the whole wiring: every interrupt number below 24 reaches
  exactly the pins of the legacy PC (the timer on pin 2 of the IO-APIC, the cascade nowhere),
  no number from 24 on is routed, and no pin is driven twice.\<close>

theorem irq_routing_wires_pc:
  assumes "willing 1 h"
  shows "\<exists>h' es. setup_irq_routing junk fd h = Inr h' \<and> kh_log h' = kh_log h @ [(fd, KVM_SET_GSI_ROUTING es)] \<and>
    (\<forall>g < 24. pins es (of_nat g) = wiring g) \<and> (\<forall>e \<in> set es. re_gsi e < 24) \<and>
    distinct (map (\<lambda>e. (re_irqchip e, re_pin e)) es)"
  using ioctl_check_ok(1)[of 0 h] assms pins_routing routing_gsis routing_pins_distinct
  by (simp add: setup_irq_routing_def set_gsi_routing_def)

theorem irq_routing_wires_pc_witness:
  "\<exists>h' es. setup_irq_routing (\<lambda>_ _. 0) 5 (host_ok 1) = Inr h' \<and> kh_log h' = [(5, KVM_SET_GSI_ROUTING es)] \<and>
     pins es 4 = [(IRQCHIP_MASTER, 4), (IRQCHIP_IOAPIC, 4)] \<and> pins es 12 = [(IRQCHIP_SLAVE, 4), (IRQCHIP_IOAPIC, 12)]"
proof -
  have "willing 1 (host_ok 1)" by simp
  from irq_routing_wires_pc[OF this, of "\<lambda>_ _. 0" 5] obtain h' es where
    r: "setup_irq_routing (\<lambda>_ _. 0) 5 (host_ok 1) = Inr h'" "kh_log h' = kh_log (host_ok 1) @ [(5, KVM_SET_GSI_ROUTING es)]"
       "\<forall>g < 24. pins es (of_nat g) = wiring g"
    by blast
  from r(3)[rule_format, of 4] r(3)[rule_format, of 12] r(1,2) show ?thesis
    by (auto simp: wiring_def host_ok_def)
qed

end
