(* ===== verification/Vcpu_Setup.thy ===== *)
theory Vcpu_Setup
  imports Kvm_Api
begin

text \<open>
  \<^verbatim>\<open>src/kvm/msr.h\<close> and \<^verbatim>\<open>src/kvm/apic.h\<close>: the model-specific registers and the local
  interrupt pins every processor starts with. The state of the local APIC is the byte image KVM
  exchanges.
\<close>

section \<open>Model-specific registers\<close>

definition MSR_STAR :: u32 where "MSR_STAR = 0xc0000081"
definition MSR_LSTAR :: u32 where "MSR_LSTAR = 0xc0000082"
definition MSR_CSTAR :: u32 where "MSR_CSTAR = 0xc0000083"
definition MSR_SYSCALL_MASK :: u32 where "MSR_SYSCALL_MASK = 0xc0000084"
definition MSR_KERNEL_GS_BASE :: u32 where "MSR_KERNEL_GS_BASE = 0xc0000102"
definition MSR_IA32_SYSENTER_CS :: u32 where "MSR_IA32_SYSENTER_CS = 0x00000174"
definition MSR_IA32_SYSENTER_ESP :: u32 where "MSR_IA32_SYSENTER_ESP = 0x00000175"
definition MSR_IA32_SYSENTER_EIP :: u32 where "MSR_IA32_SYSENTER_EIP = 0x00000176"
definition MSR_IA32_TSC :: u32 where "MSR_IA32_TSC = 0x00000010"
definition MSR_IA32_MISC_ENABLE :: u32 where "MSR_IA32_MISC_ENABLE = 0x000001a0"
definition MSR_IA32_MISC_ENABLE_FAST_STRING :: u64 where "MSR_IA32_MISC_ENABLE_FAST_STRING = push_bit 0 1"

lemmas msr_numbers = MSR_STAR_def MSR_LSTAR_def MSR_CSTAR_def MSR_SYSCALL_MASK_def MSR_KERNEL_GS_BASE_def
  MSR_IA32_SYSENTER_CS_def MSR_IA32_SYSENTER_ESP_def MSR_IA32_SYSENTER_EIP_def MSR_IA32_TSC_def
  MSR_IA32_MISC_ENABLE_def

definition boot_msrs :: "kvm_msr_entry list" where
  "boot_msrs = map (\<lambda>(i, d). \<lparr>msr_index = i, msr_data = d\<rparr>)
     [(MSR_IA32_SYSENTER_CS, 0), (MSR_IA32_SYSENTER_ESP, 0), (MSR_IA32_SYSENTER_EIP, 0),
      (MSR_STAR, 0), (MSR_CSTAR, 0), (MSR_KERNEL_GS_BASE, 0), (MSR_SYSCALL_MASK, 0), (MSR_LSTAR, 0),
      (MSR_IA32_TSC, 0), (MSR_IA32_MISC_ENABLE, MSR_IA32_MISC_ENABLE_FAST_STRING)]"

definition setup_msrs :: "int \<Rightarrow> kvm_host \<Rightarrow> kvm_host res" where
  "setup_msrs cpu h = set_msrs cpu boot_msrs h"

lemma boot_msrs_distinct: "distinct (map msr_index boot_msrs)" "length boot_msrs = 10"
  by (simp_all add: boot_msrs_def msr_numbers)

section \<open>Local interrupt pins\<close>

definition APIC_LVT0 :: nat where "APIC_LVT0 = 0x350"
definition APIC_LVT1 :: nat where "APIC_LVT1 = 0x360"
definition APIC_MODE_NMI :: u32 where "APIC_MODE_NMI = 0x4"
definition APIC_MODE_EXTINT :: u32 where "APIC_MODE_EXTINT = 0x7"

definition apic_delivery_mode :: "u32 \<Rightarrow> u32 \<Rightarrow> u32" where
  "apic_delivery_mode reg mode = (reg AND lognot 0x700) OR push_bit 8 mode"

definition set_lvt :: "nat \<Rightarrow> u32 \<Rightarrow> u8 list \<Rightarrow> u8 list res" where
  "set_lvt off mode regs =
     and_then (buf_read regs off 4) (\<lambda>bs.
     buf_write regs off (le_bytes 4 (apic_delivery_mode (le_word bs) mode)))"

definition setup_lapic :: "int \<Rightarrow> kvm_host \<Rightarrow> kvm_host res" where
  "setup_lapic cpu h =
     and_then (get_lapic cpu h) (\<lambda>(regs, h).
     and_then (set_lvt APIC_LVT0 APIC_MODE_EXTINT regs) (\<lambda>regs.
     and_then (set_lvt APIC_LVT1 APIC_MODE_NMI regs) (\<lambda>regs.
     set_lapic cpu regs h)))"

section \<open>Facts\<close>

text \<open>\<^verbatim>\<open>!0x700\<close> is 0: nothing of the old register survives, its mask bit included.\<close>

lemma apic_delivery_mode_forgets: "apic_delivery_mode reg mode = push_bit 8 mode"
  by (simp add: apic_delivery_mode_def)

lemma set_lvt_ok:
  assumes "off + 4 \<le> length regs"
  shows "set_lvt off mode regs =
    Inr (take off regs @ le_bytes 4 (push_bit 8 mode) @ drop (off + 4) regs)"
proof -
  have "le_bytes 4 (push_bit 8 mode) \<noteq> []" by (metis length_0_conv length_le_bytes zero_neq_numeral)
  then show ?thesis
    using assms by (simp add: set_lvt_def buf_read_def buf_write_def apic_delivery_mode_forgets)
qed

definition lvt_image :: "u8 list \<Rightarrow> u8 list" where
  "lvt_image regs = take 0x350 regs @ [0, 7, 0, 0] @ take 12 (drop 0x354 regs) @ [0, 4, 0, 0] @ drop 0x364 regs"

lemma mode_bytes: "le_bytes 4 (0x700 :: u32) = [0, 7, 0, 0]" "le_bytes 4 (0x400 :: u32) = [0, 4, 0, 0]"
  by (simp_all add: le_bytes_def upt_rec)

lemma set_lvts:
  assumes "length regs = 1024"
  shows "and_then (set_lvt APIC_LVT0 APIC_MODE_EXTINT regs) (set_lvt APIC_LVT1 APIC_MODE_NMI) = Inr (lvt_image regs)"
  using assms
  by (simp add: set_lvt_ok APIC_LVT0_def APIC_LVT1_def APIC_MODE_EXTINT_def APIC_MODE_NMI_def mode_bytes
      lvt_image_def take_drop)

section \<open>Properties\<close>

text \<open>The local interrupt set-up of a processor writes back the register image it read with the two
  pins replaced, LINT0 to ExtINT and LINT1 to NMI, unmasked and with vector 0 whatever they held
  before; all other registers are kept.\<close>

theorem lapic_pins_set:
  assumes "willing 2 h" "\<forall>cpu. length (kh_lapic h cpu) = 1024"
  shows "\<exists>h'. setup_lapic cpu h = Inr h' \<and>
    kh_log h' = kh_log h @ [(cpu, KVM_GET_LAPIC), (cpu, KVM_SET_LAPIC (lvt_image (kh_lapic h cpu)))]"
proof -
  let ?h = "h\<lparr>kh_answers := tl (kh_answers h), kh_log := kh_log h @ [(cpu, KVM_GET_LAPIC)]\<rparr>"
  have w: "willing (Suc 1) h" using assms(1) by (simp add: numeral_2_eq_2)
  have "get_lapic cpu h = Inr (kh_lapic h cpu, ?h)" by (simp add: get_lapic_def ioctl_check_ok(1)[OF w])
  moreover have "willing (Suc 0) ?h" using ioctl_check_ok(2)[OF w, of cpu KVM_GET_LAPIC] by simp
  moreover obtain r where "set_lvt APIC_LVT0 APIC_MODE_EXTINT (kh_lapic h cpu) = Inr r"
    "set_lvt APIC_LVT1 APIC_MODE_NMI r = Inr (lvt_image (kh_lapic h cpu))"
    using set_lvts[of "kh_lapic h cpu"] assms(2) by auto
  ultimately show ?thesis
    by (simp add: setup_lapic_def set_lapic_def ioctl_check_ok(1))
qed

theorem lapic_pins_set_witness:
  "\<exists>h'. setup_lapic 7 (host_ok 2) = Inr h' \<and>
    kh_log h' = [(7, KVM_GET_LAPIC), (7, KVM_SET_LAPIC (lvt_image (replicate 1024 0)))]"
  using lapic_pins_set[of "host_ok 2" 7] by simp

end
