(* ===== verification/Rtc.thy ===== *)
theory Rtc
  imports Prelude
begin

text \<open>
  \<^verbatim>\<open>src/kvm/device/rtc.h\<close>: the MC146818 clock. The broken-down time \<^verbatim>\<open>gmtime\<close> delivers is a
  parameter of a read; the bytes of the uninitialised CMOS are a parameter of the constructor. (The
  calls in \<^verbatim>\<open>vm.h\<close> are commented out.)
\<close>

section \<open>Registers\<close>

definition RTC_SECONDS :: u8 where "RTC_SECONDS = 0x00"
definition RTC_SECONDS_ALARM :: u8 where "RTC_SECONDS_ALARM = 0x01"
definition RTC_MINUTES :: u8 where "RTC_MINUTES = 0x02"
definition RTC_MINUTES_ALARM :: u8 where "RTC_MINUTES_ALARM = 0x03"
definition RTC_HOURS :: u8 where "RTC_HOURS = 0x04"
definition RTC_HOURS_ALARM :: u8 where "RTC_HOURS_ALARM = 0x05"
definition RTC_DAY_OF_WEEK :: u8 where "RTC_DAY_OF_WEEK = 0x06"
definition RTC_DAY_OF_MONTH :: u8 where "RTC_DAY_OF_MONTH = 0x07"
definition RTC_MONTH :: u8 where "RTC_MONTH = 0x08"
definition RTC_YEAR :: u8 where "RTC_YEAR = 0x09"
definition RTC_CENTURY :: u8 where "RTC_CENTURY = 0x32"
definition RTC_REG_A :: u8 where "RTC_REG_A = 0x0A"
definition RTC_REG_B :: u8 where "RTC_REG_B = 0x0B"
definition RTC_REG_C :: u8 where "RTC_REG_C = 0x0C"
definition RTC_REG_D :: u8 where "RTC_REG_D = 0x0D"

lemmas rtc_regs = RTC_SECONDS_def RTC_MINUTES_def RTC_HOURS_def RTC_DAY_OF_WEEK_def
  RTC_DAY_OF_MONTH_def RTC_MONTH_def RTC_YEAR_def RTC_CENTURY_def RTC_REG_C_def RTC_REG_D_def

text \<open>\<^verbatim>\<open>struct tm\<close>\<close>

record tm =
  tm_sec :: int
  tm_min :: int
  tm_hour :: int
  tm_mday :: int
  tm_mon :: int
  tm_year :: int
  tm_wday :: int

record rtc =
  rtc_idx :: u8
  rtc_cmos :: "u8 list"

definition rtc_new :: "u8 list \<Rightarrow> rtc" where
  "rtc_new cmos = \<lparr>rtc_idx = 0, rtc_cmos = cmos\<rparr>"

section \<open>Operations\<close>

definition bin2bcd :: "u32 \<Rightarrow> u8" where
  "bin2bcd val = ucast (push_bit 4 (val div 10) + val mod 10)"

text \<open>C's \<^verbatim>\<open>/\<close> and \<^verbatim>\<open>%\<close> on a year, which \<^verbatim>\<open>gmtime\<close> may make negative, truncate toward zero.\<close>

definition c_div :: "int \<Rightarrow> int \<Rightarrow> int" where
  "c_div a b = sgn a * sgn b * (\<bar>a\<bar> div \<bar>b\<bar>)"

definition c_mod :: "int \<Rightarrow> int \<Rightarrow> int" where
  "c_mod a b = a - c_div a b * b"

definition rtc_value :: "tm \<Rightarrow> rtc \<Rightarrow> u8 res" where
  "rtc_value t d =
     (if rtc_idx d = RTC_SECONDS then Inr (bin2bcd (of_int (tm_sec t)))
      else if rtc_idx d = RTC_MINUTES then Inr (bin2bcd (of_int (tm_min t)))
      else if rtc_idx d = RTC_HOURS then Inr (bin2bcd (of_int (tm_hour t)))
      else if rtc_idx d = RTC_DAY_OF_WEEK then Inr (bin2bcd (of_int (tm_wday t + 1)))
      else if rtc_idx d = RTC_DAY_OF_MONTH then Inr (bin2bcd (of_int (tm_mday t)))
      else if rtc_idx d = RTC_MONTH then Inr (bin2bcd (of_int (tm_mon t + 1)))
      else if rtc_idx d = RTC_YEAR then Inr (bin2bcd (of_int (c_mod (tm_year t + 1900) 100)))
      else if rtc_idx d = RTC_CENTURY then Inr (bin2bcd (of_int (c_div (tm_year t + 1900) 100)))
      else arr_get (rtc_cmos d) (unat (rtc_idx d)))"

definition rtc_read :: "tm \<Rightarrow> u64 \<Rightarrow> u32 \<Rightarrow> rtc \<Rightarrow> u8 list res" where
  "rtc_read t off sz d =
     and_then (rtc_value t d) (\<lambda>v. arr_set (zero_buf sz) 0 v)"

definition rtc_write :: "u8 list \<Rightarrow> u64 \<Rightarrow> u32 \<Rightarrow> rtc \<Rightarrow> rtc res" where
  "rtc_write data off sz d =
     (if rtc_idx d = RTC_REG_C \<or> rtc_idx d = RTC_REG_D then Inr d
      else and_then (arr_get data 0) (\<lambda>b.
           and_then (arr_set (rtc_cmos d) (unat (rtc_idx d)) b) (\<lambda>cmos. Inr (d\<lparr>rtc_cmos := cmos\<rparr>))))"

definition write_index :: "u8 list \<Rightarrow> u8 \<Rightarrow> u8 \<Rightarrow> rtc \<Rightarrow> rtc res" where
  "write_index data off sz d =
     and_then (arr_get data 0) (\<lambda>b. Inr (d\<lparr>rtc_idx := b AND NOT (push_bit 7 1)\<rparr>))"

section \<open>Facts\<close>

definition rtc_ok :: "rtc \<Rightarrow> bool" where
  "rtc_ok d \<longleftrightarrow> length (rtc_cmos d) = 128 \<and> unat (rtc_idx d) < 128"

lemma unat_low7: "unat ((b :: u8) AND NOT (push_bit 7 1)) < 128"
proof -
  have "b AND NOT (push_bit 7 1) = take_bit 7 b"
    by (rule bit_word_eqI) (auto simp only: bit_and_iff bit_not_iff bit_push_bit_iff bit_1_iff bit_take_bit_iff possible_bit_word, auto)
  then show ?thesis
    by (simp add: unsigned_take_bit_eq take_bit_nat_less_exp[of 7, simplified])
qed

lemma rtc_new_ok: "length cmos = 128 \<Longrightarrow> rtc_ok (rtc_new cmos)"
  by (simp add: rtc_ok_def rtc_new_def)

definition timekeeping :: "u8 \<Rightarrow> bool" where
  "timekeeping i \<longleftrightarrow> i \<in> {RTC_SECONDS, RTC_MINUTES, RTC_HOURS, RTC_DAY_OF_WEEK, RTC_DAY_OF_MONTH,
     RTC_MONTH, RTC_YEAR, RTC_CENTURY}"

text \<open>What a guest decodes from a BCD byte.\<close>

definition bcd2bin :: "u8 \<Rightarrow> nat" where
  "bcd2bin b = unat b div 16 * 10 + unat b mod 16"

lemma bcd_roundtrip: "n < 100 \<Longrightarrow> bcd2bin (bin2bcd (of_nat n)) = n"
proof -
  assume n: "n < 100"
  have u: "unat (of_nat n :: u32) = n" using n by (intro unat_of_nat_small) simp
  have "n div 10 < 10" using n by simp
  then have "16 * (n div 10) + n mod 10 < 256" by linarith
  moreover have "unat (push_bit 4 ((of_nat n :: u32) div 10)) = 16 * (n div 10)"
    using n by (simp add: push_bit_eq_mult unat_word_ariths unat_div u)
  ultimately have "unat (bin2bcd (of_nat n)) = 16 * (n div 10) + n mod 10"
    using n by (simp add: bin2bcd_def unsigned_ucast_eq unat_word_ariths unat_mod u take_bit_nat_eq_self)
  then show ?thesis by (simp add: bcd2bin_def)
qed

lemma write_index_ok:
  assumes "rtc_ok d"
  shows "\<exists>d'. write_index (b # bs) off sz d = Inr d' \<and> rtc_ok d' \<and> rtc_cmos d' = rtc_cmos d \<and>
    rtc_idx d' = b AND NOT (push_bit 7 1)"
  using assms unat_low7[of b] by (simp add: write_index_def rtc_ok_def)

lemma rtc_read_ok:
  assumes "rtc_ok d" "sz \<noteq> 0"
  shows "\<exists>v. rtc_value t d = Inr v \<and> rtc_read t off sz d = Inr (byte_reply sz v)"
  using assms by (auto simp: rtc_read_def rtc_value_def rtc_ok_def)

lemma rtc_write_ok:
  assumes "rtc_ok d"
  shows "\<exists>d'. rtc_write (b # bs) off sz d = Inr d' \<and> rtc_ok d' \<and> rtc_idx d' = rtc_idx d"
  using assms by (auto simp: rtc_write_def rtc_ok_def)

section \<open>Properties\<close>

text \<open>The clock is safe against every guest: whatever byte selects a register, the selection stays inside
  the 128 bytes of the CMOS, and every read and write of at least one byte is then served.\<close>

theorem rtc_stays_in_cmos:
  assumes "rtc_ok d" "sz \<noteq> 0"
  shows "\<exists>d1. write_index (b # bs) n 1 d = Inr d1 \<and> rtc_ok d1 \<and>
    (\<exists>buf. rtc_read t off sz d1 = Inr buf \<and> length buf = unat sz) \<and>
    (\<exists>d2. rtc_write (c # cs) off sz d1 = Inr d2 \<and> rtc_ok d2)"
proof -
  obtain d1 where d1: "write_index (b # bs) n 1 d = Inr d1" "rtc_ok d1"
    using write_index_ok[OF assms(1), of b bs n 1] by blast
  moreover have "\<exists>buf. rtc_read t off sz d1 = Inr buf \<and> length buf = unat sz"
    using rtc_read_ok[OF d1(2) assms(2), of t off] assms(2) by auto
  moreover have "\<exists>d2. rtc_write (c # cs) off sz d1 = Inr d2 \<and> rtc_ok d2"
    using rtc_write_ok[OF d1(2)] by blast
  ultimately show ?thesis by blast
qed

definition epoch :: tm where
  "epoch = \<lparr>tm_sec = 59, tm_min = 30, tm_hour = 23, tm_mday = 31, tm_mon = 11, tm_year = 99, tm_wday = 5\<rparr>"

theorem rtc_stays_in_cmos_witness:
  "\<exists>d1. write_index [0xFF] 0 1 (rtc_new (replicate 128 0)) = Inr d1 \<and> rtc_ok d1 \<and>
    (\<exists>buf. rtc_read epoch 0 1 d1 = Inr buf \<and> length buf = 1)"
  using rtc_stays_in_cmos[of "rtc_new (replicate 128 0)" 1 "0xFF" "[]" 0 epoch 0 0 "[]"] rtc_new_ok
  by fastforce

text \<open>A guest that decodes the BCD registers reads the time \<^verbatim>\<open>gmtime\<close> reported, years of four digits
  included, and a byte stored in any other register but the two read-only ones is read back.\<close>

theorem rtc_reads_back:
  assumes "rtc_ok d" "0 \<le> tm_sec t" "tm_sec t < 61" "0 \<le> tm_mon t" "tm_mon t < 12"
    and "0 \<le> tm_year t + 1900" "tm_year t + 1900 < 10000"
  shows "(\<exists>s m y c. rtc_value t (d\<lparr>rtc_idx := RTC_SECONDS\<rparr>) = Inr s \<and> int (bcd2bin s) = tm_sec t \<and>
      rtc_value t (d\<lparr>rtc_idx := RTC_MONTH\<rparr>) = Inr m \<and> int (bcd2bin m) = tm_mon t + 1 \<and>
      rtc_value t (d\<lparr>rtc_idx := RTC_YEAR\<rparr>) = Inr y \<and> rtc_value t (d\<lparr>rtc_idx := RTC_CENTURY\<rparr>) = Inr c \<and>
      int (bcd2bin c * 100 + bcd2bin y) = tm_year t + 1900) \<and>
    (\<not> timekeeping (rtc_idx d) \<and> rtc_idx d \<notin> {RTC_REG_C, RTC_REG_D} \<longrightarrow>
      (\<exists>d'. rtc_write (b # bs) off sz d = Inr d' \<and> rtc_value t d' = Inr b))"
proof -
  let ?y = "tm_year t + 1900"
  have bcd: "int (bcd2bin (bin2bcd (of_int n))) = n" if "0 \<le> n" "n < 100" for n
    using bcd_roundtrip[of "nat n"] that by (simp add: nat_less_iff)
  have year: "c_mod ?y 100 = ?y mod 100" "c_div ?y 100 = ?y div 100"
    using assms(6) by (auto simp: c_mod_def c_div_def sgn_if minus_div_mult_eq_mod)
  have "?y div 100 * 100 + ?y mod 100 = ?y" by simp
  moreover have "0 \<le> ?y div 100" "?y div 100 < 100" "0 \<le> ?y mod 100" "?y mod 100 < 100"
    using assms(6,7) by auto
  ultimately have "int (bcd2bin (bin2bcd (of_int (c_div ?y 100))) * 100 + bcd2bin (bin2bcd (of_int (c_mod ?y 100)))) = ?y"
    unfolding year by (simp add: bcd del: of_int_add)
  moreover have "int (bcd2bin (bin2bcd (of_int (tm_sec t)))) = tm_sec t"
    "int (bcd2bin (bin2bcd (of_int (tm_mon t + 1)))) = tm_mon t + 1"
    using assms(2-5) by (simp_all add: bcd del: of_int_add)
  moreover have "\<exists>d'. rtc_write (b # bs) off sz d = Inr d' \<and> rtc_value t d' = Inr b"
    if "\<not> timekeeping (rtc_idx d)" "rtc_idx d \<notin> {RTC_REG_C, RTC_REG_D}"
    using that assms(1) by (simp add: rtc_write_def rtc_value_def timekeeping_def rtc_ok_def)
  ultimately show ?thesis
    by (simp add: rtc_value_def rtc_regs del: of_int_add)
qed

theorem rtc_reads_back_witness:
  "\<exists>y c. rtc_value epoch (rtc_new (replicate 128 0)\<lparr>rtc_idx := RTC_YEAR\<rparr>) = Inr y \<and>
     rtc_value epoch (rtc_new (replicate 128 0)\<lparr>rtc_idx := RTC_CENTURY\<rparr>) = Inr c \<and>
     int (bcd2bin c * 100 + bcd2bin y) = 1999"
proof -
  have t: "0 \<le> tm_sec epoch" "tm_sec epoch < 61" "0 \<le> tm_mon epoch" "tm_mon epoch < 12"
    "0 \<le> tm_year epoch + 1900" "tm_year epoch + 1900 < 10000" "tm_year epoch + 1900 = 1999"
    by (simp_all add: epoch_def)
  have "rtc_ok (rtc_new (replicate 128 0))" by (simp add: rtc_new_ok)
  from rtc_reads_back[OF this t(1-6), of 0 "[]" 0 0, unfolded t(7)] show ?thesis by blast
qed

end
