(* ===== verification/Vm_Memory.thy ===== *)
theory Vm_Memory
  imports Kvm_Api
begin

text \<open>
  The memory of the machine, from \<^verbatim>\<open>src/kvm/vm.h\<close>: the mapping and the slots
  \<^verbatim>\<open>create_memory\<close> registers, and the boot parameters with the e820 table the kernel reads
  (\<^verbatim>\<open>setup_bootparams\<close>). The layout of the boot parameters is that of the Linux x86 boot
  protocol. \<open>mmap\<close> answers with an address or fails; it is a parameter.
\<close>

section \<open>Constants\<close>

definition KERNEL_BOOT_FLAG_MAGIC :: u64 where "KERNEL_BOOT_FLAG_MAGIC = 0xaa55"
definition KERNEL_HDR_MAGIC :: u64 where "KERNEL_HDR_MAGIC = 0x53726448"
definition KERNEL_LOADER_OTHER :: u64 where "KERNEL_LOADER_OTHER = 0xff"
definition KERNEL_MIN_ALIGNMENT_BYTES :: u64 where "KERNEL_MIN_ALIGNMENT_BYTES = 0x1000000"
definition KVM_32BIT_MAX_MEM_SIZE :: u64 where "KVM_32BIT_MAX_MEM_SIZE = push_bit 32 1"
definition KVM_32BIT_GAP_SIZE :: u64 where "KVM_32BIT_GAP_SIZE = push_bit 20 768"
definition KVM_32BIT_GAP_START :: u64 where
  "KVM_32BIT_GAP_START = KVM_32BIT_MAX_MEM_SIZE - KVM_32BIT_GAP_SIZE"

lemma gap_values:
  "KVM_32BIT_MAX_MEM_SIZE = 0x100000000" "KVM_32BIT_GAP_SIZE = 0x30000000" "KVM_32BIT_GAP_START = 0xd0000000"
  by (simp_all add: KVM_32BIT_MAX_MEM_SIZE_def KVM_32BIT_GAP_SIZE_def KVM_32BIT_GAP_START_def)

section \<open>Creating the memory\<close>

definition mapping_size :: "u64 \<Rightarrow> u64" where
  "mapping_size mem = (if mem \<ge> KVM_32BIT_GAP_START then mem + KVM_32BIT_GAP_SIZE else mem)"

definition set_region :: "int \<Rightarrow> kvm_userspace_memory_region \<Rightarrow> kvm_host \<Rightarrow> kvm_host res" where
  "set_region fd r = ioctl_check ''KVM_SET_USER_MEMORY_REGION'' fd (KVM_SET_USER_MEMORY_REGION r)"

definition create_memory :: "int \<Rightarrow> u64 option \<Rightarrow> u64 \<Rightarrow> kvm_host \<Rightarrow> (gmem \<times> kvm_host) res" where
  "create_memory fd mmap mem h =
     (let memory_size = mapping_size mem in
      case mmap of None \<Rightarrow> Inl (Exn (RuntimeError ''memory map failed''))
      | Some memory \<Rightarrow>
        and_then
          (if memory_size < KVM_32BIT_GAP_START then
             set_region fd \<lparr>mr_slot = 0, mr_flags = 0, mr_guest_phys_addr = 0,
               mr_memory_size = memory_size, mr_userspace_addr = memory\<rparr> h
           else
             and_then (set_region fd \<lparr>mr_slot = 0, mr_flags = 0, mr_guest_phys_addr = 0,
               mr_memory_size = KVM_32BIT_GAP_START, mr_userspace_addr = memory\<rparr> h)
             (set_region fd \<lparr>mr_slot = 1, mr_flags = 0, mr_guest_phys_addr = KVM_32BIT_MAX_MEM_SIZE,
               mr_memory_size = memory_size - KVM_32BIT_MAX_MEM_SIZE,
               mr_userspace_addr = memory + KVM_32BIT_MAX_MEM_SIZE\<rparr>))
          (\<lambda>h.
        and_then (ioctl_check ''KVM_SET_TSS_ADDR'' fd (KVM_SET_TSS_ADDR 0xfffbd000) h) (\<lambda>h.
        Inr (\<lparr>gm_size = memory_size, gm_byte = (\<lambda>_. 0)\<rparr>, h))))"

section \<open>Boot parameters\<close>

definition E820_RAM :: u32 where "E820_RAM = 1"
definition boot_params_size :: nat where "boot_params_size = 4096"

text \<open>Offsets in \<^verbatim>\<open>struct boot_params\<close>.\<close>

definition E820_ENTRIES_OFF :: u64 where "E820_ENTRIES_OFF = 0x1e8"
definition BOOT_FLAG_OFF :: u64 where "BOOT_FLAG_OFF = 0x1fe"
definition HEADER_OFF :: u64 where "HEADER_OFF = 0x202"
definition TYPE_OF_LOADER_OFF :: u64 where "TYPE_OF_LOADER_OFF = 0x210"
definition CMD_LINE_PTR_OFF :: u64 where "CMD_LINE_PTR_OFF = 0x228"
definition KERNEL_ALIGNMENT_OFF :: u64 where "KERNEL_ALIGNMENT_OFF = 0x230"
definition CMDLINE_SIZE_OFF :: u64 where "CMDLINE_SIZE_OFF = 0x238"
definition E820_TABLE_OFF :: u64 where "E820_TABLE_OFF = 0x2d0"

lemmas boot_offsets = E820_ENTRIES_OFF_def BOOT_FLAG_OFF_def HEADER_OFF_def TYPE_OF_LOADER_OFF_def
  CMD_LINE_PTR_OFF_def KERNEL_ALIGNMENT_OFF_def CMDLINE_SIZE_OFF_def E820_TABLE_OFF_def

text \<open>
  One entry of the e820 table: the current count is read back from the page, the entry is written
  at that index, and the count is incremented.
\<close>

definition add_e820 :: "u64 \<Rightarrow> u64 \<Rightarrow> u32 \<Rightarrow> gmem \<Rightarrow> gmem res" where
  "add_e820 addr len type m =
     and_then (load_bytes m (ZERO_PAGE_START + E820_ENTRIES_OFF) 1) (\<lambda>n.
     let e = ZERO_PAGE_START + E820_TABLE_OFF + 20 * ucast (hd n) in
     and_then (store64 m e addr) (\<lambda>m.
     and_then (store64 m (e + 8) len) (\<lambda>m.
     and_then (store32 m (e + 16) type) (\<lambda>m.
     store_bytes m (ZERO_PAGE_START + E820_ENTRIES_OFF) [hd n + 1]))))"

definition setup_bootparams :: "u8 list \<Rightarrow> gmem \<Rightarrow> gmem res" where
  "setup_bootparams cmdline m =
     (let mem_size = gm_size m in
      and_then (store_bytes m ZERO_PAGE_START (replicate boot_params_size 0)) (\<lambda>m.
      and_then (store_bytes m CMDLINE_START cmdline) (\<lambda>m.
      and_then (add_e820 0 EBDA_START E820_RAM m) (\<lambda>m.
      and_then
        (if mem_size < KVM_32BIT_GAP_START then
           add_e820 HIMEM_START (mem_size - HIMEM_START) E820_RAM m
         else
           and_then (add_e820 HIMEM_START (KVM_32BIT_GAP_START - HIMEM_START) E820_RAM m)
           (add_e820 KVM_32BIT_MAX_MEM_SIZE (mem_size - KVM_32BIT_MAX_MEM_SIZE) E820_RAM)) (\<lambda>m.
      and_then (store_bytes m (ZERO_PAGE_START + TYPE_OF_LOADER_OFF) [ucast KERNEL_LOADER_OTHER]) (\<lambda>m.
      and_then (store16 m (ZERO_PAGE_START + BOOT_FLAG_OFF) (ucast KERNEL_BOOT_FLAG_MAGIC)) (\<lambda>m.
      and_then (store32 m (ZERO_PAGE_START + HEADER_OFF) (ucast KERNEL_HDR_MAGIC)) (\<lambda>m.
      and_then (store32 m (ZERO_PAGE_START + CMD_LINE_PTR_OFF) (ucast CMDLINE_START)) (\<lambda>m.
      and_then (store32 m (ZERO_PAGE_START + CMDLINE_SIZE_OFF) (of_nat (length cmdline))) (\<lambda>m.
      store32 m (ZERO_PAGE_START + KERNEL_ALIGNMENT_OFF) (ucast KERNEL_MIN_ALIGNMENT_BYTES)))))))))))"

section \<open>What the machine offers as memory\<close>

definition regions :: "(int \<times> kvm_call) list \<Rightarrow> kvm_userspace_memory_region list" where
  "regions log = concat (map (\<lambda>(_, c). case c of KVM_SET_USER_MEMORY_REGION r \<Rightarrow> [r] | _ \<Rightarrow> []) log)"

lemma regions_simps [simp]:
  "regions [] = []" "regions (xs @ ys) = regions xs @ regions ys"
  "regions ((fd, KVM_SET_USER_MEMORY_REGION r) # xs) = r # regions xs"
  "regions ((fd, KVM_SET_TSS_ADDR a) # xs) = regions xs"
  by (simp_all add: regions_def)

text \<open>The RAM a machine of size \<open>mem\<close> has: the guest-physical ranges below and above the gap.\<close>

definition ram_ranges :: "u64 \<Rightarrow> (u64 \<times> u64) list" where
  "ram_ranges mem =
     (if mem < KVM_32BIT_GAP_START then [(0, mem)]
      else [(0, KVM_32BIT_GAP_START), (KVM_32BIT_MAX_MEM_SIZE, mem - KVM_32BIT_GAP_START)])"

lemma mapping_size_unat:
  assumes "unat mem < 0xffffffffd0000000"
  shows "unat (mapping_size mem) = (if 0xd0000000 \<le> unat mem then unat mem + 0x30000000 else unat mem)"
proof -
  have "unat (mem + 0x30000000) = unat mem + 0x30000000"
    using assms by (subst unat_add_no_wrap) simp_all
  then show ?thesis by (simp add: mapping_size_def gap_values word_le_nat_alt)
qed

lemma mapping_size_small:
  assumes "unat mem < 0xffffffffd0000000"
  shows "mapping_size mem < KVM_32BIT_GAP_START \<longleftrightarrow> mem < KVM_32BIT_GAP_START"
  using mapping_size_unat[OF assms] by (auto simp: gap_values word_less_nat_alt split: if_splits)

definition region_fits :: "u64 \<Rightarrow> u64 \<Rightarrow> kvm_userspace_memory_region \<Rightarrow> bool" where
  "region_fits base sz r \<longleftrightarrow>
     mr_userspace_addr r = base + mr_guest_phys_addr r \<and>
     unat (mr_guest_phys_addr r) + unat (mr_memory_size r) \<le> unat sz \<and>
     (unat (mr_guest_phys_addr r) + unat (mr_memory_size r) \<le> unat KVM_32BIT_GAP_START \<or>
      KVM_32BIT_MAX_MEM_SIZE \<le> mr_guest_phys_addr r)"

lemma unat_gap:
  assumes "unat mem < 0xffffffffd0000000" "\<not> mem < KVM_32BIT_GAP_START"
  shows "unat (mapping_size mem - KVM_32BIT_MAX_MEM_SIZE) = unat mem - 0xd0000000"
    and "mapping_size mem - KVM_32BIT_MAX_MEM_SIZE = mem - KVM_32BIT_GAP_START"
proof -
  have big: "0xd0000000 \<le> unat mem" using assms(2) by (simp add: gap_values word_less_nat_alt)
  then have sz: "unat (mapping_size mem) = unat mem + 0x30000000"
    by (simp add: mapping_size_unat[OF assms(1)])
  have "KVM_32BIT_MAX_MEM_SIZE \<le> mapping_size mem"
    using sz big by (simp add: gap_values word_le_nat_alt)
  then show "unat (mapping_size mem - KVM_32BIT_MAX_MEM_SIZE) = unat mem - 0xd0000000"
    using sz big by (simp add: unat_diff_no_wrap gap_values)
  show "mapping_size mem - KVM_32BIT_MAX_MEM_SIZE = mem - KVM_32BIT_GAP_START"
    using assms(2) by (simp add: mapping_size_def gap_values)
qed

lemma set_region_ok:
  assumes "willing (Suc n) h"
  shows "\<exists>h'. set_region fd r h = Inr h' \<and> willing n h' \<and> kh_log h' = kh_log h @ [(fd, KVM_SET_USER_MEMORY_REGION r)]"
  using ioctl_check_ok[OF assms] by (simp add: set_region_def)

section \<open>The boot page\<close>

text \<open>The zero page as an object of 4096 bytes; everything is at a numeral offset in it.\<close>

abbreviation zp :: "nat \<Rightarrow> u64" where "zp i \<equiv> ZERO_PAGE_START + of_nat i"

lemma boot_fields:
  "ZERO_PAGE_START + E820_ENTRIES_OFF = zp 0x1e8" "ZERO_PAGE_START + BOOT_FLAG_OFF = zp 0x1fe"
  "ZERO_PAGE_START + HEADER_OFF = zp 0x202" "ZERO_PAGE_START + TYPE_OF_LOADER_OFF = zp 0x210"
  "ZERO_PAGE_START + CMD_LINE_PTR_OFF = zp 0x228" "ZERO_PAGE_START + KERNEL_ALIGNMENT_OFF = zp 0x230"
  "ZERO_PAGE_START + CMDLINE_SIZE_OFF = zp 0x238" "ZERO_PAGE_START + E820_TABLE_OFF = zp 0x2d0"
  by (simp_all add: boot_offsets)

definition page_ok :: "gmem \<Rightarrow> bool" where
  "page_ok m \<longleftrightarrow> in_mem m ZERO_PAGE_START 4096"

lemma page_ok_poke [simp]: "page_ok (poke m a bs) = page_ok m"
  by (simp add: page_ok_def)

lemma page_in_mem: "page_ok m \<Longrightarrow> i + k \<le> 4096 \<Longrightarrow> in_mem m (zp i) k"
  unfolding page_ok_def by (rule in_mem_sub)

lemma page_poke_other:
  assumes "page_ok m" "i + length bs \<le> 4096" "j + k \<le> 4096" "i + length bs \<le> j \<or> j + k \<le> i"
  shows "peek (poke m (zp i) bs) (zp j) k = peek m (zp j) k"
  using assms unfolding page_ok_def by (rule peek_poke_field)

lemma page_stores:
  "page_ok m \<Longrightarrow> i + n \<le> 4096 \<Longrightarrow> store_le n m (zp i) w = Inr (poke m (zp i) (le_bytes n w))"
  "page_ok m \<Longrightarrow> i + length bs \<le> 4096 \<Longrightarrow> store_bytes m (zp i) bs = Inr (poke m (zp i) bs)"
  by (simp_all add: page_in_mem del: of_nat_add)

lemma page_poke_other_le:
  assumes "page_ok m" "i + length bs \<le> 4096" "j + k \<le> 4096" "i + length bs \<le> j \<or> j + k \<le> i"
  shows "peek_le k (poke m (zp i) bs) (zp j) = peek_le k m (zp j)"
  by (simp only: peek_le_def page_poke_other[OF assms])

lemma page_poke_far:
  assumes "i + length bs \<le> 4096" "unat b + k \<le> 2 ^ 64" "disjoint_ranges ZERO_PAGE_START 4096 b k"
  shows "peek (poke m (zp i) bs) b k = peek m b k"
proof -
  have "unat (zp i) = 0x7000 + i"
    using assms(1) unat_add_of_nat[of ZERO_PAGE_START i] by (simp add: ZERO_PAGE_START_def)
  then show ?thesis
    using assms by (intro peek_poke_disjoint) (auto simp: disjoint_ranges_def ZERO_PAGE_START_def)
qed

definition e820_count :: "gmem \<Rightarrow> u8" where
  "e820_count m = hd (peek m (zp 0x1e8) 1)"

definition e820_at :: "gmem \<Rightarrow> nat \<Rightarrow> u64 \<times> u64 \<times> u32" where
  "e820_at m k = (peek_le 8 m (zp (0x2d0 + 20 * k)), peek_le 8 m (zp (0x2d8 + 20 * k)), peek_le 4 m (zp (0x2e0 + 20 * k)))"

text \<open>The table as the kernel reads it: \<open>e820_entries\<close> entries of 20 bytes.\<close>

definition e820_table :: "gmem \<Rightarrow> (u64 \<times> u64 \<times> u32) list" where
  "e820_table m = map (e820_at m) [0..<unat (e820_count m)]"

lemma e820_at_other:
  assumes "page_ok m" "i + length bs \<le> 4096" "0x2d0 + 20 * k + 20 \<le> 4096"
    and "i + length bs \<le> 0x2d0 + 20 * k \<or> 0x2d0 + 20 * k + 20 \<le> i"
  shows "e820_at (poke m (zp i) bs) k = e820_at m k"
proof -
  have "peek (poke m (zp i) bs) (zp j) n = peek m (zp j) n"
    if "0x2d0 + 20 * k \<le> j" "j + n \<le> 0x2d0 + 20 * k + 20" for j n
    by (rule page_poke_other[OF assms(1,2)]) (use assms(3,4) that in linarith)+
  from this[of "0x2d0 + 20 * k" 8] this[of "0x2d8 + 20 * k" 8] this[of "0x2e0 + 20 * k" 4] show ?thesis
    unfolding e820_at_def peek_le_def by simp
qed

lemma e820_count_other:
  assumes "page_ok m" "i + length bs \<le> 4096" "i + length bs \<le> 0x1e8 \<or> 0x1e8 < i"
  shows "e820_count (poke m (zp i) bs) = e820_count m"
  unfolding e820_count_def using assms(3) by (subst page_poke_other[OF assms(1,2)]) auto

text \<open>A store to the page between the count and the table, or next to them, leaves the table alone.\<close>

lemma e820_table_other:
  assumes "page_ok m" "i + length bs \<le> 0x2d0" "i + length bs \<le> 0x1e8 \<or> 0x1e8 < i" "e820_count m \<le> 128"
  shows "e820_table (poke m (zp i) bs) = e820_table m"
proof -
  have len: "i + length bs \<le> 4096" using assms(2) by simp
  have "e820_at (poke m (zp i) bs) k = e820_at m k" if "k < unat (e820_count m)" for k
    by (rule e820_at_other[OF assms(1) len]) (use that assms(2,4) in \<open>auto simp: word_le_nat_alt\<close>)
  then show ?thesis
    unfolding e820_table_def e820_count_other[OF assms(1) len assms(3)] by (intro map_cong) auto
qed

lemma add_e820_ok:
  assumes "page_ok m" "e820_count m < 128"
  shows "\<exists>m'. add_e820 a n t m = Inr m' \<and> page_ok m' \<and> gm_size m' = gm_size m \<and>
    e820_count m' = e820_count m + 1 \<and> e820_table m' = e820_table m @ [(a, n, t)] \<and>
    (\<forall>j k. j + k \<le> 0x1e8 \<or> 0x1e8 < j \<and> j + k \<le> 0x2d0 \<longrightarrow> peek m' (zp j) k = peek m (zp j) k) \<and>
    (\<forall>b k. unat b + k \<le> 2 ^ 64 \<longrightarrow> disjoint_ranges ZERO_PAGE_START 4096 b k \<longrightarrow> peek m' b k = peek m b k)"
proof -
  let ?c = "e820_count m"
  let ?o = "0x2d0 + 20 * unat ?c"
  have c: "unat ?c < 128" using assms(2) by (simp add: word_less_nat_alt)
  have len: "length (le_bytes 8 w) = 8" "length (le_bytes 4 v) = 4" for w :: u64 and v :: u32 by simp_all
  have "20 * ucast ?c = (of_nat (20 * unat ?c) :: u64)" by simp
  then have addr: "ZERO_PAGE_START + E820_TABLE_OFF + 20 * ucast ?c = zp ?o"
    "zp ?o + 8 = zp (0x2d8 + 20 * unat ?c)" "zp ?o + 16 = zp (0x2e0 + 20 * unat ?c)"
    by (simp_all add: boot_offsets)
  let ?m1 = "poke m (zp ?o) (le_bytes 8 a)"
  let ?m2 = "poke ?m1 (zp (0x2d8 + 20 * unat ?c)) (le_bytes 8 n)"
  let ?m3 = "poke ?m2 (zp (0x2e0 + 20 * unat ?c)) (le_bytes 4 t)"
  let ?m4 = "poke ?m3 (zp 0x1e8) [?c + 1]"
  have ok: "page_ok m" "page_ok ?m1" "page_ok ?m2" "page_ok ?m3" using assms(1) by simp_all
  have ld: "load_bytes m (zp 0x1e8) 1 = Inr (peek m (zp 0x1e8) 1)"
    by (rule load_bytes_in[OF page_in_mem[OF ok(1)]]) simp
  have st: "store64 m (zp ?o) a = Inr ?m1" "store64 ?m1 (zp (0x2d8 + 20 * unat ?c)) n = Inr ?m2"
    "store32 ?m2 (zp (0x2e0 + 20 * unat ?c)) t = Inr ?m3" "store_bytes ?m3 (zp 0x1e8) [?c + 1] = Inr ?m4"
    using c by (simp_all only: page_stores ok list.size)
  have run: "add_e820 a n t m = Inr ?m4"
    unfolding add_e820_def boot_fields(1)
    by (simp only: ld and_then_simps e820_count_def[symmetric] Let_def addr st)
  have frame: "peek ?m4 (zp j) k = peek m (zp j) k"
    if "j + k \<le> 0x1e8 \<or> 0x1e8 < j" "j + k \<le> ?o" for j k
  proof -
    have "peek ?m4 (zp j) k = peek ?m3 (zp j) k"
      by (rule page_poke_other[OF ok(4)]) (use that c in auto)
    also have "\<dots> = peek ?m2 (zp j) k" by (rule page_poke_other[OF ok(3)]) (use that c in auto)
    also have "\<dots> = peek ?m1 (zp j) k" by (rule page_poke_other[OF ok(2)]) (use that c in auto)
    also have "\<dots> = peek m (zp j) k" by (rule page_poke_other[OF ok(1)]) (use that c in auto)
    finally show ?thesis .
  qed
  have old: "e820_at ?m4 k = e820_at m k" if "k < unat ?c" for k
    using that frame[of "0x2d0 + 20 * k" 8] frame[of "0x2d8 + 20 * k" 8] frame[of "0x2e0 + 20 * k" 4]
    unfolding e820_at_def peek_le_def by (simp del: of_nat_add of_nat_mult)
  have new: "e820_at ?m4 (unat ?c) = (a, n, t)"
  proof -
    have back4: "peek ?m4 (zp j) k = peek ?m3 (zp j) k" if "0x1e9 \<le> j" "j + k \<le> 4096" for j k
      by (rule page_poke_other[OF ok(4)]) (use that in auto)
    have back3: "peek ?m3 (zp j) k = peek ?m2 (zp j) k" if "j + k \<le> 0x2e0 + 20 * unat ?c" for j k
      by (rule page_poke_other[OF ok(3)]) (use that c in auto)
    have back2: "peek ?m2 (zp j) k = peek ?m1 (zp j) k" if "j + k \<le> 0x2d8 + 20 * unat ?c" for j k
      by (rule page_poke_other[OF ok(2)]) (use that c in auto)
    have "peek ?m4 (zp ?o) 8 = peek ?m1 (zp ?o) 8"
      using c back4[of ?o 8] back3[of ?o 8] back2[of ?o 8] by simp
    moreover have "peek ?m4 (zp (0x2d8 + 20 * unat ?c)) 8 = peek ?m2 (zp (0x2d8 + 20 * unat ?c)) 8"
      using c back4[of "0x2d8 + 20 * unat ?c" 8] back3[of "0x2d8 + 20 * unat ?c" 8] by simp
    moreover have "peek ?m4 (zp (0x2e0 + 20 * unat ?c)) 4 = peek ?m3 (zp (0x2e0 + 20 * unat ?c)) 4"
      using c back4[of "0x2e0 + 20 * unat ?c" 4] by simp
    moreover have "peek ?m1 (zp ?o) 8 = le_bytes 8 a" "peek ?m2 (zp (0x2d8 + 20 * unat ?c)) 8 = le_bytes 8 n"
      "peek ?m3 (zp (0x2e0 + 20 * unat ?c)) 4 = le_bytes 4 t"
      using peek_poke_same[of "le_bytes 8 a" m] peek_poke_same[of "le_bytes 8 n" ?m1] peek_poke_same[of "le_bytes 4 t" ?m2]
      by simp_all
    ultimately show ?thesis
      unfolding e820_at_def peek_le_def by (simp del: of_nat_add of_nat_mult)
  qed
  have "unat (?c + 1) = Suc (unat ?c)"
    using c by (simp add: unat_Suc_no_wrap[of ?c 128] word_less_nat_alt)
  moreover have cnt: "e820_count ?m4 = ?c + 1" 
    using peek_poke_same[of "[?c + 1]" ?m3 "zp 0x1e8"] by (simp add: e820_count_def)
  ultimately have "e820_table ?m4 = e820_table m @ [(a, n, t)]"
    unfolding e820_table_def using old new by simp
  moreover have "peek ?m4 b k = peek m b k"
    if b: "unat b + k \<le> 2 ^ 64" "disjoint_ranges ZERO_PAGE_START 4096 b k" for b k
  proof -
    show ?thesis
      using c by (simp add: page_poke_far[OF _ b] del: of_nat_add of_nat_mult of_nat_numeral)
  qed
  moreover have "peek ?m4 (zp j) k = peek m (zp j) k" if "j + k \<le> 0x1e8 \<or> 0x1e8 < j \<and> j + k \<le> 0x2d0" for j k
    using that by (intro frame) auto
  ultimately show ?thesis using run cnt assms(1) by auto
qed

text \<open>A field of the header, written after the table.\<close>

lemma header_store:
  assumes "page_ok m" "e820_count m \<le> 128" "0x1e9 \<le> i" "i + length bs \<le> 0x2d0"
  shows "store_bytes m (zp i) bs = Inr (poke m (zp i) bs)"
    and "e820_table (poke m (zp i) bs) = e820_table m"
    and "e820_count (poke m (zp i) bs) = e820_count m"
  using assms e820_table_other[OF assms(1), of i bs] e820_count_other[OF assms(1), of i bs]
  by (simp_all add: page_stores(2))

definition header_fields :: "u8 list \<Rightarrow> (nat \<times> u8 list) list" where
  "header_fields cmdline =
     [(0x210, [ucast KERNEL_LOADER_OTHER]), (0x1fe, le_bytes 2 (ucast KERNEL_BOOT_FLAG_MAGIC :: u16)),
      (0x202, le_bytes 4 (ucast KERNEL_HDR_MAGIC :: u32)), (0x228, le_bytes 4 (ucast CMDLINE_START :: u32)),
      (0x238, le_bytes 4 (of_nat (length cmdline) :: u32)), (0x230, le_bytes 4 (ucast KERNEL_MIN_ALIGNMENT_BYTES :: u32))]"

fun store_fields :: "(nat \<times> u8 list) list \<Rightarrow> gmem \<Rightarrow> gmem res" where
  "store_fields [] m = Inr m"
| "store_fields ((i, bs) # fs) m = and_then (store_bytes m (zp i) bs) (store_fields fs)"

definition fields_ok :: "(nat \<times> u8 list) list \<Rightarrow> bool" where
  "fields_ok fs \<longleftrightarrow> list_all (\<lambda>(i, bs). 0x1e9 \<le> i \<and> i + length bs \<le> 0x2d0) fs \<and>
     sorted_wrt (\<lambda>(i, bs) (j, cs). i + length bs \<le> j \<or> j + length cs \<le> i) fs"

lemma store_fields_ok:
  assumes "page_ok m" "e820_count m \<le> 128" "fields_ok fs"
  shows "\<exists>m'. store_fields fs m = Inr m' \<and> page_ok m' \<and> gm_size m' = gm_size m \<and> e820_table m' = e820_table m \<and>
    (\<forall>(i, bs) \<in> set fs. peek m' (zp i) (length bs) = bs) \<and>
    (\<forall>j k. j + k \<le> 4096 \<and> list_all (\<lambda>(i, bs). i + length bs \<le> j \<or> j + k \<le> i) fs \<longrightarrow> peek m' (zp j) k = peek m (zp j) k) \<and>
    (\<forall>b k. unat b + k \<le> 2 ^ 64 \<longrightarrow> disjoint_ranges ZERO_PAGE_START 4096 b k \<longrightarrow> peek m' b k = peek m b k)"
  using assms
proof (induction fs arbitrary: m)
  case (Cons f fs)
  obtain i bs where f: "f = (i, bs)" by (cases f)
  have b: "0x1e9 \<le> i" "i + length bs \<le> 0x2d0" and rest: "fields_ok fs"
    and apart: "list_all (\<lambda>(j, cs). j + length cs \<le> i \<or> i + length bs \<le> j) fs"
    using Cons.prems(3) by (auto simp: fields_ok_def f list_all_iff)
  let ?m = "poke m (zp i) bs"
  note st = header_store[OF Cons.prems(1,2) b]
  obtain m' where m': "store_fields fs ?m = Inr m'" "page_ok m'" "gm_size m' = gm_size ?m" "e820_table m' = e820_table ?m"
    "\<forall>(i, bs) \<in> set fs. peek m' (zp i) (length bs) = bs"
    "\<forall>j k. j + k \<le> 4096 \<and> list_all (\<lambda>(i, bs). i + length bs \<le> j \<or> j + k \<le> i) fs \<longrightarrow> peek m' (zp j) k = peek ?m (zp j) k"
    "\<forall>b k. unat b + k \<le> 2 ^ 64 \<longrightarrow> disjoint_ranges ZERO_PAGE_START 4096 b k \<longrightarrow> peek m' b k = peek ?m b k"
    using Cons.IH[of ?m] Cons.prems(1,2) rest st(3) by auto
  have "peek m' (zp i) (length bs) = peek ?m (zp i) (length bs)" using m'(6) apart b by simp
  also have "\<dots> = bs" using peek_poke_same[of bs m "zp i"] b by simp
  finally have hd: "peek m' (zp i) (length bs) = bs" .
  have frame: "peek m' (zp j) k = peek m (zp j) k"
    if "j + k \<le> 4096" "list_all (\<lambda>(i, bs). i + length bs \<le> j \<or> j + k \<le> i) (f # fs)" for j k
    using that m'(6) b page_poke_other[OF Cons.prems(1), of i bs j k] by (simp add: f)
  have far: "peek m' a k = peek m a k" if "unat a + k \<le> 2 ^ 64" "disjoint_ranges ZERO_PAGE_START 4096 a k" for a k
    using that m'(7) b page_poke_far[of i bs a k m] by simp
  show ?case
    using m' st hd frame far by (intro exI[of _ m']) (auto simp: f)
qed simp

fun add_all :: "(u64 \<times> u64 \<times> u32) list \<Rightarrow> gmem \<Rightarrow> gmem res" where
  "add_all [] m = Inr m"
| "add_all ((a, n, t) # es) m = and_then (add_e820 a n t m) (add_all es)"

lemma add_all_ok:
  assumes "page_ok m" "unat (e820_count m) + length es \<le> 128"
  shows "\<exists>m'. add_all es m = Inr m' \<and> page_ok m' \<and> gm_size m' = gm_size m \<and>
    unat (e820_count m') = unat (e820_count m) + length es \<and> e820_table m' = e820_table m @ es \<and>
    (\<forall>b k. unat b + k \<le> 2 ^ 64 \<longrightarrow> disjoint_ranges ZERO_PAGE_START 4096 b k \<longrightarrow> peek m' b k = peek m b k)"
  using assms
proof (induction es arbitrary: m)
  case (Cons e es)
  obtain a n t where e: "e = (a, n, t)" by (cases e)
  have c: "e820_count m < 128" using Cons.prems(2) by (simp add: word_less_nat_alt)
  obtain m1 where m1: "add_e820 a n t m = Inr m1" "page_ok m1" "gm_size m1 = gm_size m"
    "e820_count m1 = e820_count m + 1" "e820_table m1 = e820_table m @ [(a, n, t)]"
    "\<forall>b k. unat b + k \<le> 2 ^ 64 \<longrightarrow> disjoint_ranges ZERO_PAGE_START 4096 b k \<longrightarrow> peek m1 b k = peek m b k"
    using add_e820_ok[OF Cons.prems(1) c, of a n t] by blast
  have "unat (e820_count m1) = Suc (unat (e820_count m))"
    using unat_Suc_no_wrap[OF c] by (simp add: m1(4))
  with Cons.IH[OF m1(2)] Cons.prems(2) m1 show ?case by (auto simp: e)
qed simp

definition e820_map :: "u64 \<Rightarrow> (u64 \<times> u64) list" where
  "e820_map mem_size =
     (0, EBDA_START) #
     (if mem_size < KVM_32BIT_GAP_START then [(HIMEM_START, mem_size - HIMEM_START)]
      else [(HIMEM_START, KVM_32BIT_GAP_START - HIMEM_START), (KVM_32BIT_MAX_MEM_SIZE, mem_size - KVM_32BIT_MAX_MEM_SIZE)])"

lemma setup_bootparams_eq:
  "setup_bootparams cmdline m =
     and_then (store_bytes m ZERO_PAGE_START (replicate boot_params_size 0)) (\<lambda>m'.
     and_then (store_bytes m' CMDLINE_START cmdline) (\<lambda>m'.
     and_then (add_all (map (\<lambda>(a, n). (a, n, E820_RAM)) (e820_map (gm_size m))) m') (\<lambda>m'.
     store_fields (header_fields cmdline) m')))"
proof -
  have 0: "and_then r Inr = r" for r :: "gmem res" by (cases r) simp_all
  have f: "store_fields [] = Inr" "store_fields ((i, bs) # fs) = (\<lambda>m. and_then (store_bytes m (zp i) bs) (store_fields fs))"
    "add_all [] = Inr" "add_all ((a, n, t) # es) = (\<lambda>m. and_then (add_e820 a n t m) (add_all es))" for i bs fs a n t es
    by (simp_all add: fun_eq_iff)
  show ?thesis
    by (simp add: setup_bootparams_def Let_def e820_map_def header_fields_def store_le_def boot_fields
        and_then_assoc 0 f del: of_nat_numeral add_all.simps store_fields.simps)
qed

lemma fields_ok_header: "fields_ok (header_fields cmdline)"
  by (simp add: fields_ok_def header_fields_def)

text \<open>What the two fixed parts leave outside.\<close>

definition boot_area :: "u64 \<Rightarrow> nat \<Rightarrow> u8 list \<Rightarrow> bool" where
  "boot_area b k cmdline \<longleftrightarrow>
     \<not> disjoint_ranges ZERO_PAGE_START 4096 b k \<or> \<not> disjoint_ranges CMDLINE_START (length cmdline) b k"

lemma setup_bootparams_ok:
  assumes "0x30000 \<le> gm_size m" "length cmdline \<le> 0x10000"
  shows "\<exists>m'. setup_bootparams cmdline m = Inr m' \<and> gm_size m' = gm_size m \<and>
    e820_table m' = map (\<lambda>(a, n). (a, n, E820_RAM)) (e820_map (gm_size m)) \<and>
    (\<forall>(i, bs) \<in> set (header_fields cmdline). peek m' (zp i) (length bs) = bs) \<and>
    peek m' CMDLINE_START (length cmdline) = cmdline \<and>
    (\<forall>b k. unat b + k \<le> 2 ^ 64 \<longrightarrow> \<not> boot_area b k cmdline \<longrightarrow> peek m' b k = peek m b k)"
proof -
  let ?m0 = "poke m ZERO_PAGE_START (replicate 4096 0)"
  let ?m1 = "poke ?m0 CMDLINE_START cmdline"
  let ?es = "map (\<lambda>(a, n). (a, n, E820_RAM)) (e820_map (gm_size m))"
  have sz: "0x30000 \<le> unat (gm_size m)" using assms(1) by (simp add: word_le_nat_alt)
  have ok: "page_ok m" using sz by (simp add: page_ok_def in_mem_def ZERO_PAGE_START_def)
  have st: "store_bytes m ZERO_PAGE_START (replicate boot_params_size 0) = Inr ?m0"
    using ok by (simp add: page_ok_def boot_params_size_def)
  have st1: "store_bytes ?m0 CMDLINE_START cmdline = Inr ?m1"
    using sz assms(2) by (intro store_bytes_in) (simp add: in_mem_def CMDLINE_START_def)
  have "peek ?m0 (zp 0x1e8) 1 = [0]"
    using peek_poke_sub[of ZERO_PAGE_START "replicate 4096 (0 :: u8)" "0x1e8" 1 m]
    by (simp add: ZERO_PAGE_START_def)
  moreover have apart: "peek ?m1 b k = peek ?m0 b k"
    if "disjoint_ranges CMDLINE_START (length cmdline) b k" "unat b + k \<le> 2 ^ 64" for b k
    using that assms(2) by (intro peek_poke_disjoint) (simp_all add: CMDLINE_START_def)
  ultimately have c: "e820_count ?m1 = 0"
    unfolding e820_count_def by (subst apart) (auto simp: disjoint_ranges_def layout_defs)
  then have t: "e820_table ?m1 = []" by (simp add: e820_table_def)
  have le: "length ?es \<le> 3" by (simp add: e820_map_def)
  obtain m2 where m2: "add_all ?es ?m1 = Inr m2" "page_ok m2" "gm_size m2 = gm_size ?m1"
    "unat (e820_count m2) = length ?es" "e820_table m2 = ?es"
    "\<forall>b k. unat b + k \<le> 2 ^ 64 \<longrightarrow> disjoint_ranges ZERO_PAGE_START 4096 b k \<longrightarrow> peek m2 b k = peek ?m1 b k"
    using add_all_ok[of ?m1 ?es] ok c t le by auto
  have "e820_count m2 \<le> 128" using m2(4) le by (simp add: word_le_nat_alt)
  from store_fields_ok[OF m2(2) this fields_ok_header[of cmdline]] obtain m3 where
    m3: "store_fields (header_fields cmdline) m2 = Inr m3" "gm_size m3 = gm_size m2" "e820_table m3 = e820_table m2"
    "\<forall>(i, bs) \<in> set (header_fields cmdline). peek m3 (zp i) (length bs) = bs"
    "\<forall>b k. unat b + k \<le> 2 ^ 64 \<longrightarrow> disjoint_ranges ZERO_PAGE_START 4096 b k \<longrightarrow> peek m3 b k = peek m2 b k"
    by blast
  have far: "peek m3 b k = peek ?m1 b k" if "unat b + k \<le> 2 ^ 64" "disjoint_ranges ZERO_PAGE_START 4096 b k" for b k
    using that m3(5) m2(6) by simp
  have "peek m3 CMDLINE_START (length cmdline) = peek ?m1 CMDLINE_START (length cmdline)"
    using assms(2) by (intro far) (simp_all add: disjoint_ranges_def layout_defs)
  also have "\<dots> = cmdline" using assms(2) by (intro peek_poke_same) simp
  finally have cmd: "peek m3 CMDLINE_START (length cmdline) = cmdline" .
  have "peek m3 b k = peek m b k" if "unat b + k \<le> 2 ^ 64" "\<not> boot_area b k cmdline" for b k
  proof -
    have "peek ?m0 b k = peek m b k"
      using that page_poke_far[of 0 "replicate 4096 0" b k m] by (simp add: boot_area_def)
    then show ?thesis using that far[of b k] apart[of b k] by (simp add: boot_area_def)
  qed
  then show ?thesis
    using st st1 m2 m3 cmd by (auto simp: setup_bootparams_eq)
qed

text \<open>Every range the e820 table reports is part of a memory slot.\<close>

definition within :: "u64 \<times> u64 \<Rightarrow> u64 \<times> u64 \<Rightarrow> bool" where
  "within = (\<lambda>(a, n) (b, k). unat b \<le> unat a \<and> unat a + unat n \<le> unat b + unat k)"

lemma e820_within_slots:
  assumes "0x100000 \<le> unat mem" "unat mem < 0xffffffffd0000000"
  shows "\<forall>e \<in> set (e820_map (mapping_size mem)). \<exists>r \<in> set (ram_ranges mem). within e r"
proof (cases "mem < KVM_32BIT_GAP_START")
  case True
  then have sz: "mapping_size mem = mem" by (simp add: mapping_size_def not_le[symmetric])
  have "unat (mem - HIMEM_START) = unat mem - 0x100000"
    using assms(1) by (subst unat_diff_no_wrap) (simp_all add: HIMEM_START_def word_le_nat_alt)
  then show ?thesis
    using True assms(1) by (simp add: e820_map_def ram_ranges_def sz within_def EBDA_START_def) (simp add: HIMEM_START_def)
next
  case False
  then have "\<not> mapping_size mem < KVM_32BIT_GAP_START" by (simp add: mapping_size_small[OF assms(2)])
  then show ?thesis
    using False unat_gap[OF assms(2) False]
    by (simp add: e820_map_def ram_ranges_def within_def layout_defs gap_values)
qed

section \<open>Properties\<close>

text \<open>C35: The memory slots KVM is given are an identity map: a guest-physical address stands at the same
  offset of the process's mapping (which is what every device access through \<^verbatim>\<open>memory_ptr\<close>
  assumes), no slot reaches into the device gap below 4 GB or past the mapping, and
  together they are as large as the memory asked for, for every size.\<close>

theorem memory_slots_identity:
  assumes "willing 3 h" "unat mem < 0xffffffffd0000000"
  shows "\<exists>m h'. create_memory fd (Some base) mem h = Inr (m, h') \<and> gm_size m = mapping_size mem \<and>
    (\<exists>rs. regions (kh_log h') = regions (kh_log h) @ rs \<and> distinct (map mr_slot rs) \<and>
       list_all (region_fits base (gm_size m)) rs \<and>
       map (\<lambda>r. (mr_guest_phys_addr r, mr_memory_size r)) rs = ram_ranges mem \<and>
       (\<Sum>r\<leftarrow>rs. unat (mr_memory_size r)) = unat mem)"
proof (cases "mem < KVM_32BIT_GAP_START")
  case True
  let ?r = "\<lparr>mr_slot = 0, mr_flags = 0, mr_guest_phys_addr = 0, mr_memory_size = mem, mr_userspace_addr = base\<rparr>"
  have w: "willing (Suc (Suc 1)) h" using assms(1) by (simp add: eval_nat_numeral)
  obtain h1 where h1: "set_region fd ?r h = Inr h1" "willing (Suc 1) h1"
    "kh_log h1 = kh_log h @ [(fd, KVM_SET_USER_MEMORY_REGION ?r)]"
    using set_region_ok[OF w] by blast
  have sz: "mapping_size mem = mem" using True by (simp add: mapping_size_def not_le[symmetric])
  have "\<exists>h2. create_memory fd (Some base) mem h = Inr (\<lparr>gm_size = mem, gm_byte = \<lambda>_. 0\<rparr>, h2) \<and>
      regions (kh_log h2) = regions (kh_log h) @ [?r]"
    using True h1 ioctl_check_ok(1)[of 1 h1] by (simp add: create_memory_def sz Let_def numeral_2_eq_2)
  moreover have "list_all (region_fits base mem) [?r]" "map (\<lambda>r. (mr_guest_phys_addr r, mr_memory_size r)) [?r] = ram_ranges mem"
    using True by (simp_all add: region_fits_def ram_ranges_def word_less_nat_alt)
  ultimately show ?thesis
    unfolding sz by (intro exI[of _ "\<lparr>gm_size = mem, gm_byte = \<lambda>_. 0\<rparr>"]) (force intro!: exI[of _ "[?r]"])
next
  case False
  let ?r = "\<lparr>mr_slot = 0, mr_flags = 0, mr_guest_phys_addr = 0, mr_memory_size = KVM_32BIT_GAP_START,
    mr_userspace_addr = base\<rparr>"
  let ?s = "\<lparr>mr_slot = 1, mr_flags = 0, mr_guest_phys_addr = KVM_32BIT_MAX_MEM_SIZE,
    mr_memory_size = mapping_size mem - KVM_32BIT_MAX_MEM_SIZE, mr_userspace_addr = base + KVM_32BIT_MAX_MEM_SIZE\<rparr>"
  have w: "willing (Suc (Suc 1)) h" using assms(1) by (simp add: eval_nat_numeral)
  obtain h1 where h1: "set_region fd ?r h = Inr h1" "willing (Suc 1) h1"
    "kh_log h1 = kh_log h @ [(fd, KVM_SET_USER_MEMORY_REGION ?r)]"
    using set_region_ok[OF w] by blast
  have w1: "willing (Suc (Suc 0)) h1" using h1(2) by simp
  obtain h2 where h2: "set_region fd ?s h1 = Inr h2" "willing (Suc 0) h2"
    "kh_log h2 = kh_log h1 @ [(fd, KVM_SET_USER_MEMORY_REGION ?s)]"
    using set_region_ok[OF w1] by blast
  have big: "0xd0000000 \<le> unat mem" using False by (simp add: gap_values word_less_nat_alt)
  then have u: "unat (mapping_size mem) = unat mem + 0x30000000"
    by (simp add: mapping_size_unat[OF assms(2)])
  have fits: "list_all (region_fits base (mapping_size mem)) [?r, ?s]"
    using big by (simp add: region_fits_def u unat_gap(1)[OF assms(2) False, unfolded gap_values] gap_values)
  have total: "(\<Sum>r\<leftarrow>[?r, ?s]. unat (mr_memory_size r)) = unat mem"
    using big by (simp add: unat_gap(1)[OF assms(2) False, unfolded gap_values] gap_values)
  have "map (\<lambda>r. (mr_guest_phys_addr r, mr_memory_size r)) [?r, ?s] = ram_ranges mem"
    using False by (simp add: ram_ranges_def unat_gap(2)[OF assms(2) False])
  moreover have "\<exists>h3. create_memory fd (Some base) mem h = Inr (\<lparr>gm_size = mapping_size mem, gm_byte = \<lambda>_. 0\<rparr>, h3) \<and>
      regions (kh_log h3) = regions (kh_log h) @ [?r, ?s]"
    using h1 h2 False ioctl_check_ok(1)[OF h2(2)]
    by (simp add: create_memory_def mapping_size_small[OF assms(2)] Let_def)
  ultimately show ?thesis using fits total
    by (intro exI[of _ "\<lparr>gm_size = mapping_size mem, gm_byte = \<lambda>_. 0\<rparr>"]) (force intro!: exI[of _ "[?r, ?s]"])
qed

theorem memory_slots_identity_witness:
  "\<exists>m h' rs. create_memory 4 (Some 0x7f0000000000) 0x100000000 (host_ok 3) = Inr (m, h') \<and>
     regions (kh_log h') = rs \<and> map (\<lambda>r. (mr_guest_phys_addr r, mr_memory_size r)) rs =
       [(0, 0xd0000000), (0x100000000, 0x30000000)]"
  using memory_slots_identity[of "host_ok 3" "0x100000000" 4 "0x7f0000000000"]
  by (auto simp: ram_ranges_def gap_values)

lemma setup_bootparams_facts:
  assumes "0x30000 \<le> gm_size m" "length cmdline \<le> 0x10000"
  shows "\<exists>m'. setup_bootparams cmdline m = Inr m' \<and> gm_size m' = gm_size m \<and>
    e820_table m' = map (\<lambda>(a, n). (a, n, E820_RAM)) (e820_map (gm_size m)) \<and>
    peek16 m' (zp 0x1fe) = 0xaa55 \<and> peek32 m' (zp 0x202) = 0x53726448 \<and>
    ucast (peek32 m' (zp 0x228)) = CMDLINE_START \<and> unat (peek32 m' (zp 0x238)) = length cmdline \<and>
    peek m' CMDLINE_START (length cmdline) = cmdline \<and>
    (\<forall>b k. unat b + k \<le> 2 ^ 64 \<longrightarrow> \<not> boot_area b k cmdline \<longrightarrow> peek m' b k = peek m b k) \<and>
    peek m' (zp 0x210) 1 = [0xff] \<and> peek32 m' (zp 0x230) = 0x1000000"
proof -
  obtain m' where m': "setup_bootparams cmdline m = Inr m'" "gm_size m' = gm_size m"
    "e820_table m' = map (\<lambda>(a, n). (a, n, E820_RAM)) (e820_map (gm_size m))"
    "\<forall>(i, bs) \<in> set (header_fields cmdline). peek m' (zp i) (length bs) = bs"
    "peek m' CMDLINE_START (length cmdline) = cmdline"
    "\<forall>b k. unat b + k \<le> 2 ^ 64 \<longrightarrow> \<not> boot_area b k cmdline \<longrightarrow> peek m' b k = peek m b k"
    using setup_bootparams_ok[OF assms] by blast
  have f: "peek16 m' (zp 0x1fe) = ucast KERNEL_BOOT_FLAG_MAGIC" "peek32 m' (zp 0x202) = ucast KERNEL_HDR_MAGIC"
    "peek32 m' (zp 0x228) = ucast CMDLINE_START" "peek32 m' (zp 0x238) = of_nat (length cmdline)"
    using m'(4) unfolding header_fields_def peek_le_def by (simp_all del: of_nat_numeral)
  have "unat (of_nat (length cmdline) :: u32) = length cmdline" using assms(2) by (intro unat_of_nat_small) simp
  then have "unat (peek32 m' (zp 0x238)) = length cmdline" unfolding f .
  moreover have "peek m' (zp 0x210) 1 = [0xff]"
    using m'(4) by (simp add: header_fields_def KERNEL_LOADER_OTHER_def)
  moreover have "peek32 m' (zp 0x230) = 0x1000000"
    using m'(4) by (simp add: header_fields_def peek_le_def KERNEL_MIN_ALIGNMENT_BYTES_def)
  moreover have "peek16 m' (zp 0x1fe) = 0xaa55" "peek32 m' (zp 0x202) = 0x53726448"
    "ucast (peek32 m' (zp 0x228)) = CMDLINE_START"
    unfolding f by (simp_all add: KERNEL_BOOT_FLAG_MAGIC_def KERNEL_HDR_MAGIC_def CMDLINE_START_def)
  ultimately show ?thesis using m' by blast
qed

text \<open>C36: What the kernel finds in the boot page: the magic numbers of the boot protocol, the
  loader's type and the kernel's alignment, an e820 table with exactly the RAM of the machine, each
  range inside a memory slot, and through the command line pointer and size exactly the command line.
  The rest of memory is untouched. The machine has at least 1 MB, and the command line fits its area.\<close>

theorem boot_params_read_back:
  assumes "gm_size m = mapping_size mem" "0x100000 \<le> unat mem" "unat mem < 0xffffffffd0000000"
    and "length cmdline \<le> unat CMDLINE_MAX_SIZE"
  shows "\<exists>m'. setup_bootparams cmdline m = Inr m' \<and>
    e820_table m' = map (\<lambda>(a, n). (a, n, E820_RAM)) (e820_map (mapping_size mem)) \<and>
    (\<forall>e \<in> set (e820_map (mapping_size mem)). \<exists>r \<in> set (ram_ranges mem). within e r) \<and>
    peek16 m' (ZERO_PAGE_START + BOOT_FLAG_OFF) = 0xaa55 \<and> peek32 m' (ZERO_PAGE_START + HEADER_OFF) = 0x53726448 \<and>
    peek m' (ZERO_PAGE_START + TYPE_OF_LOADER_OFF) 1 = [0xff] \<and>
    peek32 m' (ZERO_PAGE_START + KERNEL_ALIGNMENT_OFF) = 0x1000000 \<and>
    peek m' (ucast (peek32 m' (ZERO_PAGE_START + CMD_LINE_PTR_OFF)))
      (unat (peek32 m' (ZERO_PAGE_START + CMDLINE_SIZE_OFF))) = cmdline \<and>
    (\<forall>b k. unat b + k \<le> 2 ^ 64 \<longrightarrow> \<not> boot_area b k cmdline \<longrightarrow> peek m' b k = peek m b k)"
proof -
  have "unat mem \<le> unat (gm_size m)" using mapping_size_unat[OF assms(3)] by (simp add: assms(1))
  then have sz: "0x30000 \<le> gm_size m" using assms(2) by (simp add: word_le_nat_alt)
  have len: "length cmdline \<le> 0x10000" using assms(4) by (simp add: CMDLINE_MAX_SIZE_def)
  obtain m' where m': "setup_bootparams cmdline m = Inr m'"
    "e820_table m' = map (\<lambda>(a, n). (a, n, E820_RAM)) (e820_map (gm_size m))"
    "peek16 m' (zp 0x1fe) = 0xaa55" "peek32 m' (zp 0x202) = 0x53726448"
    "ucast (peek32 m' (zp 0x228)) = CMDLINE_START" "unat (peek32 m' (zp 0x238)) = length cmdline"
    "peek m' CMDLINE_START (length cmdline) = cmdline"
    "\<forall>b k. unat b + k \<le> 2 ^ 64 \<longrightarrow> \<not> boot_area b k cmdline \<longrightarrow> peek m' b k = peek m b k"
    "peek m' (zp 0x210) 1 = [0xff]" "peek32 m' (zp 0x230) = 0x1000000"
    using setup_bootparams_facts[OF sz len] by blast
  then show ?thesis
    using e820_within_slots[OF assms(2,3)] unfolding boot_fields by (auto simp: assms(1))
qed

theorem boot_params_read_back_witness:
  "\<exists>m'. setup_bootparams [0x61, 0x3d, 0x62] \<lparr>gm_size = 0x130000000, gm_byte = (\<lambda>_. 0)\<rparr> = Inr m' \<and>
     e820_table m' = [(0, 0x9fc00, 1), (0x100000, 0xcff00000, 1), (0x100000000, 0x30000000, 1)] \<and>
     peek16 m' (ZERO_PAGE_START + BOOT_FLAG_OFF) = 0xaa55"
proof -
  have sz: "mapping_size 0x100000000 = 0x130000000" by (simp add: mapping_size_def gap_values)
  have a: "gm_size \<lparr>gm_size = 0x130000000, gm_byte = (\<lambda>_. 0)\<rparr> = mapping_size 0x100000000"
    by (simp add: sz)
  have b: "0x100000 \<le> unat (0x100000000 :: u64)" "unat (0x100000000 :: u64) < 0xffffffffd0000000"
    "length [0x61, 0x3d, 0x62 :: u8] \<le> unat CMDLINE_MAX_SIZE"
    by (simp_all add: CMDLINE_MAX_SIZE_def)
  have m: "map (\<lambda>(a, n). (a, n, E820_RAM)) (e820_map (mapping_size 0x100000000)) =
      [(0, 0x9fc00, 1), (0x100000, 0xcff00000, 1), (0x100000000, 0x30000000, 1)]"
    by (simp add: sz e820_map_def gap_values layout_defs E820_RAM_def)
  show ?thesis using boot_params_read_back[OF a b, unfolded m] by blast
qed

end
