(* ===== verification/Vm.thy ===== *)
theory Vm
  imports Vm_Memory I8042 Uart Virtio_Mmio Blk Rng Net
begin

text \<open>
  \<^verbatim>\<open>src/kvm/vm.h\<close>, the machine: its memory, interrupt lines, port and MMIO devices and
  processors, the dispatch of the exits (\<^verbatim>\<open>handle_io_device\<close>, \<^verbatim>\<open>run_cpu\<close>) and the
  construction of all of it. Port devices refer to their interrupt by number: \<^verbatim>\<open>register_irq\<close>
  hands the same object to every device that asks for the same line (ttyS0 and ttyS2 share line
  4). An MMIO device holds the object itself; the lines 12 to 14 are registered once each.
\<close>

section \<open>The machine\<close>

datatype io_dev = I8042_dev i8042 | Uart_dev uart "terminal option"

record io_slot =
  ps_window :: io_window
  ps_irq :: nat
  ps_dev :: io_dev

datatype vio = Vblk blk | Vrng rng | Vnet net

text \<open>What the machine prints, as far as it depends on the guest.\<close>

datatype vm_message = Msg_io kvm_exit_io | Msg_debug | Msg_halted | Msg_intr | Msg_exit u32

record machine =
  vm_fd :: int
  vm_memory :: gmem
  vm_should_run :: bool
  vm_interrupts :: "interrupt option list"
  vm_cpus :: "int list"
  vm_io_devices :: "io_slot list"
  vm_mmio :: "(vio \<times> interrupt) mmio_slot list"
  vm_messages :: "vm_message list"

section \<open>Interrupts from the monitor\<close>

definition send_interrupt :: "int \<Rightarrow> u32 \<Rightarrow> bool \<Rightarrow> kvm_host \<Rightarrow> kvm_host res" where
  "send_interrupt fd n lvl = ioctl_check ''KVM_IRQ_LINE'' fd (KVM_IRQ_LINE n (if lvl then 1 else 0))"

definition trigger_interrupt :: "int \<Rightarrow> u32 \<Rightarrow> kvm_host \<Rightarrow> kvm_host res" where
  "trigger_interrupt fd n h = and_then (send_interrupt fd n True h) (send_interrupt fd n False)"

section \<open>Construction\<close>

definition KVM_CAP_X2APIC_API :: u32 where "KVM_CAP_X2APIC_API = 129"
definition KVM_PIT_SPEAKER_DUMMY :: u32 where "KVM_PIT_SPEAKER_DUMMY = 1"

definition enable :: "int \<Rightarrow> u32 \<Rightarrow> kvm_host \<Rightarrow> kvm_host res" where
  "enable fd cap = ioctl_check ''KVM_ENABLE_CAP'' fd (KVM_ENABLE_CAP cap)"

definition create_irq_chip :: "int \<Rightarrow> kvm_host \<Rightarrow> kvm_host res" where
  "create_irq_chip fd = ioctl_check ''KVM_CREATE_IRQCHIP'' fd KVM_CREATE_IRQCHIP"

definition create_pit :: "int \<Rightarrow> kvm_host \<Rightarrow> kvm_host res" where
  "create_pit fd = ioctl_check ''KVM_CREATE_PIT2'' fd (KVM_CREATE_PIT2 KVM_PIT_SPEAKER_DUMMY)"

definition create_vcpu :: "kvm \<Rightarrow> int \<Rightarrow> nat \<Rightarrow> bool \<Rightarrow> kvm_host \<Rightarrow> (int \<times> kvm_host) res" where
  "create_vcpu k fd index mapped h =
     and_then (vcpu_mmap_size k h) (\<lambda>(mmap_size, h).
     and_then (ioctl fd (KVM_CREATE_VCPU (of_nat index)) h) (\<lambda>(vcpu_fd, e, h).
     and_then (vcpu_new vcpu_fd mmap_size mapped) (\<lambda>cpu. Inr (cpu, h))))"

fun create_vcpus :: "kvm \<Rightarrow> int \<Rightarrow> nat list \<Rightarrow> (nat \<Rightarrow> bool) \<Rightarrow> kvm_host \<Rightarrow> (int list \<times> kvm_host) res" where
  "create_vcpus k fd [] mapped h = Inr ([], h)"
| "create_vcpus k fd (i # is) mapped h =
     and_then (create_vcpu k fd i (mapped i) h) (\<lambda>(cpu, h).
     and_then (create_vcpus k fd is mapped h) (\<lambda>(cpus, h). Inr (cpu # cpus, h)))"

text \<open>\<open>mmap\<close> and \<open>mapped\<close> are the answers to the mappings of the memory and of the processors' pages.\<close>

definition vm_new ::
  "kvm \<Rightarrow> nat \<Rightarrow> u64 \<Rightarrow> u64 option \<Rightarrow> (nat \<Rightarrow> bool) \<Rightarrow> kvm_host \<Rightarrow> (machine \<times> kvm_host) res" where
  "vm_new k ncpus mem mmap mapped h =
     and_then (create_vm k h) (\<lambda>(fd, h).
     if fd < 0 then Inl (Exn (RuntimeError ''kvm vm create failed'')) else
     and_then (enable fd KVM_CAP_X2APIC_API h) (\<lambda>h.
     and_then (create_memory fd mmap mem h) (\<lambda>(m, h).
     and_then (create_irq_chip fd h) (\<lambda>h.
     and_then (create_pit fd h) (\<lambda>h.
     and_then (create_vcpus k fd [0..<ncpus] mapped h) (\<lambda>(cpus, h).
     Inr (\<lparr>vm_fd = fd, vm_memory = m, vm_should_run = True, vm_interrupts = replicate 32 None,
           vm_cpus = cpus, vm_io_devices = [], vm_mmio = [], vm_messages = []\<rparr>, h)))))))"

definition get_vcpu :: "machine \<Rightarrow> nat \<Rightarrow> int res" where
  "get_vcpu v index = arr_get (vm_cpus v) index"

definition mem_size :: "machine \<Rightarrow> u64" where "mem_size v = gm_size (vm_memory v)"

definition stop :: "machine \<Rightarrow> machine" where "stop v = v\<lparr>vm_should_run := False\<rparr>"

text \<open>The destructor: the devices go first, then the mapping.\<close>

definition vm_close :: "machine \<Rightarrow> machine" where
  "vm_close v = v\<lparr>vm_should_run := False, vm_mmio := [], vm_memory := \<lparr>gm_size = 0, gm_byte = (\<lambda>_. 0)\<rparr>\<rparr>"

text \<open>
  A line is created with the first device that asks for it; \<open>fd_ok\<close> is the answer of
  \<^verbatim>\<open>eventfd(2)\<close>. The object is stored before KVM is told about it.
\<close>

definition register_irq :: "bool \<Rightarrow> u32 \<Rightarrow> machine \<Rightarrow> kvm_host \<Rightarrow> (interrupt \<times> machine \<times> kvm_host) res" where
  "register_irq fd_ok n v h =
     and_then (arr_get (vm_interrupts v) (unat n)) (\<lambda>slot.
     case slot of Some irq \<Rightarrow> Inr (irq, v, h)
     | None \<Rightarrow>
       let irq = interrupt_new n fd_ok in
       and_then (ioctl_check ''KVM_IRQFD'' (vm_fd v) (KVM_IRQFD (num irq) (irq_fd_ok irq)) h) (\<lambda>h.
       Inr (irq, v\<lparr>vm_interrupts := (vm_interrupts v)[unat n := Some irq]\<rparr>, h)))"

definition add_io_device ::
  "bool \<Rightarrow> u64 \<Rightarrow> u64 \<Rightarrow> u32 \<Rightarrow> io_dev \<Rightarrow> machine \<Rightarrow> kvm_host \<Rightarrow> (machine \<times> kvm_host) res" where
  "add_io_device fd_ok addr width n dev v h =
     and_then (register_irq fd_ok n v h) (\<lambda>(irq, v, h).
     Inr (v\<lparr>vm_io_devices := vm_io_devices v @
       [\<lparr>ps_window = \<lparr>io_addr = addr, io_width = width\<rparr>, ps_irq = unat n, ps_dev = dev\<rparr>]\<rparr>, h))"

text \<open>
  The constructor of the device runs after its line has been registered, and may throw. The slot holds
  the interrupt object itself, where the code holds a pointer to the registered one: no other device
  asks for the lines 12, 13 and 14, so the object in the slot is the only one that is used.
\<close>

definition add_mmio_device ::
  "bool \<Rightarrow> u64 \<Rightarrow> u64 \<Rightarrow> u32 \<Rightarrow> vio res \<Rightarrow> machine \<Rightarrow> kvm_host \<Rightarrow> (machine \<times> kvm_host) res" where
  "add_mmio_device fd_ok addr width n new_dev v h =
     and_then (register_irq fd_ok n v h) (\<lambda>(irq, v, h).
     and_then new_dev (\<lambda>dev.
     Inr (v\<lparr>vm_mmio := vm_mmio v @
       [\<lparr>ms_window = \<lparr>io_addr = addr, io_width = width\<rparr>, ms_state = (dev, irq)\<rparr>]\<rparr>, h)))"

section \<open>Port devices\<close>

text \<open>The virtual functions of \<^verbatim>\<open>io_device\<close>.\<close>

fun dev_read :: "u64 \<Rightarrow> u32 \<Rightarrow> io_dev \<times> interrupt \<Rightarrow> (u8 list \<times> io_dev \<times> interrupt) res" where
  "dev_read off sz (I8042_dev d, irq) =
     and_then (i8042_read off sz (d, irq)) (\<lambda>(buf, d, irq). Inr (buf, I8042_dev d, irq))"
| "dev_read off sz (Uart_dev u t, irq) =
     and_then (uart_read off sz (u, t, irq)) (\<lambda>(buf, u, t, irq). Inr (buf, Uart_dev u t, irq))"

fun dev_write :: "u8 list \<Rightarrow> u64 \<Rightarrow> u32 \<Rightarrow> io_dev \<times> interrupt \<Rightarrow> (io_dev \<times> interrupt) res" where
  "dev_write data off sz (I8042_dev d, irq) =
     and_then (i8042_write data off sz (d, irq)) (\<lambda>(d, irq). Inr (I8042_dev d, irq))"
| "dev_write data off sz (Uart_dev u t, irq) =
     and_then (uart_write data off sz (u, t, irq)) (\<lambda>(u, t, irq). Inr (Uart_dev u t, irq))"

fun first_in_range :: "u64 \<Rightarrow> io_slot list \<Rightarrow> nat option" where
  "first_in_range port [] = None"
| "first_in_range port (s # ss) =
     (if in_range (ps_window s) port then Some 0 else map_option Suc (first_in_range port ss))"

definition slot_irq :: "machine \<Rightarrow> nat \<Rightarrow> interrupt res" where
  "slot_irq v i =
     and_then (arr_get (vm_interrupts v) (ps_irq (vm_io_devices v ! i))) (\<lambda>x.
     case x of None \<Rightarrow> Inl (UB NullPointer) | Some irq \<Rightarrow> Inr irq)"

definition set_slot :: "nat \<Rightarrow> io_dev \<Rightarrow> interrupt \<Rightarrow> machine \<Rightarrow> machine" where
  "set_slot i dev irq v =
     (let s = vm_io_devices v ! i in
      v\<lparr>vm_io_devices := (vm_io_devices v)[i := s\<lparr>ps_dev := dev\<rparr>],
        vm_interrupts := (vm_interrupts v)[ps_irq s := Some irq]\<rparr>)"

text \<open>One exit is one call of the device, whatever \<^verbatim>\<open>count\<close> says: the sizes are multiplied.\<close>

definition handle_io_device :: "kvm_exit_io \<Rightarrow> nat \<Rightarrow> machine \<Rightarrow> (kvm_exit_io \<times> machine) res" where
  "handle_io_device io i v =
     (let s = vm_io_devices v ! i;
          off = offset (ps_window s) (ucast (io_port io));
          sz = io_count io * ucast (io_size io) in
      and_then (slot_irq v i) (\<lambda>irq.
      if \<not> io_out io then
        and_then (dev_read off sz (ps_dev s, irq)) (\<lambda>(buf, dev, irq).
        and_then (buf_write (io_data io) 0 buf) (\<lambda>data.
        Inr (io\<lparr>io_data := data\<rparr>, set_slot i dev irq v)))
      else
        and_then (dev_write (io_data io) off sz (ps_dev s, irq)) (\<lambda>(dev, irq).
        Inr (io, set_slot i dev irq v))))"

section \<open>MMIO devices\<close>

definition on_blk :: "(blk \<times> interrupt \<Rightarrow> ('x \<times> blk \<times> interrupt) res) \<Rightarrow> blk \<Rightarrow> interrupt \<Rightarrow> ('x \<times> vio \<times> interrupt) res" where
  "on_blk f d irq = and_then (f (d, irq)) (\<lambda>(x, d, irq). Inr (x, Vblk d, irq))"

definition on_rng :: "(rng \<times> interrupt \<Rightarrow> ('x \<times> rng \<times> interrupt) res) \<Rightarrow> rng \<Rightarrow> interrupt \<Rightarrow> ('x \<times> vio \<times> interrupt) res" where
  "on_rng f d irq = and_then (f (d, irq)) (\<lambda>(x, d, irq). Inr (x, Vrng d, irq))"

definition on_net :: "(net \<times> interrupt \<Rightarrow> ('x \<times> net \<times> interrupt) res) \<Rightarrow> net \<Rightarrow> interrupt \<Rightarrow> ('x \<times> vio \<times> interrupt) res" where
  "on_net f d irq = and_then (f (d, irq)) (\<lambda>(x, d, irq). Inr (x, Vnet d, irq))"

fun vio_read :: "u64 \<Rightarrow> u32 \<Rightarrow> vio \<times> interrupt \<Rightarrow> (u8 list \<times> vio \<times> interrupt) res" where
  "vio_read off sz (Vblk d, irq) = on_blk (holder_read blk_class off sz) d irq"
| "vio_read off sz (Vrng d, irq) = on_rng (holder_read rng_class off sz) d irq"
| "vio_read off sz (Vnet d, irq) = on_net (holder_read net_class off sz) d irq"

fun vio_write :: "u8 list \<Rightarrow> u64 \<Rightarrow> u32 \<Rightarrow> vio \<times> interrupt \<Rightarrow> (vio \<times> interrupt) res" where
  "vio_write data off sz (Vblk d, irq) =
     and_then (holder_write blk_class data off sz (d, irq)) (\<lambda>(d, irq). Inr (Vblk d, irq))"
| "vio_write data off sz (Vrng d, irq) =
     and_then (holder_write rng_class data off sz (d, irq)) (\<lambda>(d, irq). Inr (Vrng d, irq))"
| "vio_write data off sz (Vnet d, irq) =
     and_then (holder_write net_class data off sz (d, irq)) (\<lambda>(d, irq). Inr (Vnet d, irq))"

fun vio_update :: "gmem \<Rightarrow> vio \<times> interrupt \<Rightarrow> (gmem \<times> vio \<times> interrupt) res" where
  "vio_update m (Vblk d, irq) = on_blk (vc_update blk_class m) d irq"
| "vio_update m (Vrng d, irq) = on_rng (vc_update rng_class m) d irq"
| "vio_update m (Vnet d, irq) = on_net (vc_update net_class m) d irq"

definition handle_mmio :: "kvm_exit_mmio \<Rightarrow> machine \<Rightarrow> (kvm_exit_mmio \<times> machine) res" where
  "handle_mmio mm v =
     and_then
       (if \<not> mm_is_write mm then
          and_then (mmio_read vio_read (mm_phys_addr mm) (mm_len mm) (vm_mmio v)) (\<lambda>(buf, ss).
          and_then (buf_write (mm_data mm) 0 buf) (\<lambda>data. Inr (mm\<lparr>mm_data := data\<rparr>, ss)))
        else
          and_then (mmio_write vio_write (mm_data mm) (mm_phys_addr mm) (mm_len mm) (vm_mmio v)) (\<lambda>ss.
          Inr (mm, ss)))
       (\<lambda>(mm, ss).
     and_then (mmio_update vio_update (vm_memory v) ss) (\<lambda>(m, ss).
     Inr (mm, v\<lparr>vm_memory := m, vm_mmio := ss\<rparr>)))"

section \<open>Exits\<close>

definition say :: "vm_message \<Rightarrow> machine \<Rightarrow> machine" where
  "say msg v = v\<lparr>vm_messages := vm_messages v @ [msg]\<rparr>"

text \<open>
  The body of the loop of \<^verbatim>\<open>run_cpu\<close>: the value it returns with, if it does, and the page
  handed back to the processor.
\<close>

fun handle_exit :: "kvm_exit \<Rightarrow> machine \<Rightarrow> (int option \<times> kvm_exit \<times> machine) res" where
  "handle_exit (KVM_EXIT_IO io) v =
     (case first_in_range (ucast (io_port io)) (vm_io_devices v) of
        Some i \<Rightarrow> and_then (handle_io_device io i v) (\<lambda>(io, v). Inr (None, KVM_EXIT_IO io, v))
      | None \<Rightarrow>
          if io_port io = 0x80 then Inr (None, KVM_EXIT_IO io, v)
          else Inr (None, KVM_EXIT_IO io, say (Msg_io io) v))"
| "handle_exit (KVM_EXIT_MMIO mm) v =
     and_then (handle_mmio mm v) (\<lambda>(mm, v). Inr (None, KVM_EXIT_MMIO mm, v))"
| "handle_exit KVM_EXIT_DEBUG v = Inr (None, KVM_EXIT_DEBUG, say Msg_debug v)"
| "handle_exit KVM_EXIT_SHUTDOWN v = Inr (Some 0, KVM_EXIT_SHUTDOWN, say Msg_halted v)"
| "handle_exit KVM_EXIT_HLT v = Inr (Some 0, KVM_EXIT_HLT, say Msg_halted v)"
| "handle_exit KVM_EXIT_INTR v = Inr (None, KVM_EXIT_INTR, say Msg_intr v)"
| "handle_exit (KVM_EXIT_OTHER n) v = Inr (Some (sint n), KVM_EXIT_OTHER n, say (Msg_exit n) v)"

section \<open>The loop of a processor\<close>

lemma run_retry_shorter: "run_retry rs = Inr (x, as) \<Longrightarrow> length as < length rs"
  by (induction rs rule: run_retry.induct) (auto simp: ioctl_err_def split: if_splits)

lemma vcpu_run_shorter:
  "vcpu_run fd single_step h = Inr (x, h') \<Longrightarrow> length (kh_runs h' fd) < length (kh_runs h fd)"
  by (auto simp: vcpu_run_def ioctl_check_def ioctl_def ioctl_err_def dest!: run_retry_shorter
      split: if_splits list.splits)

lemma handle_io_device_fields:
  "handle_io_device io i v = Inr (io', v') \<Longrightarrow>
   vm_cpus v' = vm_cpus v \<and> vm_should_run v' = vm_should_run v \<and> vm_memory v' = vm_memory v \<and>
   vm_mmio v' = vm_mmio v \<and> vm_messages v' = vm_messages v"
  by (auto simp: handle_io_device_def Let_def set_slot_def split: if_splits)

lemma handle_mmio_fields:
  "handle_mmio mm v = Inr (mm', v') \<Longrightarrow>
   vm_cpus v' = vm_cpus v \<and> vm_should_run v' = vm_should_run v \<and>
   vm_io_devices v' = vm_io_devices v \<and> vm_interrupts v' = vm_interrupts v"
  by (auto simp: handle_mmio_def)

lemma handle_exit_cpus: "handle_exit x v = Inr (r, x', v') \<Longrightarrow> vm_cpus v' = vm_cpus v"
  by (cases "(x, v)" rule: handle_exit.cases)
     (auto simp: say_def dest: handle_io_device_fields handle_mmio_fields split: option.splits if_splits)

text \<open>
  Every round consumes an answer of the kernel, so the recorded answers bound the loop; the result
  carries the pages handed back, in order.
\<close>

definition pending_runs :: "nat \<Rightarrow> machine \<Rightarrow> kvm_host \<Rightarrow> nat" where
  "pending_runs index v h = length (kh_runs h (vm_cpus v ! index))"

function run_cpu ::
  "nat \<Rightarrow> bool \<Rightarrow> machine \<Rightarrow> kvm_host \<Rightarrow> (int \<times> kvm_exit list \<times> machine \<times> kvm_host) res" where
  "run_cpu index single_step v h =
     (if \<not> vm_should_run v then Inr (1, [], v, h) else
      and_then (get_vcpu v index) (\<lambda>fd.
      and_then (vcpu_run fd single_step h) (\<lambda>(x, h).
      and_then (handle_exit x v) (\<lambda>(ret, x, v).
      case ret of Some r \<Rightarrow> Inr (r, [x], v, h)
      | None \<Rightarrow>
          and_then (run_cpu index single_step v h) (\<lambda>(r, xs, v, h). Inr (r, x # xs, v, h))))))"
  by pat_completeness auto
termination
  by (relation "measure (\<lambda>(index, ss, v, h). pending_runs index v h)")
     (auto simp: pending_runs_def get_vcpu_def arr_get_eq_Inr dest!: handle_exit_cpus vcpu_run_shorter)

declare run_cpu.simps [simp del]

end
