(* ===== verification/Vm_Ports.thy ===== *)
theory Vm_Ports
  imports Vm
begin

text \<open>
  The port side of the machine: what an exit on a port does to the devices behind
  \<^verbatim>\<open>io_devices\<close>, the invariant of those devices over any sequence of exits and terminal
  input, and the console as the guest drives it through \<^verbatim>\<open>run_cpu\<close>.
\<close>

section \<open>Serial ports on a host terminal\<close>

text \<open>
  \<^verbatim>\<open>write(2)\<close> of one byte reports an error, nothing or one byte written. A terminal that
  behaves like this makes the port wait at worst.
\<close>

definition terminal_sane :: "terminal option \<Rightarrow> bool" where
  "terminal_sane t \<longleftrightarrow> (case t of None \<Rightarrow> True | Some tm \<Rightarrow> \<forall>r \<in> set (term_writes tm). r \<le> 1)"

lemma terminal_sane_simps [simp]:
  "terminal_sane None" "terminal_sane (Some tm) \<longleftrightarrow> (\<forall>r \<in> set (term_writes tm). r \<le> 1)"
  by (simp_all add: terminal_sane_def)

lemma put_loop_sane:
  "data \<noteq> [] \<Longrightarrow> \<forall>r \<in> set rets. r \<le> 1 \<Longrightarrow>
   put_loop data 1 0 t rets = Inl Blocked \<or>
   (\<exists>n t'. put_loop data 1 0 t rets = Inr (n, t') \<and> set (term_writes t') \<subseteq> set rets)"
proof (induction rets arbitrary: t)
  case (Cons r rets)
  consider "r < 0" | "r = 0" | "r = 1" using Cons.prems(2) by force
  then show ?case
  proof cases
    case 2
    with Cons.IH[of "t\<lparr>term_out := term_out t @ []\<rparr>"] Cons.prems show ?thesis
      by (fastforce simp: buf_read_def)
  next
    case 3
    with Cons.prems(1) show ?thesis
      by (cases data; cases rets) (auto simp: buf_read_def)
  qed auto
qed simp

lemma tx_byte_sane:
  assumes "uart_inv u" "terminal_sane t"
  shows "tx_byte b u t = Inl Blocked \<or>
    (\<exists>u' t'. tx_byte b u t = Inr (u', t') \<and> uart_inv u' \<and> terminal_sane t')"
proof (cases t)
  case None
  then show ?thesis using assms by (simp add: tx_byte_None)
next
  case (Some tm)
  have "(u_tx_buf u)[0 := b] \<noteq> []" using uart_inv_lengths[OF assms(1)] by auto
  with put_loop_sane[of "(u_tx_buf u)[0 := b]" "term_writes tm" tm] Some assms show ?thesis
    by (fastforce simp: tx_byte_eq put_def)
qed

lemma uart_write_transmit:
  "bs \<noteq> [] \<Longrightarrow> transmits off u \<Longrightarrow>
   uart_write bs off sz (u, t, irq) =
     and_then (tx_byte (hd bs) (set_divisor off (hd bs) u) t) (\<lambda>(u, t). update_irq (u, t, irq))"
  by (simp add: uart_write_def transmits_def hd_conv_nth)

lemma uart_write_sane:
  assumes "uart_inv u" "irq_fd_ok irq" "bs \<noteq> []" "terminal_sane t"
  shows "uart_write bs off sz (u, t, irq) = Inl Blocked \<or>
    (\<exists>u' t' irq'. uart_write bs off sz (u, t, irq) = Inr (u', t', irq') \<and>
       uart_inv u' \<and> irq_fd_ok irq' \<and> terminal_sane t')"
proof (cases "transmits off u")
  case False
  then show ?thesis using uart_write_cases[OF assms(1-3), of off t sz] assms(4) by auto
next
  case True
  have "uart_inv (set_divisor off (hd bs) u)" using assms(1) by simp
  from tx_byte_sane[OF this assms(4), of "hd bs"] show ?thesis
  proof
    assume "tx_byte (hd bs) (set_divisor off (hd bs) u) t = Inl Blocked"
    with True show ?thesis by (simp add: uart_write_transmit assms(3))
  next
    assume "\<exists>u' t'. tx_byte (hd bs) (set_divisor off (hd bs) u) t = Inr (u', t') \<and>
      uart_inv u' \<and> terminal_sane t'"
    then obtain u' t' where tx: "tx_byte (hd bs) (set_divisor off (hd bs) u) t = Inr (u', t')"
      "uart_inv u'" "terminal_sane t'" by blast
    then show ?thesis
      using True update_irq_ok[OF tx(2) assms(2), of t']
      by (fastforce simp: uart_write_transmit assms(3) iir_only_simps)
  qed
qed

lemma get_loop_writes:
  "get_loop t rs = Inl Blocked \<or> (\<exists>c t'. get_loop t rs = Inr (c, t') \<and> term_writes t' = term_writes t)"
  by (induction t rs rule: get_loop.induct) auto

lemma rx_fill_sane:
  "uart_inv u \<Longrightarrow> rx_fill u t = Inl Blocked \<or>
   (\<exists>u' t'. rx_fill u t = Inr (u', t') \<and> uart_inv u' \<and> term_writes t' = term_writes t)"
proof (induction u t rule: rx_fill.induct)
  case (1 u t)
  show ?case
  proof (cases "readable t")
    case (Inl f)
    then show ?thesis
      by (subst (1 2) rx_fill.simps) (auto simp: readable_def split: list.splits prod.splits)
  next
    case (Inr p)
    obtain r t1 where r: "readable t = Inr (r, t1)" using Inr by (cases p) auto
    then have w1: "term_writes t1 = term_writes t"
      by (auto simp: readable_def split: list.splits)
    show ?thesis
    proof (cases "r \<and> u_rx_cnt u < FIFO_LEN")
      case False
      then show ?thesis using r w1 1(2) by (subst (1 2) rx_fill.simps) auto
    next
      case True
      from get_loop_writes[of t1 "term_reads t1"] show ?thesis
      proof
        assume "get_loop t1 (term_reads t1) = Inl Blocked"
        then show ?thesis using r True by (subst (1 2) rx_fill.simps) (simp add: get_def)
      next
        assume "\<exists>c t'. get_loop t1 (term_reads t1) = Inr (c, t') \<and> term_writes t' = term_writes t1"
        then obtain c t2 where g: "get t1 = Inr (c, t2)" "term_writes t2 = term_writes t1"
          by (auto simp: get_def)
        show ?thesis
        proof (cases "c < 0")
          case neg: True
          then show ?thesis using r True g w1 1(2) by (subst (1 2) rx_fill.simps) auto
        next
          case False
          let ?v = "rx_push (word_of_int c) u"
          have slot: "unat (u_rx_cnt u) < length (u_rx_buf u)"
            using 1(2) True by (simp add: uart_inv_def FIFO_LEN_def word_less_nat_alt)
          have v: "u\<lparr>u_rx_buf := (u_rx_buf u)[unat (u_rx_cnt u) := word_of_int c],
              u_rx_cnt := u_rx_cnt u + 1, u_lsr := u_lsr u OR LSR_DATA_BIT\<rparr> = ?v"
            using True by (simp add: rx_push_def)
          have "rx_fill ?v t2 = Inl Blocked \<or>
              (\<exists>u' t'. rx_fill ?v t2 = Inr (u', t') \<and> uart_inv u' \<and> term_writes t' = term_writes t2)"
            using 1(1)[OF r refl True g(1) refl False arr_set_in[OF slot]] rx_push_inv[OF 1(2)]
            unfolding v by blast
          moreover have "rx_fill u t = rx_fill ?v t2"
            using r True g False slot v by (subst rx_fill.simps) simp
          ultimately show ?thesis using g(2) w1 by simp
        qed
      qed
    qed
  qed
qed

lemma write_stdio_sane:
  assumes "uart_inv u" "irq_fd_ok irq" "terminal_sane (Some tm)"
  shows "write_stdio (u, Some tm, irq) = Inl Blocked \<or>
    (\<exists>n u' tm' irq'. write_stdio (u, Some tm, irq) = Inr (n, u', Some tm', irq') \<and>
       uart_inv u' \<and> irq_fd_ok irq' \<and> terminal_sane (Some tm'))"
proof -
  have up: "\<exists>v' irq'. update_irq (v, t, irq) = Inr (v', t, irq') \<and> uart_inv v' \<and> irq_fd_ok irq'"
    if "uart_inv v" for v t
    using update_irq_ok[OF that assms(2), of t] that by (auto simp: iir_only_simps)
  from rx_fill_sane[OF assms(1), of tm] show ?thesis
  proof
    assume "rx_fill u tm = Inl Blocked"
    then show ?thesis using up[OF assms(1), of "Some tm"] assms by (auto simp: write_stdio_def)
  next
    assume "\<exists>u' t'. rx_fill u tm = Inr (u', t') \<and> uart_inv u' \<and> term_writes t' = term_writes tm"
    then obtain v tm' where f: "rx_fill u tm = Inr (v, tm')" "uart_inv v" "term_writes tm' = term_writes tm"
      by blast
    then show ?thesis
      using up[OF assms(1), of "Some tm"] up[OF f(2), of "Some tm'"] assms
      by (auto simp: write_stdio_def)
  qed
qed

section \<open>The contract of a port device\<close>

text \<open>
  What the dispatch relies on: a device in its invariant, on a line with a working eventfd, serves
  every access of at least one byte or waits for the terminal; replies have the length asked for.
\<close>

fun dev_ok :: "io_dev \<Rightarrow> bool" where
  "dev_ok (I8042_dev d) \<longleftrightarrow> i8042_inv d"
| "dev_ok (Uart_dev u t) \<longleftrightarrow> uart_inv u \<and> terminal_sane t"

locale waiting_device =
  fixes rd :: "u64 \<Rightarrow> u32 \<Rightarrow> 'd \<times> interrupt \<Rightarrow> (u8 list \<times> 'd \<times> interrupt) res"
    and wr :: "u8 list \<Rightarrow> u64 \<Rightarrow> u32 \<Rightarrow> 'd \<times> interrupt \<Rightarrow> ('d \<times> interrupt) res"
    and ok :: "'d \<Rightarrow> bool"
  assumes rd_serves: "ok d \<Longrightarrow> irq_fd_ok irq \<Longrightarrow> sz \<noteq> 0 \<Longrightarrow>
      \<exists>buf d' irq'. rd off sz (d, irq) = Inr (buf, d', irq') \<and> length buf = unat sz \<and>
        ok d' \<and> irq_fd_ok irq'"
    and wr_serves: "ok d \<Longrightarrow> irq_fd_ok irq \<Longrightarrow> bs \<noteq> [] \<Longrightarrow>
      wr bs off sz (d, irq) = Inl Blocked \<or>
      (\<exists>d' irq'. wr bs off sz (d, irq) = Inr (d', irq') \<and> ok d' \<and> irq_fd_ok irq')"
begin

lemma run_serves:
  "ok d \<Longrightarrow> irq_fd_ok irq \<Longrightarrow> list_all access_ok as \<Longrightarrow>
   run_accesses rd wr as (d, irq) = Inl Blocked \<or>
   (\<exists>bufs d' irq'. run_accesses rd wr as (d, irq) = Inr (bufs, d', irq') \<and> ok d' \<and> irq_fd_ok irq' \<and>
      map length bufs = read_sizes as)"
proof (induction as arbitrary: d irq)
  case (Cons a as)
  show ?case
  proof (cases a)
    case (Read off sz)
    then obtain buf d' irq' where r: "rd off sz (d, irq) = Inr (buf, d', irq')" "length buf = unat sz"
      "ok d'" "irq_fd_ok irq'"
      using rd_serves[OF Cons.prems(1,2), of sz off] Cons.prems(3) by auto
    from Cons.IH[OF r(3,4)] Cons.prems(3) r Read show ?thesis by fastforce
  next
    case (Write bs off sz)
    then have "bs \<noteq> []" using Cons.prems(3) by simp
    from wr_serves[OF Cons.prems(1,2) this, of off sz] show ?thesis
    proof
      assume "wr bs off sz (d, irq) = Inl Blocked"
      then show ?thesis by (simp add: Write)
    next
      assume "\<exists>d' irq'. wr bs off sz (d, irq) = Inr (d', irq') \<and> ok d' \<and> irq_fd_ok irq'"
      then obtain d' irq' where w: "wr bs off sz (d, irq) = Inr (d', irq')" "ok d'" "irq_fd_ok irq'"
        by blast
      from Cons.IH[OF w(2,3)] Cons.prems(3) w(1) Write show ?thesis by fastforce
    qed
  qed
qed simp

end

interpretation machine_dev: waiting_device dev_read dev_write dev_ok
proof (unfold_locales, goal_cases)
  case (1 d irq sz off)
  then show ?case
  proof (cases d)
    case (I8042_dev k)
    then show ?thesis using i8042_read_cases[of k irq sz off] 1 by fastforce
  next
    case (Uart_dev u t)
    then show ?thesis using uart_read_cases[of u irq sz off t] 1 by fastforce
  qed
next
  case (2 d irq bs off sz)
  then show ?case
  proof (cases d)
    case (I8042_dev k)
    then show ?thesis using i8042_write_cases[of k irq bs off sz] 2 by fastforce
  next
    case (Uart_dev u t)
    then show ?thesis using uart_write_sane[of u irq bs t off sz] 2 by fastforce
  qed
qed

section \<open>The devices of a machine\<close>

definition lines_ok :: "interrupt option list \<Rightarrow> bool" where
  "lines_ok irqs \<longleftrightarrow> (\<forall>irq. Some irq \<in> set irqs \<longrightarrow> irq_fd_ok irq)"

definition slot_ok :: "interrupt option list \<Rightarrow> io_slot \<Rightarrow> bool" where
  "slot_ok irqs s \<longleftrightarrow> ps_irq s < length irqs \<and> irqs ! ps_irq s \<noteq> None \<and> dev_ok (ps_dev s)"

definition ports_ok :: "machine \<Rightarrow> bool" where
  "ports_ok v \<longleftrightarrow> lines_ok (vm_interrupts v) \<and> list_all (slot_ok (vm_interrupts v)) (vm_io_devices v)"

text \<open>An exit as KVM reports it: the page holds \<^verbatim>\<open>count * size\<close> bytes of data.\<close>

definition io_bytes :: "kvm_exit_io \<Rightarrow> u32" where
  "io_bytes io = io_count io * ucast (io_size io)"

definition io_exit_ok :: "kvm_exit_io \<Rightarrow> bool" where
  "io_exit_ok io \<longleftrightarrow> io_bytes io \<noteq> 0 \<and> unat (io_bytes io) \<le> length (io_data io)"

lemma first_in_rangeD:
  "first_in_range port ss = Some i \<Longrightarrow>
   i < length ss \<and> in_range (ps_window (ss ! i)) port \<and> (\<forall>j < i. \<not> in_range (ps_window (ss ! j)) port)"
proof (induction ss arbitrary: i)
  case (Cons s ss)
  then show ?case
    by (cases i) (auto split: if_splits simp: less_Suc_eq_0_disj)
qed simp

lemma first_in_range_None:
  "first_in_range port ss = None \<longleftrightarrow> (\<forall>s \<in> set ss. \<not> in_range (ps_window s) port)"
  by (induction ss) auto

lemma first_in_range_cong:
  "map ps_window ss = map ps_window ss' \<Longrightarrow> first_in_range port ss = first_in_range port ss'"
  by (induction ss ss' rule: list_induct2') simp_all

lemma slot_irq_ok:
  "ports_ok v \<Longrightarrow> i < length (vm_io_devices v) \<Longrightarrow>
   \<exists>irq. slot_irq v i = Inr irq \<and> irq_fd_ok irq \<and>
     vm_interrupts v ! ps_irq (vm_io_devices v ! i) = Some irq"
proof -
  assume ok: "ports_ok v" and i: "i < length (vm_io_devices v)"
  let ?n = "ps_irq (vm_io_devices v ! i)"
  from ok i have s: "slot_ok (vm_interrupts v) (vm_io_devices v ! i)"
    by (simp add: ports_ok_def list_all_length)
  then obtain irq where irq: "vm_interrupts v ! ?n = Some irq" and n: "?n < length (vm_interrupts v)"
    by (auto simp: slot_ok_def)
  then have "Some irq \<in> set (vm_interrupts v)" by (metis nth_mem)
  with ok have "irq_fd_ok irq" by (simp add: ports_ok_def lines_ok_def)
  with irq n show ?thesis by (simp add: slot_irq_def)
qed

lemma set_slot_fields [simp]:
  "vm_cpus (set_slot i d irq v) = vm_cpus v" "vm_should_run (set_slot i d irq v) = vm_should_run v"
  "vm_memory (set_slot i d irq v) = vm_memory v" "vm_mmio (set_slot i d irq v) = vm_mmio v"
  "vm_messages (set_slot i d irq v) = vm_messages v" "vm_fd (set_slot i d irq v) = vm_fd v"
  "vm_io_devices (set_slot i d irq v) = (vm_io_devices v)[i := (vm_io_devices v ! i)\<lparr>ps_dev := d\<rparr>]"
  "vm_interrupts (set_slot i d irq v) = (vm_interrupts v)[ps_irq (vm_io_devices v ! i) := Some irq]"
  by (simp_all add: set_slot_def Let_def)

lemma slot_ok_line:
  "slot_ok irqs s \<Longrightarrow> slot_ok (irqs[n := Some irq]) s"
  by (cases "ps_irq s = n") (auto simp: slot_ok_def)

lemma ports_ok_set_slot:
  assumes "ports_ok v" "i < length (vm_io_devices v)" "dev_ok d" "irq_fd_ok irq"
  shows "ports_ok (set_slot i d irq v)"
proof -
  let ?s = "vm_io_devices v ! i" and ?irqs = "(vm_interrupts v)[ps_irq (vm_io_devices v ! i) := Some irq]"
  have ok: "\<And>s. s \<in> set (vm_io_devices v) \<Longrightarrow> slot_ok ?irqs s"
    using assms(1) slot_ok_line by (fastforce simp: ports_ok_def list_all_iff)
  have "slot_ok ?irqs (?s\<lparr>ps_dev := d\<rparr>)"
    using ok[of ?s] assms(2,3) by (simp add: slot_ok_def)
  with ok have "\<And>s. s \<in> set ((vm_io_devices v)[i := ?s\<lparr>ps_dev := d\<rparr>]) \<Longrightarrow> slot_ok ?irqs s"
    using set_update_subset_insert by fastforce
  moreover have "lines_ok ?irqs"
    using assms(1,4) set_update_subset_insert[of "vm_interrupts v" "ps_irq ?s" "Some irq"]
    by (auto simp: ports_ok_def lines_ok_def)
  ultimately show ?thesis by (simp add: ports_ok_def list_all_iff)
qed

lemma set_slot_windows [simp]:
  "map ps_window ((vm_io_devices v)[i := (vm_io_devices v ! i)\<lparr>ps_dev := d\<rparr>]) =
   map ps_window (vm_io_devices v)"
  by (cases "i < length (vm_io_devices v)") (simp_all add: list_update_same_conv map_update list_update_beyond)

section \<open>One exit\<close>

definition port_windows_ok :: "io_slot list \<Rightarrow> bool" where
  "port_windows_ok ss \<longleftrightarrow>
     (\<forall>s \<in> set ss. unat (io_addr (ps_window s)) + unat (io_width (ps_window s)) < 18446744073709551616) \<and>
     sorted_wrt (\<lambda>s s'. windows_apart (ps_window s) (ps_window s')) ss"

lemma first_in_range_hit:
  "port_windows_ok ss \<Longrightarrow> i < length ss \<Longrightarrow> in_range (ps_window (ss ! i)) port \<Longrightarrow>
   first_in_range port ss = Some i"
proof (induction ss arbitrary: i)
  case (Cons s ss)
  show ?case
  proof (cases i)
    case 0
    then show ?thesis using Cons.prems by simp
  next
    case (Suc j)
    with Cons.prems have j: "j < length ss" "in_range (ps_window (ss ! j)) port" by auto
    then have "ss ! j \<in> set ss" by simp
    with Cons.prems(1) have "windows_apart (ps_window (ss ! j)) (ps_window s)"
      by (auto simp: port_windows_ok_def windows_apart_def)
    from windows_apart_in_range[OF this j(2)] Cons.prems(1) \<open>ss ! j \<in> set ss\<close>
    have "\<not> in_range (ps_window s) port" by (simp add: port_windows_ok_def)
    moreover have "port_windows_ok ss" using Cons.prems(1) by (simp add: port_windows_ok_def)
    ultimately show ?thesis using Cons.IH j Suc by simp
  qed
qed simp

lemma handle_io_device_in:
  assumes "ports_ok v" "io_exit_ok io" "i < length (vm_io_devices v)" "\<not> io_out io"
  shows "\<exists>irq buf d irq'. vm_interrupts v ! ps_irq (vm_io_devices v ! i) = Some irq \<and>
    dev_read (offset (ps_window (vm_io_devices v ! i)) (ucast (io_port io))) (io_bytes io)
      (ps_dev (vm_io_devices v ! i), irq) = Inr (buf, d, irq') \<and>
    length buf = unat (io_bytes io) \<and> dev_ok d \<and> irq_fd_ok irq' \<and>
    handle_io_device io i v =
      Inr (io\<lparr>io_data := buf @ drop (length buf) (io_data io)\<rparr>, set_slot i d irq' v)"
proof -
  obtain irq where irq: "slot_irq v i = Inr irq" "irq_fd_ok irq"
    "vm_interrupts v ! ps_irq (vm_io_devices v ! i) = Some irq"
    using slot_irq_ok assms by blast
  have "dev_ok (ps_dev (vm_io_devices v ! i))"
    using assms by (simp add: ports_ok_def slot_ok_def list_all_length)
  from machine_dev.rd_serves[OF this irq(2)] assms(2) obtain buf d irq' where
    r: "dev_read (offset (ps_window (vm_io_devices v ! i)) (ucast (io_port io))) (io_bytes io)
      (ps_dev (vm_io_devices v ! i), irq) = Inr (buf, d, irq')"
    "length buf = unat (io_bytes io)" "dev_ok d" "irq_fd_ok irq'"
    by (fastforce simp: io_exit_ok_def)
  have "buf \<noteq> []" using r(2) assms(2) by (auto simp: io_exit_ok_def)
  then have "buf_write (io_data io) 0 buf = Inr (buf @ drop (length buf) (io_data io))"
    using r(2) assms(2) by (simp add: buf_write_def io_exit_ok_def)
  then have "handle_io_device io i v =
      Inr (io\<lparr>io_data := buf @ drop (length buf) (io_data io)\<rparr>, set_slot i d irq' v)"
    using irq(1) r(1) assms(4) unfolding handle_io_device_def Let_def io_bytes_def by simp
  with irq r show ?thesis by blast
qed

lemma handle_io_device_out:
  assumes "ports_ok v" "io_exit_ok io" "i < length (vm_io_devices v)" "io_out io"
  shows "\<exists>irq. vm_interrupts v ! ps_irq (vm_io_devices v ! i) = Some irq \<and> irq_fd_ok irq \<and>
    handle_io_device io i v =
      and_then (dev_write (io_data io) (offset (ps_window (vm_io_devices v ! i)) (ucast (io_port io)))
        (io_bytes io) (ps_dev (vm_io_devices v ! i), irq)) (\<lambda>(d, irq'). Inr (io, set_slot i d irq' v))"
  using slot_irq_ok[OF assms(1,3)] assms(4) unfolding handle_io_device_def Let_def io_bytes_def by auto

lemma handle_io_device_ok:
  assumes "ports_ok v" "io_exit_ok io" "i < length (vm_io_devices v)"
  shows "handle_io_device io i v = Inl Blocked \<or>
    (\<exists>io' d irq. handle_io_device io i v = Inr (io', set_slot i d irq v) \<and> ports_ok (set_slot i d irq v))"
proof (cases "io_out io")
  case False
  with handle_io_device_in[OF assms] show ?thesis
    using ports_ok_set_slot[OF assms(1,3)] by blast
next
  case True
  from handle_io_device_out[OF assms True] obtain irq where irq: "irq_fd_ok irq"
    "handle_io_device io i v =
      and_then (dev_write (io_data io) (offset (ps_window (vm_io_devices v ! i)) (ucast (io_port io)))
        (io_bytes io) (ps_dev (vm_io_devices v ! i), irq)) (\<lambda>(d, irq'). Inr (io, set_slot i d irq' v))"
    by blast
  have d: "dev_ok (ps_dev (vm_io_devices v ! i))"
    using assms by (simp add: ports_ok_def slot_ok_def list_all_length)
  have "io_data io \<noteq> []" using assms(2) by (auto simp: io_exit_ok_def)
  from machine_dev.wr_serves[OF d irq(1) this,
      of "offset (ps_window (vm_io_devices v ! i)) (ucast (io_port io))" "io_bytes io"] show ?thesis
    using ports_ok_set_slot[OF assms(1,3)] unfolding irq(2) by (elim disjE exE conjE) auto
qed

lemma say_fields [simp]:
  "vm_io_devices (say m v) = vm_io_devices v" "vm_interrupts (say m v) = vm_interrupts v"
  "vm_should_run (say m v) = vm_should_run v" "vm_cpus (say m v) = vm_cpus v"
  "vm_memory (say m v) = vm_memory v" "vm_mmio (say m v) = vm_mmio v"
  by (simp_all add: say_def)

lemma ports_ok_say [simp]: "ports_ok (say m v) = ports_ok v"
  by (simp add: ports_ok_def)

lemma port_exit_outcome:
  assumes "ports_ok v" "io_exit_ok io"
  shows "handle_exit (KVM_EXIT_IO io) v = Inl Blocked \<or>
    (\<exists>io' v'. handle_exit (KVM_EXIT_IO io) v = Inr (None, KVM_EXIT_IO io', v') \<and> ports_ok v')"
proof (cases "first_in_range (ucast (io_port io)) (vm_io_devices v)")
  case None
  then show ?thesis using assms by simp
next
  case (Some i)
  with handle_io_device_ok[OF assms] first_in_rangeD[OF Some] show ?thesis by fastforce
qed

definition exit_ok :: "kvm_exit \<Rightarrow> bool" where
  "exit_ok x = (case x of KVM_EXIT_IO io \<Rightarrow> io_exit_ok io | _ \<Rightarrow> True)"

lemma handle_exit_ports_ok:
  assumes "handle_exit x v = Inr (r, x', v')" "ports_ok v" "exit_ok x"
  shows "ports_ok v'"
proof (cases x)
  case (KVM_EXIT_IO io)
  then show ?thesis using port_exit_outcome[of v io] assms by (auto simp: exit_ok_def)
next
  case (KVM_EXIT_MMIO mm)
  then show ?thesis using assms by (auto simp: ports_ok_def dest!: handle_mmio_fields)
qed (use assms in auto)

section \<open>The console\<close>

text \<open>
  What the device in slot \<open>k\<close> sees of an exit, and the devices that have no part in the
  console: they serve every access and reach no terminal.
\<close>

fun exit_access :: "io_slot list \<Rightarrow> nat \<Rightarrow> kvm_exit \<Rightarrow> access list" where
  "exit_access ss k (KVM_EXIT_IO io) =
     (if first_in_range (ucast (io_port io)) ss = Some k
      then (let off = offset (ps_window (ss ! k)) (ucast (io_port io)) in
            [if io_out io then Write (io_data io) off (io_bytes io) else Read off (io_bytes io)])
      else [])"
| "exit_access ss k x = []"

fun plain_exit :: "kvm_exit \<Rightarrow> bool" where
  "plain_exit (KVM_EXIT_IO io) \<longleftrightarrow> io_exit_ok io"
| "plain_exit KVM_EXIT_DEBUG \<longleftrightarrow> True"
| "plain_exit KVM_EXIT_INTR \<longleftrightarrow> True"
| "plain_exit x \<longleftrightarrow> False"

fun quiet_dev :: "io_dev \<Rightarrow> bool" where
  "quiet_dev (I8042_dev d) \<longleftrightarrow> i8042_inv d"
| "quiet_dev (Uart_dev u t) \<longleftrightarrow> uart_inv u \<and> t = None"

lemma quiet_read:
  "quiet_dev d \<Longrightarrow> irq_fd_ok irq \<Longrightarrow> sz \<noteq> 0 \<Longrightarrow>
   \<exists>buf d' irq'. dev_read off sz (d, irq) = Inr (buf, d', irq') \<and> quiet_dev d' \<and> irq_fd_ok irq'"
proof (cases d)
  case (I8042_dev k)
  assume "quiet_dev d" "irq_fd_ok irq" "sz \<noteq> 0"
  with I8042_dev i8042_read_cases[of k irq sz off] show ?thesis by fastforce
next
  case (Uart_dev u t)
  assume "quiet_dev d" "irq_fd_ok irq" "sz \<noteq> 0"
  with Uart_dev uart_read_cases[of u irq sz off None] show ?thesis by fastforce
qed

lemma quiet_write:
  "quiet_dev d \<Longrightarrow> irq_fd_ok irq \<Longrightarrow> bs \<noteq> [] \<Longrightarrow>
   \<exists>d' irq'. dev_write bs off sz (d, irq) = Inr (d', irq') \<and> quiet_dev d' \<and> irq_fd_ok irq'"
proof (cases d)
  case (I8042_dev k)
  assume "quiet_dev d" "irq_fd_ok irq" "bs \<noteq> []"
  with I8042_dev i8042_write_cases[of k irq bs off sz] show ?thesis by fastforce
next
  case (Uart_dev u t)
  assume "quiet_dev d" "irq_fd_ok irq" "bs \<noteq> []"
  with Uart_dev uart_write_cases[of u irq bs off None sz] show ?thesis by (fastforce simp: accepts_def)
qed

lemma quiet_dev_ok: "quiet_dev d \<Longrightarrow> dev_ok d"
  by (cases d) auto

definition console :: "nat \<Rightarrow> uart \<Rightarrow> terminal \<Rightarrow> machine \<Rightarrow> bool" where
  "console k u tm v \<longleftrightarrow>
     ports_ok v \<and> k < length (vm_io_devices v) \<and> ps_dev (vm_io_devices v ! k) = Uart_dev u (Some tm) \<and>
     (\<forall>j < length (vm_io_devices v). j \<noteq> k \<longrightarrow> quiet_dev (ps_dev (vm_io_devices v ! j)))"

lemma console_other:
  assumes "console k u tm v" "j < length (vm_io_devices v)" "j \<noteq> k" "quiet_dev d" "irq_fd_ok irq"
  shows "console k u tm (set_slot j d irq v)"
  using assms ports_ok_set_slot[of v j d irq] quiet_dev_ok[of d]
  by (auto simp: console_def nth_list_update)

lemma console_self:
  assumes "console k u tm v" "uart_inv u'" "terminal_sane (Some tm')" "irq_fd_ok irq"
  shows "console k u' tm' (set_slot k (Uart_dev u' (Some tm')) irq v)"
  using assms ports_ok_set_slot[of v k "Uart_dev u' (Some tm')" irq]
  by (auto simp: console_def nth_list_update)

lemma console_inv: "console k u tm v \<Longrightarrow> uart_inv u \<and> terminal_sane (Some tm)"
  by (auto simp: console_def ports_ok_def slot_ok_def list_all_length)

lemma console_other_exit:
  assumes "console k u tm v" "io_exit_ok io" "j < length (vm_io_devices v)" "j \<noteq> k"
  shows "\<exists>io' v'. handle_io_device io j v = Inr (io', v') \<and> console k u tm v' \<and>
    map ps_window (vm_io_devices v') = map ps_window (vm_io_devices v)"
proof -
  have ok: "ports_ok v" and q: "quiet_dev (ps_dev (vm_io_devices v ! j))"
    using assms by (auto simp: console_def)
  let ?off = "offset (ps_window (vm_io_devices v ! j)) (ucast (io_port io))"
  have "\<exists>io' d irq. handle_io_device io j v = Inr (io', set_slot j d irq v) \<and> quiet_dev d \<and> irq_fd_ok irq"
  proof (cases "io_out io")
    case True
    from handle_io_device_out[OF ok assms(2,3) True] obtain irq where irq: "irq_fd_ok irq"
      "handle_io_device io j v = and_then (dev_write (io_data io) ?off (io_bytes io)
        (ps_dev (vm_io_devices v ! j), irq)) (\<lambda>(d, irq'). Inr (io, set_slot j d irq' v))" by blast
    have "io_data io \<noteq> []" using assms(2) by (auto simp: io_exit_ok_def)
    from quiet_write[OF q irq(1) this, of ?off "io_bytes io"] irq(2) show ?thesis by fastforce
  next
    case False
    from handle_io_device_in[OF ok assms(2,3) False] obtain irq buf d irq' where r:
      "vm_interrupts v ! ps_irq (vm_io_devices v ! j) = Some irq"
      "dev_read ?off (io_bytes io) (ps_dev (vm_io_devices v ! j), irq) = Inr (buf, d, irq')"
      "handle_io_device io j v =
        Inr (io\<lparr>io_data := buf @ drop (length buf) (io_data io)\<rparr>, set_slot j d irq' v)" by blast
    have "irq_fd_ok irq" using slot_irq_ok[OF ok assms(3)] r(1) by auto
    moreover have "io_bytes io \<noteq> 0" using assms(2) by (simp add: io_exit_ok_def)
    ultimately show ?thesis using quiet_read[OF q, of irq "io_bytes io" ?off] r by auto
  qed
  then show ?thesis using console_other[OF assms(1,3,4)] by fastforce
qed

lemma console_self_exit:
  assumes "console k u tm v" "io_exit_ok io" "term_writes tm = replicate n 1"
    and "first_in_range (ucast (io_port io)) (vm_io_devices v) = Some k"
    and "length (tx_bytes (u_mcr u) (exit_access (vm_io_devices v) k (KVM_EXIT_IO io) @ as)) \<le> n"
  shows "\<exists>io' u' tm' v' n'. handle_io_device io k v = Inr (io', v') \<and> console k u' tm' v' \<and>
    map ps_window (vm_io_devices v') = map ps_window (vm_io_devices v) \<and>
    term_writes tm' = replicate n' 1 \<and> length (tx_bytes (u_mcr u') as) \<le> n' \<and>
    term_out tm' @ tx_bytes (u_mcr u') as =
      term_out tm @ tx_bytes (u_mcr u) (exit_access (vm_io_devices v) k (KVM_EXIT_IO io) @ as)"
proof -
  let ?off = "offset (ps_window (vm_io_devices v ! k)) (ucast (io_port io))"
  have c: "ports_ok v" "k < length (vm_io_devices v)" "ps_dev (vm_io_devices v ! k) = Uart_dev u (Some tm)"
    and u: "uart_inv u" "terminal_sane (Some tm)"
    using assms(1) console_inv[OF assms(1)] by (auto simp: console_def)
  show ?thesis
  proof (cases "io_out io")
    case False
    from handle_io_device_in[OF c(1) assms(2) c(2) False] obtain irq buf d irq' where r:
      "vm_interrupts v ! ps_irq (vm_io_devices v ! k) = Some irq"
      "dev_read ?off (io_bytes io) (Uart_dev u (Some tm), irq) = Inr (buf, d, irq')"
      "handle_io_device io k v =
        Inr (io\<lparr>io_data := buf @ drop (length buf) (io_data io)\<rparr>, set_slot k d irq' v)"
      unfolding c(3) by blast
    have "irq_fd_ok irq" using slot_irq_ok[OF c(1,2)] r(1) by auto
    from uart_read_cases[OF u(1) this, of "io_bytes io" ?off "Some tm"] r(2) assms(2) obtain u' where
      u': "d = Uart_dev u' (Some tm)" "uart_inv u'" "irq_fd_ok irq'" "u_mcr u' = u_mcr u"
      by (auto simp: io_exit_ok_def)
    show ?thesis
      using r(3) console_self[OF assms(1) u'(2) u(2) u'(3)] u' assms(3-5) False
      by (intro exI[of _ "io\<lparr>io_data := buf @ drop (length buf) (io_data io)\<rparr>"] exI[of _ u'] exI[of _ tm]
          exI[of _ "set_slot k d irq' v"] exI[of _ n]) (simp add: Let_def)
  next
    case True
    from handle_io_device_out[OF c(1) assms(2) c(2) True] obtain irq where irq: "irq_fd_ok irq"
      "handle_io_device io k v = and_then (dev_write (io_data io) ?off (io_bytes io)
        (Uart_dev u (Some tm), irq)) (\<lambda>(d, irq'). Inr (io, set_slot k d irq' v))"
      unfolding c(3) by blast
    have ne: "io_data io \<noteq> []" using assms(2) by (auto simp: io_exit_ok_def)
    let ?tr = "transmits ?off u" and ?b = "hd (io_data io)"
    let ?tm = "if ?tr then sent ?b tm else tm" and ?n = "if ?tr then n - 1 else n"
    have acc: "?tr \<Longrightarrow> accepts (Some tm)"
      using assms(3-5) True by (cases n) (auto simp: accepts_def transmits_def Let_def)
    from uart_write_cases[OF u(1) irq(1) ne, of ?off "Some tm" "io_bytes io"] acc obtain u' irq' where w:
      "uart_write (io_data io) ?off (io_bytes io) (u, Some tm, irq) = Inr (u', Some ?tm, irq')"
      "iir_only (after_write ?off ?b u) u'" "uart_inv u'" "irq_fd_ok irq'"
      by (auto split: if_splits)
    have mcr: "u_mcr u' = (if ?off = MCR then ?b else u_mcr u)"
      using w(2) by (simp add: iir_only_simps after_write_mcr)
    have wr: "term_writes ?tm = replicate ?n 1"
      using assms(3) by (cases n) (auto simp: sent_def)
    then have sane: "terminal_sane (Some ?tm)" by simp
    have h: "handle_io_device io k v = Inr (io, set_slot k (Uart_dev u' (Some ?tm)) irq' v)"
      using irq(2) w(1) by simp
    have "length (tx_bytes (u_mcr u') as) \<le> ?n" and
      "term_out ?tm @ tx_bytes (u_mcr u') as =
        term_out tm @ tx_bytes (u_mcr u) (exit_access (vm_io_devices v) k (KVM_EXIT_IO io) @ as)"
      using assms(4,5) True mcr by (auto simp: transmits_def sent_def Let_def)
    with h wr console_self[OF assms(1) w(3) sane w(4)] show ?thesis
      by (intro exI[of _ io] exI[of _ u'] exI[of _ ?tm] exI[of _ "set_slot k (Uart_dev u' (Some ?tm)) irq' v"]
          exI[of _ ?n]) simp
  qed
qed

lemma exit_access_cong:
  assumes "map ps_window ss = map ps_window ss'"
  shows "exit_access ss k x = exit_access ss' k x"
proof (cases x)
  case (KVM_EXIT_IO io)
  have len: "length ss = length ss'" using assms by (metis length_map)
  have "ps_window (ss ! k) = ps_window (ss' ! k)" if "k < length ss"
    using that len assms by (metis nth_map)
  then show ?thesis
    using KVM_EXIT_IO first_in_range_cong[OF assms] first_in_rangeD[of _ ss k] by auto
qed simp_all

lemma console_exit:
  assumes "console k u tm v" "plain_exit x" "term_writes tm = replicate n 1"
    and "length (tx_bytes (u_mcr u) (exit_access (vm_io_devices v) k x @ as)) \<le> n"
  shows "\<exists>x' u' tm' v' n'. handle_exit x v = Inr (None, x', v') \<and> console k u' tm' v' \<and>
    map ps_window (vm_io_devices v') = map ps_window (vm_io_devices v) \<and>
    term_writes tm' = replicate n' 1 \<and> length (tx_bytes (u_mcr u') as) \<le> n' \<and>
    term_out tm' @ tx_bytes (u_mcr u') as =
      term_out tm @ tx_bytes (u_mcr u) (exit_access (vm_io_devices v) k x @ as)"
proof -
  have quiet: ?thesis if "handle_exit x v = Inr (None, x', say m v)" "exit_access (vm_io_devices v) k x = []" for x' m
    using assms that by (fastforce simp: console_def)
  show ?thesis
  proof (cases x)
    case (KVM_EXIT_IO io)
    with assms(2) have ok: "io_exit_ok io" by simp
    show ?thesis
    proof (cases "first_in_range (ucast (io_port io)) (vm_io_devices v)")
      case None
      then show ?thesis
        using KVM_EXIT_IO quiet assms by (cases "io_port io = 0x80") fastforce+
    next
      case (Some j)
      show ?thesis
      proof (cases "j = k")
        case True
        from console_self_exit[OF assms(1) ok assms(3) Some[unfolded True] assms(4)[unfolded KVM_EXIT_IO]]
        show ?thesis using Some True KVM_EXIT_IO by fastforce
      next
        case False
        from console_other_exit[OF assms(1) ok _ False] first_in_rangeD[OF Some] obtain io' v' where
          "handle_io_device io j v = Inr (io', v')" "console k u tm v'"
          "map ps_window (vm_io_devices v') = map ps_window (vm_io_devices v)" by blast
        then show ?thesis using Some False KVM_EXIT_IO assms(3,4) by fastforce
      qed
    qed
  qed (use assms(2) quiet in auto)
qed

lemma handle_exit_should_run: "handle_exit x v = Inr (r, x', v') \<Longrightarrow> vm_should_run v' = vm_should_run v"
  by (cases "(x, v)" rule: handle_exit.cases)
     (auto dest: handle_io_device_fields handle_mmio_fields split: option.splits if_splits)

lemma plain_exit_bus: "plain_exit x \<Longrightarrow> handle_exit x v = Inr (r, x', v') \<Longrightarrow> vm_mmio v' = vm_mmio v"
  by (cases "(x, v)" rule: handle_exit.cases)
     (auto dest: handle_io_device_fields split: option.splits if_splits)

lemma vcpu_run_next:
  "kh_runs h fd = (0, e, x) # as \<Longrightarrow> vcpu_run fd False h = Inr (x, h\<lparr>kh_runs := (kh_runs h)(fd := as)\<rparr>)"
  by (simp add: vcpu_run_def)

lemma run_cpu_next:
  assumes "vm_should_run v" "get_vcpu v index = Inr fd" "kh_runs h fd = (0, 0, x) # as"
    and "handle_exit x v = Inr (None, x', v')"
  shows "run_cpu index False v h =
     and_then (run_cpu index False v' (h\<lparr>kh_runs := (kh_runs h)(fd := as)\<rparr>))
       (\<lambda>(r, xs, v, h). Inr (r, x' # xs, v, h))"
  using assms vcpu_run_next[OF assms(3)] by (subst run_cpu.simps) simp

lemma run_cpu_halts:
  assumes "vm_should_run v" "get_vcpu v index = Inr fd" "kh_runs h fd = (0, 0, KVM_EXIT_HLT) # as"
  shows "run_cpu index False v h =
     Inr (0, [KVM_EXIT_HLT], say Msg_halted v, h\<lparr>kh_runs := (kh_runs h)(fd := as)\<rparr>)"
  using assms vcpu_run_next[OF assms(3)] by (subst run_cpu.simps) simp

lemma run_console:
  assumes "console k u tm v" "list_all plain_exit xs" "term_writes tm = replicate n 1"
    and "length (tx_bytes (u_mcr u) (concat (map (exit_access (vm_io_devices v) k) xs))) \<le> n"
    and "vm_should_run v" "get_vcpu v index = Inr fd"
    and "kh_runs h fd = map (\<lambda>x. (0, 0, x)) xs @ (0, 0, KVM_EXIT_HLT) # as"
  shows "\<exists>ys u' tm' v' h'. run_cpu index False v h = Inr (0, ys, v', h') \<and> console k u' tm' v' \<and>
    term_out tm' =
      term_out tm @ tx_bytes (u_mcr u) (concat (map (exit_access (vm_io_devices v) k) xs)) \<and>
    length ys = length xs + 1 \<and> kh_runs h' fd = as \<and> vm_mmio v' = vm_mmio v"
  using assms
proof (induction xs arbitrary: u tm v n h)
  case Nil
  then show ?case using run_cpu_halts[of v index fd h as] by (fastforce simp: console_def)
next
  case (Cons x xs)
  let ?as = "concat (map (exit_access (vm_io_devices v) k) xs)"
  from console_exit[OF Cons.prems(1) _ Cons.prems(3), of x ?as] Cons.prems(2,4) obtain x' u' tm' v' n' where
    h: "handle_exit x v = Inr (None, x', v')" "console k u' tm' v'"
      "map ps_window (vm_io_devices v') = map ps_window (vm_io_devices v)"
      "term_writes tm' = replicate n' 1" "length (tx_bytes (u_mcr u') ?as) \<le> n'"
      "term_out tm' @ tx_bytes (u_mcr u') ?as =
        term_out tm @ tx_bytes (u_mcr u) (exit_access (vm_io_devices v) k x @ ?as)"
    by auto
  have same: "map (exit_access (vm_io_devices v') k) xs = map (exit_access (vm_io_devices v) k) xs"
    using exit_access_cong[OF h(3)] by simp
  have run: "vm_should_run v'" "get_vcpu v' index = Inr fd"
    using Cons.prems(5,6) handle_exit_should_run[OF h(1)] handle_exit_cpus[OF h(1)]
    by (simp_all add: get_vcpu_def)
  let ?h = "h\<lparr>kh_runs := (kh_runs h)(fd := map (\<lambda>x. (0, 0, x)) xs @ (0, 0, KVM_EXIT_HLT) # as)\<rparr>"
  have runs: "kh_runs ?h fd = map (\<lambda>x. (0, 0, x)) xs @ (0, 0, KVM_EXIT_HLT) # as" by simp
  have "list_all plain_exit xs" using Cons.prems(2) by simp
  from Cons.IH[OF h(2) this h(4) _ run runs] h(5) obtain ys u'' tm'' v'' h' where
    "run_cpu index False v' ?h = Inr (0, ys, v'', h')" "console k u'' tm'' v''"
    "term_out tm'' = term_out tm' @ tx_bytes (u_mcr u') ?as" "length ys = length xs + 1" "kh_runs h' fd = as" "vm_mmio v'' = vm_mmio v'"
    unfolding same by blast
  moreover have "vm_mmio v' = vm_mmio v" using plain_exit_bus[OF _ h(1)] Cons.prems(2) by simp
  moreover have "run_cpu index False v h = and_then (run_cpu index False v' ?h) (\<lambda>(r, xs, v, h). Inr (r, x' # xs, v, h))"
    using Cons.prems(7) by (intro run_cpu_next[OF Cons.prems(5,6) _ h(1)]) simp
  ultimately show ?case using h(6) by auto
qed

section \<open>What the guest writes to its console\<close>

text \<open>
  The promise in terms of the guest's instructions: a serial port at \<open>base\<close> sends the bytes of the
  output instructions to the port \<open>base\<close>, unless the last value written to \<open>base + 4\<close> selects
  loopback or the last value written to \<open>base + 3\<close> opens the divisor latch.
\<close>

definition io_payload :: "kvm_exit_io \<Rightarrow> u8 list" where
  "io_payload io = take (unat (io_bytes io)) (io_data io)"

fun console_bytes :: "u16 \<Rightarrow> bool \<Rightarrow> bool \<Rightarrow> kvm_exit list \<Rightarrow> u8 list" where
  "console_bytes base loop latch [] = []"
| "console_bytes base loop latch (KVM_EXIT_IO io # xs) =
     (if io_out io \<and> io_port io = base \<and> \<not> loop \<and> \<not> latch then io_payload io else []) @
     console_bytes base
       (if io_out io \<and> io_port io = base + 4 then bit (last (io_payload io)) 4 else loop)
       (if io_out io \<and> io_port io = base + 3 then bit (last (io_payload io)) 7 else latch) xs"
| "console_bytes base loop latch (x # xs) = console_bytes base loop latch xs"

text \<open>
  Exits for which the promise is kept: the data, line control and modem control registers of the
  console are written one byte at a time, and the data register is left alone while the latch is
  open. Everything else, to this port or any other, is free.
\<close>

fun console_plain :: "u16 \<Rightarrow> bool \<Rightarrow> kvm_exit list \<Rightarrow> bool" where
  "console_plain base latch [] \<longleftrightarrow> True"
| "console_plain base latch (KVM_EXIT_IO io # xs) \<longleftrightarrow>
     io_exit_ok io \<and>
     (io_out io \<and> io_port io \<in> {base, base + 3, base + 4} \<longrightarrow> io_bytes io = 1) \<and>
     (io_out io \<and> io_port io = base \<longrightarrow> \<not> latch) \<and>
     console_plain base (if io_out io \<and> io_port io = base + 3 then bit (last (io_payload io)) 7 else latch) xs"
| "console_plain base latch (x # xs) \<longleftrightarrow> plain_exit x \<and> console_plain base latch xs"

lemma console_plain_exits: "console_plain base latch xs \<Longrightarrow> list_all plain_exit xs"
  by (induction base latch xs rule: console_plain.induct) simp_all

lemma payload_byte: "io_bytes io = 1 \<Longrightarrow> io_exit_ok io \<Longrightarrow> io_payload io = [hd (io_data io)]"
  by (cases "io_data io") (simp_all add: io_payload_def io_exit_ok_def)

abbreviation console_window :: "u16 \<Rightarrow> io_window" where
  "console_window base \<equiv> \<lparr>io_addr = ucast base, io_width = 8\<rparr>"

lemma console_window_range:
  assumes "unat base + 8 \<le> 65536" "n < 8"
  shows "in_range (console_window base) (ucast (base + of_nat n :: u16))"
proof -
  have "unat (base + of_nat n) = unat base + n" using assms by (intro unat_add_of_nat) simp
  then show ?thesis
    using assms unat_less16[of base]
    by (simp add: in_range_nat unat_ucast_up)
qed

lemma console_window_offset:
  assumes "unat base + 8 \<le> 65536" "n < 8"
  shows "offset (console_window base) (ucast port) = of_nat n \<longleftrightarrow> port = base + of_nat n"
proof -
  have "unat (base + of_nat n) = unat base + n" using assms by (intro unat_add_of_nat) simp
  moreover have "unat (ucast base + of_nat n :: u64) = unat base + n"
    using assms by (subst unat_add_of_nat) (simp_all add: unat_ucast_up)
  moreover have "offset (console_window base) (ucast port) = of_nat n \<longleftrightarrow> ucast port = (ucast base + of_nat n :: u64)"
    by (auto simp: offset_def algebra_simps)
  ultimately show ?thesis
    by (simp add: word_unat_eq_iff unat_ucast_up del: unat_of_nat)
qed

lemma console_hit:
  assumes "port_windows_ok ss" "k < length ss" "ps_window (ss ! k) = console_window base"
  shows "first_in_range (ucast port) ss = Some k \<longleftrightarrow> in_range (console_window base) (ucast port)"
  using first_in_range_hit[OF assms(1,2)] first_in_rangeD[of "ucast port" ss k] assms(3) by auto

lemma console_access:
  assumes "port_windows_ok ss" "k < length ss" "ps_window (ss ! k) = console_window base" "unat base + 8 \<le> 65536"
    and "io_exit_ok io"
    and "io_out io \<and> io_port io \<in> {base, base + 3, base + 4} \<Longrightarrow> io_bytes io = 1"
  shows "tx_bytes mcr (exit_access ss k (KVM_EXIT_IO io) @ as) =
    (if io_out io \<and> io_port io = base \<and> mcr AND MCR_LOOP_BIT = 0 then io_payload io else []) @
    tx_bytes (if io_out io \<and> io_port io = base + 4 then last (io_payload io) else mcr) as"
proof (cases "io_out io \<and> in_range (console_window base) (ucast (io_port io))")
  case True
  note hit = console_hit[OF assms(1-3)]
  have off: "offset (console_window base) (ucast (io_port io)) = DATA \<longleftrightarrow> io_port io = base"
    "offset (console_window base) (ucast (io_port io)) = MCR \<longleftrightarrow> io_port io = base + 4"
    using console_window_offset[OF assms(4), of 0] console_window_offset[OF assms(4), of 4]
    by (simp_all add: DATA_def MCR_def)
  have "io_payload io = [hd (io_data io)]" if "io_port io = base \<or> io_port io = base + 4"
    using payload_byte[OF assms(6,5)] True that by auto
  with True off show ?thesis
    unfolding exit_access.simps hit assms(3) by (auto simp: Let_def)
next
  case False
  have "io_port io \<noteq> base" "io_port io \<noteq> base + 4" if "io_out io"
    using False that console_window_range[OF assms(4), of 0] console_window_range[OF assms(4), of 4] by auto
  then show ?thesis
    using False unfolding exit_access.simps console_hit[OF assms(1-3)] by (auto simp: Let_def)
qed

lemma console_bytes_sent:
  assumes "port_windows_ok ss" "k < length ss" "ps_window (ss ! k) = console_window base" "unat base + 8 \<le> 65536"
    and "console_plain base latch xs"
  shows "tx_bytes mcr (concat (map (exit_access ss k) xs)) = console_bytes base (mcr AND MCR_LOOP_BIT \<noteq> 0) latch xs"
  using assms(5)
proof (induction xs arbitrary: mcr latch)
  case (Cons x xs)
  show ?case
  proof (cases x)
    case (KVM_EXIT_IO io)
    with Cons.prems have io: "io_exit_ok io"
      "io_out io \<and> io_port io \<in> {base, base + 3, base + 4} \<Longrightarrow> io_bytes io = 1"
      "io_out io \<Longrightarrow> io_port io = base \<Longrightarrow> \<not> latch"
      by auto
    show ?thesis
      using console_access[OF assms(1-4) io(1,2)] Cons io(3) KVM_EXIT_IO by (auto simp: loop_bit)
  qed (use Cons in auto)
qed simp

section \<open>Properties\<close>

text \<open>C26: An exit on a port is one access of the one device whose window contains the port: the device
  sees its own offset, the product of size and count, and the current state of its line; a read
  puts the reply, of exactly that length, at the front of the shared page. No other device and no
  other line changes, nor does anything else of the machine, whatever the devices are.\<close>

theorem port_exit_dispatch:
  assumes "ports_ok v" "port_windows_ok (vm_io_devices v)" "io_exit_ok io"
    and "i < length (vm_io_devices v)" "in_range (ps_window (vm_io_devices v ! i)) (ucast (io_port io))"
    and "handle_exit (KVM_EXIT_IO io) v = Inr (r, x', v')"
  shows "\<exists>irq d irq' io'. vm_interrupts v ! ps_irq (vm_io_devices v ! i) = Some irq \<and>
    r = None \<and> x' = KVM_EXIT_IO io' \<and>
    v' = v\<lparr>vm_io_devices := (vm_io_devices v)[i := (vm_io_devices v ! i)\<lparr>ps_dev := d\<rparr>],
           vm_interrupts := (vm_interrupts v)[ps_irq (vm_io_devices v ! i) := Some irq']\<rparr> \<and>
    (let off = offset (ps_window (vm_io_devices v ! i)) (ucast (io_port io)) in
     if io_out io
     then dev_write (io_data io) off (io_bytes io) (ps_dev (vm_io_devices v ! i), irq) = Inr (d, irq') \<and> io' = io
     else \<exists>buf. dev_read off (io_bytes io) (ps_dev (vm_io_devices v ! i), irq) = Inr (buf, d, irq') \<and>
            length buf = unat (io_bytes io) \<and>
            io' = io\<lparr>io_data := buf @ drop (length buf) (io_data io)\<rparr>)"
proof -
  have slot: "set_slot i d irq v = v\<lparr>vm_io_devices := (vm_io_devices v)[i := (vm_io_devices v ! i)\<lparr>ps_dev := d\<rparr>],
      vm_interrupts := (vm_interrupts v)[ps_irq (vm_io_devices v ! i) := Some irq]\<rparr>" for d irq
    by (simp add: set_slot_def Let_def)
  have h: "handle_exit (KVM_EXIT_IO io) v =
      and_then (handle_io_device io i v) (\<lambda>(io, v). Inr (None, KVM_EXIT_IO io, v))"
    using first_in_range_hit[OF assms(2,4,5)] by simp
  show ?thesis
  proof (cases "io_out io")
    case True
    from handle_io_device_out[OF assms(1,3,4) True] h assms(6) True show ?thesis
      unfolding Let_def slot by auto
  next
    case False
    from handle_io_device_in[OF assms(1,3,4) False] h assms(6) False show ?thesis
      unfolding Let_def slot by auto
  qed
qed

text \<open>C6: The console, from the guest's instructions to the host's terminal. A processor whose exits are
  port accesses, debug stops and interrupted runs, followed by a halt, is run to its end:
  \<^verbatim>\<open>run_cpu\<close> returns 0 after exactly these exits, and the host terminal has received, in order and
  without loss, the bytes of the guest's output instructions to the data port of the console and no
  others, although the other ports share its exits and its interrupt line. The guest may do anything
  with the other ports and registers, in instructions of any length; what it must not do is to write
  the console's data or control registers with string instructions or to write the data port while
  the divisor latch is open, where the code loses bytes or sends too many.\<close>

theorem guest_console_output:
  assumes "ports_ok v" "k < length (vm_io_devices v)" "port_windows_ok (vm_io_devices v)"
    and "ps_window (vm_io_devices v ! k) = \<lparr>io_addr = ucast base, io_width = 8\<rparr>" "unat base + 8 \<le> 65536"
    and "ps_dev (vm_io_devices v ! k) = Uart_dev u (Some tm)"
    and "\<forall>j < length (vm_io_devices v). j \<noteq> k \<longrightarrow> quiet_dev (ps_dev (vm_io_devices v ! j))"
    and "console_plain base (is_dlab_set u) xs" "term_writes tm = replicate n 1"
    and "length (console_bytes base (is_loop u) (is_dlab_set u) xs) \<le> n"
    and "vm_should_run v" "get_vcpu v index = Inr fd"
    and "kh_runs h fd = map (\<lambda>x. (0, 0, x)) xs @ (0, 0, KVM_EXIT_HLT) # as"
  shows "\<exists>ys u' tm' v' h'. run_cpu index False v h = Inr (0, ys, v', h') \<and>
    length ys = length xs + 1 \<and> kh_runs h' fd = as \<and>
    ps_dev (vm_io_devices v' ! k) = Uart_dev u' (Some tm') \<and>
    term_out tm' = term_out tm @ console_bytes base (is_loop u) (is_dlab_set u) xs"
proof -
  have "console k u tm v" using assms(1,2,6,7) by (simp add: console_def)
  moreover have tx: "tx_bytes (u_mcr u) (concat (map (exit_access (vm_io_devices v) k) xs)) =
      console_bytes base (is_loop u) (is_dlab_set u) xs"
    using console_bytes_sent[OF assms(3,2,4,5,8)] by (simp add: is_loop_def)
  ultimately show ?thesis
    using run_console[of k u tm v xs n index fd h as] console_plain_exits[OF assms(8)] assms(9-13)
    unfolding tx by (fastforce simp: console_def)
qed

section \<open>Examples\<close>

definition demo_terminal :: "nat \<Rightarrow> terminal" where
  "demo_terminal n = \<lparr>term_writes = replicate n 1, term_reads = [], term_polls = [], term_out = []\<rparr>"

text \<open>A keyboard controller and two serial ports on one line, the first behind a terminal.\<close>

definition demo_pc :: "nat \<Rightarrow> machine" where
  "demo_pc n =
     \<lparr>vm_fd = 3, vm_memory = \<lparr>gm_size = 0, gm_byte = (\<lambda>_. 0)\<rparr>, vm_should_run = True,
      vm_interrupts = [None, Some (interrupt_new 1 True), None, None, Some (interrupt_new 4 True)],
      vm_cpus = [7],
      vm_io_devices =
        [\<lparr>ps_window = \<lparr>io_addr = 0x60, io_width = 5\<rparr>, ps_irq = 1, ps_dev = I8042_dev (i8042_new (replicate 16 0))\<rparr>,
         \<lparr>ps_window = \<lparr>io_addr = 0x3f8, io_width = 8\<rparr>, ps_irq = 4,
          ps_dev = Uart_dev (fresh_uart 0) (Some (demo_terminal n))\<rparr>,
         \<lparr>ps_window = \<lparr>io_addr = 0x3e8, io_width = 8\<rparr>, ps_irq = 4, ps_dev = Uart_dev (fresh_uart 0) None\<rparr>],
      vm_mmio = [], vm_messages = []\<rparr>"

definition out_byte :: "u16 \<Rightarrow> u8 \<Rightarrow> kvm_exit" where
  "out_byte port b = KVM_EXIT_IO \<lparr>io_out = True, io_size = 1, io_port = port, io_count = 1, io_data = [b]\<rparr>"

definition in_byte :: "u16 \<Rightarrow> kvm_exit" where
  "in_byte port = KVM_EXIT_IO \<lparr>io_out = False, io_size = 1, io_port = port, io_count = 1, io_data = [0]\<rparr>"

lemma i8042_new_inv: "length junk = 16 \<Longrightarrow> i8042_inv (i8042_new junk)"
  by (simp add: i8042_inv_def i8042_new_def SB_KBD_ENABLED_def SB_OUT_DATA_AVAIL_def)

lemma demo_pc_facts:
  "ports_ok (demo_pc n)" "port_windows_ok (vm_io_devices (demo_pc n))"
  "length (vm_io_devices (demo_pc n)) = 3" "vm_should_run (demo_pc n)" "get_vcpu (demo_pc n) 0 = Inr 7"
  "ps_dev (vm_io_devices (demo_pc n) ! 1) = Uart_dev (fresh_uart 0) (Some (demo_terminal n))"
  "\<forall>j < length (vm_io_devices (demo_pc n)). j \<noteq> 1 \<longrightarrow> quiet_dev (ps_dev (vm_io_devices (demo_pc n) ! j))"
  by (simp_all add: demo_pc_def ports_ok_def lines_ok_def slot_ok_def port_windows_ok_def windows_apart_def
      i8042_new_inv demo_terminal_def get_vcpu_def arr_get_def nth_Cons' less_Suc_eq numeral_3_eq_3)

lemma demo_pc_hits:
  "first_in_range 0x3f8 (vm_io_devices (demo_pc n)) = Some 1"
  "first_in_range 0x3e8 (vm_io_devices (demo_pc n)) = Some 2"
  "first_in_range 0x60 (vm_io_devices (demo_pc n)) = Some 0"
  "first_in_range 0x64 (vm_io_devices (demo_pc n)) = Some 0"
  "first_in_range 0x80 (vm_io_devices (demo_pc n)) = None"
  "ps_window (vm_io_devices (demo_pc n) ! Suc 0) = \<lparr>io_addr = 0x3f8, io_width = 8\<rparr>"
  by (simp_all add: demo_pc_def in_range_def)

theorem guest_console_output_witness:
  "\<exists>ys u' tm' v' h'. run_cpu 0 False (demo_pc 2) ((host_ok 0)\<lparr>kh_runs := (\<lambda>_.
        [(0, 0, out_byte 0x3f8 0x48), (0, 0, out_byte 0x3e8 0x58), (0, 0, in_byte 0x64),
         (0, 0, out_byte 0x80 1), (0, 0, out_byte 0x3f8 0x69), (0, 0, KVM_EXIT_HLT)])\<rparr>) =
      Inr (0, ys, v', h') \<and> length ys = 6 \<and>
    ps_dev (vm_io_devices v' ! 1) = Uart_dev u' (Some tm') \<and> term_out tm' = [0x48, 0x69]"
proof -
  let ?xs = "[out_byte 0x3f8 0x48, out_byte 0x3e8 0x58, in_byte 0x64, out_byte 0x80 1, out_byte 0x3f8 0x69]"
  let ?h = "(host_ok 0)\<lparr>kh_runs := (\<lambda>_. map (\<lambda>x. (0, 0, x)) ?xs @ [(0, 0, KVM_EXIT_HLT)])\<rparr>"
  have sent: "console_bytes 0x3f8 (is_loop (fresh_uart 0)) (is_dlab_set (fresh_uart 0)) ?xs = [0x48, 0x69]"
    "console_plain 0x3f8 (is_dlab_set (fresh_uart 0)) ?xs"
    by (simp_all add: out_byte_def in_byte_def io_payload_def io_exit_ok_def io_bytes_def is_loop_def is_dlab_set_def
        MCR_LOOP_BIT_def)
  have "ps_window (vm_io_devices (demo_pc 2) ! 1) = \<lparr>io_addr = ucast (0x3f8 :: u16), io_width = 8\<rparr>"
    "term_writes (demo_terminal 2) = replicate 2 1" "1 < length (vm_io_devices (demo_pc 2))"
    "kh_runs ?h 7 = map (\<lambda>x. (0, 0, x)) ?xs @ [(0, 0, KVM_EXIT_HLT)]" "unat (0x3f8 :: u16) + 8 \<le> 65536"
    by (simp_all add: demo_pc_facts demo_pc_hits demo_terminal_def)
  from guest_console_output[OF demo_pc_facts(1) this(3) demo_pc_facts(2) this(1,5) demo_pc_facts(6,7) sent(2) this(2) _
      demo_pc_facts(4,5) this(4)]
  show ?thesis unfolding sent(1) by (auto simp: demo_terminal_def)
qed

theorem port_exit_dispatch_witness:
  "\<exists>io' v'. handle_exit (in_byte 0x64) (demo_pc 0) = Inr (None, KVM_EXIT_IO io', v') \<and>
     length (io_data io') = 1 \<and> vm_io_devices v' ! 1 = vm_io_devices (demo_pc 0) ! 1 \<and>
     vm_interrupts v' ! 4 = Some (interrupt_new 4 True)"
proof -
  let ?io = "\<lparr>io_out = False, io_size = 1, io_port = 0x64, io_count = 1, io_data = [0]\<rparr>"
  have ok: "io_exit_ok ?io" by (simp add: io_exit_ok_def io_bytes_def)
  have len: "0 < length (vm_io_devices (demo_pc 0))" by (simp add: demo_pc_facts)
  have hit: "in_range (ps_window (vm_io_devices (demo_pc 0) ! 0)) (ucast (io_port ?io))"
    by (simp add: demo_pc_def in_range_def)
  obtain io1 v1 where h: "handle_exit (KVM_EXIT_IO ?io) (demo_pc 0) = Inr (None, KVM_EXIT_IO io1, v1)"
    using handle_io_device_in[OF demo_pc_facts(1) ok len] by (auto simp: demo_pc_hits)
  from port_exit_dispatch[OF demo_pc_facts(1,2) ok len hit h] obtain d irq' where
    v1: "v1 = (demo_pc 0)\<lparr>vm_io_devices := (vm_io_devices (demo_pc 0))[0 := (vm_io_devices (demo_pc 0) ! 0)\<lparr>ps_dev := d\<rparr>],
           vm_interrupts := (vm_interrupts (demo_pc 0))[ps_irq (vm_io_devices (demo_pc 0) ! 0) := Some irq']\<rparr>"
    and n: "length (io_data io1) = 1"
    by (auto simp: Let_def io_bytes_def)
  have "ps_irq (vm_io_devices (demo_pc 0) ! 0) = 1" "vm_interrupts (demo_pc 0) ! 4 = Some (interrupt_new 4 True)"
    by (simp_all add: demo_pc_def)
  then show ?thesis using h n unfolding v1 in_byte_def by simp
qed

end
