(* ===== verification/Machine_Shape.thy ===== *)
theory Machine_Shape
  imports Vm_Ports
begin

text \<open>
  The rounds of the device threads on a machine, and what no exit and no round ever changes: which
  device stands in which window on which line, the sizes of the devices' tables and buffers, which
  interrupt lines exist, with their number and whether their event descriptor is usable, the
  processors, and the size of memory.
\<close>

section \<open>Rounds\<close>

text \<open>
  One round of a device thread: the disk has one, the network device two, the entropy device none.
  \<open>None\<close> is a round that does not end (a cyclic chain of descriptors).
\<close>

fun vio_round :: "bool \<Rightarrow> gmem \<Rightarrow> vio \<times> interrupt \<Rightarrow> (gmem \<times> vio \<times> interrupt) res option" where
  "vio_round rx m (Vblk d, irq) =
     map_option (\<lambda>r. and_then r (\<lambda>(m, d, irq). Inr (m, Vblk d, irq))) (blk_round m (d, irq))"
| "vio_round rx m (Vnet d, irq) =
     map_option (\<lambda>r. and_then r (\<lambda>(m, d, irq). Inr (m, Vnet d, irq)))
       ((if rx then run_rx else run_tx) m (d, irq))"
| "vio_round rx m (Vrng d, irq) = Some (Inr (m, Vrng d, irq))"

definition device_round :: "bool \<Rightarrow> nat \<Rightarrow> machine \<Rightarrow> machine res option" where
  "device_round rx i v =
     map_option (\<lambda>r. and_then r (\<lambda>(m, st).
         Inr (v\<lparr>vm_memory := m, vm_mmio := (vm_mmio v)[i := (vm_mmio v ! i)\<lparr>ms_state := st\<rparr>]\<rparr>)))
       (vio_round rx (vm_memory v) (ms_state (vm_mmio v ! i)))"

lemma device_round_fields:
  "device_round rx i v = Some (Inr v') \<Longrightarrow>
   vm_io_devices v' = vm_io_devices v \<and> vm_interrupts v' = vm_interrupts v \<and>
   vm_should_run v' = vm_should_run v \<and> vm_cpus v' = vm_cpus v"
  by (auto simp: device_round_def)

section \<open>The shape of a machine\<close>

text \<open>
  What is fixed once the machine is built: which device stands in which window on which line;
  whether a serial port has a terminal; for a virtio device the number of its queues, the bytes of
  its configuration and, for the network device, the sizes of its two frame buffers; which of the
  lines exist, and for each of them, as for the line of each virtio device, its number and the state
  of its event descriptor.
\<close>

datatype dev_kind = Keyboard | Serial bool | Disk nat nat | Entropy nat | Network nat nat nat nat

fun io_kind :: "io_dev \<Rightarrow> dev_kind" where
  "io_kind (I8042_dev d) = Keyboard"
| "io_kind (Uart_dev u t) = Serial (t \<noteq> None)"

fun vio_kind :: "vio \<Rightarrow> dev_kind" where
  "vio_kind (Vblk d) = Disk (length (vd_queues d)) (length (blk_config d))"
| "vio_kind (Vrng d) = Entropy (length (vd_queues d))"
| "vio_kind (Vnet d) = Network (length (vd_queues d)) (length (net_config d))
     (length (net_rx_buffer d)) (length (net_tx_buffer d))"

definition io_shape :: "machine \<Rightarrow> (io_window \<times> nat \<times> dev_kind) list" where
  "io_shape v = map (\<lambda>s. (ps_window s, ps_irq s, io_kind (ps_dev s))) (vm_io_devices v)"

definition bus_shape :: "(vio \<times> 'i) mmio_slot list \<Rightarrow> (io_window \<times> dev_kind) list" where
  "bus_shape ss = map (\<lambda>s. (ms_window s, vio_kind (fst (ms_state s)))) ss"

definition line_shape :: "machine \<Rightarrow> (u32 \<times> bool) option list" where
  "line_shape v = map (map_option irq_ident) (vm_interrupts v)"

definition bus_lines :: "(vio \<times> interrupt) mmio_slot list \<Rightarrow> (u32 \<times> bool) list" where
  "bus_lines ss = map (\<lambda>s. irq_ident (snd (ms_state s))) ss"

definition machine_shape ::
  "machine \<Rightarrow> (io_window \<times> nat \<times> dev_kind) list \<times> (io_window \<times> dev_kind) list \<times>
     (u32 \<times> bool) option list \<times> (u32 \<times> bool) list \<times> int list \<times> u64" where
  "machine_shape v =
     (io_shape v, bus_shape (vm_mmio v), line_shape v, bus_lines (vm_mmio v), vm_cpus v, gm_size (vm_memory v))"

lemmas shape_defs = machine_shape_def io_shape_def line_shape_def

lemma put_attached: "flush_tx u t = Inr (u', t') \<Longrightarrow> (t' \<noteq> None) = (t \<noteq> None)"
  by (auto simp: flush_tx_def Let_def split: if_splits option.splits)

lemma update_irq_attached: "update_irq (u, t, irq) = Inr (u', t', irq') \<Longrightarrow> (t' \<noteq> None) = (t \<noteq> None)"
  by (auto simp: update_irq_def Let_def dest!: put_attached split: if_splits)

lemma tx_byte_attached: "tx_byte b u t = Inr (u', t') \<Longrightarrow> (t' \<noteq> None) = (t \<noteq> None)"
  by (auto simp: tx_byte_def Let_def dest!: put_attached split: if_splits)

lemma uart_read_attached: "uart_read off sz (u, t, irq) = Inr (buf, u', t', irq') \<Longrightarrow> (t' \<noteq> None) = (t \<noteq> None)"
  by (auto simp: uart_read_def Let_def dest!: update_irq_attached split: if_splits)

lemma uart_write_attached:
  "uart_write bs off sz (u, t, irq) = Inr (u', t', irq') \<Longrightarrow> (t' \<noteq> None) = (t \<noteq> None)"
  by (auto simp: uart_write_def Let_def dest!: update_irq_attached tx_byte_attached split: if_splits)

lemma dev_read_kind: "dev_read off sz (d, irq) = Inr (buf, d', irq') \<Longrightarrow> io_kind d' = io_kind d"
  by (cases d) (auto dest: uart_read_attached)

lemma dev_write_kind: "dev_write bs off sz (d, irq) = Inr (d', irq') \<Longrightarrow> io_kind d' = io_kind d"
  by (cases d) (auto dest: uart_write_attached)

text \<open>A device drives its line; it never replaces it.\<close>

lemma update_irq_ident: "update_irq (u, t, irq) = Inr (u', t', irq') \<Longrightarrow> irq_ident irq' = irq_ident irq"
  by (auto simp: update_irq_def Let_def dest!: set_level_ident split: if_splits)

lemma trigger_irq_ident: "trigger_irq d irq = Inr irq' \<Longrightarrow> irq_ident irq' = irq_ident irq"
  by (auto simp: trigger_irq_def dest!: set_level_ident split: if_splits)

lemma dev_read_ident: "dev_read off sz (d, irq) = Inr (buf, d', irq') \<Longrightarrow> irq_ident irq' = irq_ident irq"
  by (cases d) (auto simp: i8042_read_def uart_read_def Let_def split: if_splits prod.splits
      dest!: update_irq_ident trigger_irq_ident)

lemma dev_write_ident: "dev_write bs off sz (d, irq) = Inr (d', irq') \<Longrightarrow> irq_ident irq' = irq_ident irq"
  by (cases d) (auto simp: i8042_write_def uart_write_def Let_def split: if_splits
      dest!: update_irq_ident trigger_irq_ident)

lemma write_stdio_ident: "write_stdio (u, t, irq) = Inr (n, u', t', irq') \<Longrightarrow> irq_ident irq' = irq_ident irq"
  by (auto simp: write_stdio_def dest!: update_irq_ident split: if_splits option.splits)

lemma set_slot_shape:
  assumes "i < length (vm_io_devices v)" "io_kind d = io_kind (ps_dev (vm_io_devices v ! i))"
    and "slot_irq v i = Inr irq" "irq_ident irq' = irq_ident irq"
  shows "machine_shape (set_slot i d irq' v) = machine_shape v"
proof -
  have line: "ps_irq (vm_io_devices v ! i) < length (vm_interrupts v)"
    "vm_interrupts v ! ps_irq (vm_io_devices v ! i) = Some irq"
    using assms(3) by (auto simp: slot_irq_def arr_get_eq_Inr split: option.splits)
  show ?thesis
    using assms(1,2,4) line
    by (simp add: shape_defs set_slot_def Let_def map_update list_update_same_conv)
qed

lemma handle_io_device_shape:
  assumes "handle_io_device io i v = Inr (io', v')" "i < length (vm_io_devices v)"
  shows "machine_shape v' = machine_shape v"
  using assms
  by (auto simp: handle_io_device_def Let_def split: if_splits
      intro!: set_slot_shape dest: dev_read_kind dev_write_kind dev_read_ident dev_write_ident)

lemma mmio_read_keeps:
  assumes "\<And>off st buf st'. rd off sz st = Inr (buf, st') \<Longrightarrow> f st' = f st"
  shows "mmio_read rd off sz ss = Inr (buf, ss') \<Longrightarrow>
    map (\<lambda>s. (ms_window s, f (ms_state s))) ss' = map (\<lambda>s. (ms_window s, f (ms_state s))) ss"
  by (induction ss arbitrary: ss') (auto dest: assms split: if_splits)

lemma mmio_write_keeps:
  assumes "\<And>off st st'. wr bs off sz st = Inr st' \<Longrightarrow> f st' = f st"
  shows "mmio_write wr bs off sz ss = Inr ss' \<Longrightarrow>
    map (\<lambda>s. (ms_window s, f (ms_state s))) ss' = map (\<lambda>s. (ms_window s, f (ms_state s))) ss"
  by (induction ss arbitrary: ss') (auto dest: assms split: if_splits)

lemma mmio_update_keeps:
  assumes "\<And>m st m' st'. upd m st = Inr (m', st') \<Longrightarrow> f st' = f st"
  shows "mmio_update upd m ss = Inr (m', ss') \<Longrightarrow>
    map (\<lambda>s. (ms_window s, f (ms_state s))) ss' = map (\<lambda>s. (ms_window s, f (ms_state s))) ss"
  by (induction ss arbitrary: m ss') (auto dest: assms)

lemma mmio_update_size:
  assumes "\<And>m st m' st'. upd m st = Inr (m', st') \<Longrightarrow> gm_size m' = gm_size m"
  shows "mmio_update upd m ss = Inr (m', ss') \<Longrightarrow> gm_size m' = gm_size m"
  by (induction ss arbitrary: m ss') (auto dest: assms)

lemma vio_read_kind: "vio_read off sz (dev, irq) = Inr (buf, dev', irq') \<Longrightarrow> vio_kind dev' = vio_kind dev"
  by (cases dev) (auto simp: on_blk_def on_rng_def on_net_def
      dest: blk_dev.read_pure rng_dev.read_pure net_dev.read_pure)

lemma config_write_kinds:
  "blk_write bs off sz b = Inr b' \<Longrightarrow> vio_kind (Vblk b') = vio_kind (Vblk b)"
  "rng_write bs off sz e = Inr e' \<Longrightarrow> vio_kind (Vrng e') = vio_kind (Vrng e)"
  "net_write bs off sz n = Inr n' \<Longrightarrow> vio_kind (Vnet n') = vio_kind (Vnet n)"
  by (auto simp: blk_write_def rng_write_def net_write_def length_buf_write split: if_splits)

lemma reg_write_kinds:
  "reg_write off w (b, irq) = Inr (b', irq') \<Longrightarrow> vio_kind (Vblk b') = vio_kind (Vblk b)"
  "reg_write off w (e, irq) = Inr (e', irq') \<Longrightarrow> vio_kind (Vrng e') = vio_kind (Vrng e)"
  "reg_write off w (n, irq) = Inr (n', irq') \<Longrightarrow> vio_kind (Vnet n') = vio_kind (Vnet n)"
  using reg_write_queue_count[of off w b irq b' irq'] reg_write_blk[of off w b irq b' irq']
    reg_write_queue_count[of off w e irq e' irq'] reg_write_queue_count[of off w n irq n' irq']
    reg_write_net[of off w n irq n' irq']
  by simp_all

lemma vio_write_kind: "vio_write bs off sz (dev, irq) = Inr (dev', irq') \<Longrightarrow> vio_kind dev' = vio_kind dev"
  by (cases dev)
     (auto simp: holder_write_def blk_class_def rng_class_def net_class_def simp del: vio_kind.simps
      dest: config_write_kinds reg_write_kinds split: if_splits)

text \<open>The line of a virtio device.\<close>

lemma reg_write_ident: "reg_write off w (d, irq) = Inr (d', irq') \<Longrightarrow> irq_ident irq' = irq_ident irq"
  by (auto simp: reg_write_def Let_def irq_ack_def dest!: set_level_ident split: if_splits)

lemma vio_read_line: "vio_read off sz (dev, irq) = Inr (buf, dev', irq') \<Longrightarrow> irq' = irq"
  by (cases dev) (auto simp: on_blk_def on_rng_def on_net_def
      dest: blk_dev.read_pure rng_dev.read_pure net_dev.read_pure)

lemma vio_write_ident: "vio_write bs off sz (dev, irq) = Inr (dev', irq') \<Longrightarrow> irq_ident irq' = irq_ident irq"
  by (cases dev) (auto simp: holder_write_def dest: reg_write_ident split: if_splits)

lemma vio_update_ident: "vio_update m (dev, irq) = Inr (m', dev', irq') \<Longrightarrow> irq_ident irq' = irq_ident irq"
  by (cases dev)
     (auto simp: on_blk_def on_rng_def on_net_def blk_class_def blk_update_def net_class_def net_update_def
      rng_class_def rng_update_def split: option.splits dest!: set_level_ident)

lemma blk_round_ident: "blk_round m (d, irq) = Some (Inr (m', d', irq')) \<Longrightarrow> irq_ident irq' = irq_ident irq"
  by (auto simp: blk_round_def blk_serve_def blk_complete_def
      split: sum.splits option.splits prod.splits if_splits dest!: set_level_ident)

lemma rx_deliver_ident: "rx_deliver m q nxt sz buf irq = Some (Inr (m', irq')) \<Longrightarrow> irq_ident irq' = irq_ident irq"
  by (auto simp: rx_deliver_def split: sum.splits option.splits dest!: set_level_ident)

lemma net_round_ident:
  "run_rx m (d, irq) = Some (Inr (m', d', irq')) \<Longrightarrow> irq_ident irq' = irq_ident irq"
  "run_tx m (d, irq) = Some (Inr (m', d', irq')) \<Longrightarrow> irq_ident irq' = irq_ident irq"
  by (auto simp: run_rx_def update_rx_def split: sum.splits option.splits prod.splits if_splits bool.splits
      dest!: rx_deliver_ident)
     (auto simp: run_tx_def update_tx_def tx_send_def split: sum.splits option.splits prod.splits if_splits
      dest!: set_level_ident)

lemma vio_round_ident:
  "vio_round rx m (dev, irq) = Some (Inr (m', dev', irq')) \<Longrightarrow> irq_ident irq' = irq_ident irq"
  by (cases dev) (auto dest: blk_round_ident net_round_ident split: if_splits)

lemma vio_update_kind:
  "vio_update m (dev, irq) = Inr (m', dev', irq') \<Longrightarrow> vio_kind dev' = vio_kind dev \<and> gm_size m' = gm_size m"
  by (cases dev)
     (auto simp: on_blk_def on_rng_def on_net_def blk_class_def blk_update_def net_class_def net_update_def
      dest: rng_update_inv)

lemma vio_round_kind:
  assumes "vio_round rx m (dev, irq) = Some (Inr (m', dev', irq'))"
  shows "vio_kind dev' = vio_kind dev \<and> gm_size m' = gm_size m"
proof (cases dev)
  case (Vblk d)
  with assms obtain d' where d: "dev' = Vblk d'" "blk_round m (d, irq) = Some (Inr (m', d', irq'))" by auto
  from blk_round_keeps[OF d(2)] show ?thesis by (simp add: Vblk d(1))
next
  case (Vrng d)
  with assms show ?thesis by simp
next
  case (Vnet d)
  with assms obtain d' where d: "dev' = Vnet d'"
    "(if rx then run_rx else run_tx) m (d, irq) = Some (Inr (m', d', irq'))" by auto
  then have "gm_size m' = gm_size m \<and> net_shape d' = net_shape d"
    by (cases rx) (simp_all add: run_rx_keeps run_tx_keeps)
  then show ?thesis by (simp add: Vnet d(1) net_shape_def)
qed

lemma bus_keeps:
  "mmio_read vio_read off sz ss = Inr (buf, ss') \<Longrightarrow> bus_shape ss' = bus_shape ss \<and> bus_lines ss' = bus_lines ss"
  "mmio_write vio_write bs off sz ss = Inr ss' \<Longrightarrow> bus_shape ss' = bus_shape ss \<and> bus_lines ss' = bus_lines ss"
  "mmio_update vio_update m ss = Inr (m', ss') \<Longrightarrow>
     bus_shape ss' = bus_shape ss \<and> bus_lines ss' = bus_lines ss \<and> gm_size m' = gm_size m"
proof -
  let ?f = "\<lambda>st. (vio_kind (fst st), irq_ident (snd st))"
  have f: "bus_shape ss' = bus_shape ss \<and> bus_lines ss' = bus_lines ss"
    if "map (\<lambda>s. (ms_window s, ?f (ms_state s))) ss' = map (\<lambda>s. (ms_window s, ?f (ms_state s))) ss"
    for ss ss' :: "(vio \<times> interrupt) mmio_slot list"
    using arg_cong[OF that, of "map (\<lambda>(w, k, i). (w, k))"] arg_cong[OF that, of "map (\<lambda>(w, k, i). i)"]
    by (simp add: bus_shape_def bus_lines_def comp_def)
  show "mmio_read vio_read off sz ss = Inr (buf, ss') \<Longrightarrow> bus_shape ss' = bus_shape ss \<and> bus_lines ss' = bus_lines ss"
    by (rule f, rule mmio_read_keeps[where rd = vio_read and f = ?f]) (auto dest: vio_read_kind vio_read_line)
  show "mmio_write vio_write bs off sz ss = Inr ss' \<Longrightarrow> bus_shape ss' = bus_shape ss \<and> bus_lines ss' = bus_lines ss"
    by (rule f, rule mmio_write_keeps[where wr = vio_write and f = ?f]) (auto dest: vio_write_kind vio_write_ident)
  assume up: "mmio_update vio_update m ss = Inr (m', ss')"
  have "map (\<lambda>s. (ms_window s, ?f (ms_state s))) ss' = map (\<lambda>s. (ms_window s, ?f (ms_state s))) ss"
    by (rule mmio_update_keeps[OF _ up]) (auto dest: vio_update_kind vio_update_ident)
  moreover have "gm_size m' = gm_size m"
    by (rule mmio_update_size[OF _ up]) (auto dest: vio_update_kind)
  ultimately show "bus_shape ss' = bus_shape ss \<and> bus_lines ss' = bus_lines ss \<and> gm_size m' = gm_size m"
    using f by blast
qed

lemma handle_mmio_shape:
  assumes "handle_mmio mm v = Inr (mm', v')"
  shows "machine_shape v' = machine_shape v"
  using assms by (auto simp: handle_mmio_def shape_defs dest!: bus_keeps split: if_splits)

lemma handle_exit_shape: "handle_exit x v = Inr (r, x', v') \<Longrightarrow> machine_shape v' = machine_shape v"
proof (cases x)
  case (KVM_EXIT_IO io)
  assume "handle_exit x v = Inr (r, x', v')"
  then show ?thesis
    using KVM_EXIT_IO handle_io_device_shape first_in_rangeD[of "ucast (io_port io)" "vm_io_devices v"]
    by (fastforce simp: shape_defs split: option.splits if_splits)
next
  case (KVM_EXIT_MMIO mm)
  assume "handle_exit x v = Inr (r, x', v')"
  then show ?thesis using KVM_EXIT_MMIO handle_mmio_shape by auto
qed (auto simp: shape_defs)

lemma device_round_shape:
  assumes "device_round rx i v = Some (Inr v')" "i < length (vm_mmio v)"
  shows "machine_shape v' = machine_shape v"
proof -
  let ?st = "ms_state (vm_mmio v ! i)"
  obtain m st where r: "vio_round rx (vm_memory v) ?st = Some (Inr (m, st))"
    "v' = v\<lparr>vm_memory := m, vm_mmio := (vm_mmio v)[i := (vm_mmio v ! i)\<lparr>ms_state := st\<rparr>]\<rparr>"
    using assms(1) by (auto simp: device_round_def)
  have "vio_kind (fst st) = vio_kind (fst ?st) \<and> gm_size m = gm_size (vm_memory v)"
    using r(1) vio_round_kind[of rx "vm_memory v" "fst ?st" "snd ?st" m "fst st" "snd st"] by simp
  moreover have "irq_ident (snd st) = irq_ident (snd ?st)"
    using r(1) vio_round_ident[of rx "vm_memory v" "fst ?st" "snd ?st" m "fst st" "snd st"] by simp
  ultimately show ?thesis
    using assms(2)
    by (simp add: r(2) shape_defs bus_shape_def bus_lines_def map_update list_update_same_conv)
qed

end
