(* ===== verification/Vmm.thy ===== *)
theory Vmm
  imports Vm_Ports Cpuid Irq_Routing Vcpu_Setup Elf Mptable
begin

text \<open>
  \<^verbatim>\<open>src/kvm/vmm.h\<close>: the monitor. \<open>vmm_new\<close> and \<open>start_setup\<close> build the machine and put the
  guest in place, call by call. The lemmas follow the calls on a host that grants them and end
  in the two pictures the guest starts from: its memory and its devices.
\<close>

section \<open>Constants\<close>

definition CPU_COUNT :: nat where "CPU_COUNT = 2"
definition MEMORY_SIZE_MB :: u64 where "MEMORY_SIZE_MB = 4 * 1024"
definition MB_SHIFT :: nat where "MB_SHIFT = 20"

definition cmdline :: string where
  "cmdline = ''console=ttyS0'' @
     '' virtio_mmio.device=0x1000@0xd0000000:12'' @
     '' virtio_mmio.device=0x1000@0xd0001000:13'' @
     '' virtio_mmio.device=0x1000@0xd0002000:14'' @
     '' reboot=k panic=1 pci=off'' @
     '' i8042.noaux i8042.nomux i8042.nopnp i8042.dumbkbd'' @
     '' root=/dev/vda init=/sbin/init''"

definition cmdline_bytes :: "u8 list" where "cmdline_bytes = map of_char cmdline"

section \<open>The surroundings\<close>

text \<open>
  What the host supplies and what C++ leaves uninitialised: the files, whether each \<^verbatim>\<open>eventfd\<close>
  works, the terminal, the tap and its \<^verbatim>\<open>ioctl\<close> results, random bytes, and the contents of
  the fields no constructor sets.
\<close>

record boot_env =
  be_kernel :: "u8 list option"
  be_disk :: "u8 list option"
  be_eventfd :: "u32 \<Rightarrow> bool"
  be_term :: terminal
  be_tap :: tap
  be_tap_setup :: "int \<times> int \<times> int \<times> int \<times> int"
  be_random :: "u8 list option"
  be_kbd :: "u8 list"
  be_uart :: "nat \<Rightarrow> u8 list \<times> u8 list \<times> (nat \<Rightarrow> u8)"
  be_blk :: "u8 list"
  be_net :: "u8 list"
  be_routing :: "u32 \<Rightarrow> nat \<Rightarrow> u32"

section \<open>Building the machine\<close>

definition vmm_new ::
  "int \<Rightarrow> u64 option \<Rightarrow> (nat \<Rightarrow> bool) \<Rightarrow> kvm_host \<Rightarrow> (kvm \<times> machine \<times> kvm_host) res" where
  "vmm_new fd mmap mapped h =
     and_then (kvm_new fd h) (\<lambda>(k, h).
     and_then (vm_new k CPU_COUNT (push_bit MB_SHIFT MEMORY_SIZE_MB) mmap mapped h) (\<lambda>(v, h).
     Inr (k, v, h)))"

fun each_cpu :: "(int \<Rightarrow> kvm_host \<Rightarrow> kvm_host res) \<Rightarrow> machine \<Rightarrow> nat list \<Rightarrow> kvm_host \<Rightarrow> kvm_host res" where
  "each_cpu f v [] h = Inr h"
| "each_cpu f v (i # is) h =
     and_then (get_vcpu v i) (\<lambda>cpu. and_then (f cpu h) (each_cpu f v is))"

definition start_cpuid :: "kvm \<Rightarrow> machine \<Rightarrow> kvm_host \<Rightarrow> kvm_host res" where
  "start_cpuid k v h =
     and_then (get_supported_cpuid MAX_KVM_CPUID_ENTRIES k h) (\<lambda>(cpuid2, h).
     each_cpu (\<lambda>cpu. set_cpuid2 cpu (filter_cpuid_copy cpuid2)) v [0..<CPU_COUNT] h)"

definition start_cpu :: "int \<Rightarrow> kvm_host \<Rightarrow> kvm_host res" where
  "start_cpu cpu h =
     and_then (setup_msrs cpu h) (\<lambda>h.
     and_then (set_fpu cpu setup_fpu h) (setup_lapic cpu))"

definition long_mode :: "int \<Rightarrow> gmem \<Rightarrow> kvm_host \<Rightarrow> (gmem \<times> kvm_host) res" where
  "long_mode cpu m h =
     and_then (get_sregs cpu h) (\<lambda>(s, h).
     and_then (setup_tables m) (\<lambda>m.
     and_then (set_sreg cpu (setup_sregs s) h) (\<lambda>h. Inr (m, h))))"

definition new_uart :: "boot_env \<Rightarrow> nat \<Rightarrow> uart" where
  "new_uart env n = (case be_uart env n of (rx, tx, stack) \<Rightarrow> uart_new rx tx stack)"

definition start_devices :: "boot_env \<Rightarrow> machine \<Rightarrow> kvm_host \<Rightarrow> (machine \<times> kvm_host) res" where
  "start_devices env v h =
     (let ok = be_eventfd env; uart = (\<lambda>n t. Uart_dev (new_uart env n) t) in
      and_then (add_io_device (ok 1) 0x60 5 1 (I8042_dev (i8042_new (be_kbd env))) v h) (\<lambda>(v, h).
      and_then (add_io_device (ok 4) 0x3f8 8 4 (uart 0 (Some (be_term env))) v h) (\<lambda>(v, h).
      and_then (add_io_device (ok 3) 0x2f8 8 3 (uart 1 None) v h) (\<lambda>(v, h).
      and_then (add_io_device (ok 4) 0x3e8 8 4 (uart 2 None) v h) (\<lambda>(v, h).
      and_then (add_io_device (ok 3) 0x2e8 8 3 (uart 3 None) v h) (\<lambda>(v, h).
      and_then (add_mmio_device (ok 12) 0xd0000000 0x1000 12 (and_then (blk_open (be_disk env) (be_blk env)) (\<lambda>d. Inr (Vblk d))) v h) (\<lambda>(v, h).
      and_then (add_mmio_device (ok 13) 0xd0001000 0x1000 13 (and_then (rng_open (be_random env)) (\<lambda>d. Inr (Vrng d))) v h) (\<lambda>(v, h).
      and_then (add_mmio_device (ok 14) 0xd0002000 0x1000 14 (and_then (net_open (be_tap_setup env) (be_tap env) (be_net env)) (\<lambda>d. Inr (Vnet d))) v h) (\<lambda>(v, h).
      Inr (v, h))))))))))"

definition start_setup :: "boot_env \<Rightarrow> kvm \<Rightarrow> machine \<Rightarrow> kvm_host \<Rightarrow> (machine \<times> kvm_host) res" where
  "start_setup env k v h =
     and_then (start_cpuid k v h) (\<lambda>h.
     and_then (elf_load (be_kernel env) (vm_memory v)) (\<lambda>(entry, m).
     and_then (setup_irq_routing (be_routing env) (vm_fd v) h) (\<lambda>h.
     and_then (each_cpu start_cpu v [0..<CPU_COUNT] h) (\<lambda>h.
     and_then (get_vcpu v 0) (\<lambda>cpu.
     and_then (set_regs cpu (setup_regs entry BOOT_STACK_POINTER ZERO_PAGE_START) h) (\<lambda>h.
     and_then (long_mode cpu m h) (\<lambda>(m, h).
     and_then (setup_bootparams cmdline_bytes m) (\<lambda>m.
     and_then (setup_mptable (of_nat CPU_COUNT) m) (\<lambda>m.
     start_devices env (v\<lparr>vm_memory := m\<rparr>) h)))))))))"

section \<open>The devices\<close>

definition env_ok :: "boot_env \<Rightarrow> bool" where
  "env_ok env \<longleftrightarrow>
     (\<forall>n. be_eventfd env n) \<and> length (be_kbd env) = 16 \<and>
     (\<forall>n rx tx st. be_uart env n = (rx, tx, st) \<longrightarrow> length rx = 64 \<and> length tx = 64) \<and>
     terminal_sane (Some (be_term env)) \<and>
     be_disk env \<noteq> None \<and> be_random env \<noteq> None \<and>
     (case be_tap_setup env of (a, b, c, d, e) \<Rightarrow> 0 \<le> b \<and> 0 \<le> c \<and> 0 \<le> d \<and> 0 \<le> e)"

definition pc_ports :: "boot_env \<Rightarrow> io_slot list" where
  "pc_ports env =
     [\<lparr>ps_window = \<lparr>io_addr = 0x60, io_width = 5\<rparr>, ps_irq = 1, ps_dev = I8042_dev (i8042_new (be_kbd env))\<rparr>,
      \<lparr>ps_window = \<lparr>io_addr = 0x3f8, io_width = 8\<rparr>, ps_irq = 4, ps_dev = Uart_dev (new_uart env 0) (Some (be_term env))\<rparr>,
      \<lparr>ps_window = \<lparr>io_addr = 0x2f8, io_width = 8\<rparr>, ps_irq = 3, ps_dev = Uart_dev (new_uart env 1) None\<rparr>,
      \<lparr>ps_window = \<lparr>io_addr = 0x3e8, io_width = 8\<rparr>, ps_irq = 4, ps_dev = Uart_dev (new_uart env 2) None\<rparr>,
      \<lparr>ps_window = \<lparr>io_addr = 0x2e8, io_width = 8\<rparr>, ps_irq = 3, ps_dev = Uart_dev (new_uart env 3) None\<rparr>]"

definition file_bytes :: "u8 list option \<Rightarrow> u8 list" where
  "file_bytes f = (case f of None \<Rightarrow> [] | Some bs \<Rightarrow> bs)"

definition pc_bus :: "boot_env \<Rightarrow> (vio \<times> interrupt) mmio_slot list" where
  "pc_bus env =
     [\<lparr>ms_window = \<lparr>io_addr = 0xd0000000, io_width = 0x1000\<rparr>,
       ms_state = (Vblk (blk_new (file_bytes (be_disk env)) (be_blk env)), interrupt_new 12 True)\<rparr>,
      \<lparr>ms_window = \<lparr>io_addr = 0xd0001000, io_width = 0x1000\<rparr>,
       ms_state = (Vrng (rng_new (file_bytes (be_random env))), interrupt_new 13 True)\<rparr>,
      \<lparr>ms_window = \<lparr>io_addr = 0xd0002000, io_width = 0x1000\<rparr>,
       ms_state = (Vnet (net_new (be_tap env) (be_net env)), interrupt_new 14 True)\<rparr>]"

definition pc_lines :: "interrupt option list" where
  "pc_lines = map (\<lambda>n. if n \<in> {1, 3, 4, 12, 13, 14} then Some (interrupt_new (of_nat n) True) else None) [0..<32]"

lemma register_irq_new:
  assumes "willing (Suc n) h" "unat k < length (vm_interrupts v)" "vm_interrupts v ! unat k = None"
  shows "\<exists>h'. register_irq ok k v h = Inr (interrupt_new k ok,
      v\<lparr>vm_interrupts := (vm_interrupts v)[unat k := Some (interrupt_new k ok)]\<rparr>, h') \<and> willing n h'"
  using assms ioctl_check_ok[OF assms(1)] by (simp add: register_irq_def Let_def)

lemma register_irq_shared:
  assumes "unat k < length (vm_interrupts v)" "vm_interrupts v ! unat k = Some irq"
  shows "register_irq ok k v h = Inr (irq, v, h)"
  using assms by (simp add: register_irq_def)

lemma add_io_device_new:
  assumes "willing (Suc n) h" "unat k < length (vm_interrupts v)" "vm_interrupts v ! unat k = None"
  shows "\<exists>h'. add_io_device True a w k d v h =
      Inr (v\<lparr>vm_io_devices := vm_io_devices v @
               [\<lparr>ps_window = \<lparr>io_addr = a, io_width = w\<rparr>, ps_irq = unat k, ps_dev = d\<rparr>],
             vm_interrupts := (vm_interrupts v)[unat k := Some (interrupt_new k True)]\<rparr>, h') \<and> willing n h'"
  using register_irq_new[OF assms, of True] by (fastforce simp: add_io_device_def)

lemma add_io_device_shared:
  assumes "unat k < length (vm_interrupts v)" "vm_interrupts v ! unat k = Some irq"
  shows "add_io_device True a w k d v h =
      Inr (v\<lparr>vm_io_devices := vm_io_devices v @
               [\<lparr>ps_window = \<lparr>io_addr = a, io_width = w\<rparr>, ps_irq = unat k, ps_dev = d\<rparr>]\<rparr>, h)"
  using register_irq_shared[OF assms] by (simp add: add_io_device_def)

lemma add_mmio_device_new:
  assumes "willing (Suc n) h" "unat k < length (vm_interrupts v)" "vm_interrupts v ! unat k = None"
  shows "\<exists>h'. add_mmio_device True a w k (Inr d) v h =
      Inr (v\<lparr>vm_mmio := vm_mmio v @
               [\<lparr>ms_window = \<lparr>io_addr = a, io_width = w\<rparr>, ms_state = (d, interrupt_new k True)\<rparr>],
             vm_interrupts := (vm_interrupts v)[unat k := Some (interrupt_new k True)]\<rparr>, h') \<and> willing n h'"
  using register_irq_new[OF assms, of True] by (fastforce simp: add_mmio_device_def)

lemma start_devices_ok:
  assumes "willing 6 h" "env_ok env" "vm_interrupts v = replicate 32 None"
    and "vm_io_devices v = []" "vm_mmio v = []"
  shows "\<exists>h'. start_devices env v h =
      Inr (v\<lparr>vm_io_devices := pc_ports env, vm_interrupts := pc_lines, vm_mmio := pc_bus env\<rparr>, h')"
proof -
  have fd: "be_eventfd env n" for n using assms(2) by (simp add: env_ok_def)
  have w: "willing (Suc 5) h" using assms(1) by simp
  let ?u = "\<lambda>n t. Uart_dev (new_uart env n) t"
  obtain h1 v1 where s1: "add_io_device True 0x60 5 1 (I8042_dev (i8042_new (be_kbd env))) v h = Inr (v1, h1)"
    "willing (Suc 4) h1" and v1: "v1 = v\<lparr>vm_io_devices := take 1 (pc_ports env),
       vm_interrupts := (replicate 32 None)[1 := Some (interrupt_new 1 True)]\<rparr>"
    using add_io_device_new[OF w, of 1 v "0x60" 5 "I8042_dev (i8042_new (be_kbd env))"]
    by (auto simp: assms pc_ports_def)
  obtain h2 v2 where s2: "add_io_device True 0x3f8 8 4 (?u 0 (Some (be_term env))) v1 h1 = Inr (v2, h2)"
    "willing (Suc 3) h2" and v2: "v2 = v1\<lparr>vm_io_devices := take 2 (pc_ports env),
       vm_interrupts := (vm_interrupts v1)[4 := Some (interrupt_new 4 True)]\<rparr>"
    using add_io_device_new[OF s1(2), of 4 v1 "0x3f8" 8 "?u 0 (Some (be_term env))"]
    by (auto simp: v1 pc_ports_def)
  obtain h3 v3 where s3: "add_io_device True 0x2f8 8 3 (?u 1 None) v2 h2 = Inr (v3, h3)"
    "willing (Suc 2) h3" and v3: "v3 = v2\<lparr>vm_io_devices := take 3 (pc_ports env),
       vm_interrupts := (vm_interrupts v2)[3 := Some (interrupt_new 3 True)]\<rparr>"
    using add_io_device_new[OF s2(2), of 3 v2 "0x2f8" 8 "?u 1 None"]
    by (auto simp: v1 v2 pc_ports_def)
  obtain v4 where s4: "add_io_device True 0x3e8 8 4 (?u 2 None) v3 h3 = Inr (v4, h3)"
    and v4: "v4 = v3\<lparr>vm_io_devices := take 4 (pc_ports env)\<rparr>"
    using add_io_device_shared[of 4 v3 "interrupt_new 4 True" "0x3e8" 8 "?u 2 None" h3]
    by (auto simp: v1 v2 v3 pc_ports_def)
  obtain v5 where s5: "add_io_device True 0x2e8 8 3 (?u 3 None) v4 h3 = Inr (v5, h3)"
    and v5: "v5 = v4\<lparr>vm_io_devices := pc_ports env\<rparr>"
    using add_io_device_shared[of 3 v4 "interrupt_new 3 True" "0x2e8" 8 "?u 3 None" h3]
    by (auto simp: v1 v2 v3 v4 pc_ports_def)
  have w3: "willing (Suc (Suc 1)) h3" using s3(2) by (simp add: numeral_2_eq_2)
  obtain h6 v6 where s6: "add_mmio_device True 0xd0000000 0x1000 12 (Inr (Vblk (blk_new (file_bytes (be_disk env)) (be_blk env)))) v5 h3
      = Inr (v6, h6)" "willing (Suc 1) h6" and v6: "v6 = v5\<lparr>vm_mmio := take 1 (pc_bus env),
       vm_interrupts := (vm_interrupts v5)[12 := Some (interrupt_new 12 True)]\<rparr>"
    using add_mmio_device_new[OF w3, of 12 v5 "0xd0000000" "0x1000" "Vblk (blk_new (file_bytes (be_disk env)) (be_blk env))"]
    by (auto simp: v1 v2 v3 v4 v5 pc_bus_def assms)
  obtain h7 v7 where s7: "add_mmio_device True 0xd0001000 0x1000 13 (Inr (Vrng (rng_new (file_bytes (be_random env))))) v6 h6
      = Inr (v7, h7)" "willing (Suc 0) h7" and v7: "v7 = v6\<lparr>vm_mmio := take 2 (pc_bus env),
       vm_interrupts := (vm_interrupts v6)[13 := Some (interrupt_new 13 True)]\<rparr>"
    using add_mmio_device_new[OF s6(2), of 13 v6 "0xd0001000" "0x1000" "Vrng (rng_new (file_bytes (be_random env)))"]
    by (auto simp: v1 v2 v3 v4 v5 v6 pc_bus_def assms)
  obtain h8 v8 where s8: "add_mmio_device True 0xd0002000 0x1000 14 (Inr (Vnet (net_new (be_tap env) (be_net env)))) v7 h7
      = Inr (v8, h8)" and v8: "v8 = v7\<lparr>vm_mmio := pc_bus env,
       vm_interrupts := (vm_interrupts v7)[14 := Some (interrupt_new 14 True)]\<rparr>"
    using add_mmio_device_new[OF s7(2), of 14 v7 "0xd0002000" "0x1000" "Vnet (net_new (be_tap env) (be_net env))"]
    by (auto simp: v1 v2 v3 v4 v5 v6 v7 pc_bus_def assms)
  have opened: "blk_open (be_disk env) junk = Inr (blk_new (file_bytes (be_disk env)) junk)"
    "rng_open (be_random env) = Inr (rng_new (file_bytes (be_random env)))"
    "net_open (be_tap_setup env) tap junk = Inr (net_new tap junk)" for tap junk
    using assms(2) by (auto simp: env_ok_def blk_open_def rng_open_def net_open_def create_tap_def file_bytes_def)
  have "pc_lines = (replicate 32 None)[1 := Some (interrupt_new 1 True), 4 := Some (interrupt_new 4 True),
      3 := Some (interrupt_new 3 True), 12 := Some (interrupt_new 12 True), 13 := Some (interrupt_new 13 True),
      14 := Some (interrupt_new 14 True)]"
    by (rule nth_equalityI) (auto simp: pc_lines_def nth_list_update)
  then have "v8 = v\<lparr>vm_io_devices := pc_ports env, vm_interrupts := pc_lines, vm_mmio := pc_bus env\<rparr>"
    by (simp add: v1 v2 v3 v4 v5 v6 v7 v8)
  then show ?thesis
    by (simp add: start_devices_def Let_def fd opened s1 s2 s3[unfolded One_nat_def] s4 s5 s6 s7 s8)
qed

lemma pc_lines_nth: "n < 32 \<Longrightarrow> pc_lines ! n =
    (if n \<in> {1, 3, 4, 12, 13, 14} then Some (interrupt_new (of_nat n) True) else None)"
  by (simp add: pc_lines_def)

lemma length_pc_lines [simp]: "length pc_lines = 32"
  by (simp add: pc_lines_def)

lemma new_uart_inv: "env_ok env \<Longrightarrow> uart_inv (new_uart env n)"
  by (cases "be_uart env n") (fastforce simp: env_ok_def new_uart_def intro!: uart_new_inv)

lemma pc_ports_ok:
  assumes "env_ok env" "vm_io_devices v = pc_ports env" "vm_interrupts v = pc_lines"
  shows "ports_ok v" "port_windows_ok (vm_io_devices v)"
proof -
  have "lines_ok pc_lines" by (auto simp: lines_ok_def pc_lines_def split: if_splits)
  then show "ports_ok v"
    using assms(1) new_uart_inv[OF assms(1)] i8042_new_inv[of "be_kbd env"]
    by (simp add: ports_ok_def assms(2,3) pc_ports_def slot_ok_def pc_lines_nth env_ok_def)
  show "port_windows_ok (vm_io_devices v)"
    by (simp add: assms(2) pc_ports_def port_windows_ok_def windows_apart_def)
qed

lemma pc_bus_windows: "windows_ok (pc_bus env)"
  by (auto simp: pc_bus_def windows_ok_def windows_apart_def less_Suc_eq nth_Cons')

section \<open>What the command line announces\<close>

text \<open>Numbers as the command line writes them.\<close>

definition hex64 :: "u64 \<Rightarrow> string" where "hex64 w = ''0x'' @ digits 16 (unat w)"

text \<open>The kernel parameter that describes an MMIO device: size, base address and interrupt.\<close>

definition device_param :: "(vio \<times> interrupt) mmio_slot \<Rightarrow> string" where
  "device_param s = ''virtio_mmio.device='' @ hex64 (io_width (ms_window s)) @ ''@'' @
     hex64 (io_addr (ms_window s)) @ '':'' @ dec (irq_number (snd (ms_state s)))"

fun words_of :: "string \<Rightarrow> string \<Rightarrow> string list" where
  "words_of w [] = [w]"
| "words_of w (c # cs) = (if c = CHR '' '' then w # words_of [] cs else words_of (w @ [c]) cs)"

definition mmio_words :: "string \<Rightarrow> string list" where
  "mmio_words s = filter (\<lambda>w. take 12 w = ''virtio_mmio.'') (words_of [] s)"

lemma cmdline_words:
  "mmio_words cmdline = [''virtio_mmio.device=0x1000@0xd0000000:12'',
     ''virtio_mmio.device=0x1000@0xd0001000:13'', ''virtio_mmio.device=0x1000@0xd0002000:14'']"
  by (simp add: mmio_words_def cmdline_def)

lemma digit_chars:
  "digit 0 = CHR ''0''" "digit (Suc 0) = CHR ''1''" "digit 2 = CHR ''2''"
  "digit 3 = CHR ''3''" "digit 4 = CHR ''4''" "digit 13 = CHR ''d''"
  by (simp_all add: digit_def char_of_def bit_Suc_0_iff)

lemma printed_numbers:
  "hex64 0x1000 = ''0x1000''" "hex64 0xd0000000 = ''0xd0000000''" "hex64 0xd0001000 = ''0xd0001000''"
  "hex64 0xd0002000 = ''0xd0002000''" "dec 12 = ''12''" "dec 13 = ''13''" "dec 14 = ''14''"
  by (simp_all add: hex64_def dec_def digits.simps digit_chars)

lemma pc_bus_params: "map device_param (pc_bus env) = mmio_words cmdline"
  by (simp add: cmdline_words pc_bus_def device_param_def printed_numbers)

section \<open>The memory the guest starts with\<close>

definition same_bytes :: "nat \<Rightarrow> nat \<Rightarrow> gmem \<Rightarrow> gmem \<Rightarrow> bool" where
  "same_bytes lo hi m m' \<longleftrightarrow> (\<forall>a n. lo \<le> unat a \<longrightarrow> unat a + n \<le> hi \<longrightarrow> peek m' a n = peek m a n)"

lemma same_bytesD: "same_bytes lo hi m m' \<Longrightarrow> lo \<le> unat a \<Longrightarrow> unat a + n \<le> hi \<Longrightarrow> peek m' a n = peek m a n"
  by (simp add: same_bytes_def)

lemma same_bytes_peek_le:
  "same_bytes lo hi m m' \<Longrightarrow> lo \<le> unat a \<Longrightarrow> unat a + n \<le> hi \<Longrightarrow> peek_le n m' a = peek_le n m a"
  by (simp add: peek_le_def same_bytesD)

lemma same_bytes_poke:
  assumes "unat a + length bs \<le> 2 ^ 64" "hi \<le> 2 ^ 64" "hi \<le> unat a \<or> unat a + length bs \<le> lo"
  shows "same_bytes lo hi m (poke m a bs)"
  unfolding same_bytes_def using assms
  by (auto intro!: peek_poke_disjoint simp: disjoint_ranges_def)

lemma identity_tables_same:
  assumes "identity_tables m" "same_bytes 0x9000 0xc000 m m'"
  shows "identity_tables m'"
proof -
  have "peek64 m' (0xb000 + of_nat (8 * i)) = peek64 m (0xb000 + of_nat (8 * i))" if "i < 512" for i
  proof -
    have "unat (0xb000 + of_nat (8 * i) :: u64) = 0xb000 + 8 * i"
      using that unat_add_of_nat[of "0xb000 :: u64" "8 * i"] by simp
    then show ?thesis using that by (intro same_bytes_peek_le[OF assms(2)]) simp_all
  qed
  moreover have "peek64 m' 0x9000 = peek64 m 0x9000" "peek64 m' 0xa000 = peek64 m 0xa000"
    by (rule same_bytes_peek_le[OF assms(2)]; simp)+
  ultimately show ?thesis using assms(1) by (simp add: identity_tables_def)
qed

lemma unat_zp: "i < 0x1000 \<Longrightarrow> unat (zp i) = 0x7000 + i"
  using unat_add_of_nat[of ZERO_PAGE_START i] by (simp add: ZERO_PAGE_START_def)

lemma e820_table_same:
  assumes "same_bytes 0x7000 0x8000 m m'" "length (e820_table m) \<le> 128"
  shows "e820_table m' = e820_table m"
proof -
  have "e820_count m' = e820_count m"
    unfolding e820_count_def by (subst same_bytesD[OF assms(1)]) (simp_all add: ZERO_PAGE_START_def)
  moreover have "e820_at m' k = e820_at m k" if "k < unat (e820_count m)" for k
  proof -
    have k: "k < 128" using that assms(2) by (simp add: e820_table_def)
    have "peek m' (zp j) n = peek m (zp j) n" if "j + n \<le> 0x1000" "j < 0x1000" for j n
      using that by (intro same_bytesD[OF assms(1)]) (simp_all only: unat_zp)
    from this[of "0x2d0 + 20 * k" 8] this[of "0x2d8 + 20 * k" 8] this[of "0x2e0 + 20 * k" 4] k show ?thesis
      unfolding e820_at_def peek_le_def by simp
  qed
  ultimately show ?thesis unfolding e820_table_def by (intro map_cong) auto
qed

text \<open>The kernel file: its segments lie in memory above the first megabyte and do not overlap.\<close>

definition kernel_ok :: "u8 list \<Rightarrow> gmem \<Rightarrow> bool" where
  "kernel_ok file m \<longleftrightarrow>
     ehdr_ok file \<and> (\<forall>p \<in> set (loads (phdrs_of file)). segment_ok file m p \<and> HIMEM_START \<le> p_paddr p) \<and>
     sorted_wrt segments_apart (loads (phdrs_of file))"

text \<open>
  What has to be in memory when the boot processor starts: the kernel, page tables that map it, the
  parameters with the memory map and the command line, and the MP table.
\<close>

definition boot_image :: "u8 list \<Rightarrow> gmem \<Rightarrow> bool" where
  "boot_image file m \<longleftrightarrow>
     (\<forall>p \<in> set (loads (phdrs_of file)). peek m (p_paddr p) (unat (p_filesz p)) = segment_bytes file p) \<and>
     (\<forall>va < 0x40000000. page_walk m PML4_START va = Some va) \<and>
     e820_table m = map (\<lambda>(a, n). (a, n, E820_RAM)) (e820_map (gm_size m)) \<and>
     peek16 m (ZERO_PAGE_START + BOOT_FLAG_OFF) = 0xaa55 \<and> peek32 m (ZERO_PAGE_START + HEADER_OFF) = 0x53726448 \<and>
     peek m (ucast (peek32 m (ZERO_PAGE_START + CMD_LINE_PTR_OFF)))
       (unat (peek32 m (ZERO_PAGE_START + CMDLINE_SIZE_OFF))) = cmdline_bytes \<and>
     mp_table_at CPU_COUNT m"

lemma length_cmdline: "length cmdline_bytes \<le> 0x10000"
  by (simp add: cmdline_bytes_def cmdline_def)

lemma boot_image_ok:
  assumes "kernel_ok file m" "0xa0000 \<le> gm_size m"
  shows "\<exists>m1 m2 m3 m4. elf_load (Some file) m = Inr (e_entry (ehdr_of file), m1) \<and> setup_tables m1 = Inr m2 \<and>
    setup_bootparams cmdline_bytes m2 = Inr m3 \<and> setup_mptable (of_nat CPU_COUNT) m3 = Inr m4 \<and>
    gm_size m4 = gm_size m \<and> boot_image file m4"
proof -
  let ?ps = "loads (phdrs_of file)"
  have segs: "\<forall>p \<in> set ?ps. segment_ok file m p" "\<forall>p \<in> set ?ps. 0x100000 \<le> unat (p_paddr p)"
    using assms(1) by (auto simp: kernel_ok_def HIMEM_START_def word_le_nat_alt)
  obtain m1 where m1: "elf_load (Some file) m = Inr (e_entry (ehdr_of file), m1)" "gm_size m1 = gm_size m"
    "\<forall>p \<in> set ?ps. peek m1 (p_paddr p) (unat (p_filesz p)) = segment_bytes file p"
    using elf_load_ok[of "file" m] assms(1) segs(1) unfolding kernel_ok_def by blast
  have sz: "0xa0000 \<le> unat (gm_size m)" using assms(2) by (simp add: word_le_nat_alt)
  let ?m2 = "tables_written m1"
  have m2: "setup_tables m1 = Inr ?m2" "gm_size ?m2 = gm_size m"
    using sz by (auto simp: setup_tables_ok word_le_nat_alt m1(2) tables_written_def)
  have "0x30000 \<le> gm_size ?m2" using sz by (simp add: word_le_nat_alt m2(2))
  from setup_bootparams_facts[OF this length_cmdline] obtain m3 where
    m3: "setup_bootparams cmdline_bytes ?m2 = Inr m3" "gm_size m3 = gm_size m"
    "e820_table m3 = map (\<lambda>(a, n). (a, n, E820_RAM)) (e820_map (gm_size m))"
    "peek16 m3 (zp 0x1fe) = 0xaa55" "peek32 m3 (zp 0x202) = 0x53726448"
    "ucast (peek32 m3 (zp 0x228)) = CMDLINE_START" "unat (peek32 m3 (zp 0x238)) = length cmdline_bytes"
    "peek m3 CMDLINE_START (length cmdline_bytes) = cmdline_bytes"
    "\<forall>b k. unat b + k \<le> 2 ^ 64 \<longrightarrow> \<not> boot_area b k cmdline_bytes \<longrightarrow> peek m3 b k = peek ?m2 b k"
    unfolding m2(2) by blast
  let ?I = "mptable_image (of_nat CPU_COUNT)"
  let ?m4 = "poke m3 MPTABLE_START ?I"
  have n: "unat (of_nat CPU_COUNT :: u32) = CPU_COUNT" "CPU_COUNT \<le> 46" by (simp_all add: CPU_COUNT_def)
  have m4: "setup_mptable (of_nat CPU_COUNT) m3 = Inr ?m4" "mp_table_at CPU_COUNT ?m4" "length ?I \<le> 1024"
    using setup_mptable_ok[of "of_nat CPU_COUNT" m3] assms(2) n(2) by (simp_all add: m3(2) n(1))
  have frame4: "same_bytes lo hi m3 ?m4" if "hi \<le> 0x9fc00 \<or> 0xa0000 \<le> lo" "hi \<le> 2 ^ 64" for lo hi
    using that m4(3) by (intro same_bytes_poke) (auto simp: MPTABLE_START_def)
  have frame3: "same_bytes lo hi ?m2 m3" if "0x8000 \<le> lo \<and> hi \<le> 0x20000 \<or> 0x30000 \<le> lo" "hi \<le> 2 ^ 64" for lo hi
    using m3(9) that length_cmdline
    by (auto simp: same_bytes_def boot_area_def disjoint_ranges_def ZERO_PAGE_START_def CMDLINE_START_def)
  have kernel: "peek ?m4 (p_paddr p) (unat (p_filesz p)) = segment_bytes file p" if p: "p \<in> set ?ps" for p
  proof -
    have "0x100000 \<le> unat (p_paddr p)" "unat (p_paddr p) + unat (p_filesz p) \<le> 2 ^ 64"
      using segs p in_mem_bound[of m "p_paddr p" "unat (p_filesz p)"] by (auto simp: segment_ok_def)
    then have "peek ?m4 (p_paddr p) (unat (p_filesz p)) = peek m1 (p_paddr p) (unat (p_filesz p))"
      using same_bytesD[OF frame4[of "2 ^ 64" "0x100000"]] same_bytesD[OF frame3[of "0x100000" "2 ^ 64"]]
        peek_tables_other[of "p_paddr p" "unat (p_filesz p)" m1] by simp
    then show ?thesis using m1(3) p by simp
  qed
  have "identity_tables ?m4"
    by (intro identity_tables_same[OF identity_tables_same[OF identity_tables_written frame3] frame4]) simp_all
  then have walk: "\<forall>va < 0x40000000. page_walk ?m4 PML4_START va = Some va"
    using page_walk_identity by blast
  have e820: "e820_table ?m4 = e820_table m3"
    by (rule e820_table_same[OF frame4]) (simp_all add: m3(3) e820_map_def)
  have zp: "peek_le n ?m4 (zp j) = peek_le n m3 (zp j)" if "j + n \<le> 0x1000" "0 < n" for j n
    using that by (intro same_bytes_peek_le[OF frame4[of "0x8000" "0x7000"]]) (simp_all only: unat_zp, simp_all)
  have cmd: "peek ?m4 CMDLINE_START (length cmdline_bytes) = cmdline_bytes"
    using same_bytesD[OF frame4[of "0x30000" "0x20000"], of CMDLINE_START "length cmdline_bytes"]
      length_cmdline m3(8) by (simp add: CMDLINE_START_def)
  have "boot_image file ?m4"
    unfolding boot_image_def boot_fields
    using kernel walk e820 cmd m3(3-7) m4(2) by (simp add: zp m3(2) del: of_nat_numeral)
  then show ?thesis using m1(1) m2(1) m3(1,2) m4(1) by (intro exI conjI) auto
qed

section \<open>The calls\<close>

text \<open>What a run of granted calls leaves: what the host would answer is as before, and the log has grown.\<close>

definition granted :: "nat \<Rightarrow> kvm_host \<Rightarrow> (int \<times> kvm_call) list \<Rightarrow> kvm_host \<Rightarrow> bool" where
  "granted n h calls h' \<longleftrightarrow>
     willing n h' \<and> kh_log h' = kh_log h @ calls \<and> kh_lapic h' = kh_lapic h \<and>
     kh_sregs h' = kh_sregs h \<and> kh_cpuid h' = kh_cpuid h \<and> kh_runs h' = kh_runs h"

lemma granted_trans: "granted n h cs h' \<Longrightarrow> granted k h' ds h'' \<Longrightarrow> granted k h (cs @ ds) h''"
  by (simp add: granted_def)

lemma granted_call:
  assumes "willing (Suc n) h"
  shows "\<exists>h'. ioctl_check ctl fd call h = Inr h' \<and> granted n h [(fd, call)] h'"
  using ioctl_check_ok[OF assms] by (simp add: granted_def)

lemma granted_willing: "granted n h cs h' \<Longrightarrow> willing n h'"
  by (simp add: granted_def)

lemma setup_lapic_ok:
  assumes "willing (Suc (Suc n)) h" "length (kh_lapic h cpu) = 1024"
  shows "\<exists>h'. setup_lapic cpu h = Inr h' \<and>
    granted n h [(cpu, KVM_GET_LAPIC), (cpu, KVM_SET_LAPIC (lvt_image (kh_lapic h cpu)))] h'"
proof -
  from granted_call[OF assms(1), of "''KVM_GET_LAPIC''" cpu KVM_GET_LAPIC] obtain h1 where
    h1: "ioctl_check ''KVM_GET_LAPIC'' cpu KVM_GET_LAPIC h = Inr h1" "granted (Suc n) h [(cpu, KVM_GET_LAPIC)] h1"
    by blast
  obtain r where "set_lvt APIC_LVT0 APIC_MODE_EXTINT (kh_lapic h cpu) = Inr r"
    "set_lvt APIC_LVT1 APIC_MODE_NMI r = Inr (lvt_image (kh_lapic h cpu))"
    using set_lvts[OF assms(2)] by auto
  with granted_call[OF granted_willing[OF h1(2)], of "''KVM_SET_LAPIC''" cpu "KVM_SET_LAPIC (lvt_image (kh_lapic h cpu))"]
  show ?thesis
    using h1 granted_trans[OF h1(2)] by (fastforce simp: setup_lapic_def get_lapic_def set_lapic_def granted_def)
qed

lemma start_cpu_ok:
  assumes "willing (Suc (Suc (Suc (Suc n)))) h" "length (kh_lapic h cpu) = 1024"
  shows "\<exists>h'. start_cpu cpu h = Inr h' \<and> granted n h
    [(cpu, KVM_SET_MSRS boot_msrs), (cpu, KVM_SET_FPU setup_fpu), (cpu, KVM_GET_LAPIC),
     (cpu, KVM_SET_LAPIC (lvt_image (kh_lapic h cpu)))] h'"
proof -
  from granted_call[OF assms(1), of "''KVM_SET_MSRS''" cpu "KVM_SET_MSRS boot_msrs"] obtain h1 where
    h1: "setup_msrs cpu h = Inr h1" "granted (Suc (Suc (Suc n))) h [(cpu, KVM_SET_MSRS boot_msrs)] h1"
    by (auto simp: setup_msrs_def set_msrs_def)
  from granted_call[OF granted_willing[OF h1(2)], of "''KVM_SET_FPU''" cpu "KVM_SET_FPU setup_fpu"] obtain h2 where
    h2: "set_fpu cpu setup_fpu h1 = Inr h2" "granted (Suc (Suc n)) h1 [(cpu, KVM_SET_FPU setup_fpu)] h2"
    by (auto simp: set_fpu_def)
  have "length (kh_lapic h2 cpu) = 1024" using assms(2) h1(2) h2(2) by (simp add: granted_def)
  from setup_lapic_ok[OF granted_willing[OF h2(2)] this] h1 h2 show ?thesis
    by (auto simp: start_cpu_def granted_def)
qed

lemma cpu_list: "[0..<CPU_COUNT] = [0, 1]"
  by (simp add: CPU_COUNT_def upt_rec)

lemma get_vcpu_two: "vm_cpus v = [a, b] \<Longrightarrow> get_vcpu v 0 = Inr a \<and> get_vcpu v 1 = Inr b \<and> get_vcpu v (Suc 0) = Inr b"
  by (simp add: get_vcpu_def)

lemma start_cpus_ok:
  assumes "willing (8 + n) h" "vm_cpus v = [a, b]" "\<forall>cpu. length (kh_lapic h cpu) = 1024"
  shows "\<exists>h'. each_cpu start_cpu v [0..<CPU_COUNT] h = Inr h' \<and> granted n h
    [(a, KVM_SET_MSRS boot_msrs), (a, KVM_SET_FPU setup_fpu), (a, KVM_GET_LAPIC),
     (a, KVM_SET_LAPIC (lvt_image (kh_lapic h a))),
     (b, KVM_SET_MSRS boot_msrs), (b, KVM_SET_FPU setup_fpu), (b, KVM_GET_LAPIC),
     (b, KVM_SET_LAPIC (lvt_image (kh_lapic h b)))] h'"
proof -
  have w: "willing (Suc (Suc (Suc (Suc (4 + n))))) h" using assms(1) by (simp add: eval_nat_numeral)
  from start_cpu_ok[OF w] assms(3) obtain h1 where h1: "start_cpu a h = Inr h1" "granted (4 + n) h
    [(a, KVM_SET_MSRS boot_msrs), (a, KVM_SET_FPU setup_fpu), (a, KVM_GET_LAPIC),
     (a, KVM_SET_LAPIC (lvt_image (kh_lapic h a)))] h1" by blast
  have w1: "willing (Suc (Suc (Suc (Suc n)))) h1"
    using granted_willing[OF h1(2)] by (simp add: eval_nat_numeral)
  have "length (kh_lapic h1 b) = 1024" using assms(3) h1(2) by (simp add: granted_def)
  from start_cpu_ok[OF w1 this] h1 show ?thesis
    using get_vcpu_two[OF assms(2)] unfolding cpu_list by (auto simp: granted_def)
qed

lemma start_cpuid_ok:
  assumes "willing (3 + n) h" "vm_cpus v = [a, b]"
  shows "\<exists>h'. start_cpuid k v h = Inr h' \<and> granted n h
    [(kvm_fd k, KVM_GET_SUPPORTED_CPUID MAX_KVM_CPUID_ENTRIES),
     (a, KVM_SET_CPUID2 (filter_cpuid_copy (take 80 (kh_cpuid h)))),
     (b, KVM_SET_CPUID2 (filter_cpuid_copy (take 80 (kh_cpuid h))))] h'"
proof -
  let ?c = "filter_cpuid_copy (take 80 (kh_cpuid h))"
  have w: "willing (Suc (Suc (Suc n))) h" using assms(1) by (simp add: eval_nat_numeral)
  from granted_call[OF w, of "''KVM_GET_SUPPORTED_CPUID''" "kvm_fd k" "KVM_GET_SUPPORTED_CPUID MAX_KVM_CPUID_ENTRIES"]
  obtain h1 where h1: "get_supported_cpuid MAX_KVM_CPUID_ENTRIES k h = Inr (take 80 (kh_cpuid h), h1)"
    "granted (Suc (Suc n)) h [(kvm_fd k, KVM_GET_SUPPORTED_CPUID MAX_KVM_CPUID_ENTRIES)] h1"
    by (auto simp: get_supported_cpuid_def granted_def MAX_KVM_CPUID_ENTRIES_def)
  from granted_call[OF granted_willing[OF h1(2)], of "''KVM_SET_CPUID2''" a "KVM_SET_CPUID2 ?c"] obtain h2 where
    h2: "set_cpuid2 a ?c h1 = Inr h2" "granted (Suc n) h1 [(a, KVM_SET_CPUID2 ?c)] h2"
    by (auto simp: set_cpuid2_def)
  from granted_call[OF granted_willing[OF h2(2)], of "''KVM_SET_CPUID2''" b "KVM_SET_CPUID2 ?c"] obtain h3 where
    h3: "set_cpuid2 b ?c h2 = Inr h3" "granted n h2 [(b, KVM_SET_CPUID2 ?c)] h3"
    by (auto simp: set_cpuid2_def)
  show ?thesis
    using h1 h2 h3 get_vcpu_two[OF assms(2)] unfolding start_cpuid_def cpu_list by (auto simp: granted_def)
qed

lemma long_mode_ok:
  assumes "willing (Suc (Suc n)) h" "setup_tables m = Inr m'"
  shows "\<exists>h'. long_mode cpu m h = Inr (m', h') \<and>
    granted n h [(cpu, KVM_GET_SREGS), (cpu, KVM_SET_SREGS (setup_sregs (kh_sregs h cpu)))] h'"
proof -
  from granted_call[OF assms(1), of "''KVM_GET_SREGS''" cpu KVM_GET_SREGS] obtain h1 where
    h1: "get_sregs cpu h = Inr (kh_sregs h cpu, h1)" "granted (Suc n) h [(cpu, KVM_GET_SREGS)] h1"
    by (auto simp: get_sregs_def granted_def)
  from granted_call[OF granted_willing[OF h1(2)], of "''KVM_SET_SREGS''" cpu "KVM_SET_SREGS (setup_sregs (kh_sregs h cpu))"]
  show ?thesis using h1 assms(2) by (auto simp: long_mode_def set_sreg_def granted_def)
qed

lemma vm_new_step [host_steps]:
  "create_vm k h = Inr (fd, h') \<Longrightarrow> 0 \<le> fd \<Longrightarrow> host_moves g h \<Longrightarrow> host_moves g h'"
  "enable fd cap h = Inr h' \<Longrightarrow> host_moves g h \<Longrightarrow> host_moves g h'"
  "create_irq_chip fd h = Inr h' \<Longrightarrow> host_moves g h \<Longrightarrow> host_moves g h'"
  "create_pit fd h = Inr h' \<Longrightarrow> host_moves g h \<Longrightarrow> host_moves g h'"
  by (auto simp: create_vm_def enable_def create_irq_chip_def create_pit_def intro: ioctl_step host_steps)

lemma create_memory_step [host_steps]:
  "create_memory fd mmap mem h = Inr (m, h') \<Longrightarrow> host_moves g h \<Longrightarrow> host_moves g h'"
  by (auto simp: create_memory_def set_region_def Let_def split: option.splits if_splits elim!: host_steps)

lemma create_vcpu_step [host_steps]:
  "create_vcpu k fd i mapped h = Inr (cpu, h') \<Longrightarrow> host_moves g h \<Longrightarrow> host_moves g h'"
  by (auto simp: create_vcpu_def vcpu_mmap_size_def vcpu_new_def split: if_splits elim!: ioctl_step)

lemma create_vcpus_step [host_steps]:
  "create_vcpus k fd is mapped h = Inr (cpus, h') \<Longrightarrow> host_moves g h \<Longrightarrow> host_moves g h'"
proof (induction "is" arbitrary: h cpus)
  case (Cons i "is")
  from Cons.prems(1) obtain cpu h1 cpus1 where "create_vcpu k fd i (mapped i) h = Inr (cpu, h1)"
    "create_vcpus k fd is mapped h1 = Inr (cpus1, h')" by auto
  then show ?case using Cons.IH Cons.prems(2) by (blast intro: host_steps)
qed simp

lemma vmm_new_moves: "vmm_new fd mmap mapped h = Inr (k, v, h') \<Longrightarrow> host_moves h h'"
  by (auto simp: vmm_new_def vm_new_def split: if_splits elim!: host_steps)

lemma setup_steps [host_steps]:
  "setup_irq_routing junk fd h = Inr h' \<Longrightarrow> host_moves g h \<Longrightarrow> host_moves g h'"
  "start_cpu cpu h = Inr h' \<Longrightarrow> host_moves g h \<Longrightarrow> host_moves g h'"
  "long_mode cpu m h = Inr (m', h') \<Longrightarrow> host_moves g h \<Longrightarrow> host_moves g h'"
  by (auto simp: setup_irq_routing_def set_gsi_routing_def start_cpu_def setup_msrs_def setup_lapic_def
      long_mode_def elim!: host_steps)

lemma each_cpu_step:
  assumes "\<And>cpu h h' g. f cpu h = Inr h' \<Longrightarrow> host_moves g h \<Longrightarrow> host_moves g h'"
  shows "each_cpu f v is h = Inr h' \<Longrightarrow> host_moves g h \<Longrightarrow> host_moves g h'"
proof (induction "is" arbitrary: h)
  case (Cons i "is")
  from Cons.prems(1) obtain cpu h1 where "f cpu h = Inr h1" "each_cpu f v is h1 = Inr h'" by auto
  then show ?case using Cons.IH Cons.prems(2) by (blast intro: assms)
qed simp

lemma each_cpu_steps [host_steps]:
  "each_cpu start_cpu v is h = Inr h' \<Longrightarrow> host_moves g h \<Longrightarrow> host_moves g h'"
  "each_cpu (\<lambda>cpu. set_cpuid2 cpu c) v is h = Inr h' \<Longrightarrow> host_moves g h \<Longrightarrow> host_moves g h'"
  by (erule (1) each_cpu_step[rotated], erule (1) host_steps)+

lemma start_cpuid_step [host_steps]:
  "start_cpuid k v h = Inr h' \<Longrightarrow> host_moves g h \<Longrightarrow> host_moves g h'"
  by (auto simp: start_cpuid_def elim!: host_steps)

lemma add_device_steps [host_steps]:
  "add_io_device ok a w n d v h = Inr (v', h') \<Longrightarrow> host_moves g h \<Longrightarrow> host_moves g h'"
  "add_mmio_device ok a w n e v h = Inr (v', h') \<Longrightarrow> host_moves g h \<Longrightarrow> host_moves g h'"
  by (auto simp: add_io_device_def add_mmio_device_def register_irq_def Let_def split: option.splits elim!: host_steps)

lemma start_devices_step [host_steps]:
  "start_devices env v h = Inr (v', h') \<Longrightarrow> host_moves g h \<Longrightarrow> host_moves g h'"
  by (auto simp: start_devices_def Let_def elim!: host_steps)

lemma start_setup_moves: "start_setup env k v h = Inr (v', h') \<Longrightarrow> host_moves h h'"
  by (auto simp: start_setup_def elim!: host_steps)

section \<open>The machine the guest starts on\<close>

definition fresh_machine :: "int \<Rightarrow> int \<Rightarrow> machine \<Rightarrow> bool" where
  "fresh_machine a b v \<longleftrightarrow>
     vm_cpus v = [a, b] \<and> vm_interrupts v = replicate 32 None \<and> vm_io_devices v = [] \<and> vm_mmio v = [] \<and>
     vm_should_run v \<and> gm_size (vm_memory v) = mapping_size (push_bit MB_SHIFT MEMORY_SIZE_MB)"

lemma memory_size: "mapping_size (push_bit MB_SHIFT MEMORY_SIZE_MB) = 0x130000000"
  by (simp add: mapping_size_def gap_values MB_SHIFT_def MEMORY_SIZE_MB_def)

definition boot_calls :: "u8 list \<Rightarrow> int \<Rightarrow> int \<Rightarrow> kvm_host \<Rightarrow> (int \<times> kvm_call) set" where
  "boot_calls vmlinux a b h =
     {(a, KVM_SET_REGS (setup_regs (e_entry (ehdr_of vmlinux)) BOOT_STACK_POINTER ZERO_PAGE_START)),
      (a, KVM_SET_SREGS (setup_sregs (kh_sregs h a)))} \<union>
     {(cpu, call). cpu \<in> {a, b} \<and> call \<in> {KVM_SET_CPUID2 (filter_cpuid_copy (take 80 (kh_cpuid h))),
        KVM_SET_MSRS boot_msrs, KVM_SET_FPU setup_fpu, KVM_SET_LAPIC (lvt_image (kh_lapic h cpu))}}"

lemma start_setup_ok:
  assumes "willing 21 h" "env_ok env" "fresh_machine a b v" "\<forall>cpu. length (kh_lapic h cpu) = 1024"
    and "be_kernel env = Some vmlinux" "kernel_ok vmlinux (vm_memory v)"
  shows "\<exists>m h'. start_setup env k v h =
      Inr (v\<lparr>vm_memory := m, vm_io_devices := pc_ports env, vm_interrupts := pc_lines, vm_mmio := pc_bus env\<rparr>, h') \<and>
    gm_size m = gm_size (vm_memory v) \<and> boot_image vmlinux m \<and> boot_calls vmlinux a b h \<subseteq> set (kh_log h') \<and>
    kh_runs h' = kh_runs h"
proof -
  have cpus: "vm_cpus v = [a, b]" and v: "vm_interrupts v = replicate 32 None" "vm_io_devices v = []" "vm_mmio v = []"
    and sz: "0xa0000 \<le> gm_size (vm_memory v)"
    using assms(3) by (simp_all add: fresh_machine_def memory_size)
  let ?c = "filter_cpuid_copy (take 80 (kh_cpuid h))"
  let ?e = "e_entry (ehdr_of vmlinux)"
  from boot_image_ok[OF assms(6) sz] obtain m1 m2 m3 m4 where m: "elf_load (Some vmlinux) (vm_memory v) = Inr (?e, m1)"
    "setup_tables m1 = Inr m2" "setup_bootparams cmdline_bytes m2 = Inr m3"
    "setup_mptable (of_nat CPU_COUNT) m3 = Inr m4" "gm_size m4 = gm_size (vm_memory v)" "boot_image vmlinux m4"
    by blast
  have w: "willing (3 + 18) h" using assms(1) by simp
  from start_cpuid_ok[OF w cpus, of k] obtain h1 where h1: "start_cpuid k v h = Inr h1" "granted 18 h
    [(kvm_fd k, KVM_GET_SUPPORTED_CPUID MAX_KVM_CPUID_ENTRIES), (a, KVM_SET_CPUID2 ?c), (b, KVM_SET_CPUID2 ?c)] h1"
    by blast
  have w1: "willing (Suc 17) h1" using granted_willing[OF h1(2)] by simp
  from granted_call[OF w1, of "''KVM_SET_GSI_ROUTING''" "vm_fd v" "KVM_SET_GSI_ROUTING (routing_entries (be_routing env))"]
  obtain h2 where h2: "setup_irq_routing (be_routing env) (vm_fd v) h1 = Inr h2"
    "granted 17 h1 [(vm_fd v, KVM_SET_GSI_ROUTING (routing_entries (be_routing env)))] h2"
    by (auto simp: setup_irq_routing_def set_gsi_routing_def)
  have w2: "willing (8 + 9) h2" using granted_willing[OF h2(2)] by simp
  have lapic: "kh_lapic h2 = kh_lapic h" using h1(2) h2(2) by (simp add: granted_def)
  from start_cpus_ok[OF w2 cpus] assms(4) lapic obtain h3 cs where h3: "each_cpu start_cpu v [0..<CPU_COUNT] h2 = Inr h3"
    "granted 9 h2 [(a, KVM_SET_MSRS boot_msrs), (a, KVM_SET_FPU setup_fpu), (a, KVM_GET_LAPIC),
     (a, KVM_SET_LAPIC (lvt_image (kh_lapic h a))), (b, KVM_SET_MSRS boot_msrs), (b, KVM_SET_FPU setup_fpu),
     (b, KVM_GET_LAPIC), (b, KVM_SET_LAPIC (lvt_image (kh_lapic h b)))] h3" by auto
  have w3: "willing (Suc 8) h3" using granted_willing[OF h3(2)] by simp
  let ?regs = "setup_regs ?e BOOT_STACK_POINTER ZERO_PAGE_START"
  from granted_call[OF w3, of "''KVM_SET_REGS''" a "KVM_SET_REGS ?regs"] obtain h4 where
    h4: "set_regs a ?regs h3 = Inr h4" "granted 8 h3 [(a, KVM_SET_REGS ?regs)] h4" by (auto simp: set_regs_def)
  have w4: "willing (Suc (Suc 6)) h4" using granted_willing[OF h4(2)] by (simp add: eval_nat_numeral)
  have sregs: "kh_sregs h4 = kh_sregs h" using h1(2) h2(2) h3(2) h4(2) by (simp add: granted_def)
  from long_mode_ok[OF w4 m(2), of a] obtain h5 where h5: "long_mode a m1 h4 = Inr (m2, h5)"
    "granted 6 h4 [(a, KVM_GET_SREGS), (a, KVM_SET_SREGS (setup_sregs (kh_sregs h a)))] h5"
    unfolding sregs by blast
  from start_devices_ok[OF granted_willing[OF h5(2)] assms(2), of "v\<lparr>vm_memory := m4\<rparr>"] v obtain h6 where
    h6: "start_devices env (v\<lparr>vm_memory := m4\<rparr>) h5 =
      Inr (v\<lparr>vm_memory := m4, vm_io_devices := pc_ports env, vm_interrupts := pc_lines, vm_mmio := pc_bus env\<rparr>, h6)"
    by auto
  have "boot_calls vmlinux a b h \<subseteq> set (kh_log h5)"
    using h1(2) h2(2) h3(2) h4(2) h5(2) by (auto simp: boot_calls_def granted_def)
  then have "boot_calls vmlinux a b h \<subseteq> set (kh_log h6)"
    using host_moves_log[OF start_devices_step[OF h6 host_moves_refl]] by blast
  moreover have "kh_runs h6 = kh_runs h"
    using h1(2) h2(2) h3(2) h4(2) h5(2) start_devices_step[OF h6 host_moves_refl] by (simp add: granted_def host_moves_def)
  moreover have "start_setup env k v h =
      Inr (v\<lparr>vm_memory := m4, vm_io_devices := pc_ports env, vm_interrupts := pc_lines, vm_mmio := pc_bus env\<rparr>, h6)"
    using get_vcpu_two[OF cpus] by (simp add: start_setup_def assms(5) m h1(1) h2(1) h3(1) h4(1) h5(1) h6)
  ultimately show ?thesis using m(5,6) by blast
qed

text \<open>Construction: the answers a kernel gives when everything can be created.\<close>

definition creates :: "int \<Rightarrow> int \<Rightarrow> int \<Rightarrow> kvm_host \<Rightarrow> (int \<times> int) list \<Rightarrow> bool" where
  "creates f a b h rest \<longleftrightarrow>
     (\<exists>e r1 r2 r3 r4 r5 r6 s1 s2. kh_answers h = [(KVM_API_VERSION, e), (f, e), (r1, e), (r2, e), (r3, e), (r4, e),
        (r5, e), (r6, e), (s1, e), (a, e), (s2, e), (b, e)] @ rest \<and>
        0 \<le> f \<and> 0 \<le> r1 \<and> 0 \<le> r2 \<and> 0 \<le> r3 \<and> 0 \<le> r4 \<and> 0 \<le> r5 \<and> 0 \<le> r6 \<and> 0 < s1 \<and> 0 \<le> a \<and> 0 < s2 \<and> 0 \<le> b)"

lemma ioctl_answer:
  "kh_answers h = (r, e) # as \<Longrightarrow> ioctl fd call h = Inr (r, e, h\<lparr>kh_answers := as, kh_log := kh_log h @ [(fd, call)]\<rparr>)"
  by (simp add: ioctl_def)

lemma gap_start_not_above: "\<not> (0x130000000 :: u64) < KVM_32BIT_GAP_START" "KVM_32BIT_GAP_START \<le> (0x100000000 :: u64)"
  by (simp_all add: gap_values)

lemma vmm_new_ok:
  assumes "creates f a b h rest" "0 \<le> fd"
  shows "\<exists>k v h'. vmm_new fd (Some host_addr) (\<lambda>_. True) h = Inr (k, v, h') \<and> fresh_machine a b v \<and>
    vm_memory v = \<lparr>gm_size = 0x130000000, gm_byte = (\<lambda>_. 0)\<rparr> \<and> kh_answers h' = rest \<and> kh_cpuid h' = kh_cpuid h \<and> kh_lapic h' = kh_lapic h \<and>
    kh_sregs h' = kh_sregs h \<and> kh_runs h' = kh_runs h"
proof -
  have mem: "push_bit MB_SHIFT MEMORY_SIZE_MB = 0x100000000"
    by (simp add: MB_SHIFT_def MEMORY_SIZE_MB_def)
  have map: "mapping_size 0x100000000 = 0x130000000" using memory_size by (simp add: mem)
  obtain e r1 r2 r3 r4 r5 r6 s1 s2 where h: "kh_answers h = [(12, e), (f, e), (r1, e), (r2, e), (r3, e), (r4, e),
        (r5, e), (r6, e), (s1, e), (a, e), (s2, e), (b, e)] @ rest"
    and pos: "0 \<le> f" "0 \<le> r1" "0 \<le> r2" "0 \<le> r3" "0 \<le> r4" "0 \<le> r5" "0 \<le> r6" "0 < s1" "0 \<le> a" "0 < s2" "0 \<le> b"
    using assms(1) by (auto simp: creates_def KVM_API_VERSION_def)
  show ?thesis
    unfolding vmm_new_def mem
    using h pos assms(2)
    by (simp add: kvm_new_def api_version_def ioctl_answer KVM_API_VERSION_def vm_new_def create_vm_def enable_def
        ioctl_check_def create_memory_def Let_def map set_region_def gap_start_not_above create_irq_chip_def
        create_pit_def cpu_list create_vcpu_def vcpu_mmap_size_def vcpu_new_def fresh_machine_def mem)
qed

text \<open>Every line that exists carries the number of its place.\<close>

definition lines_numbered :: "interrupt option list \<Rightarrow> bool" where
  "lines_numbered irqs \<longleftrightarrow> (\<forall>n < length irqs. \<forall>irq. irqs ! n = Some irq \<longrightarrow> unat (irq_number irq) = n)"

lemma lines_numbered_add:
  assumes "lines_numbered irqs"
  shows "lines_numbered (irqs[unat k := Some (interrupt_new k ok)])"
  unfolding lines_numbered_def
proof (intro allI impI)
  fix n irq assume n: "n < length (irqs[unat k := Some (interrupt_new k ok)])"
    "irqs[unat k := Some (interrupt_new k ok)] ! n = Some irq"
  then show "unat (irq_number irq) = n"
    using assms by (cases "n = unat k") (auto simp: lines_numbered_def)
qed

lemma register_irq_number:
  assumes "register_irq ok k v h = Inr (irq, v', h')"
  shows "lines_numbered (vm_interrupts v) \<longrightarrow> irq_number irq = k \<and> lines_numbered (vm_interrupts v')"
    and "vm_mmio v' = vm_mmio v"
proof -
  have k: "unat k < length (vm_interrupts v)"
    using assms by (auto simp: register_irq_def arr_get_eq_Inr)
  have "(lines_numbered (vm_interrupts v) \<longrightarrow> irq_number irq = k \<and> lines_numbered (vm_interrupts v')) \<and>
      vm_mmio v' = vm_mmio v"
  proof (cases "vm_interrupts v ! unat k")
    case (Some i)
    then have "irq = i" "v' = v" using assms k by (auto simp: register_irq_def)
    then show ?thesis using k Some by (auto simp: lines_numbered_def word_unat_eq_iff)
  next
    case None
    then have "irq = interrupt_new k ok" "v' = v\<lparr>vm_interrupts := (vm_interrupts v)[unat k := Some irq]\<rparr>"
      using assms k by (auto simp: register_irq_def Let_def)
    then show ?thesis by (simp add: lines_numbered_add)
  qed
  then show "lines_numbered (vm_interrupts v) \<longrightarrow> irq_number irq = k \<and> lines_numbered (vm_interrupts v')"
    "vm_mmio v' = vm_mmio v" by simp_all
qed

definition announced :: "machine \<Rightarrow> string list \<Rightarrow> bool" where
  "announced v ps \<longleftrightarrow> lines_numbered (vm_interrupts v) \<and> map device_param (vm_mmio v) = ps"

lemma announced_io:
  assumes "and_then (add_io_device ok a w k d v h) f = Inr r" "announced v ps"
  obtains v' h' where "f (v', h') = Inr r" "announced v' ps"
proof -
  from assms(1) obtain irq v1 h1 where "register_irq ok k v h = Inr (irq, v1, h1)"
    "f (v1\<lparr>vm_io_devices := vm_io_devices v1 @
       [\<lparr>ps_window = \<lparr>io_addr = a, io_width = w\<rparr>, ps_irq = unat k, ps_dev = d\<rparr>]\<rparr>, h1) = Inr r"
    by (auto simp: add_io_device_def)
  then show ?thesis
    using assms(2) register_irq_number[of ok k v h irq v1 h1] by (elim that) (auto simp: announced_def)
qed

lemma announced_mmio:
  assumes "and_then (add_mmio_device ok a w k d v h) f = Inr r" "announced v ps"
  obtains v' h' where "f (v', h') = Inr r"
    "announced v' (ps @ [''virtio_mmio.device='' @ hex64 w @ ''@'' @ hex64 a @ '':'' @ dec k])"
proof -
  from assms(1) obtain irq v1 h1 dev where "register_irq ok k v h = Inr (irq, v1, h1)"
    "f (v1\<lparr>vm_mmio := vm_mmio v1 @
       [\<lparr>ms_window = \<lparr>io_addr = a, io_width = w\<rparr>, ms_state = (dev, irq)\<rparr>]\<rparr>, h1) = Inr r"
    by (auto simp: add_mmio_device_def)
  then show ?thesis
    using assms(2) register_irq_number[of ok k v h irq v1 h1]
    by (elim that) (auto simp: announced_def device_param_def)
qed

lemma start_devices_params:
  assumes "start_devices env v h = Inr (v', h')" "announced v []"
  shows "map device_param (vm_mmio v') = mmio_words cmdline"
proof -
  have "announced v' [''virtio_mmio.device='' @ hex64 0x1000 @ ''@'' @ hex64 0xd0000000 @ '':'' @ dec 12,
      ''virtio_mmio.device='' @ hex64 0x1000 @ ''@'' @ hex64 0xd0001000 @ '':'' @ dec 13,
      ''virtio_mmio.device='' @ hex64 0x1000 @ ''@'' @ hex64 0xd0002000 @ '':'' @ dec 14]"
    apply (rule announced_io[OF assms(1)[unfolded start_devices_def Let_def] assms(2)])
    apply (simp only: prod.case)
    apply (erule announced_io, assumption, simp only: prod.case)+
    apply (erule announced_mmio, assumption, simp only: prod.case append.simps)+
    apply auto
    done
  then show ?thesis by (simp add: announced_def printed_numbers cmdline_words)
qed

lemma start_setup_devices:
  "start_setup env k v h = Inr (v', h') \<Longrightarrow>
   \<exists>m h1. start_devices env (v\<lparr>vm_memory := m\<rparr>) h1 = Inr (v', h')"
  by (auto simp: start_setup_def)

section \<open>Properties\<close>

text \<open>C1: From nothing to the guest's first instruction. On a kernel that creates what it is asked for and
  grants every call, the constructor and the set-up part of \<^verbatim>\<open>start\<close> succeed, and the machine
  is complete: the five port devices and three virtio devices stand in their windows on their
  lines; the kernel's segments, page tables mapping the first gigabyte onto itself, the memory map
  of the memory slots, the command line and the MP table are in memory together, none overwritten
  by a later step; both processors have the filtered CPUID table, MSRs, FPU state and local APIC
  pins, and the first one starts at the kernel's entry with the boot parameters in RSI.\<close>

theorem guest_start_state:
  assumes "creates f a b h rest" "0 \<le> fd" "21 \<le> length rest" "\<forall>r \<in> set rest. 0 \<le> fst r"
    and "env_ok env" "\<forall>cpu. length (kh_lapic h cpu) = 1024"
    and "be_kernel env = Some vmlinux" "kernel_ok vmlinux \<lparr>gm_size = 0x130000000, gm_byte = (\<lambda>_. 0)\<rparr>"
  shows "\<exists>k v h1 v' h'. vmm_new fd (Some host_addr) (\<lambda>_. True) h = Inr (k, v, h1) \<and>
    start_setup env k v h1 = Inr (v', h') \<and>
    vm_io_devices v' = pc_ports env \<and> vm_mmio v' = pc_bus env \<and> vm_interrupts v' = pc_lines \<and>
    vm_cpus v' = [a, b] \<and> vm_should_run v' \<and>
    gm_size (vm_memory v') = 0x130000000 \<and> boot_image vmlinux (vm_memory v') \<and>
    boot_calls vmlinux a b h \<subseteq> set (kh_log h')"
proof -
  obtain k v h1 where new: "vmm_new fd (Some host_addr) (\<lambda>_. True) h = Inr (k, v, h1)" "fresh_machine a b v"
    "vm_memory v = \<lparr>gm_size = 0x130000000, gm_byte = (\<lambda>_. 0)\<rparr>" "kh_answers h1 = rest"
    "kh_cpuid h1 = kh_cpuid h" "kh_lapic h1 = kh_lapic h" "kh_sregs h1 = kh_sregs h"
    using vmm_new_ok[OF assms(1,2)] by blast
  have w: "willing 21 h1"
    using assms(3,4) new(4) by (auto simp: willing_def dest: in_set_takeD)
  have lapic: "\<forall>cpu. length (kh_lapic h1 cpu) = 1024" using assms(6) new(6) by simp
  have calls: "boot_calls vmlinux a b h1 = boot_calls vmlinux a b h"
    by (simp add: boot_calls_def new(5-7))
  show ?thesis
    using start_setup_ok[OF w assms(5) new(2) lapic assms(7), unfolded new(3), OF assms(8), of k] new(1,2)
    unfolding calls fresh_machine_def by fastforce
qed

lemma bit_single: "k < 64 \<Longrightarrow> bit (push_bit k (1 :: u64)) n = (n = k)"
  by (auto simp: bit_exp_iff)

lemma boot_control_bits:
  "bit (sr_cr0 (setup_sregs s)) n = (n \<in> {0, 1, 4, 5, 16, 18, 31})"
  "bit (sr_cr4 (setup_sregs s)) n = (n \<in> {5, 9, 10})"
  "bit (sr_efer (setup_sregs s)) n = (n \<in> {0, 8, 10})"
proof -
  have "sr_cr0 (setup_sregs s) = CR0_PE OR CR0_MP OR CR0_ET OR CR0_NE OR CR0_WP OR CR0_AM OR CR0_PG"
    "sr_cr4 (setup_sregs s) = CR4_PAE OR CR4_OSFXSR OR CR4_OSXMMEXCPT"
    "sr_efer (setup_sregs s) = EFER_LME OR EFER_LMA OR EFER_SCE"
    by (simp_all add: setup_sregs_def Let_def)
  moreover have one: "bit (1 :: u64) n = (n = 0)" "bit (push_bit 1 1 :: u64) n = (n = 1)"
    "bit (push_bit 4 1 :: u64) n = (n = 4)" "bit (push_bit 5 1 :: u64) n = (n = 5)"
    "bit (push_bit 8 1 :: u64) n = (n = 8)" "bit (push_bit 9 1 :: u64) n = (n = 9)"
    "bit (push_bit 10 1 :: u64) n = (n = 10)" "bit (push_bit 16 1 :: u64) n = (n = 16)"
    "bit (push_bit 18 1 :: u64) n = (n = 18)" "bit (push_bit 31 1 :: u64) n = (n = 31)"
    by (simp add: bit_1_iff, (rule bit_single, simp)+)
  ultimately show "bit (sr_cr0 (setup_sregs s)) n = (n \<in> {0, 1, 4, 5, 16, 18, 31})"
    "bit (sr_cr4 (setup_sregs s)) n = (n \<in> {5, 9, 10})"
    "bit (sr_efer (setup_sregs s)) n = (n \<in> {0, 8, 10})"
    by (simp_all only: cpu_bits bit_or_iff one insert_iff empty_iff simp_thms disj_assoc) blast
qed

text \<open>C33: The boot processor enters 64-bit mode. On a host that grants the two calls, the registers handed
  to the kernel have exactly the intended control bits (protection, paging and write protection in
  CR0, PAE and SSE in CR4, long mode enabled and active in EFER); CR3 leads to tables in which every
  address of the first gigabyte is present, writable and mapped to itself; the code segment is a flat
  64-bit ring-0 segment, the five data segments are flat and writable, TR is a busy TSS; the limits of
  the descriptor tables are those of four descriptors and of one (their contents do not reach memory,
  see \<open>boot_gdt_not_copied\<close>); and the registers that have no part in this are as the kernel reported
  them.\<close>

theorem processor_enters_long_mode:
  assumes "willing 2 h" "0xc000 \<le> gm_size m"
  shows "\<exists>m' h' s. long_mode cpu m h = Inr (m', h') \<and>
    kh_log h' = kh_log h @ [(cpu, KVM_GET_SREGS), (cpu, KVM_SET_SREGS s)] \<and>
    (\<forall>n. bit (sr_cr0 s) n = (n \<in> {0, 1, 4, 5, 16, 18, 31})) \<and>
    (\<forall>n. bit (sr_cr4 s) n = (n \<in> {5, 9, 10})) \<and> (\<forall>n. bit (sr_efer s) n = (n \<in> {0, 8, 10})) \<and>
    (\<forall>va < 0x40000000. page_walk m' (sr_cr3 s) va = Some va) \<and>
    sr_cs s = \<lparr>seg_base = 0, seg_limit = 0xfffff, seg_selector = 8, seg_type = 11, seg_present = 1, seg_dpl = 0,
      seg_db = 0, seg_s = 1, seg_l = 1, seg_g = 1, seg_avl = 0, seg_unusable = 0, seg_padding = 0\<rparr> \<and>
    (\<forall>seg \<in> {sr_ds s, sr_es s, sr_fs s, sr_gs s, sr_ss s}. seg =
      \<lparr>seg_base = 0, seg_limit = 0xfffff, seg_selector = 16, seg_type = 3, seg_present = 1, seg_dpl = 0,
       seg_db = 1, seg_s = 1, seg_l = 0, seg_g = 1, seg_avl = 0, seg_unusable = 0, seg_padding = 0\<rparr>) \<and>
    sr_tr s = \<lparr>seg_base = 0, seg_limit = 0xfffff, seg_selector = 24, seg_type = 11, seg_present = 1, seg_dpl = 0,
      seg_db = 0, seg_s = 0, seg_l = 0, seg_g = 1, seg_avl = 0, seg_unusable = 0, seg_padding = 0\<rparr> \<and>
    sr_gdt s = \<lparr>dt_base = 0x500, dt_limit = 4 * 8 - 1\<rparr> \<and> sr_idt s = \<lparr>dt_base = 0x520, dt_limit = 8 - 1\<rparr> \<and>
    (let r = kh_sregs h cpu in sr_ldt s = sr_ldt r \<and> sr_cr2 s = sr_cr2 r \<and> sr_cr8 s = sr_cr8 r \<and>
       sr_apic_base s = sr_apic_base r \<and> sr_interrupt_bitmap s = sr_interrupt_bitmap r)"
proof -
  let ?h1 = "h\<lparr>kh_answers := tl (kh_answers h), kh_log := kh_log h @ [(cpu, KVM_GET_SREGS)]\<rparr>"
  let ?s = "setup_sregs (kh_sregs h cpu)"
  obtain m' where m': "setup_tables m = Inr m'" "\<forall>va < 0x40000000. page_walk m' PML4_START va = Some va"
    using setup_tables_ok[OF assms(2)] page_walk_identity[OF identity_tables_written] by blast
  note calls = ioctl_check_ok(1)[of 1 h "''KVM_GET_SREGS''" cpu KVM_GET_SREGS] ioctl_check_ok(2)[of 1 h cpu KVM_GET_SREGS]
    ioctl_check_ok(1)[of 0 ?h1 "''KVM_SET_SREGS''" cpu "KVM_SET_SREGS ?s"]
  obtain h' where "long_mode cpu m h = Inr (m', h')"
    "kh_log h' = kh_log h @ [(cpu, KVM_GET_SREGS), (cpu, KVM_SET_SREGS ?s)]"
    using calls assms(1) m'(1) by (simp add: long_mode_def get_sregs_def set_sreg_def numeral_2_eq_2)
  moreover have "\<forall>n. bit (sr_cr0 ?s) n = (n \<in> {0, 1, 4, 5, 16, 18, 31})" "\<forall>n. bit (sr_cr4 ?s) n = (n \<in> {5, 9, 10})"
    "\<forall>n. bit (sr_efer ?s) n = (n \<in> {0, 8, 10})"
    using boot_control_bits by blast+
  moreover have "sr_cr3 ?s = PML4_START" "sr_gdt ?s = \<lparr>dt_base = 0x500, dt_limit = 4 * 8 - 1\<rparr>"
    "sr_idt ?s = \<lparr>dt_base = 0x520, dt_limit = 8 - 1\<rparr>"
    by (simp_all add: setup_sregs_def Let_def layout_defs table_def)
  ultimately show ?thesis
    using m'(2)
    by (intro exI[of _ m'] exI[of _ h'] exI[of _ ?s] conjI)
       (simp_all add: setup_sregs_def Let_def boot_segments[unfolded CODE_ENTRY_def DATA_ENTRY_def TSS_ENTRY_def One_nat_def])
qed

theorem processor_enters_long_mode_witness:
  "\<exists>m' h' s. long_mode 7 (empty_mem 0x100000) (host_ok 2) = Inr (m', h') \<and>
    kh_log h' = [(7, KVM_GET_SREGS), (7, KVM_SET_SREGS s)] \<and> bit (sr_cr0 s) 31 \<and>
    page_walk m' (sr_cr3 s) 0x1234567 = Some 0x1234567"
  using processor_enters_long_mode[of "host_ok 2" "empty_mem 0x100000" 7] by (fastforce simp: empty_mem_def)

text \<open>C34: The command line and the machine agree: whatever the host answers, if \<^verbatim>\<open>start\<close> gets past its
  set-up, the \<^verbatim>\<open>virtio_mmio.device\<close> words of the command line are exactly the devices on the
  bus, in order, each with the size and address of its window and the number of its line.\<close>

theorem cmdline_announces_devices:
  assumes "start_setup env k v h = Inr (v', h')"
    and "vm_mmio v = []" "vm_interrupts v = replicate 32 None"
  shows "map device_param (vm_mmio v') = mmio_words cmdline"
proof -
  obtain m h1 where s: "start_devices env (v\<lparr>vm_memory := m\<rparr>) h1 = Inr (v', h')"
    using start_setup_devices[OF assms(1)] by blast
  have "announced (v\<lparr>vm_memory := m\<rparr>) []"
    using assms(2,3) by (simp add: announced_def lines_numbered_def)
  from start_devices_params[OF s this] show ?thesis .
qed

definition demo_env :: boot_env where
  "demo_env = \<lparr>be_kernel = Some (demo_elf 4 4), be_disk = Some [], be_eventfd = (\<lambda>_. True), be_term = demo_terminal 2,
     be_tap = \<lparr>tap_polls = [], tap_reads = [], tap_writes = [], tap_sent = []\<rparr>, be_tap_setup = (9, 0, 0, 0, 0),
     be_random = Some [], be_kbd = replicate 16 0, be_uart = (\<lambda>_. (replicate 64 0, replicate 64 0, \<lambda>_. 0)),
     be_blk = [], be_net = [], be_routing = (\<lambda>_ _. 0)\<rparr>"

definition demo_host :: kvm_host where
  "demo_host = (host_ok 0)\<lparr>kh_answers := [(12, 0), (5, 0), (0, 0), (0, 0), (0, 0), (0, 0), (0, 0), (0, 0),
     (4096, 0), (7, 0), (4096, 0), (8, 0)] @ replicate 21 (0, 0)\<rparr>"

lemma demo_facts:
  "env_ok demo_env" "creates 5 7 8 demo_host (replicate 21 (0, 0))" "length (kh_lapic demo_host cpu) = 1024"
  "kernel_ok (demo_elf 4 4) \<lparr>gm_size = 0x130000000, gm_byte = (\<lambda>_. 0)\<rparr>" "be_kernel demo_env = Some (demo_elf 4 4)"
proof -
  show "env_ok demo_env" by (simp add: env_ok_def demo_env_def demo_terminal_def)
  show "creates 5 7 8 demo_host (replicate 21 (0, 0))"
    unfolding creates_def demo_host_def by (simp add: KVM_API_VERSION_def)
  show "length (kh_lapic demo_host cpu) = 1024" by (simp add: demo_host_def host_ok_def)
  show "kernel_ok (demo_elf 4 4) \<lparr>gm_size = 0x130000000, gm_byte = (\<lambda>_. 0)\<rparr>"
    using demo_elf_ok[of 4 4]
    by (simp add: kernel_ok_def demo_elf_phdrs loads_def PT_LOAD_def segment_ok_def in_mem_def demo_elf_data HIMEM_START_def)
qed (simp add: demo_env_def)

theorem guest_start_state_witness:
  "\<exists>k v h1 v' h'. vmm_new 3 (Some 0x7f0000000000) (\<lambda>_. True) demo_host = Inr (k, v, h1) \<and>
    start_setup demo_env k v h1 = Inr (v', h') \<and> length (vm_io_devices v') = 5 \<and> length (vm_mmio v') = 3 \<and>
    boot_image (demo_elf 4 4) (vm_memory v') \<and>
    (7, KVM_SET_REGS (setup_regs 0x1000000 BOOT_STACK_POINTER ZERO_PAGE_START)) \<in> set (kh_log h')"
proof -
  have 1: "21 \<le> length (replicate 21 (0 :: int, 0 :: int))" "\<forall>r \<in> set (replicate 21 (0 :: int, 0 :: int)). 0 \<le> fst r"
    "(0 :: int) \<le> 3" "\<forall>cpu. length (kh_lapic demo_host cpu) = 1024"
    using demo_facts(3) by simp_all
  have entry: "e_entry (ehdr_of (demo_elf 4 4)) = 0x1000000" by (simp add: demo_elf_header)
  from guest_start_state[OF demo_facts(2) 1(3,1,2) demo_facts(1) 1(4) demo_facts(5,4)] show ?thesis
    by (fastforce simp: pc_ports_def pc_bus_def boot_calls_def entry)
qed

definition demo_fresh :: machine where
  "demo_fresh = \<lparr>vm_fd = 5, vm_memory = \<lparr>gm_size = 0x130000000, gm_byte = (\<lambda>_. 0)\<rparr>, vm_should_run = True,
     vm_interrupts = replicate 32 None, vm_cpus = [7, 8], vm_io_devices = [], vm_mmio = [], vm_messages = []\<rparr>"

theorem cmdline_announces_devices_witness:
  "\<exists>v' h'. start_setup demo_env \<lparr>kvm_fd = 3, kvm_version = 12\<rparr> demo_fresh (host_ok 21) = Inr (v', h') \<and>
     map device_param (vm_mmio v') = [''virtio_mmio.device=0x1000@0xd0000000:12'',
       ''virtio_mmio.device=0x1000@0xd0001000:13'', ''virtio_mmio.device=0x1000@0xd0002000:14'']"
proof -
  have f: "fresh_machine 7 8 demo_fresh" by (simp add: fresh_machine_def demo_fresh_def memory_size)
  have m: "kernel_ok (demo_elf 4 4) (vm_memory demo_fresh)" using demo_facts(4) by (simp add: demo_fresh_def)
  have l: "\<forall>cpu. length (kh_lapic (host_ok 21) cpu) = 1024" by simp
  obtain v' h' where s: "start_setup demo_env \<lparr>kvm_fd = 3, kvm_version = 12\<rparr> demo_fresh (host_ok 21) = Inr (v', h')"
    using start_setup_ok[OF host_ok_willing demo_facts(1) f l demo_facts(5) m] by blast
  from cmdline_announces_devices[OF s] s show ?thesis
    by (auto simp: cmdline_words demo_fresh_def)
qed

end
