(* ===== verification/Vmm_Threads.thy ===== *)
theory Vmm_Threads
  imports Vmm Machine_Shape
begin

text \<open>
  \<^verbatim>\<open>src/kvm/vmm.h\<close>, the running monitor: one thread per processor, the reader of the
  terminal, the threads of the disk and network devices, and the thread of \<^verbatim>\<open>start\<close> that
  joins them. \<open>vmm_step\<close> interleaves them; a step is an exit with its handling, a round of a device
  thread, or a system call of the reader with what it does to the console.
\<close>

section \<open>The threads\<close>

text \<open>
  Where each thread stands: a processor before the test of \<^verbatim>\<open>should_run\<close>, inside the guest, or
  returned from \<^verbatim>\<open>run_cpu\<close> with a value; the reader of the terminal before the test of
  \<^verbatim>\<open>run_terminal\<close>, inside \<^verbatim>\<open>poll\<close>, or returned; the thread of \<^verbatim>\<open>start\<close> at its first join,
  at the joins of the other processors, at the join of the reader, or returned.
\<close>

datatype cpu_pc = Cpu_top | Cpu_in_guest | Cpu_done int
datatype reader_pc = Reader_top | Reader_poll | Reader_done
datatype main_pc = Join_first | Join_rest | Join_reader | Returned

record vmm_run =
  rn_machine :: machine
  rn_cpus :: "cpu_pc list"
  rn_run_terminal :: bool
  rn_reader :: reader_pc
  rn_main :: main_pc

definition start_threads :: "machine \<Rightarrow> vmm_run" where
  "start_threads v = \<lparr>rn_machine = v, rn_cpus = replicate CPU_COUNT Cpu_top, rn_run_terminal = True,
     rn_reader = Reader_top, rn_main = Join_first\<rparr>"

text \<open>\<^verbatim>\<open>ttyS0\<close> is the second device that \<^verbatim>\<open>start\<close> adds.\<close>

definition ttyS0 :: nat where "ttyS0 = 1"

text \<open>The body of the loop of \<^verbatim>\<open>read_terminal\<close>; the result says whether the loop goes on.\<close>

definition read_terminal :: "machine \<Rightarrow> (bool \<times> machine) res" where
  "read_terminal v =
     and_then (arr_get (vm_io_devices v) ttyS0) (\<lambda>s.
     and_then (slot_irq v ttyS0) (\<lambda>irq.
     case ps_dev s of
       Uart_dev u (Some tm) \<Rightarrow>
         and_then (readable tm) (\<lambda>(r, tm).
         if \<not> r then Inr (False, set_slot ttyS0 (Uart_dev u (Some tm)) irq v)
         else and_then (write_stdio (u, Some tm, irq)) (\<lambda>(n, u, t, irq).
              Inr (True, set_slot ttyS0 (Uart_dev u t) irq v)))
     | _ \<Rightarrow> Inl (UB NullPointer)))"

abbreviation at_cpu :: "vmm_run \<Rightarrow> nat \<Rightarrow> cpu_pc \<Rightarrow> bool" where
  "at_cpu s i p \<equiv> i < length (rn_cpus s) \<and> rn_cpus s ! i = p"

abbreviation cpu_goes :: "nat \<Rightarrow> cpu_pc \<Rightarrow> machine \<Rightarrow> vmm_run \<Rightarrow> vmm_run" where
  "cpu_goes i p v s \<equiv> s\<lparr>rn_machine := v, rn_cpus := (rn_cpus s)[i := p]\<rparr>"

definition cpu_finished :: "cpu_pc \<Rightarrow> bool" where
  "cpu_finished p = (case p of Cpu_done r \<Rightarrow> True | _ \<Rightarrow> False)"

inductive vmm_step :: "vmm_run \<Rightarrow> vmm_run \<Rightarrow> bool" where
  cpu_enters: "at_cpu s i Cpu_top \<Longrightarrow> vm_should_run (rn_machine s) \<Longrightarrow>
    vmm_step s (cpu_goes i Cpu_in_guest (rn_machine s) s)"
| cpu_is_stopped: "at_cpu s i Cpu_top \<Longrightarrow> \<not> vm_should_run (rn_machine s) \<Longrightarrow>
    vmm_step s (cpu_goes i (Cpu_done 1) (rn_machine s) s)"
| cpu_exits: "at_cpu s i Cpu_in_guest \<Longrightarrow> exit_ok x \<Longrightarrow> handle_exit x (rn_machine s) = Inr (None, x', v) \<Longrightarrow>
    vmm_step s (cpu_goes i Cpu_top v s)"
| cpu_returns: "at_cpu s i Cpu_in_guest \<Longrightarrow> exit_ok x \<Longrightarrow> handle_exit x (rn_machine s) = Inr (Some r, x', v) \<Longrightarrow>
    vmm_step s (cpu_goes i (Cpu_done r) v s)"
| device_works: "i < length (vm_mmio (rn_machine s)) \<Longrightarrow> device_round rx i (rn_machine s) = Some (Inr v) \<Longrightarrow>
    vmm_step s (s\<lparr>rn_machine := v\<rparr>)"
| reader_polls: "rn_reader s = Reader_top \<Longrightarrow> rn_run_terminal s \<Longrightarrow> vmm_step s (s\<lparr>rn_reader := Reader_poll\<rparr>)"
| reader_leaves: "rn_reader s = Reader_top \<Longrightarrow> \<not> rn_run_terminal s \<Longrightarrow> vmm_step s (s\<lparr>rn_reader := Reader_done\<rparr>)"
| reader_reads: "rn_reader s = Reader_poll \<Longrightarrow> read_terminal (rn_machine s) = Inr (again, v) \<Longrightarrow>
    vmm_step s (s\<lparr>rn_machine := v, rn_reader := (if again then Reader_top else Reader_done)\<rparr>)"
| main_stops: "rn_main s = Join_first \<Longrightarrow> cpu_finished (rn_cpus s ! 0) \<Longrightarrow>
    vmm_step s (s\<lparr>rn_machine := stop (rn_machine s), rn_main := Join_rest\<rparr>)"
| main_ends_reader: "rn_main s = Join_rest \<Longrightarrow> list_all cpu_finished (rn_cpus s) \<Longrightarrow>
    vmm_step s (s\<lparr>rn_run_terminal := False, rn_main := Join_reader\<rparr>)"
| main_returns: "rn_main s = Join_reader \<Longrightarrow> rn_reader s = Reader_done \<Longrightarrow>
    vmm_step s (s\<lparr>rn_main := Returned\<rparr>)"

inductive_cases vmm_stepE: "vmm_step s s'"

abbreviation vmm_steps :: "vmm_run \<Rightarrow> vmm_run \<Rightarrow> bool" where
  "vmm_steps \<equiv> vmm_step\<^sup>*\<^sup>*"

section \<open>What every thread keeps\<close>

lemma write_stdio_attached:
  "write_stdio (u, t, irq) = Inr (n, u', t', irq') \<Longrightarrow> (t' \<noteq> None) = (t \<noteq> None)"
  by (auto simp: write_stdio_def dest!: update_irq_attached split: if_splits option.splits)

fun terminal_of :: "io_dev \<Rightarrow> terminal option" where
  "terminal_of (I8042_dev d) = None"
| "terminal_of (Uart_dev u t) = t"

lemma read_terminal_cases:
  assumes "read_terminal v = Inr (again, v')"
  obtains u tm d irq where "ttyS0 < length (vm_io_devices v)"
    "ps_dev (vm_io_devices v ! ttyS0) = Uart_dev u (Some tm)" "v' = set_slot ttyS0 d irq v"
    "ports_ok v \<Longrightarrow> ports_ok v'" "\<exists>u' tm'. d = Uart_dev u' (Some tm')"
    "\<exists>irq0. slot_irq v ttyS0 = Inr irq0 \<and> irq_ident irq = irq_ident irq0"
proof -
  from assms have len: "ttyS0 < length (vm_io_devices v)"
    by (auto simp: read_terminal_def arr_get_eq_Inr)
  obtain u tm where dev: "ps_dev (vm_io_devices v ! ttyS0) = Uart_dev u (Some tm)"
    using assms len
    by (cases "ps_dev (vm_io_devices v ! ttyS0)"; cases "terminal_of (ps_dev (vm_io_devices v ! ttyS0))")
       (auto simp: read_terminal_def)
  obtain irq r tm1 where r0: "slot_irq v ttyS0 = Inr irq" "readable tm = Inr (r, tm1)"
    "(if \<not> r then Inr (False, set_slot ttyS0 (Uart_dev u (Some tm1)) irq v)
      else and_then (write_stdio (u, Some tm1, irq)) (\<lambda>(n, u, t, irq).
           Inr (True, set_slot ttyS0 (Uart_dev u t) irq v))) = Inr (again, v')"
    using assms len dev by (auto simp: read_terminal_def)
  note r = len r0(1) dev r0(2,3)
  have ok: "uart_inv u \<and> terminal_sane (Some tm1) \<and> irq_fd_ok irq" if "ports_ok v"
  proof -
    have "dev_ok (Uart_dev u (Some tm))"
      using that r(1,3) by (auto simp: ports_ok_def slot_ok_def list_all_length dest!: spec[of _ ttyS0])
    moreover have "term_writes tm1 = term_writes tm"
      using r(4) by (auto simp: readable_def split: list.splits)
    ultimately show ?thesis using slot_irq_ok[OF that r(1)] r(2) by auto
  qed
  show ?thesis
  proof (cases r)
    case False
    then have v': "v' = set_slot ttyS0 (Uart_dev u (Some tm1)) irq v" using r(5) by simp
    show ?thesis
    proof (rule that[OF r(1,3) v'])
      show "ports_ok v \<Longrightarrow> ports_ok v'" using ok ports_ok_set_slot[OF _ r(1)] by (simp add: v')
    qed (use r(2) in simp_all)
  next
    case True
    then obtain n u' t' irq' where w: "write_stdio (u, Some tm1, irq) = Inr (n, u', t', irq')"
      "v' = set_slot ttyS0 (Uart_dev u' t') irq' v" using r(5) by auto
    show ?thesis
    proof (rule that[OF r(1,3) w(2)])
      assume p: "ports_ok v"
      from ok[OF p] write_stdio_sane[of u irq tm1] w(1)
      have "uart_inv u' \<and> terminal_sane t' \<and> irq_fd_ok irq'" by auto
      then show "ports_ok v'" using ports_ok_set_slot[OF p r(1)] by (simp add: w(2))
    next
      show "\<exists>u'' tm'. Uart_dev u' t' = Uart_dev u'' (Some tm')"
        using write_stdio_attached[OF w(1)] by auto
    next
      show "\<exists>irq0. slot_irq v ttyS0 = Inr irq0 \<and> irq_ident irq' = irq_ident irq0"
        using r(2) write_stdio_ident[OF w(1)] by simp
    qed
  qed
qed

lemma vmm_step_ports_ok:
  "vmm_step s s' \<Longrightarrow> ports_ok (rn_machine s) \<Longrightarrow> ports_ok (rn_machine s')"
proof (induction rule: vmm_step.induct)
  case (reader_reads s again v)
  from reader_reads(2) show ?case by (rule read_terminal_cases) (use reader_reads(3) in simp)
next
  case (device_works i s rx v)
  then show ?case using device_round_fields by (simp add: ports_ok_def)
qed (auto dest: handle_exit_ports_ok simp: stop_def ports_ok_def[of "_\<lparr>vm_should_run := _\<rparr>"] ports_ok_def)

lemma vmm_steps_ports_ok:
  "vmm_steps s s' \<Longrightarrow> ports_ok (rn_machine s) \<Longrightarrow> ports_ok (rn_machine s')"
  by (induction rule: rtranclp_induct) (auto dest: vmm_step_ports_ok)

section \<open>The order of the joins\<close>

definition run_inv :: "vmm_run \<Rightarrow> bool" where
  "run_inv s \<longleftrightarrow>
     0 < length (rn_cpus s) \<and>
     (if rn_main s = Join_first then vm_should_run (rn_machine s)
      else \<not> vm_should_run (rn_machine s) \<and> cpu_finished (rn_cpus s ! 0)) \<and>
     (if rn_main s \<in> {Join_first, Join_rest} then rn_run_terminal s
      else \<not> rn_run_terminal s \<and> list_all cpu_finished (rn_cpus s)) \<and>
     (rn_main s = Returned \<longrightarrow> rn_reader s = Reader_done)"

lemma cpu_finished_simps [simp]:
  "cpu_finished (Cpu_done r)" "\<not> cpu_finished Cpu_top" "\<not> cpu_finished Cpu_in_guest"
  by (simp_all add: cpu_finished_def)

text \<open>A processor that is still running is not the first one once that one has been joined.\<close>

lemma run_inv_cpu:
  assumes "run_inv s" "at_cpu s i p" "\<not> cpu_finished p" "vm_should_run v = vm_should_run (rn_machine s)"
  shows "run_inv (cpu_goes i q v s)"
proof -
  have "rn_main s \<in> {Join_first, Join_rest}"
    using assms(1-3) by (auto simp: run_inv_def list_all_length split: if_splits)
  moreover have "rn_main s = Join_rest \<Longrightarrow> i \<noteq> 0"
    using assms(1-3) by (cases "i = 0") (auto simp: run_inv_def)
  ultimately show ?thesis using assms by (auto simp: run_inv_def)
qed

lemma run_inv_machine:
  "run_inv s \<Longrightarrow> vm_should_run v = vm_should_run (rn_machine s) \<Longrightarrow> run_inv (s\<lparr>rn_machine := v\<rparr>)"
  by (simp add: run_inv_def)

lemma read_terminal_should_run:
  "read_terminal v = Inr (again, v') \<Longrightarrow> vm_should_run v' = vm_should_run v"
  by (erule read_terminal_cases) simp

lemma vmm_step_run_inv: "vmm_step s s' \<Longrightarrow> run_inv s \<Longrightarrow> run_inv s'"
proof (induction rule: vmm_step.induct)
  case (cpu_enters s i) then show ?case by (intro run_inv_cpu) auto
next
  case (cpu_is_stopped s i) then show ?case by (intro run_inv_cpu) auto
next
  case (cpu_exits s i x x' v)
  then show ?case by (intro run_inv_cpu[of s i Cpu_in_guest] handle_exit_should_run) auto
next
  case (cpu_returns s i x r x' v)
  then show ?case by (intro run_inv_cpu[of s i Cpu_in_guest] handle_exit_should_run) auto
next
  case (device_works i s rx v)
  then show ?case by (simp add: run_inv_machine device_round_fields)
next
  case (reader_reads s again v)
  then show ?case using run_inv_machine[OF reader_reads(3) read_terminal_should_run[OF reader_reads(2)]]
    by (auto simp: run_inv_def)
qed (auto simp: run_inv_def stop_def split: if_splits)

lemma vmm_steps_run_inv: "vmm_steps s s' \<Longrightarrow> run_inv s \<Longrightarrow> run_inv s'"
  by (induction rule: rtranclp_induct) (auto dest: vmm_step_run_inv)

lemma run_inv_start: "vm_should_run v \<Longrightarrow> run_inv (start_threads v)"
  by (simp add: run_inv_def start_threads_def CPU_COUNT_def)

section \<open>Shutting down\<close>

lemma cpus_stop:
  assumes "\<not> vm_should_run (rn_machine s)" "\<forall>p \<in> set (rn_cpus s). p = Cpu_top \<or> cpu_finished p"
    and "k \<le> length (rn_cpus s)"
  shows "\<exists>ps. vmm_steps s (s\<lparr>rn_cpus := ps\<rparr>) \<and> length ps = length (rn_cpus s) \<and>
    (\<forall>p \<in> set ps. p = Cpu_top \<or> cpu_finished p) \<and> (\<forall>i < k. cpu_finished (ps ! i))"
  using assms(3)
proof (induction k)
  case 0
  then show ?case using assms(2) by (intro exI[of _ "rn_cpus s"]) simp
next
  case (Suc k)
  then obtain ps where ps: "vmm_steps s (s\<lparr>rn_cpus := ps\<rparr>)" "length ps = length (rn_cpus s)"
    "\<forall>p \<in> set ps. p = Cpu_top \<or> cpu_finished p" "\<forall>i < k. cpu_finished (ps ! i)" by auto
  show ?case
  proof (cases "cpu_finished (ps ! k)")
    case True
    then show ?thesis using ps by (intro exI[of _ ps]) (auto simp: less_Suc_eq)
  next
    case False
    then have top: "k < length ps" "ps ! k = Cpu_top" using ps(2,3) Suc.prems by auto
    have "vmm_step (s\<lparr>rn_cpus := ps\<rparr>) (cpu_goes k (Cpu_done 1) (rn_machine (s\<lparr>rn_cpus := ps\<rparr>)) (s\<lparr>rn_cpus := ps\<rparr>))"
      by (rule cpu_is_stopped) (simp_all add: top assms(1))
    then have "vmm_steps s (s\<lparr>rn_cpus := ps[k := Cpu_done 1]\<rparr>)"
      using ps(1) by simp
    then show ?thesis
      using ps top by (intro exI[of _ "ps[k := Cpu_done 1]"])
        (auto simp: less_Suc_eq nth_list_update dest!: set_update_subset_insert[THEN subsetD])
  qed
qed

lemma steps_snoc: "vmm_steps s t \<Longrightarrow> vmm_step t u \<Longrightarrow> vmm_steps s u"
  by (rule rtranclp.rtrancl_into_rtrancl)

lemma shutdown_path:
  assumes "rn_main s = Join_first" "at_cpu s 0 (Cpu_done r)" "rn_reader s \<noteq> Reader_poll"
    and "\<forall>p \<in> set (rn_cpus s). p = Cpu_top \<or> cpu_finished p"
  shows "\<exists>s'. vmm_steps s s' \<and> rn_main s' = Returned \<and> rn_machine s' = stop (rn_machine s)"
proof -
  let ?s1 = "s\<lparr>rn_machine := stop (rn_machine s), rn_main := Join_rest\<rparr>"
  have s1: "vmm_step s ?s1" by (rule main_stops) (use assms in simp_all)
  from cpus_stop[of ?s1 "length (rn_cpus s)"] assms(4) obtain ps where
    ps: "vmm_steps ?s1 (?s1\<lparr>rn_cpus := ps\<rparr>)" "\<forall>i < length ps. cpu_finished (ps ! i)"
    by (auto simp: stop_def)
  let ?s2 = "?s1\<lparr>rn_cpus := ps\<rparr>"
  let ?s3 = "?s2\<lparr>rn_run_terminal := False, rn_main := Join_reader\<rparr>"
  let ?s4 = "?s3\<lparr>rn_reader := Reader_done\<rparr>"
  have "vmm_step ?s2 ?s3" by (rule main_ends_reader) (simp_all add: list_all_length ps(2))
  then have s3: "vmm_steps s ?s3"
    using s1 ps(1) by (meson converse_rtranclp_into_rtranclp steps_snoc)
  have "vmm_steps ?s3 ?s4"
  proof (cases "rn_reader s")
    case Reader_top
    have "vmm_step ?s3 ?s4" by (rule reader_leaves) (simp_all add: Reader_top)
    then show ?thesis by simp
  next
    case Reader_done
    then show ?thesis by (cases s) simp
  qed (use assms(3) in simp)
  moreover have "vmm_step ?s4 (?s4\<lparr>rn_main := Returned\<rparr>)" by (rule main_returns) simp_all
  ultimately have "vmm_steps s (?s4\<lparr>rn_main := Returned\<rparr>)"
    using s3 by (meson rtranclp_trans steps_snoc)
  then show ?thesis by fastforce
qed

definition waits_for_input :: "vmm_run \<Rightarrow> bool" where
  "waits_for_input s \<longleftrightarrow>
     rn_main s = Join_reader \<and> rn_reader s = Reader_poll \<and> list_all cpu_finished (rn_cpus s) \<and>
     (\<exists>tm. ttyS0 < length (vm_io_devices (rn_machine s)) \<and>
        terminal_of (ps_dev (vm_io_devices (rn_machine s) ! ttyS0)) = Some tm \<and> term_polls tm = [])"

lemma waits_step: "waits_for_input s \<Longrightarrow> vmm_step s s' \<Longrightarrow> waits_for_input s'"
proof (erule vmm_stepE)
  fix again v
  assume w: "waits_for_input s" and r: "read_terminal (rn_machine s) = Inr (again, v)"
  obtain tm where tm: "terminal_of (ps_dev (vm_io_devices (rn_machine s) ! ttyS0)) = Some tm" "term_polls tm = []"
    "ttyS0 < length (vm_io_devices (rn_machine s))"
    using w by (auto simp: waits_for_input_def)
  then obtain u where "ps_dev (vm_io_devices (rn_machine s) ! ttyS0) = Uart_dev u (Some tm)"
    by (cases "ps_dev (vm_io_devices (rn_machine s) ! ttyS0)") auto
  with r tm have False by (auto simp: read_terminal_def readable_def)
  then show "waits_for_input s'" ..
qed (auto simp: waits_for_input_def list_all_length dest: device_round_fields)

section \<open>The shape of the machine\<close>

lemma read_terminal_shape:
  "read_terminal v = Inr (again, v') \<Longrightarrow> machine_shape v' = machine_shape v"
  by (erule read_terminal_cases) (auto intro!: set_slot_shape)

lemma vmm_step_shape:
  "vmm_step s s' \<Longrightarrow> machine_shape (rn_machine s') = machine_shape (rn_machine s)"
proof (induction rule: vmm_step.induct)
  case (reader_reads s again v)
  then show ?case using read_terminal_shape by auto
qed (auto simp: stop_def dest: handle_exit_shape device_round_shape, auto simp: shape_defs)

lemma vmm_steps_shape:
  "vmm_steps s s' \<Longrightarrow> machine_shape (rn_machine s') = machine_shape (rn_machine s)"
  by (induction rule: rtranclp_induct) (auto dest: vmm_step_shape)

section \<open>Properties\<close>

text \<open>C3: Whatever the guest and the threads do, in any interleaving of exits, rounds of the device
  threads, terminal input and shutdown: on the machine that \<^verbatim>\<open>start\<close> builds, every access to a port
  that KVM can report is served. It never reads or writes outside a buffer, follows no missing
  line or terminal and throws nothing; at worst it waits for the host's terminal.\<close>

theorem port_exits_always_served:
  assumes "env_ok env" "vm_io_devices v = pc_ports env" "vm_interrupts v = pc_lines"
    and "vmm_steps (start_threads v) s" "io_exit_ok io"
  shows "handle_exit (KVM_EXIT_IO io) (rn_machine s) = Inl Blocked \<or>
    (\<exists>io' v'. handle_exit (KVM_EXIT_IO io) (rn_machine s) = Inr (None, KVM_EXIT_IO io', v'))"
proof -
  have "ports_ok (rn_machine (start_threads v))"
    using pc_ports_ok(1)[OF assms(1-3)] by (simp add: start_threads_def)
  from port_exit_outcome[OF vmm_steps_ports_ok[OF assms(4) this] assms(5)] show ?thesis by blast
qed

text \<open>C32: The machine keeps its shape: no step of any thread adds, removes or moves a device, changes its
  kind or its line, attaches or detaches a terminal, resizes a table or a buffer of a device or the
  memory, or adds or removes a processor. Each of the 32 lines that exists stays in its place with its
  number and its event descriptor, the others stay empty, and each virtio device keeps the line it was
  built with.\<close>

theorem machine_keeps_shape:
  assumes "vmm_steps s s'"
  shows "machine_shape (rn_machine s') = machine_shape (rn_machine s)"
  using assms by (rule vmm_steps_shape)

text \<open>C30: The order of shutdown. As long as processor 0 runs, the machine is told to run; once \<^verbatim>\<open>start\<close> has
  returned, every processor and the reader of the terminal have returned too, and the machine is
  told to stop.\<close>

theorem start_returns_last:
  assumes "vm_should_run v" "vmm_steps (start_threads v) s"
  shows "(\<not> cpu_finished (rn_cpus s ! 0) \<longrightarrow> vm_should_run (rn_machine s) \<and> rn_run_terminal s) \<and>
    (rn_main s = Returned \<longrightarrow>
       list_all cpu_finished (rn_cpus s) \<and> rn_reader s = Reader_done \<and> \<not> vm_should_run (rn_machine s))"
  using vmm_steps_run_inv[OF assms(2) run_inv_start[OF assms(1)]]
  by (auto simp: run_inv_def list_all_length split: if_splits)

text \<open>Shutdown can complete: once processor 0 has returned, if the other processors are between two
  exits and the reader is not waiting in \<^verbatim>\<open>poll\<close>, the remaining steps lead to the return of
  \<^verbatim>\<open>start\<close>.\<close>

theorem shutdown_completes:
  assumes "rn_main s = Join_first" "at_cpu s 0 (Cpu_done r)" "rn_reader s \<noteq> Reader_poll"
    and "\<forall>p \<in> set (rn_cpus s). p = Cpu_top \<or> cpu_finished p"
  shows "\<exists>s'. vmm_steps s s' \<and> rn_main s' = Returned"
  using shutdown_path[OF assms] by blast

text \<open>C31: But it waits for the keyboard: the reader sits in \<^verbatim>\<open>poll\<close> with an infinite timeout, and clearing
  \<^verbatim>\<open>run_terminal\<close> does not wake it. If no input arrives, \<^verbatim>\<open>start\<close> never returns, however
  often the remaining threads run.\<close>

theorem shutdown_waits_for_input:
  assumes "rn_main s = Join_reader" "rn_reader s = Reader_poll" "list_all cpu_finished (rn_cpus s)"
    and "ttyS0 < length (vm_io_devices (rn_machine s))"
    and "ps_dev (vm_io_devices (rn_machine s) ! ttyS0) = Uart_dev u (Some tm)" "term_polls tm = []"
    and "vmm_steps s s'"
  shows "rn_main s' = Join_reader"
proof -
  have "waits_for_input s" using assms(1-6) by (simp add: waits_for_input_def)
  with assms(7) have "waits_for_input s'"
    by (induction rule: rtranclp_induct) (auto dest: waits_step)
  then show ?thesis by (simp add: waits_for_input_def)
qed

section \<open>Examples\<close>

definition demo_booted :: machine where
  "demo_booted = demo_fresh\<lparr>vm_io_devices := pc_ports demo_env, vm_interrupts := pc_lines, vm_mmio := pc_bus demo_env\<rparr>"

lemma demo_booted_fields [simp]:
  "vm_io_devices demo_booted = pc_ports demo_env" "vm_interrupts demo_booted = pc_lines" "vm_should_run demo_booted"
  by (simp_all add: demo_booted_def demo_fresh_def)

lemma demo_two_cpus: "rn_cpus (start_threads v) = [Cpu_top, Cpu_top]"
  by (simp add: start_threads_def CPU_COUNT_def numeral_2_eq_2)

lemma demo_start_fields [simp]:
  "rn_machine (start_threads v) = v" "rn_main (start_threads v) = Join_first" "rn_reader (start_threads v) = Reader_top"
  "rn_run_terminal (start_threads v)"
  by (simp_all add: start_threads_def)

text \<open>The first processor enters the guest and leaves it with \<open>x\<close>.\<close>

lemma demo_first_exit:
  assumes "vm_should_run v" "exit_ok x" "handle_exit x v = Inr (r, x', v')"
  shows "vmm_steps (start_threads v)
    ((start_threads v)\<lparr>rn_machine := v', rn_cpus := [case r of None \<Rightarrow> Cpu_top | Some n \<Rightarrow> Cpu_done n, Cpu_top]\<rparr>)"
proof -
  let ?s = "start_threads v"
  let ?s1 = "cpu_goes 0 Cpu_in_guest (rn_machine ?s) ?s"
  let ?p = "case r of None \<Rightarrow> Cpu_top | Some n \<Rightarrow> Cpu_done n"
  have s1: "vmm_step ?s ?s1" by (rule cpu_enters) (simp_all add: demo_two_cpus assms(1))
  have h: "handle_exit x (rn_machine ?s1) = Inr (r, x', v')" and at: "at_cpu ?s1 0 Cpu_in_guest"
    using assms(3) by (simp_all add: demo_two_cpus)
  have "vmm_step ?s1 (cpu_goes 0 ?p v' ?s1)"
  proof (cases r)
    case None
    then show ?thesis using cpu_exits[OF at assms(2), of x' v'] h by simp
  next
    case (Some n)
    then show ?thesis using cpu_returns[OF at assms(2), of n x' v'] h by simp
  qed
  then show ?thesis using s1 by (simp add: demo_two_cpus)
qed

theorem port_exits_always_served_witness:
  "\<exists>s. vmm_steps (start_threads demo_booted) s \<and> rn_machine s = say Msg_debug demo_booted \<and>
    (handle_exit (in_byte 0x3fd) (rn_machine s) = Inl Blocked \<or>
     (\<exists>io' v'. handle_exit (in_byte 0x3fd) (rn_machine s) = Inr (None, KVM_EXIT_IO io', v')))"
proof -
  let ?s = "(start_threads demo_booted)\<lparr>rn_machine := say Msg_debug demo_booted, rn_cpus := [Cpu_top, Cpu_top]\<rparr>"
  have r: "vmm_steps (start_threads demo_booted) ?s"
    using demo_first_exit[of demo_booted KVM_EXIT_DEBUG None KVM_EXIT_DEBUG] by (simp add: exit_ok_def)
  have "io_exit_ok \<lparr>io_out = False, io_size = 1, io_port = 0x3fd, io_count = 1, io_data = [0]\<rparr>"
    by (simp add: io_exit_ok_def io_bytes_def)
  from port_exits_always_served[OF demo_facts(1) demo_booted_fields(1,2) r this] r show ?thesis
    unfolding in_byte_def by (intro exI[of _ ?s]) simp
qed

theorem machine_keeps_shape_witness:
  "\<exists>s. vmm_steps (start_threads demo_booted) s \<and> rn_machine s = say Msg_debug demo_booted \<and>
    machine_shape (rn_machine s) = machine_shape demo_booted"
proof -
  let ?s = "(start_threads demo_booted)\<lparr>rn_machine := say Msg_debug demo_booted, rn_cpus := [Cpu_top, Cpu_top]\<rparr>"
  have r: "vmm_steps (start_threads demo_booted) ?s"
    using demo_first_exit[of demo_booted KVM_EXIT_DEBUG None KVM_EXIT_DEBUG] by (simp add: exit_ok_def)
  from machine_keeps_shape[OF r] r show ?thesis by (intro exI[of _ ?s]) simp
qed

theorem start_returns_last_witness:
  "\<exists>s. vmm_steps (start_threads demo_booted) s \<and> rn_main s = Returned \<and>
    list_all cpu_finished (rn_cpus s) \<and> rn_reader s = Reader_done \<and> \<not> vm_should_run (rn_machine s)"
proof -
  let ?s = "(start_threads demo_booted)\<lparr>rn_machine := say Msg_halted demo_booted, rn_cpus := [Cpu_done 0, Cpu_top]\<rparr>"
  have r: "vmm_steps (start_threads demo_booted) ?s"
    using demo_first_exit[of demo_booted KVM_EXIT_HLT "Some 0" KVM_EXIT_HLT] by (simp add: exit_ok_def)
  obtain s' where s': "vmm_steps ?s s'" "rn_main s' = Returned"
    using shutdown_path[of ?s 0] by auto
  have "vmm_steps (start_threads demo_booted) s'" using r s'(1) by simp
  from start_returns_last[OF demo_booted_fields(3) this] s'(2) this show ?thesis by blast
qed

theorem shutdown_completes_witness:
  "\<exists>s'. vmm_steps ((start_threads demo_booted)\<lparr>rn_cpus := [Cpu_done 0, Cpu_top]\<rparr>) s' \<and> rn_main s' = Returned"
  using shutdown_completes[of "(start_threads demo_booted)\<lparr>rn_cpus := [Cpu_done 0, Cpu_top]\<rparr>" 0] by simp

theorem shutdown_waits_for_input_witness:
  "\<exists>s s'. rn_reader s = Reader_poll \<and> rn_machine s = demo_booted \<and> vmm_step s s' \<and> rn_main s' = Join_reader"
proof -
  let ?s = "(start_threads demo_booted)\<lparr>rn_cpus := [Cpu_done 0, Cpu_done 1], rn_run_terminal := False,
    rn_reader := Reader_poll, rn_main := Join_reader\<rparr>"
  have "vm_mmio demo_booted ! 1 = pc_bus demo_env ! 1" "length (vm_mmio demo_booted) = 3"
    by (simp_all add: demo_booted_def pc_bus_def)
  then have "vmm_step ?s (?s\<lparr>rn_machine := demo_booted\<lparr>vm_memory := vm_memory demo_booted,
      vm_mmio := (vm_mmio demo_booted)[1 := (vm_mmio demo_booted ! 1)\<lparr>ms_state := ms_state (vm_mmio demo_booted ! 1)\<rparr>]\<rparr>\<rparr>)"
    by (intro device_works[of 1 _ True]) (simp_all add: device_round_def pc_bus_def)
  then have step: "vmm_step ?s (?s\<lparr>rn_machine := demo_booted\<rparr>)" by simp
  have tty: "ttyS0 < length (vm_io_devices (rn_machine ?s))"
    "ps_dev (vm_io_devices (rn_machine ?s) ! ttyS0) = Uart_dev (new_uart demo_env 0) (Some (demo_terminal 2))"
    by (simp_all add: ttyS0_def pc_ports_def demo_env_def)
  have "rn_main (?s\<lparr>rn_machine := demo_booted\<rparr>) = Join_reader"
    by (rule shutdown_waits_for_input[OF _ _ _ tty _ r_into_rtranclp[of vmm_step, OF step]])
      (simp_all add: demo_terminal_def)
  then show ?thesis
    using step by (intro exI[of _ ?s] exI[of _ "?s\<lparr>rn_machine := demo_booted\<rparr>"]) simp
qed

end
