(* ===== verification/Ring_Frames.thy ===== *)
theory Ring_Frames
  imports Descriptor_Chain
begin

text \<open>
  What serving one request leaves alone in the rings (\<^verbatim>\<open>src/kvm/virtio/queue.h\<close>), so that several
  requests can be followed one after the other: the requests still waiting, and the completions
  already in the used ring.
\<close>

section \<open>Fields of the queue that move no ring\<close>

text \<open>Neither the count of notifications nor the position in the available ring moves the rings.\<close>

lemma rings_stay [simp]:
  "queue_ok m (q\<lparr>q_notify := a\<rparr>) = queue_ok m q" "queue_ok m (q\<lparr>q_last_avail := b\<rparr>) = queue_ok m q"
  "pending m (q\<lparr>q_notify := a\<rparr>) = pending m q"
  "desc_addr_at m (q\<lparr>q_notify := a\<rparr>) = desc_addr_at m q" "desc_addr_at m (q\<lparr>q_last_avail := b\<rparr>) = desc_addr_at m q"
  "desc_len_at m (q\<lparr>q_notify := a\<rparr>) = desc_len_at m q" "desc_len_at m (q\<lparr>q_last_avail := b\<rparr>) = desc_len_at m q"
  "buffer_ok m (q\<lparr>q_notify := a\<rparr>) = buffer_ok m q" "buffer_ok m (q\<lparr>q_last_avail := b\<rparr>) = buffer_ok m q"
  "completion m (q\<lparr>q_notify := a\<rparr>) = completion m q"
  by (auto simp: queue_ok_def pending_def avail_entry_def peek_avail_idx_def desc_addr_at_def desc_len_at_def
      buffer_ok_def completion_def peek_used_idx_def Let_def fun_eq_iff)

lemma frame_at_stays [simp]: "frame_at m (q\<lparr>q_last_avail := a\<rparr>) i bufs = frame_at m q i bufs"
  by (induction bufs arbitrary: i) (auto simp: desc_flags_at_def desc_next_at_def)

section \<open>Requests still waiting\<close>

text \<open>\<open>m'\<close> has the same descriptors and the same entries of the available ring as \<open>m\<close>.\<close>

definition same_requests :: "queue \<Rightarrow> gmem \<Rightarrow> gmem \<Rightarrow> bool" where
  "same_requests q m m' \<longleftrightarrow> gm_size m' = gm_size m \<and>
     (\<forall>i. unat i < unat (q_size q) \<longrightarrow>
        desc_addr_at m' q i = desc_addr_at m q i \<and> desc_len_at m' q i = desc_len_at m q i \<and>
        desc_flags_at m' q i = desc_flags_at m q i \<and> desc_next_at m' q i = desc_next_at m q i) \<and>
     (\<forall>l. pending m' (q\<lparr>q_last_avail := l\<rparr>) = pending m (q\<lparr>q_last_avail := l\<rparr>))"

lemma same_requests_refl [simp]: "same_requests q m m"
  by (simp add: same_requests_def)

lemma same_requests_trans [trans]: "same_requests q m m1 \<Longrightarrow> same_requests q m1 m2 \<Longrightarrow> same_requests q m m2"
  by (simp add: same_requests_def)

lemma same_requests_ok:
  assumes "same_requests q m m'"
  shows "queue_ok m' q' = queue_ok m q'" "buffer_ok m' q' a n = buffer_ok m q' a n" "bufs_ok m' q' bufs = bufs_ok m q' bufs"
  using assms by (simp_all add: same_requests_def queue_ok_def buffer_ok_def bufs_ok_def in_mem_def)

lemma completion_desc:
  assumes "queue_ok m q" "unat i < unat (q_size q)"
  shows "desc_addr_at (completion m q start len) q i = desc_addr_at m q i"
    and "desc_len_at (completion m q start len) q i = desc_len_at m q i"
    and "desc_flags_at (completion m q start len) q i = desc_flags_at m q i"
    and "desc_next_at (completion m q start len) q i = desc_next_at m q i"
proof -
  have "peek_le l (completion m q start len) (q_desc_addr q + of_nat (16 * unat i + j)) =
      peek_le l m (q_desc_addr q + of_nat (16 * unat i + j))" if "j + l \<le> 16" for j l
    by (rule completion_frame[OF assms(1) desc_in_mem[OF assms(1)]])
       (use that assms in \<open>auto simp: queue_ok_def\<close>)
  from this[of 0 8] this[of 8 4] this[of 12 2] this[of 14 2]
  show "desc_addr_at (completion m q start len) q i = desc_addr_at m q i"
    "desc_len_at (completion m q start len) q i = desc_len_at m q i"
    "desc_flags_at (completion m q start len) q i = desc_flags_at m q i"
    "desc_next_at (completion m q start len) q i = desc_next_at m q i"
    by (simp_all add: desc_addr_at_def desc_len_at_def desc_flags_at_def desc_next_at_def)
qed

lemma same_requests_poke:
  "queue_ok m q \<Longrightarrow> buffer_ok m q a (length bs) \<Longrightarrow> same_requests q m (poke m a bs)"
  by (simp add: same_requests_def buffer_frame_desc buffer_frame_avail(2))

lemma same_requests_scatter:
  "queue_ok m q \<Longrightarrow> bufs_ok m q bufs \<Longrightarrow> same_requests q m (scatter m bufs bs)"
proof (induction m bufs bs rule: scatter.induct)
  case (2 m a n bufs bs)
  have "buffer_ok m q a (length (take (unat n) bs))"
    by (rule buffer_ok_prefix[of m q a "unat n"]) (use 2(3) in simp_all)
  note step = same_requests_poke[OF 2(2) this]
  from 2(1) 2(2,3) step show ?case by (auto intro: same_requests_trans)
qed simp

lemma same_requests_completion: "queue_ok m q \<Longrightarrow> same_requests q m (completion m q start len)"
  using completion_pending[of m "q\<lparr>q_last_avail := l\<rparr>" start len for l]
  by (simp add: same_requests_def completion_desc)

lemma chain_at_same: "same_requests q m m' \<Longrightarrow> chain_at m' q i bufs j = chain_at m q i bufs j"
  by (induction bufs arbitrary: i) (auto simp: same_requests_def)

lemma frame_at_same: "same_requests q m m' \<Longrightarrow> frame_at m' q i bufs = frame_at m q i bufs"
  by (induction bufs arbitrary: i) (auto simp: same_requests_def)

section \<open>Completions already made\<close>

text \<open>A buffer write changes no entry of the used ring.\<close>

lemma buffer_frame_used:
  assumes "queue_ok m q" "buffer_ok m q a (length bs)"
  shows "used_entry (poke m a bs) q k = used_entry m q k"
proof -
  have "4 + 8 * (k mod unat (q_size q)) + 8 \<le> 4 + 8 * unat (q_size q)" by (rule used_slot_bound[OF assms(1)])
  then have "peek_le 4 (poke m a bs) (q_used_addr q + of_nat (4 + 8 * (k mod unat (q_size q)) + j)) =
      peek_le 4 m (q_used_addr q + of_nat (4 + 8 * (k mod unat (q_size q)) + j))" if "j + 4 \<le> 8" for j
    by (intro ring_frame[OF assms(2) used_in_mem[OF assms(1)]])
       (use that assms(2) in \<open>auto simp: buffer_ok_def\<close>)
  from this[of 0] this[of 4] show ?thesis by (simp add: used_entry_def Let_def add.assoc)
qed

lemma scatter_used:
  "queue_ok m q \<Longrightarrow> bufs_ok m q bufs \<Longrightarrow> used_entry (scatter m bufs bs) q k = used_entry m q k"
proof (induction m bufs bs rule: scatter.induct)
  case (2 m a n bufs bs)
  have "buffer_ok m q a (length (take (unat n) bs))"
    by (rule buffer_ok_prefix[of m q a "unat n"]) (use 2(3) in simp_all)
  with 2 show ?case by (simp add: buffer_frame_used)
qed simp

text \<open>One completion, and a run of them: the entries of the used ring from the index on, in order; all
  other entries stay.\<close>

definition used_step :: "queue \<Rightarrow> u32 \<times> u32 \<Rightarrow> gmem \<Rightarrow> gmem \<Rightarrow> bool" where
  "used_step q c m m' \<longleftrightarrow>
     peek_used_idx m' q = peek_used_idx m q + 1 \<and> used_entry m' q (unat (peek_used_idx m q)) = c \<and>
     (\<forall>k. k mod unat (q_size q) \<noteq> unat (peek_used_idx m q) mod unat (q_size q) \<longrightarrow>
        used_entry m' q k = used_entry m q k)"

definition used_run :: "queue \<Rightarrow> (u32 \<times> u32) list \<Rightarrow> gmem \<Rightarrow> gmem \<Rightarrow> bool" where
  "used_run q cs m m' \<longleftrightarrow>
     peek_used_idx m' q = peek_used_idx m q + of_nat (length cs) \<and>
     (\<forall>i < length cs. used_entry m' q (unat (peek_used_idx m q) + i) = cs ! i) \<and>
     (\<forall>k. (\<forall>i < length cs. k mod unat (q_size q) \<noteq> (unat (peek_used_idx m q) + i) mod unat (q_size q)) \<longrightarrow>
        used_entry m' q k = used_entry m q k)"

lemma used_run_Nil [simp]: "used_run q [] m m"
  by (simp add: used_run_def)

lemma used_step_completion:
  assumes "queue_ok m1 q" "peek_used_idx m1 q = peek_used_idx m q" "\<And>k. used_entry m1 q k = used_entry m q k"
  shows "used_step q (start, len) m (completion m1 q start len)"
  using completion_entry_same[OF assms(1), of start len] completion_entry_other[OF assms(1), of _ start len]
  by (simp add: used_step_def completion_idx assms(2,3))

lemma used_run_Cons:
  assumes "queue_ok m q" "used_step q c m m1" "used_run q cs m1 m'" "Suc (length cs) \<le> unat (q_size q)"
  shows "used_run q (c # cs) m m'"
proof -
  let ?h = "unat (peek_used_idx m q)" and ?s = "unat (q_size q)"
  have idx: "peek_used_idx m1 q = peek_used_idx m q + 1" using assms(2) by (simp add: used_step_def)
  have h1: "(unat (peek_used_idx m1 q) + i) mod ?s = (?h + Suc i) mod ?s" for i
    by (simp only: idx used_idx_Suc[OF assms(1)])
  have frame: "used_entry m' q k = used_entry m1 q k"
    if "\<And>i. i < length cs \<Longrightarrow> k mod ?s \<noteq> (?h + Suc i) mod ?s" for k
    using assms(3) that by (simp add: used_run_def h1)
  have other: "used_entry m' q k = used_entry m q k"
    if k: "\<And>i. i < Suc (length cs) \<Longrightarrow> k mod ?s \<noteq> (?h + i) mod ?s" for k
    using frame[of k] k[of "Suc _"] assms(2) k[of 0] by (simp add: used_step_def)
  have entry: "used_entry m' q (?h + i) = (c # cs) ! i" if "i < Suc (length cs)" for i
  proof (cases i)
    case 0
    have "?h mod ?s \<noteq> (?h + Suc j) mod ?s" if "j < length cs" for j
      using mod_slots_distinct[of 0 "Suc j" ?s ?h] that assms(4) by simp
    then show ?thesis using frame[of ?h] assms(2) 0 by (simp add: used_step_def)
  next
    case (Suc j)
    then have "used_entry m' q (?h + i) = used_entry m' q (unat (peek_used_idx m1 q) + j)"
      by (intro used_entry_mod) (simp only: h1)
    with Suc that assms(3) show ?thesis by (simp add: used_run_def)
  qed
  have "peek_used_idx m' q = peek_used_idx m q + of_nat (length (c # cs))"
    using assms(3) idx by (simp add: used_run_def)
  with entry other show ?thesis unfolding used_run_def by simp
qed

lemma rings_stay_runs [simp]:
  "same_requests (q\<lparr>q_last_avail := a\<rparr>) = same_requests q" "used_step (q\<lparr>q_last_avail := a\<rparr>) = used_step q"
  "used_run (q\<lparr>q_last_avail := a\<rparr>) = used_run q"
  by (auto simp: same_requests_def used_step_def used_run_def used_entry_def peek_used_idx_def Let_def fun_eq_iff
      desc_flags_at_def desc_next_at_def)

section \<open>What a service writes\<close>

text \<open>Beside the rings only the buffers \<open>ws\<close> are written.\<close>

definition writes_only :: "gmem \<Rightarrow> queue \<Rightarrow> buffers \<Rightarrow> gmem \<Rightarrow> bool" where
  "writes_only m q ws m' \<longleftrightarrow> (\<forall>b l. buffer_ok m q b l \<longrightarrow>
     list_all (\<lambda>(a, n). disjoint_ranges a (unat n) b l) ws \<longrightarrow> peek m' b l = peek m b l)"

lemma writes_only_refl [simp]: "writes_only m q ws m"
  by (simp add: writes_only_def)

lemma writes_only_trans:
  assumes "writes_only m q xs m1" "writes_only m1 q ys m2" "same_requests q m m1"
  shows "writes_only m q (xs @ ys) m2"
  using assms by (simp add: writes_only_def same_requests_ok)

lemma writes_only_stays [simp]: "writes_only m (q\<lparr>q_last_avail := a\<rparr>) = writes_only m q"
  by (simp add: writes_only_def fun_eq_iff)

lemma scatter_append:
  "length bs = total_len bufs \<Longrightarrow> scatter m (bufs @ ws) (bs @ cs) = scatter (scatter m bufs bs) ws cs"
  by (induction m bufs bs rule: scatter.induct) auto

text \<open>Every service of a device has this shape: data is put into buffers, then the request completed.\<close>

lemma service_memory:
  assumes "queue_ok m q" "bufs_ok m q ws"
  shows "same_requests q m (completion (scatter m ws bs) q start len)"
    and "used_step q (start, len) m (completion (scatter m ws bs) q start len)"
    and "writes_only m q ws (completion (scatter m ws bs) q start len)"
    and "bufs_ok m q bufs \<Longrightarrow> gather (completion (scatter m ws bs) q start len) bufs = gather (scatter m ws bs) bufs"
proof -
  let ?m1 = "scatter m ws bs"
  have r1: "same_requests q m ?m1" by (rule same_requests_scatter[OF assms])
  have q1: "queue_ok ?m1 q" using assms(1) by (simp add: same_requests_ok[OF r1])
  show "same_requests q m (completion ?m1 q start len)"
    by (rule same_requests_trans[OF r1 same_requests_completion[OF q1]])
  show "used_step q (start, len) m (completion ?m1 q start len)"
    by (rule used_step_completion[OF q1 scatter_used_idx[OF assms] scatter_used[OF assms]])
  show "gather (completion ?m1 q start len) bufs = gather ?m1 bufs" if "bufs_ok m q bufs"
    using gather_completion[OF q1] that by (simp add: same_requests_ok[OF r1])
  have "peek (completion ?m1 q start len) b l = peek m b l"
    if b: "buffer_ok m q b l" "list_all (\<lambda>(a, n). disjoint_ranges a (unat n) b l) ws" for b l
  proof -
    have "buffer_ok ?m1 q b l" using b(1) by (simp add: same_requests_ok[OF r1])
    moreover have "in_mem m b l" using b(1) by (simp add: buffer_ok_def)
    ultimately show ?thesis using completion_buffer[OF q1] peek_scatter_apart[OF bufs_ok_in[OF assms(2)]] b(2) by simp
  qed
  then show "writes_only m q ws (completion ?m1 q start len)" by (simp add: writes_only_def)
qed

end
