(* ===== verification/Ring_Service.thy ===== *)
theory Ring_Service
  imports Ring_Frames
begin

text \<open>
  Serving one queue, request after request. All three devices share the pattern: a round takes the
  oldest request of the available ring, moves its data, and completes it in the used ring. The locale
  \<open>ring_service\<close> states what a round promises about one request, relative to an abstract state of the
  device; its lemma \<open>serves_batch\<close> is what follows for any batch of requests that use memory of their
  own. It is interpreted for the disk, the entropy device and both directions of the network device.
\<close>

section \<open>Batches\<close>

text \<open>The abstract device: \<open>step r a\<close> is its state after request \<open>r\<close> in state \<open>a\<close>. A predicate, and a
  value, for each request of a batch in the state in which its turn comes.\<close>

fun along :: "('r \<Rightarrow> 'a \<Rightarrow> bool) \<Rightarrow> ('r \<Rightarrow> 'a \<Rightarrow> 'a) \<Rightarrow> 'r list \<Rightarrow> 'a \<Rightarrow> bool" where
  "along P step [] a = True"
| "along P step (r # rs) a = (P r a \<and> along P step rs (step r a))"

fun trace :: "('r \<Rightarrow> 'a \<Rightarrow> 'b) \<Rightarrow> ('r \<Rightarrow> 'a \<Rightarrow> 'a) \<Rightarrow> 'r list \<Rightarrow> 'a \<Rightarrow> 'b list" where
  "trace f step [] a = []"
| "trace f step (r # rs) a = f r a # trace f step rs (step r a)"

lemma length_trace [simp]: "length (trace f step rs a) = length rs"
  by (induction rs arbitrary: a) simp_all

lemma trace_const: "(\<And>r a. f r a = g r) \<Longrightarrow> trace f step rs a = map g rs"
  by (induction rs arbitrary: a) simp_all

text \<open>The rounds that serve them.\<close>

fun rounds :: "(gmem \<Rightarrow> 's \<Rightarrow> (gmem \<times> 's) res option) \<Rightarrow> nat \<Rightarrow> gmem \<Rightarrow> 's \<Rightarrow> (gmem \<times> 's) res option" where
  "rounds f 0 m s = Some (Inr (m, s))"
| "rounds f (Suc n) m s =
     (case f m s of
        None \<Rightarrow> None
      | Some (Inl e) \<Rightarrow> Some (Inl e)
      | Some (Inr (m, s)) \<Rightarrow> rounds f n m s)"

text \<open>Two sets of buffers without a common byte.\<close>

definition all_apart :: "buffers \<Rightarrow> buffers \<Rightarrow> bool" where
  "all_apart xs ys \<longleftrightarrow> list_all (\<lambda>(a, n). list_all (\<lambda>(b, k). disjoint_ranges a (unat n) b (unat k)) ys) xs"

lemma all_apart_iff:
  "all_apart xs ys \<longleftrightarrow>
     (\<forall>a n b k. (a, n) \<in> set xs \<longrightarrow> (b, k) \<in> set ys \<longrightarrow> disjoint_ranges a (unat n) b (unat k))"
  by (auto simp: all_apart_def list_all_iff)

lemma all_apart_sym: "all_apart xs ys \<Longrightarrow> all_apart ys xs"
  unfolding all_apart_iff using disjoint_ranges_sym by blast

lemma all_apart_subset: "all_apart xs ys \<Longrightarrow> set xs' \<subseteq> set xs \<Longrightarrow> set ys' \<subseteq> set ys \<Longrightarrow> all_apart xs' ys'"
  unfolding all_apart_iff by blast

text \<open>A step that writes elsewhere leaves the bytes of a request as they are.\<close>

lemma writes_only_elsewhere:
  assumes "writes_only m q ws m'" "all_apart ws foot" "(a, n) \<in> set foot" "buffer_ok m q a (unat n)"
  shows "peek m' a (unat n) = peek m a (unat n)"
proof -
  have "list_all (\<lambda>(b, k). disjoint_ranges b (unat k) a (unat n)) ws"
    using assms(2,3) by (auto simp: all_apart_iff list_all_iff)
  with assms(1,4) show ?thesis by (simp add: writes_only_def)
qed

lemma gather_same:
  "(\<And>a n. (a, n) \<in> set bufs \<Longrightarrow> peek m' a (unat n) = peek m a (unat n)) \<Longrightarrow> gather m' bufs = gather m bufs"
  unfolding gather_def by (intro arg_cong[where f = concat] map_cong) auto

text \<open>The requests \<open>rs\<close> are the ones that wait; they lie in memory of their own, and there are no more of
  them than the ring has entries. In a batch each can be served when its turn comes.\<close>

definition waiting ::
  "('r \<Rightarrow> u16) \<Rightarrow> (gmem \<Rightarrow> queue \<Rightarrow> 'r \<Rightarrow> bool) \<Rightarrow> ('r \<Rightarrow> buffers) \<Rightarrow> gmem \<Rightarrow> queue \<Rightarrow> 'r list \<Rightarrow> bool" where
  "waiting head laid foot m q rs \<longleftrightarrow>
     queue_ok m q \<and> pending m q = map head rs \<and> length rs \<le> unat (q_size q) \<and> list_all (laid m q) rs \<and>
     sorted_wrt (\<lambda>r s. all_apart (foot r) (foot s)) rs"

definition batch ::
  "('r \<Rightarrow> u16) \<Rightarrow> (gmem \<Rightarrow> queue \<Rightarrow> 'r \<Rightarrow> bool) \<Rightarrow> ('r \<Rightarrow> buffers) \<Rightarrow> ('r \<Rightarrow> 'a \<Rightarrow> bool) \<Rightarrow> ('r \<Rightarrow> 'a \<Rightarrow> 'a) \<Rightarrow>
   gmem \<Rightarrow> queue \<Rightarrow> 'r list \<Rightarrow> 'a \<Rightarrow> bool" where
  "batch head laid foot can step m q rs a \<longleftrightarrow> waiting head laid foot m q rs \<and> along can step rs a"

lemmas batch_defs = batch_def waiting_def

text \<open>Batches over the life of a queue. Between two of them the memory is the driver's: each comes with
  the memory the driver has prepared for it, and the queue goes on where it was left.\<close>

definition advance :: "nat \<Rightarrow> queue \<Rightarrow> queue" where
  "advance n q = q\<lparr>q_last_avail := q_last_avail q + of_nat n\<rparr>"

lemma advance_simps [simp]:
  "advance 0 q = q" "advance n (q\<lparr>q_last_avail := q_last_avail q + 1\<rparr>) = advance (Suc n) q"
  "used_run (advance n q) = used_run q"
  by (simp_all add: advance_def add.assoc)

fun batches ::
  "('r \<Rightarrow> u16) \<Rightarrow> (gmem \<Rightarrow> queue \<Rightarrow> 'r \<Rightarrow> bool) \<Rightarrow> ('r \<Rightarrow> buffers) \<Rightarrow> ('r \<Rightarrow> 'a \<Rightarrow> bool) \<Rightarrow> ('r \<Rightarrow> 'a \<Rightarrow> 'a) \<Rightarrow>
   queue \<Rightarrow> (gmem \<times> 'r list) list \<Rightarrow> 'a \<Rightarrow> bool" where
  "batches head laid foot can step q [] a = True"
| "batches head laid foot can step q ((m, rs) # bs) a =
     (batch head laid foot can step m q rs a \<and>
      batches head laid foot can step (advance (length rs) q) bs (fold step rs a))"

fun batch_rounds ::
  "(gmem \<Rightarrow> 's \<Rightarrow> (gmem \<times> 's) res option) \<Rightarrow> (gmem \<times> nat) list \<Rightarrow> 's \<Rightarrow> (gmem list \<times> 's) res option" where
  "batch_rounds f [] s = Some (Inr ([], s))"
| "batch_rounds f ((m, n) # bs) s =
     (case rounds f n m s of
        None \<Rightarrow> None
      | Some (Inl e) \<Rightarrow> Some (Inl e)
      | Some (Inr (m, s)) \<Rightarrow> map_option (\<lambda>r. and_then r (\<lambda>(ms, s). Inr (m # ms, s))) (batch_rounds f bs s))"

text \<open>What the driver finds after each batch: the answers, and the completions in order.\<close>

fun batches_done ::
  "(gmem \<Rightarrow> 'r \<Rightarrow> 'a \<Rightarrow> bool) \<Rightarrow> ('r \<Rightarrow> 'a \<Rightarrow> u32 \<times> u32) \<Rightarrow> ('r \<Rightarrow> 'a \<Rightarrow> 'a) \<Rightarrow>
   queue \<Rightarrow> (gmem \<times> 'r list) list \<Rightarrow> gmem list \<Rightarrow> 'a \<Rightarrow> bool" where
  "batches_done answered compl step q [] ms a = (ms = [])"
| "batches_done answered compl step q ((m, rs) # bs) ms a =
     (case ms of
        [] \<Rightarrow> False
      | m' # ms \<Rightarrow> along (answered m') step rs a \<and> used_run q (trace compl step rs a) m m' \<and>
          batches_done answered compl step q bs ms (fold step rs a))"

lemma batches_done_stays [simp]:
  "batches_done answered compl step (advance n q) bs ms a = batches_done answered compl step q bs ms a"
  by (induction bs arbitrary: ms a) (auto split: list.splits)

section \<open>The contract of a round\<close>

locale ring_service =
  fixes head :: "'r \<Rightarrow> u16"
    and laid :: "gmem \<Rightarrow> queue \<Rightarrow> 'r \<Rightarrow> bool"
    and foot :: "'r \<Rightarrow> buffers"
    and touched :: "'r \<Rightarrow> buffers"
    and can :: "'r \<Rightarrow> 'a \<Rightarrow> bool"
    and step :: "'r \<Rightarrow> 'a \<Rightarrow> 'a"
    and answered :: "gmem \<Rightarrow> 'r \<Rightarrow> 'a \<Rightarrow> bool"
    and compl :: "'r \<Rightarrow> 'a \<Rightarrow> u32 \<times> u32"
    and holds :: "queue \<Rightarrow> 'a \<Rightarrow> 's \<Rightarrow> bool"
    and round :: "gmem \<Rightarrow> 's \<Rightarrow> (gmem \<times> 's) res option"
  assumes touched_foot: "set (touched r) \<subseteq> set (foot r)"
    and laid_buffers: "laid m q r \<Longrightarrow> bufs_ok m q (foot r)"
    and laid_position: "laid m (q\<lparr>q_last_avail := l\<rparr>) r = laid m q r"
    and laid_same: "laid m q r \<Longrightarrow> same_requests q m m' \<Longrightarrow>
      (\<And>a n. (a, n) \<in> set (foot r) \<Longrightarrow> peek m' a (unat n) = peek m a (unat n)) \<Longrightarrow> laid m' q r"
    and answered_same: "answered m r a \<Longrightarrow>
      (\<And>b n. (b, n) \<in> set (foot r) \<Longrightarrow> peek m' b (unat n) = peek m b (unat n)) \<Longrightarrow> answered m' r a"
    and round_serves: "holds q a s \<Longrightarrow> queue_ok m q \<Longrightarrow> pending m q = head r # hs \<Longrightarrow> laid m q r \<Longrightarrow> can r a \<Longrightarrow>
      \<exists>m' s'. round m s = Some (Inr (m', s')) \<and> holds (q\<lparr>q_last_avail := q_last_avail q + 1\<rparr>) (step r a) s' \<and>
        same_requests q m m' \<and> used_step q (compl r a) m m' \<and> writes_only m q (touched r) m' \<and> answered m' r a"
begin

lemma laid_foot: "laid m q r \<Longrightarrow> (a, n) \<in> set (foot r) \<Longrightarrow> buffer_ok m q a (unat n)"
  using laid_buffers[of m q r] by (auto simp: bufs_ok_def list_all_iff)

lemma batch_tail:
  assumes "batch head laid foot can step m q (r # rs) a" "same_requests q m m1" "writes_only m q (touched r) m1"
  shows "batch head laid foot can step m1 (q\<lparr>q_last_avail := q_last_avail q + 1\<rparr>) rs (step r a)"
proof -
  have "laid m1 q s" if s: "s \<in> set rs" for s
  proof -
    have laid: "laid m q s" "all_apart (foot r) (foot s)" using assms(1) s by (auto simp: batch_defs list_all_iff)
    then show ?thesis
      using writes_only_elsewhere[OF assms(3) all_apart_subset[OF laid(2) touched_foot subset_refl]] laid_foot
      by (intro laid_same[OF laid(1) assms(2)]) blast
  qed
  then show ?thesis
    using assms(1,2) queue_next_pending(2)[of m q]
    by (simp add: batch_defs list_all_iff laid_position same_requests_ok[OF assms(2)]) (simp add: same_requests_def)
qed

lemma rest_apart:
  assumes "\<And>s. s \<in> set rs \<Longrightarrow> all_apart (foot r) (foot s)"
  shows "all_apart (concat (map touched rs)) (foot r)"
proof -
  have "all_apart (touched s) (foot r)" if "s \<in> set rs" for s
    using all_apart_subset[OF all_apart_sym[OF assms[OF that]] touched_foot subset_refl] .
  then show ?thesis by (auto simp: all_apart_def list_all_iff)
qed

lemma serves_batch_at:
  "holds q a s \<Longrightarrow> batch head laid foot can step m q rs a \<Longrightarrow>
   \<exists>m' s'. rounds round (length rs) m s = Some (Inr (m', s')) \<and> holds (advance (length rs) q) (fold step rs a) s' \<and>
     queue_ok m' (advance (length rs) q) \<and> pending m' (advance (length rs) q) = [] \<and> along (answered m') step rs a \<and>
     used_run q (trace compl step rs a) m m' \<and> writes_only m q (concat (map touched rs)) m'"
proof (induction rs arbitrary: q a s m)
  case Nil
  then show ?case by (auto simp: batch_defs)
next
  case (Cons r rs)
  have pre: "queue_ok m q" "pending m q = head r # map head rs" "laid m q r" "can r a" "Suc (length rs) \<le> unat (q_size q)"
    "\<And>s. s \<in> set rs \<Longrightarrow> all_apart (foot r) (foot s)"
    using Cons.prems(2) by (simp_all add: batch_defs)
  from round_serves[OF Cons.prems(1) pre(1-4)] obtain m1 s1 where
    one: "round m s = Some (Inr (m1, s1))" "holds (q\<lparr>q_last_avail := q_last_avail q + 1\<rparr>) (step r a) s1"
      "same_requests q m m1" "used_step q (compl r a) m m1" "writes_only m q (touched r) m1" "answered m1 r a"
    by blast
  from Cons.IH[OF one(2) batch_tail[OF Cons.prems(2) one(3,5)]] obtain m' s' where
    rest: "rounds round (length rs) m1 s1 = Some (Inr (m', s'))"
      "holds (advance (Suc (length rs)) q) (fold step rs (step r a)) s'"
      "queue_ok m' (advance (Suc (length rs)) q)" "pending m' (advance (Suc (length rs)) q) = []" "along (answered m') step rs (step r a)"
      "used_run q (trace compl step rs (step r a)) m1 m'" "writes_only m1 q (concat (map touched rs)) m'"
    by auto
  have "peek m' b (unat n) = peek m1 b (unat n)" if "(b, n) \<in> set (foot r)" for b n
    using laid_foot[OF pre(3) that]
    by (intro writes_only_elsewhere[OF rest(7) rest_apart[OF pre(6)] that]) (simp_all add: same_requests_ok[OF one(3)])
  then have "answered m' r a" by (rule answered_same[OF one(6)])
  moreover have "used_run q (trace compl step (r # rs) a) m m'"
    using used_run_Cons[OF pre(1) one(4) rest(6)] pre(5) by simp
  moreover have "writes_only m q (concat (map touched (r # rs))) m'"
    using writes_only_trans[OF one(5) rest(7) one(3)] by simp
  ultimately show ?case
    using rest one(1) by auto
qed

lemma serves_batch:
  assumes "holds q a s" "batch head laid foot can step m q rs a"
  shows "\<exists>m' s' q'. rounds round (length rs) m s = Some (Inr (m', s')) \<and> holds q' (fold step rs a) s' \<and>
     queue_ok m' q' \<and> pending m' q' = [] \<and> along (answered m') step rs a \<and> used_run q (trace compl step rs a) m m'"
  using serves_batch_at[OF assms] by blast

lemma serves_batches:
  "holds q a s \<Longrightarrow> batches head laid foot can step q bs a \<Longrightarrow>
   \<exists>ms s' q'. batch_rounds round (map (\<lambda>(m, rs). (m, length rs)) bs) s = Some (Inr (ms, s')) \<and>
     holds q' (fold step (concat (map snd bs)) a) s' \<and> batches_done answered compl step q bs ms a"
proof (induction bs arbitrary: q a s)
  case (Cons b bs)
  obtain m rs where b: "b = (m, rs)" by (cases b)
  from Cons.prems(2) have ok: "batch head laid foot can step m q rs a"
    "batches head laid foot can step (advance (length rs) q) bs (fold step rs a)" by (simp_all add: b)
  from serves_batch_at[OF Cons.prems(1) ok(1)] obtain m' s1 where
    one: "rounds round (length rs) m s = Some (Inr (m', s1))" "holds (advance (length rs) q) (fold step rs a) s1"
      "along (answered m') step rs a" "used_run q (trace compl step rs a) m m'"
    by blast
  from Cons.IH[OF one(2) ok(2)] obtain ms s' q' where
    "batch_rounds round (map (\<lambda>(m, rs). (m, length rs)) bs) s1 = Some (Inr (ms, s'))"
    "holds q' (fold step (concat (map snd bs)) (fold step rs a)) s'"
    "batches_done answered compl step q bs ms (fold step rs a)"
    by auto
  with one show ?case by (intro exI[of _ "m' # ms"] exI[of _ s'] exI[of _ q']) (simp add: b)
qed auto

end

end
