(* ===== verification/Virtio_Driver.thy ===== *)
theory Virtio_Driver
  imports Vmm_Threads Ring_Service
begin

text \<open>
  The virtio devices as a driver in the guest meets them, through the exits of \<^verbatim>\<open>run_cpu\<close>, the
  bus, the register window, the rings in guest memory and the threads of the devices. A driver
  sets a queue up with stores to the registers, fills the rings with plain stores to its memory
  (which cause no exit) and learns of completions from the rings and the interrupt line.
\<close>

section \<open>Register accesses as exits\<close>

text \<open>The kernel hands over eight bytes of data with every MMIO exit; four are used.\<close>

definition mmio_store :: "u64 \<Rightarrow> u32 \<Rightarrow> kvm_exit" where
  "mmio_store addr w = KVM_EXIT_MMIO
     \<lparr>mm_phys_addr = addr, mm_data = le_bytes 4 w @ replicate 4 0, mm_len = 4, mm_is_write = True\<rparr>"

definition mmio_load :: "u64 \<Rightarrow> u8 list \<Rightarrow> kvm_exit" where
  "mmio_load addr bs = KVM_EXIT_MMIO
     \<lparr>mm_phys_addr = addr, mm_data = bs @ replicate 4 0, mm_len = 4, mm_is_write = False\<rparr>"

text \<open>Exits one after the other, as the loop of \<^verbatim>\<open>run_cpu\<close> handles them.\<close>

fun serve_exits :: "kvm_exit list \<Rightarrow> machine \<Rightarrow> machine res" where
  "serve_exits [] v = Inr v"
| "serve_exits (x # xs) v =
     and_then (handle_exit x v) (\<lambda>(r, _, v). case r of None \<Rightarrow> serve_exits xs v | Some _ \<Rightarrow> Inr v)"

definition register_stores :: "u64 \<Rightarrow> (u64 \<times> u32) list \<Rightarrow> kvm_exit list" where
  "register_stores base ws = map (\<lambda>(off, w). mmio_store (base + off) w) ws"

text \<open>The queue a driver asks for with \<open>queue_setup\<close>.\<close>

definition queue_of :: "u32 \<Rightarrow> u64 \<Rightarrow> u64 \<Rightarrow> u64 \<Rightarrow> queue" where
  "queue_of sz desc avail used =
     \<lparr>q_size = sz, q_desc_addr = desc, q_avail_addr = avail, q_used_addr = used,
      q_notify = 0, q_last_avail = 0, q_ready = True\<rparr>"

text \<open>Several rounds of a device's thread, one after the other.\<close>

fun device_rounds :: "nat \<Rightarrow> bool \<Rightarrow> nat \<Rightarrow> machine \<Rightarrow> machine res option" where
  "device_rounds 0 rx i v = Some (Inr v)"
| "device_rounds (Suc n) rx i v =
     (case device_round rx i v of
        Some (Inr v) \<Rightarrow> device_rounds n rx i v
      | r \<Rightarrow> r)"

text \<open>Between two batches of rounds the guest changes its memory: to \<open>m\<close>, before the next \<open>n\<close> rounds. The
  result carries the memory after each batch.\<close>

fun device_batches :: "bool \<Rightarrow> nat \<Rightarrow> (gmem \<times> nat) list \<Rightarrow> machine \<Rightarrow> (gmem list \<times> machine) res option" where
  "device_batches rx i [] v = Some (Inr ([], v))"
| "device_batches rx i ((m, n) # bs) v =
     (case device_rounds n rx i (v\<lparr>vm_memory := m\<rparr>) of
        None \<Rightarrow> None
      | Some (Inl e) \<Rightarrow> Some (Inl e)
      | Some (Inr v) \<Rightarrow>
          map_option (\<lambda>r. and_then r (\<lambda>(ms, v'). Inr (vm_memory v # ms, v'))) (device_batches rx i bs v))"

section \<open>The bus at rest\<close>

text \<open>
  After every MMIO exit the bus lets each device work. Disk and network device do nothing then;
  the entropy device does nothing as long as its queue is not ready.
\<close>

definition at_rest :: "(vio \<times> interrupt) mmio_slot \<Rightarrow> bool" where
  "at_rest s = (case fst (ms_state s) of
     Vrng d \<Rightarrow> (case q_cur d of Inl e \<Rightarrow> False | Inr q \<Rightarrow> \<not> q_ready q)
   | _ \<Rightarrow> True)"

lemma q_cur_same:
  assumes "q_cur d = Inr q"
  shows "q_cur_update (\<lambda>_. q) d = Inr d"
proof -
  have "unat (vd_queue_index d) < length (vd_queues d)"
    using assms by (cases "unat (vd_queue_index d) < length (vd_queues d)") (simp_all add: q_cur_def)
  with assms show ?thesis by (cases d) (auto simp: q_cur_update_def q_cur_def)
qed

lemma update_at_rest: "at_rest s \<Longrightarrow> vio_update m (ms_state s) = Inr (m, ms_state s)"
proof -
  assume rest: "at_rest s"
  obtain dev irq where st: "ms_state s = (dev, irq)" by (cases "ms_state s")
  show ?thesis
  proof (cases dev)
    case (Vrng d)
    with rest st obtain q where "q_cur d = Inr q" "\<not> q_ready q"
      by (auto simp: at_rest_def split: sum.splits)
    then show ?thesis
      by (simp add: st Vrng on_rng_def rng_update_def queue_next_def q_cur_same)
  qed (simp_all add: st on_blk_def on_net_def blk_class_def blk_update_def net_class_def net_update_def)
qed

lemma bus_at_rest: "list_all at_rest ss \<Longrightarrow> mmio_update vio_update m ss = Inr (m, ss)"
  by (induction ss) (simp_all add: update_at_rest)

text \<open>What the interrupt handler of the device at \<open>base\<close> meets on a machine whose line for it is high.\<close>

definition interrupt_handled :: "u64 \<Rightarrow> machine \<Rightarrow> bool" where
  "interrupt_handled base v \<longleftrightarrow>
     (let status = mmio_load (base + VIRTIO_MMIO_INTERRUPT_STATUS) in
      handle_exit (status [0, 0, 0, 0]) v = Inr (None, status [1, 0, 0, 0], v) \<and>
      (\<exists>x v'. handle_exit (mmio_store (base + VIRTIO_MMIO_INTERRUPT_ACK) 1) v = Inr (None, x, v') \<and>
         handle_exit (status [0, 0, 0, 0]) v' = Inr (None, status [0, 0, 0, 0], v')))"

section \<open>A device behind the bus\<close>

text \<open>
  How a kind of virtio device sits on the bus: \<open>inj\<close> wraps its state, its registers are those of
  \<open>c\<close>; disk and network device do their work elsewhere.
\<close>

locale wrapped_device =
  fixes c :: "'a vdev_scheme virtio_class"
    and inj :: "'a vdev_scheme \<Rightarrow> vio"
  assumes inj_read: "vio_read off sz (inj d, irq) =
      and_then (holder_read c off sz (d, irq)) (\<lambda>(buf, d, irq). Inr (buf, inj d, irq))"
    and inj_write: "vio_write bs off sz (inj d, irq) =
      and_then (holder_write c bs off sz (d, irq)) (\<lambda>(d, irq). Inr (inj d, irq))"

begin

definition placed :: "nat \<Rightarrow> u64 \<Rightarrow> 'a vdev_scheme \<Rightarrow> interrupt \<Rightarrow> machine \<Rightarrow> bool" where
  "placed i base d irq v \<longleftrightarrow>
     i < length (vm_mmio v) \<and> windows_ok (vm_mmio v) \<and> unat base + 0x1000 < 18446744073709551616 \<and>
     vm_mmio v ! i = \<lparr>ms_window = \<lparr>io_addr = base, io_width = 0x1000\<rparr>, ms_state = (inj d, irq)\<rparr>"

definition with_device :: "nat \<Rightarrow> 'a vdev_scheme \<Rightarrow> interrupt \<Rightarrow> machine \<Rightarrow> machine" where
  "with_device i d irq v =
     v\<lparr>vm_mmio := (vm_mmio v)[i := (vm_mmio v ! i)\<lparr>ms_state := (inj d, irq)\<rparr>]\<rparr>"

lemma in_window:
  assumes "unat base + 0x1000 < 18446744073709551616" "off < 0x100"
  shows "in_range \<lparr>io_addr = base, io_width = 0x1000\<rparr> (base + off)"
    and "offset \<lparr>io_addr = base, io_width = 0x1000\<rparr> (base + off) = off"
proof -
  have "unat off < 256" using assms(2) by (simp add: word_less_nat_alt)
  with assms(1) have "unat (base + off) = unat base + unat off"
    "unat (base + 0x1000) = unat base + 0x1000" by (simp_all add: unat_add_no_wrap)
  with \<open>unat off < 256\<close> show "in_range \<lparr>io_addr = base, io_width = 0x1000\<rparr> (base + off)"
    by (simp add: in_range_def word_le_nat_alt word_less_nat_alt)
qed (simp add: offset_def)

lemma placed_with_device:
  assumes "placed i base d irq v"
  shows "placed i base d' irq' (with_device i d' irq' v)"
proof -
  have "map ms_window ((vm_mmio v)[i := (vm_mmio v ! i)\<lparr>ms_state := x\<rparr>]) = map ms_window (vm_mmio v)" for x
    by (simp add: map_update list_update_same_conv assms[unfolded placed_def])
  with assms windows_ok_same[OF this] show ?thesis by (simp add: placed_def with_device_def)
qed

lemma with_device_same: "placed i base d irq v \<Longrightarrow> with_device i d irq v = v"
  by (cases v) (auto simp: placed_def with_device_def list_update_same_conv)

lemma with_device_twice [simp]: "with_device i d irq (with_device i d' irq' v) = with_device i d irq v"
  by (cases "i < length (vm_mmio v)") (simp_all add: with_device_def list_update_beyond)

lemma with_device_memory [simp]:
  "vm_memory (with_device i d irq v) = vm_memory v"
  "with_device i d irq (v\<lparr>vm_memory := m\<rparr>) = (with_device i d irq v)\<lparr>vm_memory := m\<rparr>"
  "placed i base d irq (v\<lparr>vm_memory := m\<rparr>) = placed i base d irq v"
  by (simp_all add: with_device_def placed_def)

text \<open>A store to a register is the register write of the device of that window, a load its value;
  after either the bus is updated.\<close>

lemma store_updates:
  assumes "placed i base d irq v" "off < 0x100"
  shows "handle_exit (mmio_store (base + off) w) v =
    and_then (reg_write off w (d, irq)) (\<lambda>(d, irq).
    and_then (mmio_update vio_update (vm_memory v) (vm_mmio (with_device i d irq v))) (\<lambda>(m, ss).
      Inr (None, mmio_store (base + off) w, v\<lparr>vm_memory := m, vm_mmio := ss\<rparr>)))"
proof -
  have b: "unat base + 0x1000 < 18446744073709551616" "i < length (vm_mmio v)" "windows_ok (vm_mmio v)"
    and s: "vm_mmio v ! i = \<lparr>ms_window = \<lparr>io_addr = base, io_width = 0x1000\<rparr>, ms_state = (inj d, irq)\<rparr>"
    using assms(1) by (simp_all add: placed_def)
  have off: "\<not> VIRTIO_MMIO_CONFIG \<le> off" using assms(2) by (simp add: mmio_regs not_le)
  have bs: "buf_read (le_bytes 4 w @ replicate 4 0) 0 4 = (Inr (le_bytes 4 w) :: u8 list res)"
    by (subst buf_read_4) simp_all
  have hit: "mmio_write vio_write (le_bytes 4 w @ replicate 4 0) (base + off) 4 (vm_mmio v) =
      and_then (reg_write off w (d, irq)) (\<lambda>(d, irq). Inr (vm_mmio (with_device i d irq v)))"
    using in_window[OF b(1) assms(2)]
    by (subst mmio_write_hit[OF b(3,2)]) (simp_all add: s inj_write holder_write_def bs off with_device_def
        and_then_assoc case_prod_beta cong: and_then_cong)
  show ?thesis
    by (cases "reg_write off w (d, irq)")
       (auto simp: mmio_store_def handle_mmio_def hit and_then_assoc case_prod_beta cong: and_then_cong)
qed

lemma load_updates:
  assumes "placed i base d irq v" "off < 0x100" "reg_read_value c off d irq = Inr (Some w)" "length bs = 4"
  shows "handle_exit (mmio_load (base + off) bs) v =
    and_then (mmio_update vio_update (vm_memory v) (vm_mmio v)) (\<lambda>(m, ss).
      Inr (None, mmio_load (base + off) (le_bytes 4 w), v\<lparr>vm_memory := m, vm_mmio := ss\<rparr>))"
proof -
  have b: "unat base + 0x1000 < 18446744073709551616" "i < length (vm_mmio v)" "windows_ok (vm_mmio v)"
    and s: "vm_mmio v ! i = \<lparr>ms_window = \<lparr>io_addr = base, io_width = 0x1000\<rparr>, ms_state = (inj d, irq)\<rparr>"
    using assms(1) by (simp_all add: placed_def)
  have off: "\<not> VIRTIO_MMIO_CONFIG \<le> off" using assms(2) by (simp add: mmio_regs not_le)
  have rd: "holder_read c off 4 (d, irq) = Inr (le_bytes 4 w, d, irq)"
    using off by (simp add: holder_read_def assms(3) buf_write_fits)
  have hit: "mmio_read vio_read (base + off) 4 (vm_mmio v) = Inr (le_bytes 4 w, vm_mmio v)"
    using in_window[OF b(1) assms(2)] b(2)
    by (subst mmio_read_hit[OF b(3,2)]) (simp_all add: s inj_read rd list_update_same_conv)
  have buf: "buf_write (bs @ replicate 4 0) 0 (le_bytes 4 w) = Inr (le_bytes 4 w @ replicate 4 0)"
    using assms(4) by (subst buf_write_fits) simp_all
  show ?thesis
    by (simp add: mmio_load_def handle_mmio_def hit buf and_then_assoc case_prod_beta cong: and_then_cong)
qed

lemma status_value: "reg_read_value c VIRTIO_MMIO_INTERRUPT_STATUS d irq = Inr (Some (if irq_state irq then 1 else 0))"
  and status_bytes: "le_bytes 4 (if s then 1 else 0 :: u32) = [if s then 1 else 0, 0, 0, 0]"
  and ack_write: "irq_state irq \<Longrightarrow> irq_fd_ok irq \<Longrightarrow>
    reg_write VIRTIO_MMIO_INTERRUPT_ACK 1 (d, irq) = Inr (d, irq\<lparr>irq_state := False\<rparr>)"
  by (simp_all add: reg_read_value_def irq_level_def level_def mmio_regs le_bytes_def upt_rec reg_write_def
      irq_ack_def set_level_def)

end

locale bus_device = wrapped_device +
  assumes inj_rest: "at_rest \<lparr>ms_window = w, ms_state = (inj d, irq)\<rparr>"
begin

definition sits :: "nat \<Rightarrow> u64 \<Rightarrow> 'a vdev_scheme \<Rightarrow> interrupt \<Rightarrow> machine \<Rightarrow> bool" where
  "sits i base d irq v \<longleftrightarrow> placed i base d irq v \<and> list_all at_rest (vm_mmio v)"

lemma sits_with_device:
  assumes "sits i base d irq v"
  shows "sits i base d' irq' (with_device i d' irq' v)"
proof -
  have "at_rest ((vm_mmio v ! i)\<lparr>ms_state := (inj d', irq')\<rparr>)"
    using inj_rest[of "ms_window (vm_mmio v ! i)"] by (simp add: at_rest_def)
  then have "list_all at_rest (vm_mmio (with_device i d' irq' v))"
    using assms by (auto simp: sits_def placed_def with_device_def list_all_length nth_list_update)
  with placed_with_device[of i base d irq v] assms show ?thesis by (simp add: sits_def)
qed

lemma sits_memory [simp]: "sits i base d irq (v\<lparr>vm_memory := m\<rparr>) = sits i base d irq v"
  by (simp add: sits_def)

lemma sits_same: "sits i base d irq v \<Longrightarrow> with_device i d irq v = v"
  using with_device_same[of i base d irq v] by (simp add: sits_def)

lemma store_exit:
  assumes "sits i base d irq v" "off < 0x100"
  shows "handle_exit (mmio_store (base + off) w) v =
    and_then (reg_write off w (d, irq)) (\<lambda>(d, irq). Inr (None, mmio_store (base + off) w, with_device i d irq v))"
proof -
  have rest: "mmio_update vio_update m (vm_mmio (with_device i d' irq' v)) = Inr (m, vm_mmio (with_device i d' irq' v))"
    for m d' irq' using sits_with_device[OF assms(1)] by (intro bus_at_rest) (simp add: sits_def)
  have same: "v\<lparr>vm_mmio := vm_mmio (with_device i d' irq' v)\<rparr> = with_device i d' irq' v"
    for d' irq' by (cases v) (simp add: with_device_def)
  have "placed i base d irq v" using assms(1) by (simp add: sits_def)
  from store_updates[OF this assms(2)] show ?thesis
    by (cases "reg_write off w (d, irq)") (auto simp: rest same)
qed

lemma load_exit:
  assumes "sits i base d irq v" "off < 0x100" "reg_read_value c off d irq = Inr (Some w)" "length bs = 4"
  shows "handle_exit (mmio_load (base + off) bs) v = Inr (None, mmio_load (base + off) (le_bytes 4 w), v)"
proof -
  have "placed i base d irq v" "list_all at_rest (vm_mmio v)" using assms(1) by (simp_all add: sits_def)
  from load_updates[OF this(1) assms(2-4)] bus_at_rest[OF this(2)] show ?thesis by simp
qed

lemma serve_stores:
  "sits i base d irq v \<Longrightarrow> list_all (\<lambda>(off, w). off < 0x100) ws \<Longrightarrow>
   serve_exits (register_stores base ws) v =
     and_then (reg_writes ws (d, irq)) (\<lambda>(d, irq). Inr (with_device i d irq v))"
proof (induction ws arbitrary: d irq v)
  case Nil
  then show ?case using sits_same by (simp add: register_stores_def)
next
  case (Cons ow ws)
  obtain off w where ow: "ow = (off, w)" by (cases ow)
  have off: "off < 0x100" using Cons.prems(2) ow by simp
  show ?case
  proof (cases "reg_write off w (d, irq)")
    case (Inr r)
    obtain d1 irq1 where r: "r = (d1, irq1)" by (cases r)
    have "serve_exits (register_stores base ws) (with_device i d1 irq1 v) =
        and_then (reg_writes ws (d1, irq1)) (\<lambda>(d, irq). Inr (with_device i d irq v))"
      using Cons.IH[OF sits_with_device[OF Cons.prems(1), of d1 irq1]] Cons.prems(2) by simp
    then show ?thesis
      using store_exit[OF Cons.prems(1) off] Inr r ow by (simp add: register_stores_def)
  qed (use store_exit[OF Cons.prems(1) off] ow in \<open>simp add: register_stores_def\<close>)
qed

text \<open>Setting a queue up through the bus, from the state the constructor left.\<close>

lemma serve_queue_setup:
  assumes "sits i base d irq v" "unat k < length (vd_queues d)" "vd_queues d ! unat k = queue_new"
  shows "serve_exits (register_stores base (queue_setup k sz desc avail used)) v =
    Inr (with_device i (d\<lparr>vd_queue_index := k,
      vd_queues := (vd_queues d)[unat k := queue_of sz desc avail used]\<rparr>) irq v)"
proof -
  have "list_all (\<lambda>(off, w). off < 0x100) (queue_setup k sz desc avail used)"
    by (simp add: queue_setup_def mmio_regs)
  from serve_stores[OF assms(1) this] queue_setup_effect[OF assms(2)] assms(3) show ?thesis
    by (simp add: set_up_def queue_new_def queue_of_def)
qed

text \<open>The driver's interrupt handler: the status reads 1 while the line is high, the
  acknowledgement lowers it, and the status then reads 0.\<close>

lemma status_exit:
  assumes "sits i base d irq v"
  shows "handle_exit (mmio_load (base + VIRTIO_MMIO_INTERRUPT_STATUS) [0, 0, 0, 0]) v =
    Inr (None, mmio_load (base + VIRTIO_MMIO_INTERRUPT_STATUS) [if irq_state irq then 1 else 0, 0, 0, 0], v)"
  using load_exit[OF assms _ status_value] by (simp add: mmio_regs status_bytes)

lemma interrupt_handler:
  assumes "sits i base d irq v" "irq_state irq" "irq_fd_ok irq"
  shows "interrupt_handled base v"
proof -
  from ack_write[OF assms(2,3)] store_exit[OF assms(1), of VIRTIO_MMIO_INTERRUPT_ACK 1] have
    "handle_exit (mmio_store (base + VIRTIO_MMIO_INTERRUPT_ACK) 1) v =
      Inr (None, mmio_store (base + VIRTIO_MMIO_INTERRUPT_ACK) 1, with_device i d (irq\<lparr>irq_state := False\<rparr>) v)"
    by (simp add: mmio_regs)
  with status_exit[OF assms(1)] status_exit[OF sits_with_device[OF assms(1)], of d "irq\<lparr>irq_state := False\<rparr>"]
  show ?thesis using assms(2) by (auto simp: interrupt_handled_def)
qed

text \<open>A round of one of the device's threads.\<close>

lemma round_on_bus:
  assumes "sits i base d irq v" "vio_round rx m (inj d, irq) = Some (Inr (m', inj d', irq'))"
  shows "\<exists>v2. device_round rx i (v\<lparr>vm_memory := m\<rparr>) = Some (Inr v2) \<and>
    sits i base d' irq' v2 \<and> vm_memory v2 = m'"
proof -
  let ?v2 = "(with_device i d' irq' v)\<lparr>vm_memory := m'\<rparr>"
  have "device_round rx i (v\<lparr>vm_memory := m\<rparr>) = Some (Inr ?v2)"
    using assms by (cases v) (simp add: sits_def placed_def device_round_def with_device_def)
  moreover have "sits i base d' irq' ?v2" using sits_with_device[OF assms(1)] by simp
  ultimately show ?thesis by auto
qed

lemma rounds_on_bus:
  assumes "\<And>m d irq m' d' irq'. rnd m (d, irq) = Some (Inr (m', d', irq')) \<Longrightarrow>
      vio_round rx m (inj d, irq) = Some (Inr (m', inj d', irq'))"
  shows "sits i base d irq v \<Longrightarrow> rounds rnd n (vm_memory v) (d, irq) = Some (Inr (m', d', irq')) \<Longrightarrow>
    \<exists>v2. device_rounds n rx i v = Some (Inr v2) \<and> sits i base d' irq' v2 \<and> vm_memory v2 = m'"
proof (induction n arbitrary: d irq v)
  case (Suc n)
  then obtain m1 d1 irq1 where one: "rnd (vm_memory v) (d, irq) = Some (Inr (m1, d1, irq1))"
    and rest: "rounds rnd n m1 (d1, irq1) = Some (Inr (m', d', irq'))"
    by (auto split: option.splits sum.splits)
  obtain v1 where "device_round rx i v = Some (Inr v1)" "sits i base d1 irq1 v1" "vm_memory v1 = m1"
    using round_on_bus[OF Suc.prems(1) assms[OF one]] by auto
  with Suc.IH[of d1 irq1 v1] rest show ?case by simp
qed simp

lemma batches_on_bus:
  assumes "\<And>m d irq m' d' irq'. rnd m (d, irq) = Some (Inr (m', d', irq')) \<Longrightarrow>
      vio_round rx m (inj d, irq) = Some (Inr (m', inj d', irq'))"
  shows "sits i base d irq v \<Longrightarrow> batch_rounds rnd bs (d, irq) = Some (Inr (ms, d', irq')) \<Longrightarrow>
    \<exists>v2. device_batches rx i bs v = Some (Inr (ms, v2)) \<and> sits i base d' irq' v2"
proof (induction bs arbitrary: d irq v ms)
  case (Cons b bs)
  obtain m n where b: "b = (m, n)" by (cases b)
  from Cons.prems(2) obtain m1 d1 irq1 ms' where one: "rounds rnd n m (d, irq) = Some (Inr (m1, d1, irq1))"
    and rest: "batch_rounds rnd bs (d1, irq1) = Some (Inr (ms', d', irq'))" "ms = m1 # ms'"
    by (auto simp: b split: option.splits sum.splits)
  have "\<exists>v1. device_rounds n rx i (v\<lparr>vm_memory := m\<rparr>) = Some (Inr v1) \<and> sits i base d1 irq1 v1 \<and> vm_memory v1 = m1"
    by (rule rounds_on_bus[where rnd = rnd]) (use assms Cons.prems(1) one in simp_all)
  then obtain v1 where "device_rounds n rx i (v\<lparr>vm_memory := m\<rparr>) = Some (Inr v1)" "sits i base d1 irq1 v1"
    "vm_memory v1 = m1" by blast
  with Cons.IH[OF _ rest(1)] rest(2) show ?case by (fastforce simp: b)
qed simp

lemma sits_state: "sits i base d irq v \<Longrightarrow> ms_state (vm_mmio v ! i) = (inj d, irq)"
  by (simp add: sits_def placed_def)

end

interpretation disk_on_bus: bus_device blk_class Vblk
  by unfold_locales (simp_all add: on_blk_def at_rest_def)

interpretation net_on_bus: bus_device net_class Vnet
  by unfold_locales (simp_all add: on_net_def at_rest_def)

section \<open>The bus of the PC\<close>

lemma pc_bus_apart: "windows_ok (pc_bus env)"
  by (simp add: windows_ok_def pc_bus_def windows_apart_def less_Suc_eq nth_Cons')

lemma pc_bus_rest: "list_all at_rest (pc_bus env)"
  by (simp add: pc_bus_def at_rest_def rng_new_def vdev.extend_def vdev_new_def q_cur_def queue_new_def)

lemma pc_bus_disk:
  "vm_mmio v = pc_bus env \<Longrightarrow> be_disk env = Some disk \<Longrightarrow>
   disk_on_bus.sits 0 0xd0000000 (blk_new disk (be_blk env)) (interrupt_new 12 True) v"
  using pc_bus_apart[of env] pc_bus_rest[of env] by (simp add: disk_on_bus.sits_def disk_on_bus.placed_def) (simp add: pc_bus_def file_bytes_def)

lemma pc_bus_net:
  "vm_mmio v = pc_bus env \<Longrightarrow>
   net_on_bus.sits 2 0xd0002000 (net_new (be_tap env) (be_net env)) (interrupt_new 14 True) v"
  using pc_bus_apart[of env] pc_bus_rest[of env] by (simp add: net_on_bus.sits_def net_on_bus.placed_def) (simp add: pc_bus_def)

lemma new_devices:
  "vd_queues (blk_new disk junk) = [queue_new]" "blk_file (blk_new disk junk) = file_open disk"
  "vd_queues (net_new tap nj) = replicate 3 queue_new" "net_tap (net_new tap nj) = tap"
  by (simp_all add: blk_new_def net_new_def vdev.extend_def vdev_new_def)

text \<open>The devices with the queue the driver has set up, and the machine after it has.\<close>

definition disk_ready :: "u8 list \<Rightarrow> u8 list \<Rightarrow> queue \<Rightarrow> blk" where
  "disk_ready disk junk q = (blk_new disk junk)\<lparr>vd_queue_index := 0, vd_queues := [q]\<rparr>"

lemma disk_ready_fields:
  "q_cur (disk_ready disk junk q) = Inr q" "blk_file (disk_ready disk junk q) = file_open disk"
  by (simp_all add: disk_ready_def q_cur_def new_devices)

lemma disk_set_up:
  assumes "vm_mmio v = pc_bus env" "be_disk env = Some disk"
  shows "\<exists>v1. serve_exits (register_stores 0xd0000000 (queue_setup 0 sz desc avail used)) v = Inr v1 \<and>
    disk_on_bus.sits 0 0xd0000000 (disk_ready disk (be_blk env) (queue_of sz desc avail used)) (interrupt_new 12 True) v1"
  using disk_on_bus.serve_queue_setup[OF pc_bus_disk[OF assms], of 0] disk_on_bus.sits_with_device[OF pc_bus_disk[OF assms]]
  by (simp add: new_devices disk_ready_def)

definition net_ready :: "tap \<Rightarrow> u8 list \<Rightarrow> nat \<Rightarrow> queue \<Rightarrow> net" where
  "net_ready tap junk k q = (net_new tap junk)\<lparr>vd_queue_index := of_nat k, vd_queues := (replicate 3 queue_new)[k := q]\<rparr>"

lemma net_ready_fields:
  "k < 3 \<Longrightarrow> q_at (of_nat k) (net_ready tap junk k q) = Inr q" "net_tap (net_ready tap junk k q) = tap"
  "length (net_rx_buffer (net_ready tap junk k q)) = net_buffer_len"
  "length (net_tx_buffer (net_ready tap junk k q)) = net_buffer_len"
  by (auto simp: net_ready_def new_devices net_new_def vdev.extend_def unat_of_nat take_bit_nat_eq_self)

lemma net_set_up:
  assumes "vm_mmio v = pc_bus env" "k < 3"
  shows "\<exists>v1. serve_exits (register_stores 0xd0002000 (queue_setup (of_nat k) sz desc avail used)) v = Inr v1 \<and>
    net_on_bus.sits 2 0xd0002000 (net_ready (be_tap env) (be_net env) k (queue_of sz desc avail used))
      (interrupt_new 14 True) v1"
  using net_on_bus.serve_queue_setup[OF pc_bus_net[OF assms(1)], of "of_nat k"] assms(2)
    net_on_bus.sits_with_device[OF pc_bus_net[OF assms(1)]]
  by (simp add: new_devices net_ready_def unat_of_nat take_bit_nat_eq_self)

section \<open>Properties\<close>

text \<open>C7: A disk read, end to end: on the machine as \<^verbatim>\<open>start\<close> builds it the driver sets up the queue of
  the disk with nine stores to its registers, prepares any memory with a read request in its rings,
  and the next round of the disk's thread fills the request's buffers with the bytes of the disk
  file and completes it; when the driver asked for an interrupt its handler finds the status 1, and
  acknowledging it lowers the line.\<close>

theorem guest_reads_disk:
  assumes "vm_mmio v = pc_bus env" "be_disk env = Some disk" "q = queue_of sz desc avail used"
    and "queue_ok m q" "pending m q = h # hs" "request_at m q h VIRTIO_BLK_T_IN sector bufs st"
    and "0 \<le> sint (sector * 512)" "unat (sector * 512) + total_len bufs \<le> length disk"
    and "event_mem m q"
  shows "\<exists>v1 v2. serve_exits (register_stores 0xd0000000 (queue_setup 0 sz desc avail used)) v = Inr v1 \<and>
    device_round rx 0 (v1\<lparr>vm_memory := m\<rparr>) = Some (Inr v2) \<and>
    gather (vm_memory v2) bufs = take (total_len bufs) (drop (unat (sector * 512)) disk) \<and>
    served m (vm_memory v2) q h bufs (desc_addr_at m q st) \<and>
    (event_reached m q (vm_memory v2) \<longrightarrow> interrupt_handled 0xd0000000 v2)"
proof -
  let ?d = "disk_ready disk (be_blk env) q" and ?irq = "interrupt_new 12 True"
  obtain v1 where v1: "serve_exits (register_stores 0xd0000000 (queue_setup 0 sz desc avail used)) v = Inr v1"
    and s1: "disk_on_bus.sits 0 0xd0000000 ?d ?irq v1"
    using disk_set_up[OF assms(1,2)] assms(3) by blast
  have "\<exists>m' d' irq'. blk_round m (?d, ?irq) = Some (Inr (m', d', irq')) \<and>
      gather m' bufs = take (total_len bufs) (drop (unat (sector * 512)) disk) \<and>
      served m m' q h bufs (desc_addr_at m q st) \<and> irq_fd_ok irq' \<and> irq_state irq' = event_reached m q m'"
    using blk_read_round[where d = ?d and irq = ?irq, OF disk_ready_fields(1) assms(4-6) _ assms(7) _ assms(9)] assms(8)
    by (fastforce simp: disk_ready_fields file_open_def)
  then obtain m' d' irq' where r: "blk_round m (?d, ?irq) = Some (Inr (m', d', irq'))"
      "gather m' bufs = take (total_len bufs) (drop (unat (sector * 512)) disk)"
      "served m m' q h bufs (desc_addr_at m q st)" "irq_fd_ok irq'" "irq_state irq' = event_reached m q m'"
    by blast
  then show ?thesis
    using disk_on_bus.round_on_bus[OF s1, of rx m m' d' irq'] disk_on_bus.interrupt_handler v1 by fastforce
qed

text \<open>A disk write, end to end: after the same set-up through its registers, the next round of
  the disk's thread puts exactly the bytes of a write request's buffers into the disk file, from
  \<open>sector * 512\<close> on and nowhere else, completes the request with status OK, and interrupts a driver
  that asked for it.\<close>

theorem guest_writes_disk:
  assumes "vm_mmio v = pc_bus env" "be_disk env = Some disk" "q = queue_of sz desc avail used"
    and "queue_ok m q" "pending m q = h # hs" "request_at m q h VIRTIO_BLK_T_OUT sector bufs st"
    and "0 \<le> sint (sector * 512)" "event_mem m q"
  shows "\<exists>v1 v2 d irq. serve_exits (register_stores 0xd0000000 (queue_setup 0 sz desc avail used)) v = Inr v1 \<and>
    device_round rx 0 (v1\<lparr>vm_memory := m\<rparr>) = Some (Inr v2) \<and>
    ms_state (vm_mmio v2 ! 0) = (Vblk d, irq) \<and>
    fs_data (blk_file d) = splice (unat (sector * 512)) (gather m bufs) disk \<and>
    served m (vm_memory v2) q h bufs (desc_addr_at m q st) \<and>
    (event_reached m q (vm_memory v2) \<longrightarrow> interrupt_handled 0xd0000000 v2)"
proof -
  let ?d = "disk_ready disk (be_blk env) q" and ?irq = "interrupt_new 12 True"
  obtain v1 where v1: "serve_exits (register_stores 0xd0000000 (queue_setup 0 sz desc avail used)) v = Inr v1"
    and s1: "disk_on_bus.sits 0 0xd0000000 ?d ?irq v1"
    using disk_set_up[OF assms(1,2)] assms(3) by blast
  have "\<exists>m' d' irq'. blk_round m (?d, ?irq) = Some (Inr (m', d', irq')) \<and>
      fs_data (blk_file d') = splice (unat (sector * 512)) (gather m bufs) disk \<and>
      served m m' q h bufs (desc_addr_at m q st) \<and> irq_fd_ok irq' \<and> irq_state irq' = event_reached m q m'"
    using blk_write_round[where d = ?d and irq = ?irq, OF disk_ready_fields(1) assms(4-6) _ assms(7,8)]
    by (fastforce simp: disk_ready_fields file_open_def)
  then obtain m' d' irq' where r: "blk_round m (?d, ?irq) = Some (Inr (m', d', irq'))"
      "fs_data (blk_file d') = splice (unat (sector * 512)) (gather m bufs) disk"
      "served m m' q h bufs (desc_addr_at m q st)" "irq_fd_ok irq'" "irq_state irq' = event_reached m q m'"
    by blast
  moreover obtain v2 where "device_round rx 0 (v1\<lparr>vm_memory := m\<rparr>) = Some (Inr v2)"
      "disk_on_bus.sits 0 0xd0000000 d' irq' v2" "vm_memory v2 = m'"
    using disk_on_bus.round_on_bus[OF s1, of rx m m' d' irq'] r(1) by auto
  ultimately show ?thesis
    using v1 disk_on_bus.interrupt_handler disk_on_bus.sits_state by blast
qed

text \<open>A frame sent, end to end: the driver sets up the transmit queue of the network device through
  its registers and publishes a chain; the next round of the transmitting thread writes exactly the
  bytes of the chain to the tap as one frame, completes the chain and interrupts the guest.\<close>

theorem guest_sends_frame:
  assumes "vm_mmio v = pc_bus env" "q = queue_of sz desc avail used"
    and "queue_ok m q" "pending m q = h # hs" "frame_at m q h bufs" "bufs_in m bufs"
    and "total_len bufs \<le> net_buffer_len" "tap_writes (be_tap env) = ret # rets" "0 \<le> ret"
  shows "\<exists>v1 v2 d irq. serve_exits (register_stores 0xd0002000 (queue_setup 1 sz desc avail used)) v = Inr v1 \<and>
    device_round False 2 (v1\<lparr>vm_memory := m\<rparr>) = Some (Inr v2) \<and>
    ms_state (vm_mmio v2 ! 2) = (Vnet d, irq) \<and> tap_sent (net_tap d) = tap_sent (be_tap env) @ [gather m bufs] \<and>
    completed m (vm_memory v2) q h (word_of_int ret) \<and> interrupt_handled 0xd0002000 v2"
proof -
  let ?d = "net_ready (be_tap env) (be_net env) 1 q" and ?irq = "interrupt_new 14 True"
  obtain v1 where v1: "serve_exits (register_stores 0xd0002000 (queue_setup 1 sz desc avail used)) v = Inr v1"
    and s1: "net_on_bus.sits 2 0xd0002000 ?d ?irq v1"
    using net_set_up[OF assms(1), of 1 sz desc avail used] assms(2) by auto
  have q: "q_at tx_queue ?d = Inr q" using net_ready_fields(1)[of 1] by (simp add: tx_queue_def)
  have "tap_writes (net_tap ?d) = ret # rets" "irq_fd_ok ?irq"
    using assms(8) by (simp_all add: net_ready_fields)
  from net_tx_round[OF net_ready_fields(4) q assms(3-7) this(1) assms(9) this(2)] obtain m' d' irq' where
    r: "run_tx m (?d, ?irq) = Some (Inr (m', d', irq'))" "irq_state irq'" "irq_fd_ok irq'"
      "tap_sent (net_tap d') = tap_sent (be_tap env) @ [gather m bufs]" "completed m m' q h (word_of_int ret)"
    by (auto simp: net_ready_fields)
  moreover obtain v2 where "device_round False 2 (v1\<lparr>vm_memory := m\<rparr>) = Some (Inr v2)"
      "net_on_bus.sits 2 0xd0002000 d' irq' v2" "vm_memory v2 = m'"
    using net_on_bus.round_on_bus[OF s1, of False m m' d' irq'] r(1) by auto
  ultimately show ?thesis
    using v1 net_on_bus.interrupt_handler net_on_bus.sits_state by blast
qed

text \<open>A frame received, end to end: the driver sets up the receive queue through its registers and
  publishes a chain of empty buffers; when a frame is waiting at the tap, the next round of the
  receiving thread fills the buffers with its bytes in order (a chain too short gets the part that
  fits), reports how many there are and interrupts the guest.\<close>

theorem guest_receives_frame:
  assumes "vm_mmio v = pc_bus env" "q = queue_of sz desc avail used"
    and "queue_ok m q" "pending m q = h # hs" "frame_at m q h bufs" "bufs_ok m q bufs" "bufs_apart bufs"
    and "tap_polls (be_tap env) = (1, NET_POLLIN) # ps" "tap_reads (be_tap env) = Some frame # rs"
    and "length frame \<le> net_buffer_len"
  shows "\<exists>v1 v2. serve_exits (register_stores 0xd0002000 (queue_setup 0 sz desc avail used)) v = Inr v1 \<and>
    device_round True 2 (v1\<lparr>vm_memory := m\<rparr>) = Some (Inr v2) \<and>
    (let n = min (length frame) (total_len bufs) in
     take n (gather (vm_memory v2) bufs) = take n frame \<and> completed m (vm_memory v2) q h (of_nat n)) \<and>
    interrupt_handled 0xd0002000 v2"
proof -
  let ?d = "net_ready (be_tap env) (be_net env) 0 q" and ?irq = "interrupt_new 14 True"
  obtain v1 where v1: "serve_exits (register_stores 0xd0002000 (queue_setup 0 sz desc avail used)) v = Inr v1"
    and s1: "net_on_bus.sits 2 0xd0002000 ?d ?irq v1"
    using net_set_up[OF assms(1), of 0 sz desc avail used] assms(2) by auto
  have q: "q_at rx_queue ?d = Inr q" using net_ready_fields(1)[of 0] by (simp add: rx_queue_def)
  have "tap_polls (net_tap ?d) = (1, NET_POLLIN) # ps" "tap_reads (net_tap ?d) = Some frame # rs" "irq_fd_ok ?irq"
    using assms(8,9) by (simp_all add: net_ready_fields)
  from net_rx_round[OF net_ready_fields(3) q assms(3-7) this(1,2) assms(10) this(3)] obtain m' d' irq' where
    r: "run_rx m (?d, ?irq) = Some (Inr (m', d', irq'))" "irq_state irq'" "irq_fd_ok irq'"
      "let n = min (length frame) (total_len bufs) in take n (gather m' bufs) = take n frame \<and> completed m m' q h (of_nat n)"
    by blast
  moreover obtain v2 where "device_round True 2 (v1\<lparr>vm_memory := m\<rparr>) = Some (Inr v2)"
      "net_on_bus.sits 2 0xd0002000 d' irq' v2" "vm_memory v2 = m'"
    using net_on_bus.round_on_bus[OF s1, of True m m' d' irq'] r(1) by auto
  ultimately show ?thesis
    using v1 net_on_bus.interrupt_handler by blast
qed

section \<open>Examples\<close>

definition demo_bus :: "boot_env \<Rightarrow> machine" where
  "demo_bus env = demo_fresh\<lparr>vm_mmio := pc_bus env\<rparr>"

lemma demo_queue_of: "demo_queue = queue_of 4 0 64 128"
  by (simp add: demo_queue_def queue_of_def)

theorem guest_reads_disk_witness:
  "\<exists>v1 v2. serve_exits (register_stores 0xd0000000 (queue_setup 0 4 0 64 128))
       (demo_bus (demo_env\<lparr>be_disk := Some [1, 2, 3, 4]\<rparr>)) = Inr v1 \<and>
     device_round True 0 (v1\<lparr>vm_memory := blk_demo_mem 0\<rparr>) = Some (Inr v2) \<and>
     gather (vm_memory v2) [(1024, 2)] = [1, 2]"
proof -
  let ?env = "demo_env\<lparr>be_disk := Some [1, 2, 3, 4]\<rparr>"
  have bus: "vm_mmio (demo_bus ?env) = pc_bus ?env" by (simp add: demo_bus_def)
  have disk: "be_disk ?env = Some [1, 2, 3, 4]" by simp
  have r: "request_at (blk_demo_mem 0) demo_queue 0 VIRTIO_BLK_T_IN 0 [(1024, 2)] 2"
    using blk_demo_request[of 0] by (simp add: VIRTIO_BLK_T_IN_def)
  have fits: "0 \<le> sint ((0 :: u64) * 512)"
    "unat ((0 :: u64) * 512) + total_len [(1024, 2)] \<le> length [1 :: u8, 2, 3, 4]" by simp_all
  have bytes: "take (total_len [(1024, 2)]) (drop (unat ((0 :: u64) * 512)) [1, 2, 3, 4 :: u8]) = [1, 2]" by simp
  from guest_reads_disk[OF bus disk demo_queue_of blk_demo_facts(2,3) r fits blk_demo_facts(4), of True]
  show ?thesis unfolding bytes by blast
qed

theorem guest_writes_disk_witness:
  "\<exists>v1 v2 d irq. serve_exits (register_stores 0xd0000000 (queue_setup 0 4 0 64 128))
       (demo_bus (demo_env\<lparr>be_disk := Some [1, 2, 3, 4]\<rparr>)) = Inr v1 \<and>
     device_round True 0 (v1\<lparr>vm_memory := blk_demo_mem 1\<rparr>) = Some (Inr v2) \<and>
     ms_state (vm_mmio v2 ! 0) = (Vblk d, irq) \<and> fs_data (blk_file d) = [11, 22, 3, 4]"
proof -
  let ?env = "demo_env\<lparr>be_disk := Some [1, 2, 3, 4]\<rparr>"
  have bus: "vm_mmio (demo_bus ?env) = pc_bus ?env" by (simp add: demo_bus_def)
  have disk: "be_disk ?env = Some [1, 2, 3, 4]" by simp
  have r: "request_at (blk_demo_mem 1) demo_queue 0 VIRTIO_BLK_T_OUT 0 [(1024, 2)] 2"
    using blk_demo_request[of 1] by (simp add: VIRTIO_BLK_T_OUT_def)
  have pos: "0 \<le> sint ((0 :: u64) * 512)" by simp
  have bytes: "splice (unat ((0 :: u64) * 512)) (gather (blk_demo_mem 1) [(1024, 2)]) [1, 2, 3, 4] = [11, 22, 3, 4]"
    by (simp add: peek_def blk_demo_mem_def upt_rec splice_def)
  from guest_writes_disk[OF bus disk demo_queue_of blk_demo_facts(2,3) r pos blk_demo_facts(4), of True]
  show ?thesis unfolding bytes by blast
qed

theorem guest_sends_frame_witness:
  "\<exists>v1 v2 d irq. serve_exits (register_stores 0xd0002000 (queue_setup 1 4 0 64 128))
       (demo_bus (demo_env\<lparr>be_tap := net_demo_tap\<rparr>)) = Inr v1 \<and>
     device_round False 2 (v1\<lparr>vm_memory := net_demo_mem\<rparr>) = Some (Inr v2) \<and>
     ms_state (vm_mmio v2 ! 2) = (Vnet d, irq) \<and> tap_sent (net_tap d) = [[5, 6, 7]]"
proof -
  let ?env = "demo_env\<lparr>be_tap := net_demo_tap\<rparr>"
  have bus: "vm_mmio (demo_bus ?env) = pc_bus ?env" by (simp add: demo_bus_def)
  have tap: "tap_writes (be_tap ?env) = 3 # []" "tap_sent (be_tap ?env) = []" by (simp_all add: net_demo_tap_def)
  have fits: "total_len [(1024, 2), (1280, 1)] \<le> net_buffer_len" by (simp add: net_buffer_len_def)
  from guest_sends_frame[OF bus demo_queue_of net_demo_mem_facts(1-3) bufs_ok_in[OF net_demo_mem_facts(4)] fits
      tap(1)] show ?thesis
    unfolding net_demo_mem_facts(6) tap(2) by fastforce
qed

theorem guest_receives_frame_witness:
  "\<exists>v1 v2. serve_exits (register_stores 0xd0002000 (queue_setup 0 4 0 64 128))
       (demo_bus (demo_env\<lparr>be_tap := net_demo_tap\<rparr>)) = Inr v1 \<and>
     device_round True 2 (v1\<lparr>vm_memory := net_demo_mem\<rparr>) = Some (Inr v2) \<and>
     gather (vm_memory v2) [(1024, 2), (1280, 1)] = [8, 9, 10]"
proof -
  let ?env = "demo_env\<lparr>be_tap := net_demo_tap\<rparr>"
  have bus: "vm_mmio (demo_bus ?env) = pc_bus ?env" by (simp add: demo_bus_def)
  have tap: "tap_polls (be_tap ?env) = (1, NET_POLLIN) # []" "tap_reads (be_tap ?env) = Some [8, 9, 10] # []"
    "length [8, 9, 10 :: u8] \<le> net_buffer_len"
    by (simp_all add: net_demo_tap_def net_buffer_len_def)
  from guest_receives_frame[OF bus demo_queue_of net_demo_mem_facts(1-5) tap] show ?thesis
    by (fastforce simp: Let_def)
qed

end
