(* ===== verification/Vm_Teardown.thy ===== *)
theory Vm_Teardown
  imports Machine_Shape Vmm
begin

text \<open>
  The end of a machine: \<^verbatim>\<open>vm::~vm\<close> (\<^verbatim>\<open>src/kvm/vm.h\<close>) with the destructors it runs, \<^verbatim>\<open>~mmio\<close>,
  \<^verbatim>\<open>~mmio_device_holder\<close> (\<^verbatim>\<open>virtio/mmio.h\<close>), \<^verbatim>\<open>~blk\<close>, \<^verbatim>\<open>~net\<close> and \<^verbatim>\<open>~queue_device\<close>, against the
  threads of the devices. \<open>down_step\<close> interleaves the destructor with these threads; a round of a
  device thread is one step, as in \<open>vmm_step\<close>.
\<close>

section \<open>Threads and destructor\<close>

text \<open>
  The threads a device starts in its constructor, by the queue side they serve: the disk one, the
  network device one for transmitting and one for receiving, in the order they are joined.
\<close>

fun vio_threads :: "vio \<Rightarrow> bool list" where
  "vio_threads (Vblk d) = [False]"
| "vio_threads (Vrng d) = []"
| "vio_threads (Vnet d) = [False, True]"

text \<open>
  A thread is before the test of \<^verbatim>\<open>should_run\<close>, inside a round, or has returned. The destructor is
  about to destroy a device, waits for the threads of a device it has told to stop, or has unmapped
  the memory.
\<close>

datatype thread_pc = Thread_top | Thread_in_round | Thread_done
datatype down_pc = Destroys nat | Joins nat | Unmapped

record vm_down =
  dn_machine :: machine
  dn_should_run :: "bool list"
  dn_threads :: "thread_pc list list"
  dn_main :: down_pc

abbreviation at_thread :: "vm_down \<Rightarrow> nat \<Rightarrow> nat \<Rightarrow> thread_pc \<Rightarrow> bool" where
  "at_thread s i j p \<equiv> i < length (dn_threads s) \<and> j < length (dn_threads s ! i) \<and> dn_threads s ! i ! j = p"

definition thread_goes :: "nat \<Rightarrow> nat \<Rightarrow> thread_pc \<Rightarrow> vm_down \<Rightarrow> vm_down" where
  "thread_goes i j p s = s\<lparr>dn_threads := (dn_threads s)[i := (dn_threads s ! i)[j := p]]\<rparr>"

definition thread_round :: "vm_down \<Rightarrow> nat \<Rightarrow> nat \<Rightarrow> machine res option" where
  "thread_round s i j =
     device_round (vio_threads (fst (ms_state (vm_mmio (dn_machine s) ! i))) ! j) i (dn_machine s)"

text \<open>The state in which \<^verbatim>\<open>~vm\<close> begins; the threads are wherever they are.\<close>

definition down_start :: "machine \<Rightarrow> thread_pc list list \<Rightarrow> vm_down" where
  "down_start v ps = \<lparr>dn_machine = v\<lparr>vm_should_run := False\<rparr>,
     dn_should_run = replicate (length (vm_mmio v)) True, dn_threads = ps, dn_main = Destroys 0\<rparr>"

inductive down_step :: "vm_down \<Rightarrow> vm_down \<Rightarrow> bool" where
  thread_enters: "at_thread s i j Thread_top \<Longrightarrow> dn_should_run s ! i \<Longrightarrow>
    down_step s (thread_goes i j Thread_in_round s)"
| thread_works: "at_thread s i j Thread_in_round \<Longrightarrow> thread_round s i j = Some (Inr v) \<Longrightarrow>
    down_step s (thread_goes i j Thread_top (s\<lparr>dn_machine := v\<rparr>))"
| thread_leaves: "at_thread s i j Thread_top \<Longrightarrow> \<not> dn_should_run s ! i \<Longrightarrow>
    down_step s (thread_goes i j Thread_done s)"
| device_told: "dn_main s = Destroys i \<Longrightarrow> i < length (dn_should_run s) \<Longrightarrow>
    down_step s (s\<lparr>dn_should_run := (dn_should_run s)[i := False], dn_main := Joins i\<rparr>)"
| device_joined: "dn_main s = Joins i \<Longrightarrow> \<forall>p \<in> set (dn_threads s ! i). p = Thread_done \<Longrightarrow>
    down_step s (s\<lparr>dn_main := Destroys (Suc i)\<rparr>)"
| memory_unmapped: "dn_main s = Destroys i \<Longrightarrow> i = length (dn_should_run s) \<Longrightarrow>
    down_step s (s\<lparr>dn_machine := vm_close (dn_machine s), dn_main := Unmapped\<rparr>)"

inductive_cases down_stepE: "down_step s s'"

abbreviation down_steps :: "vm_down \<Rightarrow> vm_down \<Rightarrow> bool" where
  "down_steps \<equiv> down_step\<^sup>*\<^sup>*"

section \<open>The order of destruction\<close>

text \<open>The number of devices whose threads have been joined, and of those told to stop.\<close>

fun joined_devices :: "nat \<Rightarrow> down_pc \<Rightarrow> nat" where
  "joined_devices n (Destroys i) = i"
| "joined_devices n (Joins i) = i"
| "joined_devices n Unmapped = n"

fun told_devices :: "nat \<Rightarrow> down_pc \<Rightarrow> nat" where
  "told_devices n (Destroys i) = i"
| "told_devices n (Joins i) = Suc i"
| "told_devices n Unmapped = n"

definition all_done :: "thread_pc list \<Rightarrow> bool" where
  "all_done ps \<longleftrightarrow> (\<forall>p \<in> set ps. p = Thread_done)"

definition down_inv :: "u64 \<Rightarrow> nat \<Rightarrow> vm_down \<Rightarrow> bool" where
  "down_inv bytes n s \<longleftrightarrow>
     length (dn_should_run s) = n \<and> length (dn_threads s) = n \<and>
     told_devices n (dn_main s) \<le> n \<and>
     (\<forall>i < n. dn_should_run s ! i = (told_devices n (dn_main s) \<le> i)) \<and>
     (\<forall>i < joined_devices n (dn_main s). all_done (dn_threads s ! i)) \<and>
     (dn_main s \<noteq> Unmapped \<longrightarrow>
        length (vm_mmio (dn_machine s)) = n \<and> gm_size (vm_memory (dn_machine s)) = bytes)"

lemma joined_le_told: "joined_devices n p \<le> told_devices n p"
  by (cases p) auto

lemma thread_goes_fields [simp]:
  "dn_machine (thread_goes i j p s) = dn_machine s" "dn_should_run (thread_goes i j p s) = dn_should_run s"
  "dn_main (thread_goes i j p s) = dn_main s"
  "dn_threads (thread_goes i j p s) = (dn_threads s)[i := (dn_threads s ! i)[j := p]]"
  by (simp_all add: thread_goes_def)

text \<open>A thread that has not returned belongs to a device that has not been joined.\<close>

lemma running_thread_not_joined:
  assumes "down_inv bytes n s" "at_thread s i j p" "p \<noteq> Thread_done"
  shows "joined_devices n (dn_main s) \<le> i" "i < n" "dn_main s \<noteq> Unmapped"
proof -
  show i: "i < n" using assms(1,2) by (simp add: down_inv_def)
  have "\<not> all_done (dn_threads s ! i)"
    using assms(2,3) nth_mem by (fastforce simp: all_done_def)
  then show j: "joined_devices n (dn_main s) \<le> i"
    using assms(1) by (force simp: down_inv_def not_less[symmetric])
  then show "dn_main s \<noteq> Unmapped" using i by auto
qed

lemma down_inv_thread:
  assumes "down_inv bytes n s" "at_thread s i j p" "p \<noteq> Thread_done"
    and "length (vm_mmio v) = n" "gm_size (vm_memory v) = bytes"
  shows "down_inv bytes n (thread_goes i j p' (s\<lparr>dn_machine := v\<rparr>))"
  using assms running_thread_not_joined[OF assms(1-3)]
  by (auto simp: down_inv_def nth_list_update)

lemma thread_round_shape:
  "thread_round s i j = Some (Inr v) \<Longrightarrow> i < length (vm_mmio (dn_machine s)) \<Longrightarrow>
   length (vm_mmio v) = length (vm_mmio (dn_machine s)) \<and> gm_size (vm_memory v) = gm_size (vm_memory (dn_machine s))"
  using device_round_shape[of _ i "dn_machine s" v]
  by (fastforce simp: thread_round_def machine_shape_def bus_shape_def dest: map_eq_imp_length_eq)

lemma down_step_inv: "down_step s s' \<Longrightarrow> down_inv bytes n s \<Longrightarrow> down_inv bytes n s'"
proof (induction rule: down_step.induct)
  case (thread_enters s i j)
  from down_inv_thread[OF this(3,1), of "dn_machine s"] running_thread_not_joined[OF this(3,1)] this(3)
  show ?case by (simp add: down_inv_def)
next
  case (thread_works s i j v)
  note r = running_thread_not_joined[OF thread_works(3,1)]
  with thread_works(3) have "length (vm_mmio (dn_machine s)) = n" "gm_size (vm_memory (dn_machine s)) = bytes"
    by (simp_all add: down_inv_def)
  with thread_round_shape[OF thread_works(2)] r(2) show ?case
    by (intro down_inv_thread[OF thread_works(3,1)]) simp_all
next
  case (thread_leaves s i j)
  from down_inv_thread[OF this(3,1), of "dn_machine s"] running_thread_not_joined[OF this(3,1)] this(3)
  show ?case by (simp add: down_inv_def)
next
  case (device_told s i)
  then show ?case by (auto simp: down_inv_def nth_list_update)
next
  case (device_joined s i)
  then show ?case by (auto simp: down_inv_def all_done_def less_Suc_eq)
next
  case (memory_unmapped s i)
  then show ?case by (auto simp: down_inv_def)
qed

lemma down_steps_inv: "down_steps s s' \<Longrightarrow> down_inv bytes n s \<Longrightarrow> down_inv bytes n s'"
  by (induction rule: rtranclp_induct) (auto dest: down_step_inv)

lemma down_start_inv:
  "length ps = length (vm_mmio v) \<Longrightarrow> down_inv (gm_size (vm_memory v)) (length (vm_mmio v)) (down_start v ps)"
  by (simp add: down_inv_def down_start_def)

section \<open>Progress\<close>

text \<open>What the destructor still has to wait for: the devices ahead, and how far the threads of the
  device it joins are from their return.\<close>

fun thread_left :: "thread_pc \<Rightarrow> nat" where
  "thread_left Thread_in_round = 2"
| "thread_left Thread_top = 1"
| "thread_left Thread_done = 0"

definition threads_left :: "thread_pc list \<Rightarrow> nat" where
  "threads_left ps = sum_list (map thread_left ps)"

fun main_left :: "nat \<Rightarrow> down_pc \<Rightarrow> nat" where
  "main_left n (Destroys i) = 2 * (n - i) + 1"
| "main_left n (Joins i) = 2 * (n - i)"
| "main_left n Unmapped = 0"

definition joining_left :: "vm_down \<Rightarrow> nat" where
  "joining_left s = (case dn_main s of Joins i \<Rightarrow> threads_left (dn_threads s ! i) | _ \<Rightarrow> 0)"

definition rounds_end :: "vm_down \<Rightarrow> bool" where
  "rounds_end s \<longleftrightarrow>
     (\<forall>i < length (dn_threads s). \<forall>j < length (dn_threads s ! i).
        dn_threads s ! i ! j = Thread_in_round \<longrightarrow> (\<exists>v. thread_round s i j = Some (Inr v)))"

lemma threads_left_update:
  "j < length ps \<Longrightarrow> thread_left p < thread_left (ps ! j) \<Longrightarrow> threads_left (ps[j := p]) < threads_left ps"
proof (induction ps arbitrary: j)
  case (Cons q ps)
  then show ?case by (cases j) (auto simp: threads_left_def)
qed simp

definition down_order :: "nat \<Rightarrow> (vm_down \<times> vm_down) set" where
  "down_order n = inv_image (less_than <*lex*> less_than) (\<lambda>s. (main_left n (dn_main s), joining_left s))"

lemma wf_down_order: "wf (down_order n)"
  by (auto simp: down_order_def)

lemma down_orderI:
  "main_left n (dn_main s') < main_left n (dn_main s) \<Longrightarrow> (s', s) \<in> down_order n"
  "dn_main s' = dn_main s \<Longrightarrow> joining_left s' < joining_left s \<Longrightarrow> (s', s) \<in> down_order n"
  by (simp_all add: down_order_def)

text \<open>While a device is joined, one of its threads moves towards its return.\<close>

lemma joined_thread_moves:
  assumes "down_inv bytes n s" "rounds_end s" "dn_main s = Joins i" "\<not> all_done (dn_threads s ! i)"
  shows "\<exists>s'. down_step s s' \<and> (s', s) \<in> down_order n"
proof -
  have i: "i < length (dn_threads s)" "\<not> dn_should_run s ! i"
    using assms(1,3) by (auto simp: down_inv_def)
  obtain j where j: "j < length (dn_threads s ! i)" "dn_threads s ! i ! j \<noteq> Thread_done"
    using assms(4) by (auto simp: all_done_def in_set_conv_nth)
  have left: "joining_left (thread_goes i j p (s\<lparr>dn_machine := v\<rparr>)) < joining_left s"
    if "thread_left p < thread_left (dn_threads s ! i ! j)" for p v
    using threads_left_update[OF j(1) that] assms(3) i(1) by (simp add: joining_left_def)
  show ?thesis
  proof (cases "dn_threads s ! i ! j")
    case Thread_top
    then have "down_step s (thread_goes i j Thread_done s)" using i j by (intro thread_leaves) simp_all
    moreover have "(thread_goes i j Thread_done s, s) \<in> down_order n"
      using left[of Thread_done "dn_machine s"] Thread_top by (intro down_orderI(2)) simp_all
    ultimately show ?thesis by blast
  next
    case Thread_in_round
    then obtain v where v: "thread_round s i j = Some (Inr v)"
      using assms(2) i j by (auto simp: rounds_end_def)
    have "down_step s (thread_goes i j Thread_top (s\<lparr>dn_machine := v\<rparr>))"
      using i j Thread_in_round v by (intro thread_works) simp_all
    moreover have "(thread_goes i j Thread_top (s\<lparr>dn_machine := v\<rparr>), s) \<in> down_order n"
      using left[of Thread_top v] Thread_in_round by (intro down_orderI(2)) simp_all
    ultimately show ?thesis by blast
  qed (use j in simp)
qed

lemma destructor_advances:
  assumes "down_inv bytes n s" "rounds_end s" "dn_main s \<noteq> Unmapped"
  shows "\<exists>s'. down_step s s' \<and> (s', s) \<in> down_order n"
proof (cases "dn_main s")
  case (Destroys i)
  have n: "i \<le> n" "length (dn_should_run s) = n" using assms(1) Destroys by (simp_all add: down_inv_def)
  show ?thesis
  proof (cases "i < n")
    case True
    then show ?thesis using device_told[OF Destroys] n Destroys by (fastforce intro: down_orderI(1))
  next
    case False
    then show ?thesis using memory_unmapped[OF Destroys] n Destroys by (fastforce intro: down_orderI(1))
  qed
next
  case (Joins i)
  have i: "i < n" using assms(1) Joins by (simp add: down_inv_def)
  show ?thesis
  proof (cases "all_done (dn_threads s ! i)")
    case True
    then show ?thesis using device_joined[OF Joins] i Joins
      by (fastforce simp: all_done_def intro: down_orderI(1))
  qed (rule joined_thread_moves[OF assms(1,2) Joins])
qed (use assms(3) in simp)

lemma destruction_path:
  assumes "down_inv bytes n s" "\<And>s'. down_steps s s' \<Longrightarrow> rounds_end s'"
  shows "\<exists>s'. down_steps s s' \<and> dn_main s' = Unmapped"
  using wf_down_order[of n] assms
proof (induction s rule: wf_induct_rule)
  case (less s)
  show ?case
  proof (cases "dn_main s = Unmapped")
    case False
    obtain s1 where s1: "down_step s s1" "(s1, s) \<in> down_order n"
      using destructor_advances[OF less.prems(1) less.prems(2)[OF rtranclp.rtrancl_refl] False] by blast
    have "rounds_end s'" if "down_steps s1 s'" for s'
      using converse_rtranclp_into_rtranclp[of down_step, OF s1(1) that] by (rule less.prems(2))
    from less.IH[OF s1(2) down_step_inv[OF s1(1) less.prems(1)] this] show ?thesis
      using s1(1) by (meson converse_rtranclp_into_rtranclp)
  qed auto
qed

section \<open>Devices no driver has set up\<close>

text \<open>A round on a queue without memory finds nothing and changes nothing.\<close>

lemma idle_round:
  assumes "vm_mmio v = pc_bus env" "i < 3"
  shows "device_round rx i v = Some (Inr v)"
proof -
  have q: "queue_next m queue_new = Inr (None, queue_new)" for m by (simp add: queue_next_def queue_new_def)
  have new: "vd_queues (blk_new disk junk) = [queue_new]" "vd_queue_index (blk_new disk junk) = 0"
    "vd_queues (net_new tap nj) = replicate 3 queue_new" for disk junk tap nj
    by (simp_all add: blk_new_def net_new_def vdev.extend_def vdev_new_def)
  have same: "blk_new disk junk\<lparr>vd_queues := [queue_new]\<rparr> = blk_new disk junk" for disk junk
    by (simp add: blk_new_def vdev.extend_def vdev_new_def)
  have put_back: "v\<lparr>vm_mmio := pc_bus env\<rparr> = v" using assms(1) by (cases v) simp
  have "i = 0 \<or> i = 1 \<or> i = 2" using assms(2) by auto
  then show ?thesis
    by (elim disjE; cases rx)
       (simp_all add: assms(1) device_round_def pc_bus_def[of env] blk_round_def run_rx_def run_tx_def update_rx_def
        update_tx_def q_cur_def q_cur_update_def q new same rx_queue_def tx_queue_def
        put_back[unfolded pc_bus_def])
qed

lemma idle_reachable:
  assumes "vm_mmio v = pc_bus env" "length ps = 3" "down_steps (down_start v ps) s" "dn_main s \<noteq> Unmapped"
  shows "vm_mmio (dn_machine s) = pc_bus env"
proof -
  have n: "length (vm_mmio v) = 3" using assms(1) by (simp add: pc_bus_def)
  have inv0: "down_inv (gm_size (vm_memory v)) 3 (down_start v ps)"
    using down_start_inv[of ps v] n assms(2) by simp
  show ?thesis
    using assms(3,4)
  proof (induction rule: rtranclp_induct)
    case base
    then show ?case by (simp add: down_start_def assms(1))
  next
    case (step s s')
    have inv: "down_inv (gm_size (vm_memory v)) 3 s" by (rule down_steps_inv[OF step.hyps(1) inv0])
    from step.hyps(2) step.IH step.prems show ?case
    proof cases
      case (thread_works i j v')
      note r = running_thread_not_joined[OF inv thread_works(2)]
      then have "vm_mmio (dn_machine s) = pc_bus env" using step.IH by simp
      with r(2) thread_works(1,3) idle_round[of "dn_machine s" env i] step.IH show ?thesis
        by (simp add: thread_round_def)
    qed auto
  qed
qed

lemma idle_rounds_end:
  assumes "vm_mmio v = pc_bus env" "length ps = 3" "down_steps (down_start v ps) s"
  shows "rounds_end s"
  unfolding rounds_end_def
proof (intro allI impI)
  fix i j assume at: "i < length (dn_threads s)" "j < length (dn_threads s ! i)" "dn_threads s ! i ! j = Thread_in_round"
  have n: "length (vm_mmio v) = 3" using assms(1) by (simp add: pc_bus_def)
  have "down_inv (gm_size (vm_memory v)) 3 s"
    using down_steps_inv[OF assms(3) down_start_inv[of ps v, unfolded n, OF assms(2)]] .
  from running_thread_not_joined[OF this, of i j Thread_in_round] at
  have "i < 3" "dn_main s \<noteq> Unmapped" by simp_all
  with idle_round[OF idle_reachable[OF assms(1-3)]] show "\<exists>v. thread_round s i j = Some (Inr v)"
    by (simp add: thread_round_def)
qed

section \<open>Properties\<close>

text \<open>C28: Memory outlives the rounds: while the machine is destroyed, in any interleaving with the device
  threads, every thread that has not returned still finds the guest's memory mapped at its full size
  and its device on the bus; memory is unmapped only after the last thread has returned.\<close>

theorem memory_outlives_device_threads:
  assumes "length ps = length (vm_mmio v)" "down_steps (down_start v ps) s"
  shows "(at_thread s i j p \<and> p \<noteq> Thread_done \<longrightarrow>
      gm_size (vm_memory (dn_machine s)) = gm_size (vm_memory v) \<and> i < length (vm_mmio (dn_machine s))) \<and>
    (dn_main s = Unmapped \<longrightarrow> (\<forall>ps \<in> set (dn_threads s). all_done ps))"
proof -
  have inv: "down_inv (gm_size (vm_memory v)) (length (vm_mmio v)) s"
    using down_steps_inv[OF assms(2) down_start_inv[OF assms(1)]] .
  have "\<forall>ps \<in> set (dn_threads s). all_done ps" if "dn_main s = Unmapped"
    using inv that by (auto simp: down_inv_def in_set_conv_nth)
  moreover have "gm_size (vm_memory (dn_machine s)) = gm_size (vm_memory v) \<and> i < length (vm_mmio (dn_machine s))"
    if "at_thread s i j p" "p \<noteq> Thread_done"
    using running_thread_not_joined[OF inv that] inv by (simp add: down_inv_def)
  ultimately show ?thesis by blast
qed

text \<open>C29: Destruction completes: unless a round of a device thread never ends or fails, no interleaving
  of the destructor with the device threads leads to a state from which the end of the destructor
  cannot be reached.\<close>

theorem destruction_completes:
  assumes "length ps = length (vm_mmio v)" "\<And>s. down_steps (down_start v ps) s \<Longrightarrow> rounds_end s"
    and "down_steps (down_start v ps) s"
  shows "\<exists>s'. down_steps s s' \<and> dn_main s' = Unmapped"
proof (rule destruction_path[OF down_steps_inv[OF assms(3) down_start_inv[OF assms(1)]]])
  show "rounds_end s'" if "down_steps s s'" for s'
    using assms(2)[OF rtranclp_trans[OF assms(3) that]] .
qed

section \<open>Examples\<close>

definition demo_idle :: machine where
  "demo_idle = demo_fresh\<lparr>vm_mmio := pc_bus demo_env, vm_should_run := False\<rparr>"

lemma demo_idle_rounds_end:
  assumes "down_steps (down_start demo_idle [[Thread_in_round], [], [Thread_top, Thread_in_round]]) s"
  shows "rounds_end s"
  by (rule idle_rounds_end[OF _ _ assms, of demo_env]) (simp_all add: demo_idle_def)

text \<open>The destructor has told the first device to stop and waits for its thread, which is in a round.\<close>

theorem destruction_completes_witness:
  "\<exists>s s'. down_step (down_start demo_idle [[Thread_in_round], [], [Thread_top, Thread_in_round]]) s \<and>
     dn_main s = Joins 0 \<and> down_steps s s' \<and> dn_main s' = Unmapped"
proof -
  let ?s = "down_start demo_idle [[Thread_in_round], [], [Thread_top, Thread_in_round]]"
  let ?t = "?s\<lparr>dn_should_run := (dn_should_run ?s)[0 := False], dn_main := Joins 0\<rparr>"
  have n: "length [[Thread_in_round], [], [Thread_top, Thread_in_round]] = length (vm_mmio demo_idle)"
    by (simp add: demo_idle_def pc_bus_def)
  have step: "down_step ?s ?t"
    by (rule device_told) (simp_all add: down_start_def demo_idle_def pc_bus_def)
  from destruction_completes[OF n demo_idle_rounds_end r_into_rtranclp[of down_step, OF step]]
  obtain s' where s': "down_steps ?t s'" "dn_main s' = Unmapped" by blast
  have "dn_main ?t = Joins 0" by simp
  then show ?thesis using step s' by blast
qed

theorem memory_outlives_device_threads_witness:
  "\<exists>s. down_steps (down_start demo_idle [[Thread_in_round], [], [Thread_top, Thread_in_round]]) s \<and>
     dn_main s = Unmapped \<and> (\<forall>ps \<in> set (dn_threads s). all_done ps)"
proof -
  let ?ps = "[[Thread_in_round], [], [Thread_top, Thread_in_round]]"
  have n: "length ?ps = length (vm_mmio demo_idle)" by (simp add: demo_idle_def pc_bus_def)
  obtain s where s: "down_steps (down_start demo_idle ?ps) s" "dn_main s = Unmapped"
    using destruction_path[OF down_start_inv[OF n] demo_idle_rounds_end] by blast
  from memory_outlives_device_threads[OF n s(1)] s show ?thesis by blast
qed

end
