(* ===== verification/Vmm_Schedule.thy ===== *)
theory Vmm_Schedule
  imports Vmm_Threads
begin

text \<open>
  The running monitor as a program that a schedule drives: \<open>run_event\<close> computes the step of one
  thread of \<^verbatim>\<open>start\<close> (\<^verbatim>\<open>src/kvm/vmm.h\<close>), given which thread moves and, for a processor inside
  the guest, the exit the kernel reports. It is the same code as in the relation, in a form in which a
  rule about the driver's accesses can be stated of the events of a run. The relation \<open>vmm_step\<close> of
  theory Vmm_Threads leaves exactly these choices open.
\<close>

section \<open>Schedules\<close>

datatype event = Cpu_event nat kvm_exit | Device_event bool nat | Reader_event | Main_event

fun cpu_next :: "kvm_exit \<Rightarrow> cpu_pc \<Rightarrow> machine \<Rightarrow> (cpu_pc \<times> machine) option" where
  "cpu_next x Cpu_top v = Some (if vm_should_run v then Cpu_in_guest else Cpu_done 1, v)"
| "cpu_next x Cpu_in_guest v =
     (if exit_ok x then
        (case handle_exit x v of
           Inl e \<Rightarrow> None
         | Inr (r, x', v) \<Rightarrow> Some (case r of None \<Rightarrow> Cpu_top | Some n \<Rightarrow> Cpu_done n, v))
      else None)"
| "cpu_next x (Cpu_done n) v = None"

fun reader_next :: "bool \<Rightarrow> reader_pc \<Rightarrow> machine \<Rightarrow> (reader_pc \<times> machine) option" where
  "reader_next run Reader_top v = Some (if run then Reader_poll else Reader_done, v)"
| "reader_next run Reader_poll v =
     (case read_terminal v of
        Inl e \<Rightarrow> None
      | Inr (again, v) \<Rightarrow> Some (if again then Reader_top else Reader_done, v))"
| "reader_next run Reader_done v = None"

fun main_next :: "main_pc \<Rightarrow> vmm_run \<Rightarrow> vmm_run option" where
  "main_next Join_first s =
     (if cpu_finished (rn_cpus s ! 0)
      then Some (s\<lparr>rn_machine := stop (rn_machine s), rn_main := Join_rest\<rparr>) else None)"
| "main_next Join_rest s =
     (if list_all cpu_finished (rn_cpus s)
      then Some (s\<lparr>rn_run_terminal := False, rn_main := Join_reader\<rparr>) else None)"
| "main_next Join_reader s =
     (if rn_reader s = Reader_done then Some (s\<lparr>rn_main := Returned\<rparr>) else None)"
| "main_next Returned s = None"

fun run_event :: "event \<Rightarrow> vmm_run \<Rightarrow> vmm_run option" where
  "run_event (Cpu_event i x) s =
     (if i < length (rn_cpus s)
      then map_option (\<lambda>(p, v). cpu_goes i p v s) (cpu_next x (rn_cpus s ! i) (rn_machine s)) else None)"
| "run_event (Device_event rx i) s =
     (if i < length (vm_mmio (rn_machine s))
      then (case device_round rx i (rn_machine s) of
              Some (Inr v) \<Rightarrow> Some (s\<lparr>rn_machine := v\<rparr>) | _ \<Rightarrow> None) else None)"
| "run_event Reader_event s =
     map_option (\<lambda>(p, v). s\<lparr>rn_machine := v, rn_reader := p\<rparr>)
       (reader_next (rn_run_terminal s) (rn_reader s) (rn_machine s))"
| "run_event Main_event s = main_next (rn_main s) s"

fun run_schedule :: "event list \<Rightarrow> vmm_run \<Rightarrow> vmm_run option" where
  "run_schedule [] s = Some s"
| "run_schedule (e # es) s = (case run_event e s of None \<Rightarrow> None | Some s \<Rightarrow> run_schedule es s)"

section \<open>Steps and events\<close>

lemma step_event: "vmm_step s s' \<Longrightarrow> \<exists>e. run_event e s = Some s'"
proof (induction rule: vmm_step.induct)
  case (cpu_enters s i)
  then show ?case by (intro exI[of _ "Cpu_event i KVM_EXIT_INTR"]) simp
next
  case (cpu_is_stopped s i)
  then show ?case by (intro exI[of _ "Cpu_event i KVM_EXIT_INTR"]) simp
next
  case (cpu_exits s i x x' v)
  then show ?case by (intro exI[of _ "Cpu_event i x"]) simp
next
  case (cpu_returns s i x r x' v)
  then show ?case by (intro exI[of _ "Cpu_event i x"]) simp
next
  case (device_works i s rx v)
  then show ?case by (intro exI[of _ "Device_event rx i"]) simp
next
  case (reader_polls s)
  then show ?case by (intro exI[of _ Reader_event]) simp
next
  case (reader_leaves s)
  then show ?case by (intro exI[of _ Reader_event]) simp
next
  case (reader_reads s again v)
  then show ?case by (intro exI[of _ Reader_event]) simp
next
  case (main_stops s)
  then show ?case by (intro exI[of _ Main_event]) simp
next
  case (main_ends_reader s)
  then show ?case by (intro exI[of _ Main_event]) simp
next
  case (main_returns s)
  then show ?case by (intro exI[of _ Main_event]) simp
qed

lemma cpu_event_step:
  assumes "cpu_next x (rn_cpus s ! i) (rn_machine s) = Some (p, v)" "i < length (rn_cpus s)"
  shows "vmm_step s (cpu_goes i p v s)"
proof (cases "rn_cpus s ! i")
  case Cpu_top
  then show ?thesis
    using assms cpu_enters[of i s] cpu_is_stopped[of i s] by (auto split: if_splits)
next
  case Cpu_in_guest
  with assms(1) obtain r x' where "exit_ok x" "handle_exit x (rn_machine s) = Inr (r, x', v)"
    "p = (case r of None \<Rightarrow> Cpu_top | Some n \<Rightarrow> Cpu_done n)"
    by (auto split: if_splits sum.splits)
  then show ?thesis
    using Cpu_in_guest assms(2) cpu_exits[of i s x x' v] cpu_returns[of i s x _ x' v] by (cases r) auto
qed (use assms in simp)

lemma event_step: "run_event e s = Some s' \<Longrightarrow> vmm_step s s'"
proof (induction e s rule: run_event.induct)
  case (1 i x s)
  then show ?case using cpu_event_step by (auto split: if_splits)
next
  case (2 rx i s)
  then show ?case using device_works by (auto split: if_splits option.splits sum.splits)
next
  case (3 s)
  then show ?case
    using reader_polls[of s] reader_leaves[of s] reader_reads[of s]
    by (cases "rn_reader s") (auto split: if_splits sum.splits)
next
  case (4 s)
  then show ?case
    using main_stops[of s] main_ends_reader[of s] main_returns[of s]
    by (cases "rn_main s") (auto split: if_splits)
qed

lemma schedule_steps: "run_schedule es s = Some s' \<Longrightarrow> vmm_steps s s'"
proof (induction es arbitrary: s)
  case (Cons e es)
  then obtain t where "run_event e s = Some t" "run_schedule es t = Some s'" by (auto split: option.splits)
  with Cons.IH show ?case by (blast intro: converse_rtranclp_into_rtranclp event_step)
qed simp

section \<open>The same runs\<close>

text \<open>All that is open in a run of the monitor is whose turn it is and which exit the kernel reports:
  the states the threads can reach from a state are exactly the results of running the threads one
  event after the other, each event a function of the state.\<close>

lemma steps_are_schedules:
  "vmm_steps s s' = (\<exists>es. run_schedule es s = Some s')"
proof
  assume "vmm_steps s s'"
  then show "\<exists>es. run_schedule es s = Some s'"
  proof (induction rule: converse_rtranclp_induct)
    case base
    show ?case by (intro exI[of _ "[]"]) simp
  next
    case (step s t)
    then obtain e es where "run_event e s = Some t" "run_schedule es t = Some s'"
      using step_event by blast
    then show ?case by (intro exI[of _ "e # es"]) simp
  qed
next
  show "\<exists>es. run_schedule es s = Some s' \<Longrightarrow> vmm_steps s s'" using schedule_steps by blast
qed

end
