(* ===== verification/Program.thy ===== *)
theory Program
  imports Vmm_Schedule Vm_Teardown
begin

text \<open>
  \<^verbatim>\<open>src/main.cpp\<close> and the program as a whole: construction, set-up, the threads, the return of
  \<^verbatim>\<open>start\<close> and the destruction of the machine. The loop \<^verbatim>\<open>run_cpu\<close>, a function in theory Vm, is
  related to the steps of its thread in theory Vmm_Threads.
\<close>

section \<open>The entry\<close>

text \<open>
  The monitor is constructed and started; an exception of either ends the program. What the two
  file names denote is part of the environment.
\<close>

definition main_start ::
  "boot_env \<Rightarrow> int \<Rightarrow> u64 option \<Rightarrow> (nat \<Rightarrow> bool) \<Rightarrow> kvm_host \<Rightarrow> (vmm_run \<times> kvm_host) res" where
  "main_start env fd mmap mapped h =
     and_then (vmm_new fd mmap mapped h) (\<lambda>(k, v, h).
     and_then (start_setup env k v h) (\<lambda>(v, h).
     Inr (start_threads v, h)))"

section \<open>The loop of a processor and its thread\<close>

lemma run_retry_answer:
  "run_retry rs = Inr (x, as) \<Longrightarrow> \<exists>bs r e. rs = bs @ (r, e, x) # as"
proof (induction rs rule: run_retry.induct)
  case (2 r e y rs)
  show ?case
  proof (cases "r < 0 \<and> e = 11")
    case True
    with 2 obtain bs r' e' where "rs = bs @ (r', e', x) # as" by auto
    then show ?thesis by (metis append_Cons)
  next
    case False
    with 2(2) have "y = x" "rs = as" by (auto simp: ioctl_err_def split: if_splits)
    then show ?thesis by (metis append_Nil)
  qed
qed simp

definition exits_ok :: "int \<Rightarrow> kvm_host \<Rightarrow> bool" where
  "exits_ok fd h \<longleftrightarrow> (\<forall>(r, e, x) \<in> set (kh_runs h fd). exit_ok x)"

lemma vcpu_run_exit:
  assumes "vcpu_run fd False h = Inr (x, h')" "exits_ok fd h"
  shows "exit_ok x" "exits_ok fd h'"
proof -
  from assms(1) have r: "run_retry (kh_runs h fd) = Inr (x, kh_runs h' fd)"
    by (auto simp: vcpu_run_def)
  from run_retry_answer[OF r] assms(2) show "exit_ok x" "exits_ok fd h'"
    by (fastforce simp: exits_ok_def)+
qed

lemma cpu_goes_twice [simp]: "cpu_goes i p v (cpu_goes i q w s) = cpu_goes i p v s"
  by simp

lemma run_cpu_steps:
  assumes "run_cpu i False v h = Inr (r, ys, v', h')" "at_cpu s i Cpu_top" "rn_machine s = v"
    and "get_vcpu v i = Inr fd" "exits_ok fd h"
  shows "vmm_steps s (cpu_goes i (Cpu_done r) v' s)"
  using assms
proof (induction "length (kh_runs h fd)" arbitrary: v h ys s rule: less_induct)
  case less
  show ?case
  proof (cases "vm_should_run v")
    case False
    with less.prems have "r = 1" "v' = v" by (simp_all add: run_cpu.simps)
    moreover have "vmm_step s (cpu_goes i (Cpu_done 1) v s)"
      using cpu_is_stopped[of i s] less.prems(2,3) False by simp
    ultimately show ?thesis by simp
  next
    case True
    from less.prems(1,4) True obtain x h1 q x' v1 where x: "vcpu_run fd False h = Inr (x, h1)"
      "handle_exit x v = Inr (q, x', v1)"
      and rest: "case q of Some n \<Rightarrow> r = n \<and> v' = v1 | None \<Rightarrow> \<exists>zs. run_cpu i False v1 h1 = Inr (r, zs, v', h')"
      by (subst (asm) run_cpu.simps) (fastforce split: option.splits)
    note ok = vcpu_run_exit[OF x(1) less.prems(5)]
    let ?s1 = "cpu_goes i Cpu_in_guest v s"
    have s1: "vmm_step s ?s1" using cpu_enters[of i s] less.prems(2,3) True by simp
    have at: "at_cpu ?s1 i Cpu_in_guest" and m: "rn_machine ?s1 = v" using less.prems(2) by simp_all
    show ?thesis
    proof (cases q)
      case (Some n)
      then have "vmm_step ?s1 (cpu_goes i (Cpu_done r) v' ?s1)"
        using cpu_returns[OF at ok(1), of n x' v1] x(2) rest m by simp
      then show ?thesis using s1 by simp
    next
      case None
      then obtain zs where zs: "run_cpu i False v1 h1 = Inr (r, zs, v', h')" using rest by auto
      have s2: "vmm_step ?s1 (cpu_goes i Cpu_top v1 ?s1)"
        using cpu_exits[OF at ok(1), of x' v1] x(2) None m by simp
      have fd: "get_vcpu v1 i = Inr fd" using handle_exit_cpus[OF x(2)] less.prems(4) by (simp add: get_vcpu_def)
      have "vmm_steps s2 (cpu_goes i (Cpu_done r) v' s2)" if "at_cpu s2 i Cpu_top" "rn_machine s2 = v1" for s2
        using less.hyps[OF vcpu_run_shorter[OF x(1)] zs that fd ok(2)] .
      from this[of "cpu_goes i Cpu_top v1 s"] less.prems(2)
      have "vmm_steps (cpu_goes i Cpu_top v1 s) (cpu_goes i (Cpu_done r) v' s)" by simp
      then show ?thesis using s1 s2 by (simp add: converse_rtranclp_into_rtranclp)
    qed
  qed
qed

lemma plain_exit_ok: "plain_exit x \<Longrightarrow> exit_ok x"
  by (cases x) (simp_all add: exit_ok_def)

section \<open>A complete run\<close>

lemma new_uart_mcr [simp]: "u_mcr (new_uart env n) = 8"
  by (cases "be_uart env n") (simp add: new_uart_def uart_new_def)

lemma stop_fields [simp]:
  "vm_io_devices (stop v) = vm_io_devices v" "vm_mmio (stop v) = vm_mmio v" "vm_memory (stop v) = vm_memory v"
  by (simp_all add: stop_def)

lemma pc_console:
  assumes "env_ok env" "vm_io_devices v = pc_ports env" "vm_interrupts v = pc_lines"
  shows "console ttyS0 (new_uart env 0) (be_term env) v"
proof -
  have "i8042_inv (i8042_new (be_kbd env))" using assms(1) by (intro i8042_new_inv) (simp add: env_ok_def)
  then show ?thesis
    using pc_ports_ok(1)[OF assms] new_uart_inv[OF assms(1)]
    by (auto simp: console_def ttyS0_def assms(2) pc_ports_def nth_Cons' less_Suc_eq)
qed

lemma pc_console_output:
  assumes "env_ok env" "console_plain 0x3f8 False xs"
  shows "tx_bytes 8 (concat (map (exit_access (pc_ports env) ttyS0) xs)) = console_bytes 0x3f8 False False xs"
proof -
  have "port_windows_ok (pc_ports env)"
    by (simp add: pc_ports_def port_windows_ok_def windows_apart_def)
  then show ?thesis
    using console_bytes_sent[of "pc_ports env" ttyS0 "0x3f8" False xs 8] assms(2)
    by (simp add: pc_ports_def ttyS0_def MCR_LOOP_BIT_def)
qed

lemma start_threads_cpu: "at_cpu (start_threads v) 0 Cpu_top"
  by (simp add: start_threads_def CPU_COUNT_def)

text \<open>The threads from a processor's return to the return of \<^verbatim>\<open>start\<close>.\<close>

lemma halted_machine_returns:
  assumes "run_cpu 0 False v h = Inr (r, ys, v', h')" "get_vcpu v 0 = Inr fd" "exits_ok fd h"
  shows "\<exists>s. vmm_steps (start_threads v) s \<and> rn_main s = Returned \<and> rn_machine s = stop v'"
proof -
  let ?s = "cpu_goes 0 (Cpu_done r) v' (start_threads v)"
  have run: "vmm_steps (start_threads v) ?s"
    using run_cpu_steps[OF assms(1) start_threads_cpu _ assms(2,3)] by simp
  obtain s' where "vmm_steps ?s s'" "rn_main s' = Returned" "rn_machine s' = stop v'"
    using shutdown_path[of ?s r] by (force simp: start_threads_def CPU_COUNT_def dest!: set_update_subset_insert[THEN subsetD])
  then show ?thesis using rtranclp_trans[OF run] by blast
qed

lemma main_start_ok:
  assumes "creates f a b h rest" "0 \<le> fd" "21 \<le> length rest" "\<forall>r \<in> set rest. 0 \<le> fst r"
    and "env_ok env" "\<forall>cpu. length (kh_lapic h cpu) = 1024"
    and "be_kernel env = Some vmlinux" "kernel_ok vmlinux \<lparr>gm_size = 0x130000000, gm_byte = (\<lambda>_. 0)\<rparr>"
  shows "\<exists>v h'. main_start env fd (Some host_addr) (\<lambda>_. True) h = Inr (start_threads v, h') \<and>
    vm_io_devices v = pc_ports env \<and> vm_interrupts v = pc_lines \<and> vm_mmio v = pc_bus env \<and>
    vm_should_run v \<and> get_vcpu v 0 = Inr a \<and> kh_runs h' = kh_runs h"
proof -
  obtain k v h1 where new: "vmm_new fd (Some host_addr) (\<lambda>_. True) h = Inr (k, v, h1)" "fresh_machine a b v"
    "vm_memory v = \<lparr>gm_size = 0x130000000, gm_byte = (\<lambda>_. 0)\<rparr>" "kh_answers h1 = rest" "kh_lapic h1 = kh_lapic h"
    "kh_runs h1 = kh_runs h"
    using vmm_new_ok[OF assms(1,2)] by blast
  have w: "willing 21 h1" using assms(3,4) new(4) by (auto simp: willing_def dest: in_set_takeD)
  have lapic: "\<forall>cpu. length (kh_lapic h1 cpu) = 1024" using assms(6) new(5) by simp
  obtain m h2 where built: "start_setup env k v h1 =
      Inr (v\<lparr>vm_memory := m, vm_io_devices := pc_ports env, vm_interrupts := pc_lines, vm_mmio := pc_bus env\<rparr>, h2)"
    "kh_runs h2 = kh_runs h1"
    using start_setup_ok[OF w assms(5) new(2) lapic assms(7), unfolded new(3), OF assms(8), of k] by blast
  then show ?thesis
    using new(1,2,6) by (auto simp: main_start_def fresh_machine_def get_vcpu_def)
qed

section \<open>Properties\<close>

text \<open>C2: The program, from its first system call to the end of the machine. On a kernel that creates
  what it is asked for and grants every call, if the first processor's exits are port accesses, debug
  stops and interrupted runs, followed by a halt: construction and set-up succeed; the threads can run
  until \<^verbatim>\<open>start\<close> returns; by then the host's terminal has received, in order, the first byte of each
  write to the data register of \<^verbatim>\<open>ttyS0\<close> outside loopback mode, and this is the guest's console output
  if it writes the registers of \<^verbatim>\<open>ttyS0\<close> byte by byte and leaves the low byte of the divisor latch
  alone; and wherever the device threads then stand, the destructor reaches its end.\<close>

theorem program_runs_to_its_end:
  assumes "creates f a b h rest" "0 \<le> fd" "21 \<le> length rest" "\<forall>r \<in> set rest. 0 \<le> fst r"
    and "env_ok env" "\<forall>cpu. length (kh_lapic h cpu) = 1024"
    and "be_kernel env = Some vmlinux" "kernel_ok vmlinux \<lparr>gm_size = 0x130000000, gm_byte = (\<lambda>_. 0)\<rparr>"
    and "kh_runs h a = map (\<lambda>x. (0, 0, x)) xs @ [(0, 0, KVM_EXIT_HLT)]" "list_all plain_exit xs"
    and "term_writes (be_term env) = replicate n 1"
    and "length (tx_bytes 8 (concat (map (exit_access (pc_ports env) ttyS0) xs))) \<le> n"
  shows "\<exists>s h' s'. main_start env fd (Some host_addr) (\<lambda>_. True) h = Inr (s, h') \<and>
    vmm_steps s s' \<and> rn_main s' = Returned \<and>
    (\<exists>u tm. ps_dev (vm_io_devices (rn_machine s') ! ttyS0) = Uart_dev u (Some tm) \<and>
       term_out tm = term_out (be_term env) @ tx_bytes 8 (concat (map (exit_access (pc_ports env) ttyS0) xs)) \<and>
       (console_plain 0x3f8 False xs \<longrightarrow>
          term_out tm = term_out (be_term env) @ console_bytes 0x3f8 False False xs)) \<and>
    (\<forall>ps. length ps = 3 \<longrightarrow>
       (\<exists>d. down_steps (down_start (rn_machine s') ps) d \<and> dn_main d = Unmapped))"
proof -
  from main_start_ok[OF assms(1-8), of host_addr] obtain v2 h2 where
    main: "main_start env fd (Some host_addr) (\<lambda>_. True) h = Inr (start_threads v2, h2)"
    and v2: "vm_io_devices v2 = pc_ports env" "vm_interrupts v2 = pc_lines" "vm_mmio v2 = pc_bus env"
      "vm_should_run v2" "get_vcpu v2 0 = Inr a" and h2: "kh_runs h2 = kh_runs h"
    by blast
  have runs: "kh_runs h2 a = map (\<lambda>x. (0, 0, x)) xs @ (0, 0, KVM_EXIT_HLT) # []"
    using assms(9) h2 by simp
  from run_console[OF pc_console[OF assms(5) v2(1,2)] assms(10,11) _ v2(4,5) runs] assms(12)
  obtain ys u tm v3 h3 where run: "run_cpu 0 False v2 h2 = Inr (0, ys, v3, h3)" "console ttyS0 u tm v3"
    "term_out tm = term_out (be_term env) @ tx_bytes 8 (concat (map (exit_access (pc_ports env) ttyS0) xs))"
    "vm_mmio v3 = vm_mmio v2"
    by (auto simp: v2(1))
  have "exits_ok a h2"
    using assms(10) runs plain_exit_ok by (auto simp: exits_ok_def list_all_iff exit_ok_def[of KVM_EXIT_HLT])
  from halted_machine_returns[OF run(1) v2(5) this] obtain s where
    s: "vmm_steps (start_threads v2) s" "rn_main s = Returned" "rn_machine s = stop v3" by blast
  have bus: "vm_mmio (stop v3) = pc_bus env" using run(4) v2(3) by simp
  have down: "\<exists>d. down_steps (down_start (stop v3) ps) d \<and> dn_main d = Unmapped" if "length ps = 3" for ps
  proof -
    have "length ps = length (vm_mmio (stop v3))" using that bus by (simp add: pc_bus_def)
    from destruction_path[OF down_start_inv[OF this] idle_rounds_end[OF bus that]] show ?thesis .
  qed
  have plain: "tx_bytes 8 (concat (map (exit_access (pc_ports env) ttyS0) xs)) = console_bytes 0x3f8 False False xs"
    if "console_plain 0x3f8 False xs"
    using pc_console_output[OF assms(5) that] .
  from main s run(2,3) down plain show ?thesis by (auto simp: console_def)
qed

text \<open>C5: No refused \<^verbatim>\<open>ioctl\<close> on the KVM descriptors goes unnoticed: whatever the kernel answers, if the
  program gets as far as its threads, then each such call of the construction and the set-up used up
  one answer, in order, and none of these answers was negative. So a negative answer to any of them
  ends the program before its threads start. The calls meant are those of the log: system, machine and
  processor descriptors. Not among them are \<^verbatim>\<open>eventfd\<close> and the \<^verbatim>\<open>open\<close> of the tap, whose results the code
  does not look at.\<close>

theorem no_refused_ioctl_is_ignored:
  assumes "main_start env fd mmap mapped h = Inr (s, h')"
  shows "kh_runs h' = kh_runs h \<and> (\<exists>calls as. kh_log h' = kh_log h @ calls \<and>
    kh_answers h = as @ kh_answers h' \<and> length as = length calls \<and> list_all (\<lambda>a. 0 \<le> fst a) as)"
proof -
  from assms obtain k v h1 v' where "vmm_new fd mmap mapped h = Inr (k, v, h1)" "start_setup env k v h1 = Inr (v', h')"
    by (auto simp: main_start_def)
  from host_moves_trans[OF vmm_new_moves[OF this(1)] start_setup_moves[OF this(2)]] show ?thesis
    by (simp add: host_moves_def)
qed

text \<open>A line whose event descriptor could not be created is registered like any other.\<close>

lemma refused_eventfd_is_accepted:
  assumes "willing 1 h" "unat n < length (vm_interrupts v)" "vm_interrupts v ! unat n = None"
  shows "\<exists>v' h'. register_irq False n v h = Inr (interrupt_new n False, v', h')"
  using ioctl_check_ok[of 0 h] assms by (simp add: register_irq_def Let_def)

section \<open>Examples\<close>

definition demo_runs :: kvm_host where
  "demo_runs = demo_host\<lparr>kh_runs := (\<lambda>_. [(0, 0, out_byte 0x3f8 0x48), (0, 0, KVM_EXIT_DEBUG),
     (0, 0, out_byte 0x80 1), (0, 0, out_byte 0x3f8 0x69), (0, 0, KVM_EXIT_HLT)])\<rparr>"

lemma demo_runs_facts:
  "creates 5 7 8 demo_runs (replicate 21 (0, 0))" "\<forall>cpu. length (kh_lapic demo_runs cpu) = 1024"
  "kh_runs demo_runs 7 = map (\<lambda>x. (0, 0, x)) [out_byte 0x3f8 0x48, KVM_EXIT_DEBUG, out_byte 0x80 1, out_byte 0x3f8 0x69]
     @ [(0, 0, KVM_EXIT_HLT)]"
  "list_all plain_exit [out_byte 0x3f8 0x48, KVM_EXIT_DEBUG, out_byte 0x80 1, out_byte 0x3f8 0x69]"
proof -
  show "creates 5 7 8 demo_runs (replicate 21 (0, 0))"
    using demo_facts(2) unfolding creates_def demo_runs_def by simp
  show "\<forall>cpu. length (kh_lapic demo_runs cpu) = 1024" using demo_facts(3) by (simp add: demo_runs_def)
qed (simp_all add: demo_runs_def out_byte_def io_exit_ok_def io_bytes_def)

lemma demo_seen:
  "tx_bytes 8 (concat (map (exit_access (pc_ports demo_env) ttyS0)
     [out_byte 0x3f8 0x48, KVM_EXIT_DEBUG, out_byte 0x80 1, out_byte 0x3f8 0x69])) = [0x48, 0x69]"
proof -
  have hits: "first_in_range 0x3f8 (pc_ports env) = Some ttyS0" "first_in_range 0x80 (pc_ports env) = None"
    "ps_window (pc_ports env ! ttyS0) = \<lparr>io_addr = 0x3f8, io_width = 8\<rparr>" for env
    by (simp_all add: pc_ports_def in_range_def ttyS0_def)
  show ?thesis
    by (simp add: out_byte_def hits offset_def Let_def DATA_def MCR_def MCR_LOOP_BIT_def)
qed

theorem program_runs_to_its_end_witness:
  "\<exists>s h' s'. main_start demo_env 3 (Some 0x7f0000000000) (\<lambda>_. True) demo_runs = Inr (s, h') \<and>
    vmm_steps s s' \<and> rn_main s' = Returned \<and>
    (\<exists>u tm. ps_dev (vm_io_devices (rn_machine s') ! ttyS0) = Uart_dev u (Some tm) \<and> term_out tm = [0x48, 0x69])"
proof -
  have 1: "21 \<le> length (replicate 21 (0 :: int, 0 :: int))" "\<forall>r \<in> set (replicate 21 (0 :: int, 0 :: int)). 0 \<le> fst r"
    "(0 :: int) \<le> 3" "term_writes (be_term demo_env) = replicate 2 1" "term_out (be_term demo_env) = []"
    by (simp_all add: demo_env_def demo_terminal_def)
  have 2: "length (tx_bytes 8 (concat (map (exit_access (pc_ports demo_env) ttyS0)
     [out_byte 0x3f8 0x48, KVM_EXIT_DEBUG, out_byte 0x80 1, out_byte 0x3f8 0x69]))) \<le> 2"
    unfolding demo_seen by simp
  from program_runs_to_its_end[OF demo_runs_facts(1) 1(3,1,2) demo_facts(1) demo_runs_facts(2) demo_facts(5,4)
      demo_runs_facts(3,4) 1(4) 2, of "0x7f0000000000"]
  show ?thesis unfolding demo_seen 1(5) append_Nil by blast
qed

theorem no_refused_ioctl_is_ignored_witness:
  "\<exists>s h' calls. main_start demo_env 3 (Some 0x7f0000000000) (\<lambda>_. True) demo_host = Inr (s, h') \<and>
    kh_log h' = calls \<and> length (kh_answers demo_host) = length calls + length (kh_answers h')"
proof -
  have 1: "21 \<le> length (replicate 21 (0 :: int, 0 :: int))" "\<forall>r \<in> set (replicate 21 (0 :: int, 0 :: int)). 0 \<le> fst r"
    "(0 :: int) \<le> 3" "\<forall>cpu. length (kh_lapic demo_host cpu) = 1024"
    using demo_facts(3) by simp_all
  obtain s h' where main: "main_start demo_env 3 (Some 0x7f0000000000) (\<lambda>_. True) demo_host = Inr (s, h')"
    using main_start_ok[OF demo_facts(2) 1(3,1,2) demo_facts(1) 1(4) demo_facts(5,4), of "0x7f0000000000"] by blast
  moreover have "kh_log demo_host = []" by (simp add: demo_host_def)
  ultimately show ?thesis using no_refused_ioctl_is_ignored[OF main] by fastforce
qed

end
