(* ===== verification/Apic_Regs.thy ===== *)
theory Apic_Regs
  imports Vcpu_Setup
begin

text \<open>
  \<^verbatim>\<open>include/apicdef.h\<close>: the register page of the local APIC, as a structure with bit-fields and as
  offsets and masks. The page that \<^verbatim>\<open>setup_lapic\<close> reads from the kernel and writes back is such a
  structure; the property reads the processor's set-up in it.
\<close>

section \<open>The structure\<close>

text \<open>
  A register is a 32-bit word and twelve unused bytes. Its bit-fields are listed from the least
  significant bit, name and width; the members of a union are alternative lists. In the union of
  \<open>icr2\<close> every bit-field is a member of its own.
\<close>

type_synonym bit_struct = "(string \<times> nat) list"

definition id_reg :: "bit_struct list" where
  "id_reg = [[(''__reserved_1'', 24), (''phys_apic_id'', 4), (''__reserved_2'', 4)]]"

definition version_reg :: "bit_struct list" where
  "version_reg = [[(''version'', 8), (''__reserved_1'', 8), (''max_lvt'', 8), (''__reserved_2'', 8)]]"

definition tpr_reg :: "bit_struct list" where
  "tpr_reg = [[(''priority'', 8), (''__reserved_1'', 24)]]"

definition apr_reg :: "bit_struct list" where
  "apr_reg = [[(''priority'', 8), (''__reserved_1'', 24)]]"

definition ppr_reg :: "bit_struct list" where
  "ppr_reg = [[(''priority'', 8), (''__reserved_1'', 24)]]"

definition eoi_reg :: "bit_struct list" where
  "eoi_reg = [[(''eoi'', 32)]]"

definition ldr_reg :: "bit_struct list" where
  "ldr_reg = [[(''__reserved_1'', 24), (''logical_dest'', 8)]]"

definition dfr_reg :: "bit_struct list" where
  "dfr_reg = [[(''__reserved_1'', 28), (''model'', 4)]]"

definition svr_reg :: "bit_struct list" where
  "svr_reg = [[(''spurious_vector'', 8), (''apic_enabled'', 1), (''focus_cpu'', 1), (''__reserved_2'', 22)]]"

definition isr_reg :: "bit_struct list" where
  "isr_reg = [[(''bitfield'', 32)]]"

definition tmr_reg :: "bit_struct list" where
  "tmr_reg = [[(''bitfield'', 32)]]"

definition irr_reg :: "bit_struct list" where
  "irr_reg = [[(''bitfield'', 32)]]"

definition esr_reg :: "bit_struct list" where
  "esr_reg = [[(''send_cs_error'', 1), (''receive_cs_error'', 1), (''send_accept_error'', 1),
      (''receive_accept_error'', 1), (''__reserved_1'', 1), (''send_illegal_vector'', 1),
      (''receive_illegal_vector'', 1), (''illegal_register_address'', 1), (''__reserved_2'', 24)],
     [(''errors'', 32)]]"

definition icr1_reg :: "bit_struct list" where
  "icr1_reg = [[(''vector'', 8), (''delivery_mode'', 3), (''destination_mode'', 1),
      (''delivery_status'', 1), (''__reserved_1'', 1), (''level'', 1), (''trigger'', 1),
      (''__reserved_2'', 2), (''shorthand'', 2), (''__reserved_3'', 12)]]"

definition icr2_reg :: "bit_struct list" where
  "icr2_reg = [[(''__reserved_1'', 24)],
     [(''phys_dest'', 4)],
     [(''__reserved_2'', 4)],
     [(''__reserved_3'', 24)],
     [(''logical_dest'', 8)]]"

definition lvt_timer_reg :: "bit_struct list" where
  "lvt_timer_reg = [[(''vector'', 8), (''__reserved_1'', 4), (''delivery_status'', 1),
      (''__reserved_2'', 3), (''mask'', 1), (''timer_mode'', 1), (''__reserved_3'', 14)]]"

definition lvt_thermal_reg :: "bit_struct list" where
  "lvt_thermal_reg = [[(''vector'', 8), (''delivery_mode'', 3), (''__reserved_1'', 1),
      (''delivery_status'', 1), (''__reserved_2'', 3), (''mask'', 1), (''__reserved_3'', 15)]]"

definition lvt_pc_reg :: "bit_struct list" where
  "lvt_pc_reg = [[(''vector'', 8), (''delivery_mode'', 3), (''__reserved_1'', 1),
      (''delivery_status'', 1), (''__reserved_2'', 3), (''mask'', 1), (''__reserved_3'', 15)]]"

definition lvt_lint0_reg :: "bit_struct list" where
  "lvt_lint0_reg = [[(''vector'', 8), (''delivery_mode'', 3), (''__reserved_1'', 1),
      (''delivery_status'', 1), (''polarity'', 1), (''remote_irr'', 1), (''trigger'', 1), (''mask'', 1),
      (''__reserved_2'', 15)]]"

definition lvt_lint1_reg :: "bit_struct list" where
  "lvt_lint1_reg = [[(''vector'', 8), (''delivery_mode'', 3), (''__reserved_1'', 1),
      (''delivery_status'', 1), (''polarity'', 1), (''remote_irr'', 1), (''trigger'', 1), (''mask'', 1),
      (''__reserved_2'', 15)]]"

definition lvt_error_reg :: "bit_struct list" where
  "lvt_error_reg = [[(''vector'', 8), (''__reserved_1'', 4), (''delivery_status'', 1),
      (''__reserved_2'', 3), (''mask'', 1), (''__reserved_3'', 15)]]"

definition timer_icr_reg :: "bit_struct list" where
  "timer_icr_reg = [[(''initial_count'', 32)]]"

definition timer_ccr_reg :: "bit_struct list" where
  "timer_ccr_reg = [[(''curr_count'', 32)]]"

definition timer_dcr_reg :: "bit_struct list" where
  "timer_dcr_reg = [[(''divisor'', 4), (''__reserved_1'', 28)]]"

definition reserved :: "bit_struct list" where "reserved = [[(''__reserved'', 32)]]"

text \<open>The members in order, with the length of an array.\<close>

definition local_apic :: "(string \<times> bit_struct list \<times> nat) list" where
  "local_apic =
    [(''__reserved_01'', reserved, 1),
     (''__reserved_02'', reserved, 1),
     (''id'', id_reg, 1),
     (''version'', version_reg, 1),
     (''__reserved_03'', reserved, 1),
     (''__reserved_04'', reserved, 1),
     (''__reserved_05'', reserved, 1),
     (''__reserved_06'', reserved, 1),
     (''tpr'', tpr_reg, 1),
     (''apr'', apr_reg, 1),
     (''ppr'', ppr_reg, 1),
     (''eoi'', eoi_reg, 1),
     (''__reserved_07'', reserved, 1),
     (''ldr'', ldr_reg, 1),
     (''dfr'', dfr_reg, 1),
     (''svr'', svr_reg, 1),
     (''isr'', isr_reg, 8),
     (''tmr'', tmr_reg, 8),
     (''irr'', irr_reg, 8),
     (''esr'', esr_reg, 1),
     (''__reserved_08'', reserved, 1),
     (''__reserved_09'', reserved, 1),
     (''__reserved_10'', reserved, 1),
     (''__reserved_11'', reserved, 1),
     (''__reserved_12'', reserved, 1),
     (''__reserved_13'', reserved, 1),
     (''__reserved_14'', reserved, 1),
     (''icr1'', icr1_reg, 1),
     (''icr2'', icr2_reg, 1),
     (''lvt_timer'', lvt_timer_reg, 1),
     (''lvt_thermal'', lvt_thermal_reg, 1),
     (''lvt_pc'', lvt_pc_reg, 1),
     (''lvt_lint0'', lvt_lint0_reg, 1),
     (''lvt_lint1'', lvt_lint1_reg, 1),
     (''lvt_error'', lvt_error_reg, 1),
     (''timer_icr'', timer_icr_reg, 1),
     (''timer_ccr'', timer_ccr_reg, 1),
     (''__reserved_16'', reserved, 1),
     (''__reserved_17'', reserved, 1),
     (''__reserved_18'', reserved, 1),
     (''__reserved_19'', reserved, 1),
     (''timer_dcr'', timer_dcr_reg, 1),
     (''__reserved_20'', reserved, 1)]"

fun reg_offset :: "string \<Rightarrow> nat \<Rightarrow> (string \<times> bit_struct list \<times> nat) list \<Rightarrow> nat option" where
  "reg_offset r i [] = None"
| "reg_offset r i ((n, vs, k) # ms) =
     (if r = n then (if i < k then Some (16 * i) else None)
      else map_option ((+) (16 * k)) (reg_offset r i ms))"

fun field_bits :: "string \<Rightarrow> nat \<Rightarrow> bit_struct \<Rightarrow> (nat \<times> nat) option" where
  "field_bits f s [] = None"
| "field_bits f s ((n, w) # fs) = (if f = n then Some (s, w) else field_bits f (s + w) fs)"

fun view_bits :: "string \<Rightarrow> bit_struct list \<Rightarrow> (nat \<times> nat) option" where
  "view_bits f [] = None"
| "view_bits f (v # vs) = (case field_bits f 0 v of None \<Rightarrow> view_bits f vs | Some b \<Rightarrow> Some b)"

definition word_field :: "bit_struct list \<Rightarrow> string \<Rightarrow> u32 \<Rightarrow> u32 option" where
  "word_field vs f x = map_option (\<lambda>(s, w). drop_bit s x AND mask w) (view_bits f vs)"

definition apic_word :: "u8 list \<Rightarrow> nat \<Rightarrow> u32" where
  "apic_word page off = le_word (take 4 (drop off page))"

text \<open>\<^verbatim>\<open>page->r[i].f\<close>\<close>

definition apic_field :: "u8 list \<Rightarrow> string \<Rightarrow> nat \<Rightarrow> string \<Rightarrow> u32 option" where
  "apic_field page r i f =
     (case (reg_offset r i local_apic, map_of local_apic r) of
        (Some off, Some (vs, k)) \<Rightarrow> word_field vs f (apic_word page off)
      | _ \<Rightarrow> None)"

section \<open>Offsets, masks and macros\<close>

definition APIC_ID :: nat where "APIC_ID = 0x20"
definition APIC_LVR :: nat where "APIC_LVR = 0x30"
definition APIC_TASKPRI :: nat where "APIC_TASKPRI = 0x80"
definition APIC_ARBPRI :: nat where "APIC_ARBPRI = 0x90"
definition APIC_PROCPRI :: nat where "APIC_PROCPRI = 0xA0"
definition APIC_EOI :: nat where "APIC_EOI = 0xB0"
definition APIC_RRR :: nat where "APIC_RRR = 0xC0"
definition APIC_LDR :: nat where "APIC_LDR = 0xD0"
definition APIC_DFR :: nat where "APIC_DFR = 0xE0"
definition APIC_SPIV :: nat where "APIC_SPIV = 0xF0"
definition APIC_ISR :: nat where "APIC_ISR = 0x100"
definition APIC_TMR :: nat where "APIC_TMR = 0x180"
definition APIC_IRR :: nat where "APIC_IRR = 0x200"
definition APIC_ESR :: nat where "APIC_ESR = 0x280"
definition APIC_LVTCMCI :: nat where "APIC_LVTCMCI = 0x2F0"
definition APIC_ICR :: nat where "APIC_ICR = 0x300"
definition APIC_ICR2 :: nat where "APIC_ICR2 = 0x310"
definition APIC_LVTT :: nat where "APIC_LVTT = 0x320"
definition APIC_LVTTHMR :: nat where "APIC_LVTTHMR = 0x330"
definition APIC_LVTPC :: nat where "APIC_LVTPC = 0x340"
definition APIC_LVTERR :: nat where "APIC_LVTERR = 0x370"
definition APIC_TMICT :: nat where "APIC_TMICT = 0x380"
definition APIC_TMCCT :: nat where "APIC_TMCCT = 0x390"
definition APIC_TDCR :: nat where "APIC_TDCR = 0x3E0"
definition APIC_SELF_IPI :: nat where "APIC_SELF_IPI = 0x3F0"
definition APIC_ISR_NR :: nat where "APIC_ISR_NR = 8"

definition APIC_TPRI_MASK :: u32 where "APIC_TPRI_MASK = 0xFF"
definition APIC_ARBPRI_MASK :: u32 where "APIC_ARBPRI_MASK = 0xFF"
definition APIC_LDR_MASK :: u32 where "APIC_LDR_MASK = push_bit 24 0xFF"
definition APIC_SPIV_APIC_ENABLED :: u32 where "APIC_SPIV_APIC_ENABLED = push_bit 8 1"
definition APIC_SPIV_FOCUS_DISABLED :: u32 where "APIC_SPIV_FOCUS_DISABLED = push_bit 9 1"
definition APIC_ESR_SEND_CS :: u32 where "APIC_ESR_SEND_CS = 0x00001"
definition APIC_ESR_RECV_CS :: u32 where "APIC_ESR_RECV_CS = 0x00002"
definition APIC_ESR_SEND_ACC :: u32 where "APIC_ESR_SEND_ACC = 0x00004"
definition APIC_ESR_RECV_ACC :: u32 where "APIC_ESR_RECV_ACC = 0x00008"
definition APIC_ESR_SENDILL :: u32 where "APIC_ESR_SENDILL = 0x00020"
definition APIC_ESR_RECVILL :: u32 where "APIC_ESR_RECVILL = 0x00040"
definition APIC_ESR_ILLREGA :: u32 where "APIC_ESR_ILLREGA = 0x00080"
definition APIC_VECTOR_MASK :: u32 where "APIC_VECTOR_MASK = 0x000FF"
definition APIC_DM_FIXED_MASK :: u32 where "APIC_DM_FIXED_MASK = 0x00700"
definition APIC_DEST_LOGICAL :: u32 where "APIC_DEST_LOGICAL = 0x00800"
definition APIC_ICR_BUSY :: u32 where "APIC_ICR_BUSY = 0x01000"
definition APIC_INT_ASSERT :: u32 where "APIC_INT_ASSERT = 0x04000"
definition APIC_INT_LEVELTRIG :: u32 where "APIC_INT_LEVELTRIG = 0x08000"
definition APIC_DEST_ALLBUT :: u32 where "APIC_DEST_ALLBUT = 0xC0000"
definition APIC_LVT_TIMER_PERIODIC :: u32 where "APIC_LVT_TIMER_PERIODIC = push_bit 17 1"
definition APIC_LVT_MASKED :: u32 where "APIC_LVT_MASKED = push_bit 16 1"
definition APIC_LVT_LEVEL_TRIGGER :: u32 where "APIC_LVT_LEVEL_TRIGGER = push_bit 15 1"
definition APIC_LVT_REMOTE_IRR :: u32 where "APIC_LVT_REMOTE_IRR = push_bit 14 1"
definition APIC_INPUT_POLARITY :: u32 where "APIC_INPUT_POLARITY = push_bit 13 1"
definition APIC_SEND_PENDING :: u32 where "APIC_SEND_PENDING = push_bit 12 1"
definition APIC_MODE_MASK :: u32 where "APIC_MODE_MASK = 0x700"

definition GET_APIC_VERSION :: "u32 \<Rightarrow> u32" where "GET_APIC_VERSION x = x AND 0xFF"
definition GET_APIC_MAXLVT :: "u32 \<Rightarrow> u32" where "GET_APIC_MAXLVT x = drop_bit 16 x AND 0xFF"
definition GET_APIC_LOGICAL_ID :: "u32 \<Rightarrow> u32" where "GET_APIC_LOGICAL_ID x = drop_bit 24 x AND 0xFF"
definition GET_APIC_DELIVERY_MODE :: "u32 \<Rightarrow> u32" where "GET_APIC_DELIVERY_MODE x = drop_bit 8 x AND 0x7"
definition GET_APIC_DEST_FIELD :: "u32 \<Rightarrow> u32" where "GET_APIC_DEST_FIELD x = drop_bit 24 x AND 0xFF"
definition SET_APIC_DELIVERY_MODE :: "u32 \<Rightarrow> u32 \<Rightarrow> u32" where
  "SET_APIC_DELIVERY_MODE x y = (x AND NOT 0x700) OR push_bit 8 y"

text \<open>Delivery modes as an enumeration and as masks, and the destination shorthands.\<close>

datatype ioapic_irq_destination_types =
    dest_Fixed | dest_LowestPrio | dest_SMI | dest__reserved_1 | dest_NMI | dest_INIT | dest__reserved_2 | dest_ExtINT

fun destination_code :: "ioapic_irq_destination_types \<Rightarrow> u32" where
  "destination_code dest_Fixed = 0"
| "destination_code dest_LowestPrio = 1"
| "destination_code dest_SMI = 2"
| "destination_code dest__reserved_1 = 3"
| "destination_code dest_NMI = 4"
| "destination_code dest_INIT = 5"
| "destination_code dest__reserved_2 = 6"
| "destination_code dest_ExtINT = 7"

definition APIC_DM_FIXED :: u32 where "APIC_DM_FIXED = 0x00000"
definition APIC_DM_LOWEST :: u32 where "APIC_DM_LOWEST = 0x00100"
definition APIC_DM_SMI :: u32 where "APIC_DM_SMI = 0x00200"
definition APIC_DM_REMRD :: u32 where "APIC_DM_REMRD = 0x00300"
definition APIC_DM_NMI :: u32 where "APIC_DM_NMI = 0x00400"
definition APIC_DM_INIT :: u32 where "APIC_DM_INIT = 0x00500"
definition APIC_DM_STARTUP :: u32 where "APIC_DM_STARTUP = 0x00600"
definition APIC_DM_EXTINT :: u32 where "APIC_DM_EXTINT = 0x00700"
definition APIC_DEST_PHYSICAL :: u32 where "APIC_DEST_PHYSICAL = 0x00000"
definition APIC_DEST_SELF :: u32 where "APIC_DEST_SELF = 0x40000"
definition APIC_DEST_ALLINC :: u32 where "APIC_DEST_ALLINC = 0x80000"

section \<open>Which constant names which register and field\<close>

definition register_offsets :: "(nat \<times> string) list" where
  "register_offsets =
    [(APIC_ID, ''id''), (APIC_LVR, ''version''), (APIC_TASKPRI, ''tpr''), (APIC_ARBPRI, ''apr''),
     (APIC_PROCPRI, ''ppr''), (APIC_EOI, ''eoi''), (APIC_RRR, ''__reserved_07''), (APIC_LDR, ''ldr''),
     (APIC_DFR, ''dfr''), (APIC_SPIV, ''svr''), (APIC_ISR, ''isr''), (APIC_TMR, ''tmr''),
     (APIC_IRR, ''irr''), (APIC_ESR, ''esr''), (APIC_LVTCMCI, ''__reserved_14''), (APIC_ICR, ''icr1''),
     (APIC_ICR2, ''icr2''), (APIC_LVTT, ''lvt_timer''), (APIC_LVTTHMR, ''lvt_thermal''),
     (APIC_LVTPC, ''lvt_pc''), (APIC_LVTERR, ''lvt_error''), (APIC_TMICT, ''timer_icr''),
     (APIC_TMCCT, ''timer_ccr''), (APIC_TDCR, ''timer_dcr''), (APIC_SELF_IPI, ''__reserved_20''),
     (APIC_LVT0, ''lvt_lint0''), (APIC_LVT1, ''lvt_lint1'')]"

definition field_masks :: "(u32 \<times> string \<times> string) list" where
  "field_masks =
    [(APIC_TPRI_MASK, ''tpr'', ''priority''), (APIC_ARBPRI_MASK, ''apr'', ''priority''),
     (APIC_LDR_MASK, ''ldr'', ''logical_dest''), (APIC_SPIV_APIC_ENABLED, ''svr'', ''apic_enabled''),
     (APIC_SPIV_FOCUS_DISABLED, ''svr'', ''focus_cpu''), (APIC_ESR_SEND_CS, ''esr'', ''send_cs_error''),
     (APIC_ESR_RECV_CS, ''esr'', ''receive_cs_error''),
     (APIC_ESR_SEND_ACC, ''esr'', ''send_accept_error''),
     (APIC_ESR_RECV_ACC, ''esr'', ''receive_accept_error''),
     (APIC_ESR_SENDILL, ''esr'', ''send_illegal_vector''),
     (APIC_ESR_RECVILL, ''esr'', ''receive_illegal_vector''),
     (APIC_ESR_ILLREGA, ''esr'', ''illegal_register_address''), (APIC_VECTOR_MASK, ''icr1'', ''vector''),
     (APIC_DM_FIXED_MASK, ''icr1'', ''delivery_mode''),
     (APIC_DEST_LOGICAL, ''icr1'', ''destination_mode''), (APIC_ICR_BUSY, ''icr1'', ''delivery_status''),
     (APIC_INT_ASSERT, ''icr1'', ''level''), (APIC_INT_LEVELTRIG, ''icr1'', ''trigger''),
     (APIC_DEST_ALLBUT, ''icr1'', ''shorthand''),
     (APIC_LVT_TIMER_PERIODIC, ''lvt_timer'', ''timer_mode''),
     (APIC_LVT_MASKED, ''lvt_lint0'', ''mask''), (APIC_LVT_LEVEL_TRIGGER, ''lvt_lint0'', ''trigger''),
     (APIC_LVT_REMOTE_IRR, ''lvt_lint0'', ''remote_irr''),
     (APIC_INPUT_POLARITY, ''lvt_lint0'', ''polarity''),
     (APIC_SEND_PENDING, ''lvt_lint0'', ''delivery_status''),
     (APIC_MODE_MASK, ''lvt_lint0'', ''delivery_mode'')]"

definition delivery_modes :: "(u32 \<times> ioapic_irq_destination_types) list" where
  "delivery_modes =
    [(APIC_DM_FIXED, dest_Fixed), (APIC_DM_LOWEST, dest_LowestPrio), (APIC_DM_SMI, dest_SMI),
     (APIC_DM_REMRD, dest__reserved_1), (APIC_DM_NMI, dest_NMI), (APIC_DM_INIT, dest_INIT),
     (APIC_DM_STARTUP, dest__reserved_2), (APIC_DM_EXTINT, dest_ExtINT)]"

definition field_mask :: "string \<Rightarrow> string \<Rightarrow> u32 option" where
  "field_mask r f =
     (case map_of local_apic r of None \<Rightarrow> None
      | Some (vs, k) \<Rightarrow> map_option (\<lambda>(s, w). push_bit s (mask w)) (view_bits f vs))"

section \<open>Facts\<close>

lemmas register_layouts =
  id_reg_def version_reg_def tpr_reg_def apr_reg_def ppr_reg_def eoi_reg_def ldr_reg_def dfr_reg_def svr_reg_def
  isr_reg_def tmr_reg_def irr_reg_def esr_reg_def icr1_reg_def icr2_reg_def lvt_timer_reg_def lvt_thermal_reg_def
  lvt_pc_reg_def lvt_lint0_reg_def lvt_lint1_reg_def lvt_error_reg_def timer_icr_reg_def timer_ccr_reg_def
  timer_dcr_reg_def reserved_def

lemma reg_offset_multiple: "reg_offset r i ms = Some off \<Longrightarrow> 16 dvd off"
  by (induction ms arbitrary: off) (auto split: if_splits)

lemma reg_offset_bound:
  "reg_offset r i ms = Some off \<Longrightarrow> off + 16 \<le> 16 * sum_list (map (\<lambda>(n, vs, k). k) ms)"
  by (induction ms arbitrary: off) (fastforce split: if_splits)+

lemma reg_offset_head: "reg_offset r i ((n, vs, k) # ms) = Some off \<Longrightarrow> off < 16 * k \<longleftrightarrow> r = n"
  by (auto split: if_splits)

text \<open>No two registers share an offset.\<close>

lemma reg_offset_inj:
  "reg_offset r i ms = Some off \<Longrightarrow> reg_offset r' i' ms = Some off \<Longrightarrow> r = r' \<and> i = i'"
proof (induction ms arbitrary: off)
  case (Cons m ms)
  obtain n vs k where m: "m = (n, vs, k)" by (cases m)
  have "r = n \<longleftrightarrow> r' = n"
    using reg_offset_head[of r i n vs k ms off] reg_offset_head[of r' i' n vs k ms off] Cons.prems m by simp
  then show ?case using Cons m by (auto split: if_splits)
qed simp

lemma local_apic_size: "16 * sum_list (map (\<lambda>(n, vs, k). k) local_apic) = 1024"
  by (simp add: local_apic_def)

lemma pin_offsets:
  "reg_offset ''lvt_lint0'' 0 local_apic = Some APIC_LVT0" "reg_offset ''lvt_lint1'' 0 local_apic = Some APIC_LVT1"
  by code_simp+

lemma pin_layout:
  "map_of local_apic ''lvt_lint0'' = Some (lvt_lint0_reg, 1)" "map_of local_apic ''lvt_lint1'' = Some (lvt_lint1_reg, 1)"
  by code_simp+

text \<open>The page that \<open>setup_lapic\<close> passes on, byte by byte.\<close>

lemma lvt_image_nth:
  assumes "length l = 1024" "j < 1024" "\<not> (0x350 \<le> j \<and> j < 0x354)" "\<not> (0x360 \<le> j \<and> j < 0x364)"
  shows "lvt_image l ! j = l ! j"
  using assms by (auto simp: lvt_image_def nth_append nth_Cons' min_def)

lemma length_lvt_image: "length l = 1024 \<Longrightarrow> length (lvt_image l) = 1024"
  by (simp add: lvt_image_def)

lemma lvt_image_word:
  assumes "length l = 1024" "off + 16 \<le> 1024" "16 dvd off" "off \<noteq> APIC_LVT0" "off \<noteq> APIC_LVT1"
  shows "apic_word (lvt_image l) off = apic_word l off"
proof -
  obtain n where n: "off = 16 * n" using assms(3) by (elim dvdE)
  have "n \<noteq> 53" "n \<noteq> 54" using assms(4,5) n by (auto simp: APIC_LVT0_def APIC_LVT1_def)
  then have "off + 16 \<le> 0x350 \<or> 0x370 \<le> off" using n by auto
  then have "lvt_image l ! (off + j) = l ! (off + j)" if "j < 4" for j
    using lvt_image_nth[OF assms(1), of "off + j"] assms(2) that by auto
  then have "take 4 (drop off (lvt_image l)) = take 4 (drop off l)"
    using assms(1,2) by (intro nth_equalityI) (simp_all add: length_lvt_image)
  then show ?thesis by (simp add: apic_word_def)
qed

lemma lvt_image_pins:
  assumes "length l = 1024"
  shows "apic_word (lvt_image l) APIC_LVT0 = 0x700" "apic_word (lvt_image l) APIC_LVT1 = 0x400"
proof -
  have "take 4 (drop 0x350 (lvt_image l)) = [0, 7, 0, 0]" "take 4 (drop 0x360 (lvt_image l)) = [0, 4, 0, 0]"
    using assms by (simp_all add: lvt_image_def numeral_eq_Suc)
  then show "apic_word (lvt_image l) APIC_LVT0 = 0x700" "apic_word (lvt_image l) APIC_LVT1 = 0x400"
    by (simp_all add: apic_word_def APIC_LVT0_def APIC_LVT1_def)
qed

lemma lvt_image_other:
  assumes "length l = 1024" "(r, i) \<noteq> (''lvt_lint0'', 0)" "(r, i) \<noteq> (''lvt_lint1'', 0)"
  shows "apic_field (lvt_image l) r i f = apic_field l r i f"
proof (cases "reg_offset r i local_apic")
  case (Some off)
  have "off \<noteq> APIC_LVT0" "off \<noteq> APIC_LVT1"
    using Some assms(2,3) reg_offset_inj[OF Some] pin_offsets by fastforce+
  moreover have "off + 16 \<le> 1024" using reg_offset_bound[OF Some] by (simp only: local_apic_size)
  ultimately show ?thesis
    using lvt_image_word[OF assms(1) _ reg_offset_multiple[OF Some]] Some
    by (simp add: apic_field_def split: option.split)
qed (simp add: apic_field_def)

lemma setup_lapic_page:
  assumes "setup_lapic cpu h = Inr h'" "length (kh_lapic h cpu) = 1024"
  shows "last (kh_log h') = (cpu, KVM_SET_LAPIC (lvt_image (kh_lapic h cpu)))"
proof -
  from assms(1) obtain h1 r1 r2 where "ioctl_check ''KVM_GET_LAPIC'' cpu KVM_GET_LAPIC h = Inr h1"
    "set_lvt APIC_LVT0 APIC_MODE_EXTINT (kh_lapic h1 cpu) = Inr r1" "set_lvt APIC_LVT1 APIC_MODE_NMI r1 = Inr r2"
    "ioctl_check ''KVM_SET_LAPIC'' cpu (KVM_SET_LAPIC r2) h1 = Inr h'"
    by (auto simp: setup_lapic_def get_lapic_def set_lapic_def)
  moreover from this(1) have "kh_lapic h1 = kh_lapic h"
    by (auto simp: ioctl_check_def ioctl_def ioctl_err_def split: list.splits if_splits)
  ultimately show ?thesis
    using set_lvts[OF assms(2)]
    by (auto simp: ioctl_check_def ioctl_def ioctl_err_def split: list.splits if_splits)
qed

section \<open>Properties\<close>

text \<open>Where the tables name a register, a mask or a code in both descriptions of the page, the two agree.
  The tables leave out what has no counterpart or disagrees: \<^verbatim>\<open>GET_APIC_DEST_FIELD\<close> (the bit-fields of
  \<open>icr2\<close> all start at bit 0), \<^verbatim>\<open>APIC_LVT_TIMER_TSCDEADLINE\<close> (\<open>timer_mode\<close> has one bit), the mask of the
  timer base, \<^verbatim>\<open>APIC_SPIV_DIRECTED_EOI\<close>, and the registers beyond the page.\<close>

lemma apic_layout_agrees:
  "list_all (\<lambda>(c, r). reg_offset r 0 local_apic = Some c) register_offsets \<and>
   list_all (\<lambda>(c, r, f). field_mask r f = Some c) field_masks \<and>
   list_all (\<lambda>(c, m). word_field icr1_reg ''delivery_mode'' c = Some (destination_code m) \<and>
     c = SET_APIC_DELIVERY_MODE 0 (destination_code m)) delivery_modes \<and>
   map (word_field icr1_reg ''shorthand'') [APIC_DEST_PHYSICAL, APIC_DEST_SELF, APIC_DEST_ALLINC, APIC_DEST_ALLBUT] =
     map Some [0, 1, 2, 3] \<and>
   16 * sum_list (map (\<lambda>(n, vs, k). k) local_apic) = 1024 \<and>
   word_field version_reg ''version'' x = Some (GET_APIC_VERSION x) \<and>
   word_field version_reg ''max_lvt'' x = Some (GET_APIC_MAXLVT x) \<and>
   word_field ldr_reg ''logical_dest'' x = Some (GET_APIC_LOGICAL_ID x) \<and>
   word_field lvt_lint0_reg ''delivery_mode'' x = Some (GET_APIC_DELIVERY_MODE x)"
proof -
  have "list_all (\<lambda>(c, r). reg_offset r 0 local_apic = Some c) register_offsets" by code_simp
  moreover have "list_all (\<lambda>(c, r, f). field_mask r f = Some c) field_masks" by code_simp
  moreover have "list_all (\<lambda>(c, m). word_field icr1_reg ''delivery_mode'' c = Some (destination_code m) \<and>
      c = SET_APIC_DELIVERY_MODE 0 (destination_code m)) delivery_modes" by code_simp
  moreover have "map (word_field icr1_reg ''shorthand'')
      [APIC_DEST_PHYSICAL, APIC_DEST_SELF, APIC_DEST_ALLINC, APIC_DEST_ALLBUT] = map Some [0, 1, 2, 3]" by code_simp
  ultimately show ?thesis
    using local_apic_size
    by (simp add: word_field_def register_layouts GET_APIC_VERSION_def GET_APIC_MAXLVT_def
        GET_APIC_LOGICAL_ID_def GET_APIC_DELIVERY_MODE_def mask_eq_decr_exp)
qed

text \<open>C40: The interrupt pins a processor starts with, read in the register structure: whatever the page
  held, the page handed back to the kernel delivers LINT0 as ExtINT and LINT1 as NMI, every other
  field of these two registers is 0, the mask included, and every field of every other register
  is as the kernel reported it.\<close>

theorem lapic_pins_in_registers:
  assumes "setup_lapic cpu h = Inr h'" "length (kh_lapic h cpu) = 1024"
  shows "\<exists>page. last (kh_log h') = (cpu, KVM_SET_LAPIC page) \<and> length page = 1024 \<and>
    apic_field page ''lvt_lint0'' 0 ''delivery_mode'' = Some APIC_MODE_EXTINT \<and>
    apic_field page ''lvt_lint1'' 0 ''delivery_mode'' = Some APIC_MODE_NMI \<and>
    list_all (\<lambda>f. apic_field page ''lvt_lint0'' 0 f = Some 0 \<and> apic_field page ''lvt_lint1'' 0 f = Some 0)
      [''vector'', ''delivery_status'', ''polarity'', ''remote_irr'', ''trigger'', ''mask''] \<and>
    (\<forall>r i f. (r, i) \<noteq> (''lvt_lint0'', 0) \<and> (r, i) \<noteq> (''lvt_lint1'', 0) \<longrightarrow>
       apic_field page r i f = apic_field (kh_lapic h cpu) r i f)"
proof -
  let ?page = "lvt_image (kh_lapic h cpu)"
  have pins: "apic_field ?page ''lvt_lint0'' 0 f = word_field lvt_lint0_reg f 0x700"
    "apic_field ?page ''lvt_lint1'' 0 f = word_field lvt_lint1_reg f 0x400" for f
    by (simp_all add: apic_field_def pin_offsets pin_layout lvt_image_pins[OF assms(2)])
  show ?thesis
    using setup_lapic_page[OF assms] length_lvt_image[OF assms(2)] lvt_image_other[OF assms(2)]
    by (intro exI[of _ ?page])
      (simp add: pins word_field_def lvt_lint0_reg_def lvt_lint1_reg_def APIC_MODE_EXTINT_def APIC_MODE_NMI_def
        mask_eq_decr_exp)
qed

theorem lapic_pins_in_registers_witness:
  "\<exists>h' page. setup_lapic 7 (host_ok 2) = Inr h' \<and> last (kh_log h') = (7, KVM_SET_LAPIC page) \<and>
    apic_field page ''lvt_lint0'' 0 ''delivery_mode'' = Some 7 \<and> apic_field page ''lvt_lint1'' 0 ''mask'' = Some 0"
proof -
  obtain h' where h': "setup_lapic 7 (host_ok 2) = Inr h'"
    using lapic_pins_set[of "host_ok 2" 7] by auto
  from lapic_pins_in_registers[OF this] h' show ?thesis by (auto simp: APIC_MODE_EXTINT_def)
qed

text \<open>The delivery mode of \<^verbatim>\<open>kvm/apic.h\<close> is the one of the header's own macro only when nothing else
  is set in the register.\<close>

lemma apic_delivery_mode_macro:
  "apic_delivery_mode x y = SET_APIC_DELIVERY_MODE x y \<longleftrightarrow> (x AND NOT 0x700) OR push_bit 8 y = push_bit 8 y"
  by (auto simp: apic_delivery_mode_forgets SET_APIC_DELIVERY_MODE_def)

end
