(* ===== verification/Vm_Mmio.thy ===== *)
theory Vm_Mmio
  imports Virtio_Driver Vmm_Schedule
begin

text \<open>
  The bus side of the machine: what an exit on a physical address does to the virtio devices
  (\<^verbatim>\<open>src/kvm/vm.h\<close>, \<^verbatim>\<open>src/kvm/virtio/mmio.h\<close>) as long as the driver stays within the rules the
  code does not enforce: registers are accessed with four bytes, and only queues that exist are
  selected and notified.
\<close>

section \<open>Register writes\<close>

lemma reg_write_index:
  "reg_write off w (d, irq) = Inr (d', irq') \<Longrightarrow>
   vd_queue_index d' = (if off = VIRTIO_MMIO_QUEUE_SEL then w else vd_queue_index d)"
  by (auto simp: reg_write_def Let_def q_cur_update_def q_at_update_Inr write_status_def mmio_regs split: if_splits)

lemma map_ready_update:
  "(\<And>q. q_ready (f q) = q_ready q) \<Longrightarrow> map q_ready (qs[i := f (qs ! i)]) = map q_ready qs"
  by (cases "i < length qs") (simp_all add: map_update list_update_same_conv list_update_beyond)

lemma reg_write_ready:
  "reg_write off w (d, irq) = Inr (d', irq') \<Longrightarrow> off \<noteq> VIRTIO_MMIO_QUEUE_READY \<Longrightarrow>
   map q_ready (vd_queues d') = map q_ready (vd_queues d)"
  by (auto simp: reg_write_def Let_def q_cur_update_def q_at_update_Inr write_status_def set_notify_def
      map_ready_update split: if_splits)

section \<open>A device that a careful driver uses\<close>

text \<open>Besides the contracts of its registers and of its place on the bus, a device has to accept
  configuration writes of at most eight bytes, the most an exit can carry.\<close>

locale careful_device = virtio_dev + wrapped_device +
  assumes cfg_write_served: "dinv d \<Longrightarrow> unat off + unat sz < 18446744073709551616 \<Longrightarrow> unat sz \<le> length bs \<Longrightarrow>
      \<exists>d'. vc_write c bs off sz d = Inr d' \<and> vd_queue_index d' = vd_queue_index d \<and> vd_queues d' = vd_queues d"
begin

definition valid :: "'a vdev_scheme \<Rightarrow> bool" where
  "valid d \<longleftrightarrow> dinv d \<and> unat (vd_queue_index d) < length (vd_queues d)"

lemma config_offset:
  assumes "VIRTIO_MMIO_CONFIG \<le> off" "unat (sz :: u32) \<le> 8"
  shows "unat (off - VIRTIO_MMIO_CONFIG) + unat sz < 18446744073709551616"
  using assms unat_less64[of off] by (simp add: unat_diff_no_wrap) (simp add: mmio_regs word_le_nat_alt)

lemma careful_read:
  assumes "valid d" "unat sz \<le> 8" "off < VIRTIO_MMIO_CONFIG \<longrightarrow> sz = 4"
  shows "\<exists>buf. vio_read off sz (inj d, irq) = Inr (buf, inj d, irq) \<and> length buf \<le> 8"
proof (cases "off < VIRTIO_MMIO_CONFIG")
  case True
  with assms read_served[of d off irq] queue_count[of d] show ?thesis by (auto simp: inj_read valid_def)
next
  case False
  then have off: "VIRTIO_MMIO_CONFIG \<le> off" by simp
  from cfg_read[of d "off - VIRTIO_MMIO_CONFIG" sz] config_offset[OF off assms(2)] assms(1)
  obtain buf where "vc_read c (off - VIRTIO_MMIO_CONFIG) sz d = Inr buf" by (auto simp: valid_def)
  with cfg_length assms(2) off show ?thesis by (fastforce simp: inj_read holder_read_def)
qed

lemma careful_write:
  assumes "valid d" "unat sz \<le> 8" "length data = 8"
    and "off = VIRTIO_MMIO_QUEUE_SEL \<or> off = VIRTIO_MMIO_QUEUE_NOTIFY \<longrightarrow> unat (le_word (take 4 data) :: u32) < n"
  shows "\<exists>d' irq'. vio_write data off sz (inj d, irq) = Inr (inj d', irq') \<and> valid d' \<and>
    (off \<noteq> VIRTIO_MMIO_QUEUE_READY \<longrightarrow> map q_ready (vd_queues d') = map q_ready (vd_queues d))"
proof -
  have dv: "dinv d" "length (vd_queues d) = n" "unat (vd_queue_index d) < n"
    using assms(1) queue_count[of d] by (simp_all add: valid_def)
  have four: "buf_read data 0 4 = Inr (take 4 data)" using assms(3) by (simp add: buf_read_4)
  show ?thesis
  proof (cases "VIRTIO_MMIO_CONFIG \<le> off")
    case True
    from cfg_write_served[OF dv(1) config_offset[OF True assms(2)], of data] assms(2,3) obtain d' where
      d': "vc_write c data (off - VIRTIO_MMIO_CONFIG) sz d = Inr d'" "vd_queue_index d' = vd_queue_index d"
        "vd_queues d' = vd_queues d" by auto
    then have "dinv d'" using cfg_write[OF dv(1)] by blast
    with d' dv True show ?thesis by (auto simp: inj_write holder_write_def four valid_def)
  next
    case False
    let ?w = "le_word (take 4 data) :: u32"
    obtain r where "reg_write off ?w (d, irq) = Inr r"
      using reg_write_iff[of off ?w d irq] assms(4) dv by blast
    then obtain d' irq' where r: "reg_write off ?w (d, irq) = Inr (d', irq')" by (cases r) blast
    have "unat (vd_queue_index d') < length (vd_queues d')"
      using reg_write_index[OF r] reg_write_queue_count[OF r] assms(4) dv by auto
    with r reg_inv[OF dv(1) r] reg_write_ready[OF r] False show ?thesis
      by (auto simp: inj_write holder_write_def four valid_def)
  qed
qed

end

interpretation careful_disk: careful_device blk_class blk_inv 1 Vblk
  by unfold_locales
     (auto simp: blk_class_def blk_write_def blk_inv_def cfg_no_wrap buf_read_def buf_write_def)

interpretation careful_net: careful_device net_class net_inv 3 Vnet
  by unfold_locales
     (auto simp: net_class_def net_write_def net_inv_def cfg_no_wrap buf_read_def buf_write_def)

interpretation careful_rng: careful_device rng_class rng_inv 1 Vrng
  by unfold_locales (simp_all add: on_rng_def rng_class_def rng_write_def)

section \<open>The bus a careful driver keeps\<close>

fun vio_ok :: "vio \<Rightarrow> bool" where
  "vio_ok (Vblk d) = careful_disk.valid d"
| "vio_ok (Vrng d) = (careful_rng.valid d \<and> True \<notin> set (map q_ready (vd_queues d)))"
| "vio_ok (Vnet d) = careful_net.valid d"

fun kind_queues :: "dev_kind \<Rightarrow> nat" where
  "kind_queues (Disk n _) = n"
| "kind_queues (Entropy n) = n"
| "kind_queues (Network n _ _ _) = n"
| "kind_queues _ = 0"

fun is_entropy :: "dev_kind \<Rightarrow> bool" where
  "is_entropy (Entropy n) = True"
| "is_entropy _ = False"

text \<open>
  The rules for one access at offset \<open>off\<close> of a window. Making the queue of the entropy device ready
  is excluded: that device works inside the exit, on whatever the rings then say.
\<close>

definition careful_access :: "dev_kind \<Rightarrow> kvm_exit_mmio \<Rightarrow> u64 \<Rightarrow> bool" where
  "careful_access k mm off \<longleftrightarrow>
     unat (mm_len mm) \<le> 8 \<and> (off < VIRTIO_MMIO_CONFIG \<longrightarrow> mm_len mm = 4) \<and>
     (mm_is_write mm \<longrightarrow>
        (off = VIRTIO_MMIO_QUEUE_SEL \<or> off = VIRTIO_MMIO_QUEUE_NOTIFY \<longrightarrow>
           unat (le_word (take 4 (mm_data mm)) :: u32) < kind_queues k) \<and>
        (off = VIRTIO_MMIO_QUEUE_READY \<longrightarrow> \<not> is_entropy k))"

definition careful :: "(io_window \<times> dev_kind) list \<Rightarrow> kvm_exit_mmio \<Rightarrow> bool" where
  "careful bus mm \<longleftrightarrow> length (mm_data mm) = 8 \<and>
     (\<forall>(w, k) \<in> set bus. in_range w (mm_phys_addr mm) \<longrightarrow> careful_access k mm (offset w (mm_phys_addr mm)))"

definition bus_ok :: "machine \<Rightarrow> bool" where
  "bus_ok v \<longleftrightarrow> windows_ok (vm_mmio v) \<and> list_all (\<lambda>s. vio_ok (fst (ms_state s))) (vm_mmio v)"

lemma vio_ok_rest: "vio_ok (fst (ms_state s)) \<Longrightarrow> at_rest s"
proof (cases "fst (ms_state s)")
  case (Vrng d)
  assume "vio_ok (fst (ms_state s))"
  with Vrng have "unat (vd_queue_index d) < length (vd_queues d)" "True \<notin> set (map q_ready (vd_queues d))"
    by (auto simp: careful_rng.valid_def rng_inv_def)
  then show ?thesis using Vrng by (auto simp: at_rest_def q_cur_def)
qed (simp_all add: at_rest_def)

lemma vio_queues: "vio_ok dev \<Longrightarrow> kind_queues (vio_kind dev) = (case dev of Vnet d \<Rightarrow> 3 | _ \<Rightarrow> 1)"
  by (cases dev) (auto simp: careful_disk.valid_def careful_rng.valid_def careful_net.valid_def
      blk_inv_def rng_inv_def net_inv_def)

lemma vio_read_careful:
  assumes "vio_ok dev" "careful_access (vio_kind dev) mm off"
  shows "\<exists>buf. vio_read off (mm_len mm) (dev, irq) = Inr (buf, dev, irq) \<and> length buf \<le> 8"
  using assms careful_disk.careful_read careful_rng.careful_read careful_net.careful_read
  by (cases dev) (auto simp: careful_access_def simp del: vio_read.simps)

lemma vio_write_careful:
  assumes "vio_ok dev" "careful_access (vio_kind dev) mm off" "mm_is_write mm" "length (mm_data mm) = 8"
  shows "\<exists>dev' irq'. vio_write (mm_data mm) off (mm_len mm) (dev, irq) = Inr (dev', irq') \<and> vio_ok dev'"
proof -
  have len: "unat (mm_len mm) \<le> 8" and
    sel: "off = VIRTIO_MMIO_QUEUE_SEL \<or> off = VIRTIO_MMIO_QUEUE_NOTIFY \<longrightarrow>
      unat (le_word (take 4 (mm_data mm)) :: u32) < (case dev of Vnet d \<Rightarrow> 3 | _ \<Rightarrow> 1)"
    using assms(2,3) vio_queues[OF assms(1)] by (auto simp: careful_access_def)
  show ?thesis
  proof (cases dev)
    case (Vblk d)
    with careful_disk.careful_write[of d "mm_len mm" "mm_data mm" off irq] assms(1,4) len sel show ?thesis
      by (auto simp del: vio_write.simps)
  next
    case (Vrng d)
    with careful_rng.careful_write[of d "mm_len mm" "mm_data mm" off irq] assms(1,4) len sel obtain d' irq' where
      w: "vio_write (mm_data mm) off (mm_len mm) (dev, irq) = Inr (Vrng d', irq')" "careful_rng.valid d'"
      "off \<noteq> VIRTIO_MMIO_QUEUE_READY \<longrightarrow> map q_ready (vd_queues d') = map q_ready (vd_queues d)"
      by (auto simp del: vio_write.simps)
    moreover have "off \<noteq> VIRTIO_MMIO_QUEUE_READY" using assms(2,3) Vrng by (auto simp: careful_access_def)
    ultimately show ?thesis using assms(1) Vrng by (auto simp del: vio_write.simps)
  next
    case (Vnet d)
    with careful_net.careful_write[of d "mm_len mm" "mm_data mm" off irq] assms(1,4) len sel show ?thesis
      by (auto simp del: vio_write.simps)
  qed
qed

section \<open>Exits on the bus\<close>

lemma bus_ok_cong: "vm_mmio v' = vm_mmio v \<Longrightarrow> bus_ok v' = bus_ok v"
  by (simp add: bus_ok_def)

lemma bus_ok_set:
  assumes "bus_ok v" "vio_ok (fst st)"
  shows "windows_ok ((vm_mmio v)[i := (vm_mmio v ! i)\<lparr>ms_state := st\<rparr>])"
    and "list_all (\<lambda>s. vio_ok (fst (ms_state s))) ((vm_mmio v)[i := (vm_mmio v ! i)\<lparr>ms_state := st\<rparr>])"
proof -
  have "map ms_window ((vm_mmio v)[i := (vm_mmio v ! i)\<lparr>ms_state := st\<rparr>]) = map ms_window (vm_mmio v)"
    by (cases "i < length (vm_mmio v)") (simp_all add: map_update list_update_same_conv list_update_beyond)
  from windows_ok_same[OF this] assms(1)
  show "windows_ok ((vm_mmio v)[i := (vm_mmio v ! i)\<lparr>ms_state := st\<rparr>])" by (simp add: bus_ok_def)
  show "list_all (\<lambda>s. vio_ok (fst (ms_state s))) ((vm_mmio v)[i := (vm_mmio v ! i)\<lparr>ms_state := st\<rparr>])"
    using assms by (cases "i < length (vm_mmio v)")
      (auto simp: bus_ok_def list_all_length nth_list_update list_update_beyond)
qed

lemma bus_update_rests:
  "list_all (\<lambda>s. vio_ok (fst (ms_state s))) ss \<Longrightarrow> mmio_update vio_update m ss = Inr (m, ss)"
  by (intro bus_at_rest) (auto simp: list_all_iff intro: vio_ok_rest)

text \<open>The access itself, before the devices are updated.\<close>

lemma bus_access_careful:
  assumes "bus_ok v" "careful (bus_shape (vm_mmio v)) mm"
  shows "\<not> mm_is_write mm \<Longrightarrow>
      \<exists>buf. mmio_read vio_read (mm_phys_addr mm) (mm_len mm) (vm_mmio v) = Inr (buf, vm_mmio v) \<and> length buf \<le> 8"
    and "mm_is_write mm \<Longrightarrow>
      \<exists>ss. mmio_write vio_write (mm_data mm) (mm_phys_addr mm) (mm_len mm) (vm_mmio v) = Inr ss \<and>
        windows_ok ss \<and> list_all (\<lambda>s. vio_ok (fst (ms_state s))) ss"
proof -
  let ?ss = "vm_mmio v" and ?a = "mm_phys_addr mm"
  have w: "windows_ok ?ss" using assms(1) by (simp add: bus_ok_def)
  have ok: "vio_ok dev \<and> careful_access (vio_kind dev) mm (offset (ms_window (?ss ! i)) ?a)"
    if "i < length ?ss" "in_range (ms_window (?ss ! i)) ?a" "ms_state (?ss ! i) = (dev, irq)" for i dev irq
  proof -
    have "(ms_window (?ss ! i), vio_kind dev) \<in> set (bus_shape ?ss)"
      using that(1,3) nth_mem[OF that(1)] by (force simp: bus_shape_def)
    with assms that show ?thesis by (auto simp: careful_def bus_ok_def list_all_length)
  qed
  consider (miss) "\<not> list_ex (\<lambda>s. in_range (ms_window s) ?a) ?ss"
    | (hit) i where "i < length ?ss" "in_range (ms_window (?ss ! i)) ?a"
    by (auto simp: list_ex_length)
  note where_to = this
  show "\<exists>buf. mmio_read vio_read ?a (mm_len mm) ?ss = Inr (buf, ?ss) \<and> length buf \<le> 8" if "\<not> mm_is_write mm"
  proof (cases rule: where_to)
    case miss
    then show ?thesis by (simp add: mmio_miss)
  next
    case (hit i)
    obtain dev irq where st: "ms_state (?ss ! i) = (dev, irq)" by fastforce
    have "?ss[i := (?ss ! i)\<lparr>ms_state := (dev, irq)\<rparr>] = ?ss"
      using st by (cases "?ss ! i") (simp add: list_update_same_conv hit(1))
    then show ?thesis
      using vio_read_careful[of dev mm _ irq] that hit st ok[OF hit st]
      by (force simp: mmio_read_hit[OF w hit])
  qed
  show "\<exists>ss. mmio_write vio_write (mm_data mm) ?a (mm_len mm) ?ss = Inr ss \<and>
      windows_ok ss \<and> list_all (\<lambda>s. vio_ok (fst (ms_state s))) ss" if "mm_is_write mm"
  proof (cases rule: where_to)
    case miss
    then show ?thesis using assms(1) by (simp add: mmio_miss bus_ok_def)
  next
    case (hit i)
    obtain dev irq where st: "ms_state (?ss ! i) = (dev, irq)" by fastforce
    have "length (mm_data mm) = 8" using assms(2) by (simp add: careful_def)
    from vio_write_careful[OF conjunct1[OF ok[OF hit st]] conjunct2[OF ok[OF hit st]] that this, of irq]
    obtain dev' irq' where
      "vio_write (mm_data mm) (offset (ms_window (?ss ! i)) ?a) (mm_len mm) (dev, irq) = Inr (dev', irq')" "vio_ok dev'"
      by blast
    then show ?thesis
      using bus_ok_set[OF assms(1), of "(dev', irq')"] st by (simp add: mmio_write_hit[OF w hit])
  qed
qed

lemma handle_mmio_careful:
  assumes "bus_ok v" "careful (bus_shape (vm_mmio v)) mm"
  shows "\<exists>mm' v'. handle_mmio mm v = Inr (mm', v') \<and> bus_ok v' \<and> vm_memory v' = vm_memory v"
proof (cases "mm_is_write mm")
  case False
  obtain buf where r: "mmio_read vio_read (mm_phys_addr mm) (mm_len mm) (vm_mmio v) = Inr (buf, vm_mmio v)" "length buf \<le> 8"
    using bus_access_careful(1)[OF assms False] by blast
  have "buf_write (mm_data mm) 0 buf = Inr (buf @ drop (length buf) (mm_data mm))"
    using r(2) assms(2) by (simp add: buf_write_def careful_def)
  with r(1) False assms(1) show ?thesis
    by (simp add: handle_mmio_def bus_update_rests bus_ok_def)
next
  case True
  obtain ss where "mmio_write vio_write (mm_data mm) (mm_phys_addr mm) (mm_len mm) (vm_mmio v) = Inr ss"
    "windows_ok ss" "list_all (\<lambda>s. vio_ok (fst (ms_state s))) ss"
    using bus_access_careful(2)[OF assms True] by blast
  with True show ?thesis by (simp add: handle_mmio_def bus_update_rests bus_ok_def)
qed

section \<open>Schedules of a careful driver\<close>

fun careful_exit :: "(io_window \<times> dev_kind) list \<Rightarrow> kvm_exit \<Rightarrow> bool" where
  "careful_exit bus (KVM_EXIT_MMIO mm) = careful bus mm"
| "careful_exit bus x = True"

fun careful_event :: "(io_window \<times> dev_kind) list \<Rightarrow> event \<Rightarrow> bool" where
  "careful_event bus (Cpu_event i x) = careful_exit bus x"
| "careful_event bus e = True"

lemma handle_exit_bus:
  "handle_exit x v = Inr (r, x', v') \<Longrightarrow> (\<And>mm. x \<noteq> KVM_EXIT_MMIO mm) \<Longrightarrow> vm_mmio v' = vm_mmio v"
  by (cases "(x, v)" rule: handle_exit.cases)
     (auto dest: handle_io_device_fields split: option.splits if_splits)

lemma handle_exit_bus_ok:
  assumes "handle_exit x v = Inr (r, x', v')" "bus_ok v" "careful_exit (bus_shape (vm_mmio v)) x"
  shows "bus_ok v'"
proof (cases x)
  case (KVM_EXIT_MMIO mm)
  with assms handle_mmio_careful[of v mm] show ?thesis by auto
qed (use assms bus_ok_cong[OF handle_exit_bus[OF assms(1)]] in auto)

lemma vio_round_ok:
  assumes "vio_round rx m (dev, irq) = Some (Inr (m', dev', irq'))" "vio_ok dev"
  shows "vio_ok dev'"
proof (cases dev)
  case (Vblk d)
  with assms(1) obtain d' where d: "dev' = Vblk d'" "blk_round m (d, irq) = Some (Inr (m', d', irq'))" by auto
  from blk_round_keeps[OF d(2)] assms(2) show ?thesis
    by (auto simp: Vblk d(1) careful_disk.valid_def blk_inv_def)
next
  case (Vrng d)
  with assms show ?thesis by simp
next
  case (Vnet d)
  with assms(1) obtain d' where d: "dev' = Vnet d'"
    "(if rx then run_rx else run_tx) m (d, irq) = Some (Inr (m', d', irq'))" by auto
  then have "net_shape d' = net_shape d \<and> vd_queue_index d' = vd_queue_index d"
    by (cases rx) (simp_all add: run_rx_keeps run_tx_keeps)
  with assms(2) show ?thesis
    by (simp add: Vnet d(1) careful_net.valid_def net_inv_def net_shape_def)
qed

lemma device_round_bus_ok:
  assumes "device_round rx i v = Some (Inr v')" "bus_ok v" "i < length (vm_mmio v)"
  shows "bus_ok v'"
proof -
  obtain dev irq where st: "ms_state (vm_mmio v ! i) = (dev, irq)" by fastforce
  then have "vio_ok dev" using assms(2,3) by (auto simp: bus_ok_def list_all_length)
  moreover from assms(1) st obtain m dev' irq' where r: "vio_round rx (vm_memory v) (dev, irq) = Some (Inr (m, dev', irq'))"
    "v' = v\<lparr>vm_memory := m, vm_mmio := (vm_mmio v)[i := (vm_mmio v ! i)\<lparr>ms_state := (dev', irq')\<rparr>]\<rparr>"
    by (auto simp: device_round_def)
  ultimately have "vio_ok dev'" using vio_round_ok by blast
  with bus_ok_set[OF assms(2), of "(dev', irq')" i] show ?thesis by (simp add: r(2) bus_ok_def)
qed

lemma run_event_bus_ok:
  assumes "run_event e s = Some s'" "bus_ok (rn_machine s)"
    and "careful_event (bus_shape (vm_mmio (rn_machine s))) e"
  shows "bus_ok (rn_machine s')"
  using assms
proof (induction e s rule: run_event.induct)
  case (1 i x s)
  then obtain p v where c: "cpu_next x (rn_cpus s ! i) (rn_machine s) = Some (p, v)" "rn_machine s' = v"
    by (auto split: if_splits)
  show ?case
  proof (cases "rn_cpus s ! i")
    case Cpu_in_guest
    with c(1) obtain r x' where "handle_exit x (rn_machine s) = Inr (r, x', v)"
      by (auto split: if_splits sum.splits)
    from handle_exit_bus_ok[OF this] 1 c(2) show ?thesis by simp
  qed (use c 1 in auto)
next
  case (2 rx i s)
  then show ?case by (auto split: if_splits option.splits sum.splits intro: device_round_bus_ok)
next
  case (3 s)
  have "bus_ok v'" if "read_terminal (rn_machine s) = Inr (again, v')" for again v'
    using that 3(2) by (elim read_terminal_cases) (simp add: bus_ok_def)
  with 3 show ?case by (cases "rn_reader s") (auto split: sum.splits)
next
  case (4 s)
  then show ?case by (cases "rn_main s") (auto simp: bus_ok_def stop_def split: if_splits)
qed

lemma run_schedule_bus_ok:
  "run_schedule es s = Some s' \<Longrightarrow> bus_ok (rn_machine s) \<Longrightarrow>
   list_all (careful_event (bus_shape (vm_mmio (rn_machine s)))) es \<Longrightarrow> bus_ok (rn_machine s')"
proof (induction es arbitrary: s)
  case (Cons e es)
  then obtain t where t: "run_event e s = Some t" "run_schedule es t = Some s'" by (auto split: option.splits)
  have "bus_shape (vm_mmio (rn_machine t)) = bus_shape (vm_mmio (rn_machine s))"
    using vmm_step_shape[OF event_step[OF t(1)]] by (simp add: machine_shape_def)
  with Cons.IH[OF t(2) run_event_bus_ok[OF t(1) Cons.prems(2)]] Cons.prems(3) show ?case by simp
qed simp

lemma new_vio_ok:
  "length junk < 18446744073709551616 \<Longrightarrow> vio_ok (Vblk (blk_new disk junk))"
  "length junk < 18446744073709551616 \<Longrightarrow> vio_ok (Vnet (net_new t junk))"
  "vio_ok (Vrng (rng_new pool))"
  by (simp_all add: careful_disk.valid_def careful_rng.valid_def careful_net.valid_def blk_inv_def rng_inv_def
      net_inv_def blk_new_def rng_new_def net_new_def vdev.extend_def vdev_new_def queue_new_def default_mac_def)

lemma pc_bus_ok:
  assumes "vm_mmio v = pc_bus env" "length (be_blk env) < 18446744073709551616" "length (be_net env) < 18446744073709551616"
  shows "bus_ok v"
proof -
  have "list_all (\<lambda>s. vio_ok (fst (ms_state s))) (pc_bus env)"
    using new_vio_ok assms(2,3) by (simp add: pc_bus_def del: vio_ok.simps)
  then show ?thesis using pc_bus_apart[of env] by (simp add: bus_ok_def assms(1))
qed

section \<open>Properties\<close>

text \<open>C4: The bus is safe for a careful driver: on the machine that \<^verbatim>\<open>start\<close> builds, if every access to a
  physical address so far used four bytes for registers, selected and notified only queues that exist
  and never made the queue of the entropy device ready, then, whatever else the guest, the device
  threads and the terminal did and in whatever order, every further such access is served, inside the bounds of
  every buffer, and leaves the guest's memory alone.\<close>

theorem mmio_exits_always_served:
  assumes "vm_mmio v = pc_bus env" "length (be_blk env) < 18446744073709551616" "length (be_net env) < 18446744073709551616"
    and "run_schedule es (start_threads v) = Some s" "list_all (careful_event (bus_shape (pc_bus env))) es"
    and "careful (bus_shape (pc_bus env)) mm"
  shows "\<exists>mm' v'. handle_exit (KVM_EXIT_MMIO mm) (rn_machine s) = Inr (None, KVM_EXIT_MMIO mm', v') \<and>
    vm_memory v' = vm_memory (rn_machine s)"
proof -
  have v: "rn_machine (start_threads v) = v" by simp
  have ok: "bus_ok (rn_machine s)"
    using run_schedule_bus_ok[OF assms(4)] pc_bus_ok[OF assms(1-3)] assms(1,5) by simp
  have "vmm_steps (start_threads v) s"
    using schedule_steps[OF assms(4)] .
  from vmm_steps_shape[OF this] have "bus_shape (vm_mmio (rn_machine s)) = bus_shape (pc_bus env)"
    using assms(1) by (simp add: machine_shape_def)
  with handle_mmio_careful[OF ok, of mm] assms(6) show ?thesis by auto
qed

section \<open>Examples\<close>

text \<open>A driver that resets the disk and then reads its capacity.\<close>

definition demo_access :: "u64 \<Rightarrow> bool \<Rightarrow> kvm_exit_mmio" where
  "demo_access addr wr = \<lparr>mm_phys_addr = addr, mm_data = replicate 8 0, mm_len = 4, mm_is_write = wr\<rparr>"

theorem mmio_exits_always_served_witness:
  "\<exists>s mm' v'. run_schedule [Cpu_event 0 KVM_EXIT_INTR, Cpu_event 0 (KVM_EXIT_MMIO (demo_access 0xd0000070 True))]
      (start_threads (demo_bus demo_env)) = Some s \<and>
    handle_exit (KVM_EXIT_MMIO (demo_access 0xd0000100 False)) (rn_machine s) = Inr (None, KVM_EXIT_MMIO mm', v')"
proof -
  let ?v = "demo_bus demo_env"
  let ?mm = "demo_access 0xd0000070 True"
  have bus: "vm_mmio ?v = pc_bus demo_env" by (simp add: demo_bus_def)
  have junk: "length (be_blk demo_env) < 18446744073709551616" "length (be_net demo_env) < 18446744073709551616"
    by (simp_all add: demo_env_def)
  have care: "careful (bus_shape (pc_bus demo_env)) ?mm" "careful (bus_shape (pc_bus demo_env)) (demo_access 0xd0000100 False)"
    by (simp_all add: careful_def demo_access_def bus_shape_def pc_bus_def in_range_def offset_def careful_access_def
        mmio_regs)
  obtain mm1 v1 where h: "handle_exit (KVM_EXIT_MMIO ?mm) ?v = Inr (None, KVM_EXIT_MMIO mm1, v1)"
    using handle_mmio_careful[OF pc_bus_ok[OF bus junk], of ?mm] care(1) bus by auto
  have run: "vm_should_run ?v" by (simp add: demo_bus_def demo_fresh_def)
  have cpus: "rn_cpus (start_threads ?v) = [Cpu_top, Cpu_top]" by (rule demo_two_cpus)
  obtain s where s: "run_schedule [Cpu_event 0 KVM_EXIT_INTR, Cpu_event 0 (KVM_EXIT_MMIO ?mm)] (start_threads ?v) = Some s"
    using h run by (simp add: cpus exit_ok_def)
  from mmio_exits_always_served[OF bus junk this _ care(2)] care(1) s show ?thesis by auto
qed

end
