(* ===== verification/Disk_Requests.thy ===== *)
theory Disk_Requests
  imports Virtio_Driver
begin

text \<open>
  Many requests on one queue of the disk (\<^verbatim>\<open>src/kvm/virtio/blk.h\<close>): the abstract block store a driver
  may rely on, and the rounds of the disk's thread as its implementation. A request belongs to the
  driver's view: where its parts lie and what it asks for. The store is a byte list on which the
  requests act one after the other, in the order in which the driver published them.
\<close>

section \<open>The abstract block store\<close>

datatype disk_op = Fetch | Store "u8 list"

record disk_request =
  dr_head :: u16
  dr_op :: disk_op
  dr_sector :: u64
  dr_header :: u64
  dr_bufs :: buffers
  dr_status :: u64

definition dr_pos :: "disk_request \<Rightarrow> nat" where
  "dr_pos r = unat (dr_sector r * 512)"

definition store_step :: "disk_request \<Rightarrow> u8 list \<Rightarrow> u8 list" where
  "store_step r disk = (case dr_op r of Fetch \<Rightarrow> disk | Store bs \<Rightarrow> splice (dr_pos r) bs disk)"

text \<open>Reads stay within the disk as it is when their turn comes.\<close>

definition step_in_bounds :: "disk_request \<Rightarrow> u8 list \<Rightarrow> bool" where
  "step_in_bounds r disk \<longleftrightarrow> (dr_op r = Fetch \<longrightarrow> dr_pos r + total_len (dr_bufs r) \<le> length disk)"

text \<open>What the driver finds in the memory \<open>m\<close>: status OK, and in the buffers of a read the bytes the
  store held when the read had its turn.\<close>

definition step_answered :: "gmem \<Rightarrow> disk_request \<Rightarrow> u8 list \<Rightarrow> bool" where
  "step_answered m r disk \<longleftrightarrow> peek m (dr_status r) 1 = [VIRTIO_BLK_S_OK] \<and>
     (dr_op r = Fetch \<longrightarrow> gather m (dr_bufs r) = take (total_len (dr_bufs r)) (drop (dr_pos r) disk))"

definition disk_completion :: "disk_request \<Rightarrow> u32 \<times> u32" where
  "disk_completion r = (ucast (dr_head r), total32 (dr_bufs r) + 1)"

section \<open>Requests in memory\<close>

definition dr_type :: "disk_request \<Rightarrow> u32" where
  "dr_type r = (case dr_op r of Fetch \<Rightarrow> VIRTIO_BLK_T_IN | Store bs \<Rightarrow> VIRTIO_BLK_T_OUT)"

definition laid_out :: "gmem \<Rightarrow> queue \<Rightarrow> disk_request \<Rightarrow> bool" where
  "laid_out m q r \<longleftrightarrow> event_mem m q \<and> buffer_ok m q (dr_header r) 16 \<and> 0 \<le> sint (dr_sector r * 512) \<and>
     (\<exists>st. request_at m q (dr_head r) (dr_type r) (dr_sector r) (dr_bufs r) st \<and>
        desc_addr_at m q (dr_head r) = dr_header r \<and> desc_addr_at m q st = dr_status r) \<and>
     (case dr_op r of Fetch \<Rightarrow> True | Store bs \<Rightarrow> gather m (dr_bufs r) = bs)"

text \<open>The memory a request uses, and the part of it the device writes. Requests use memory of their own.\<close>

definition footprint :: "disk_request \<Rightarrow> buffers" where
  "footprint r = (dr_header r, 16) # (dr_status r, 1) # dr_bufs r"

definition touched :: "disk_request \<Rightarrow> buffers" where
  "touched r = (case dr_op r of Fetch \<Rightarrow> dr_bufs r | Store bs \<Rightarrow> []) @ [(dr_status r, 1)]"

text \<open>A later memory with the same rings and the same bytes in the request's memory.\<close>

lemma peek_parts:
  assumes "peek m' a (i + l + j) = peek m a (i + l + j)"
  shows "peek m' (a + of_nat i) l = peek m (a + of_nat i) l"
proof -
  have "peek m a (i + l + j) = peek m a i @ peek m (a + of_nat i) l @ peek m (a + of_nat (i + l)) j" for m
    using peek_append[of m a "i + l" j] peek_append[of m a i l] by simp
  with assms show ?thesis by simp
qed

lemma laid_out_same:
  assumes "laid_out m q r" "same_requests q m m'"
    and same: "\<And>a n. (a, n) \<in> set (footprint r) \<Longrightarrow> peek m' a (unat n) = peek m a (unat n)"
  shows "laid_out m' q r"
proof -
  obtain st where st: "request_at m q (dr_head r) (dr_type r) (dr_sector r) (dr_bufs r) st"
    "desc_addr_at m q (dr_head r) = dr_header r" "desc_addr_at m q st = dr_status r"
    using assms(1) by (auto simp: laid_out_def)
  have idx: "unat (dr_head r) < unat (q_size q)" "unat st < unat (q_size q)"
    using st(1) chain_at_index by (auto simp: request_at_def)
  have size: "gm_size m' = gm_size m" using assms(2) by (simp add: same_requests_def)
  have desc: "desc_addr_at m' q i = desc_addr_at m q i" "desc_next_at m' q i = desc_next_at m q i"
    if "unat i < unat (q_size q)" for i using assms(2) that by (simp_all add: same_requests_def)
  have hdr: "peek m' (dr_header r) 16 = peek m (dr_header r) 16"
    using same[of "dr_header r" 16] by (simp add: footprint_def)
  have "peek m' (dr_header r) 4 = peek m (dr_header r) 4" "peek m' (dr_header r + 8) 8 = peek m (dr_header r + 8) 8"
    using peek_parts[of m' "dr_header r" 0 4 12 m] peek_parts[of m' "dr_header r" 8 8 0 m] hdr by simp_all
  then have "request_at m' q (dr_head r) (dr_type r) (dr_sector r) (dr_bufs r) st"
    using st idx by (simp add: request_at_def desc chain_at_same[OF assms(2)] same_requests_ok[OF assms(2)]
        peek_le_def) (simp add: in_mem_def size)
  moreover have "gather m' (dr_bufs r) = gather m (dr_bufs r)"
    by (rule gather_same) (simp add: same footprint_def)
  ultimately show ?thesis
    using assms(1) st idx same_requests_ok(2)[OF assms(2)]
    by (auto simp: laid_out_def desc event_mem_def in_mem_def size split: disk_op.splits)
qed

lemma chain_at_stays [simp]: "chain_at m (q\<lparr>q_last_avail := a\<rparr>) i bufs j = chain_at m q i bufs j"
  by (induction bufs arbitrary: i) (auto simp: desc_flags_at_def desc_next_at_def)

lemma laid_out_stays [simp]: "laid_out m (q\<lparr>q_last_avail := a\<rparr>) r = laid_out m q r"
  by (simp add: laid_out_def request_at_def bufs_ok_def desc_next_at_def event_mem_def)

lemma laid_out_footprint: "laid_out m q r \<Longrightarrow> bufs_ok m q (footprint r)"
  by (auto simp: laid_out_def request_at_def footprint_def)

lemma step_answered_same:
  assumes "step_answered m r disk" "\<And>a n. (a, n) \<in> set (footprint r) \<Longrightarrow> peek m' a (unat n) = peek m a (unat n)"
  shows "step_answered m' r disk"
proof -
  have "gather m' (dr_bufs r) = gather m (dr_bufs r)"
    by (rule gather_same) (simp add: assms(2) footprint_def)
  with assms(1) assms(2)[of "dr_status r" 1] show ?thesis by (simp add: step_answered_def footprint_def)
qed

section \<open>A round is a step of the store\<close>

definition disk_holds :: "queue \<Rightarrow> u8 list \<Rightarrow> blk \<times> interrupt \<Rightarrow> bool" where
  "disk_holds q disk = (\<lambda>(d, irq). q_cur d = Inr q \<and> fs_good (blk_file d) \<and> fs_data (blk_file d) = disk \<and> irq_fd_ok irq)"

text \<open>The data of a request, then its status byte: one run of bytes over the buffers written.\<close>

lemma status_scatter:
  "length bs = total_len bufs \<Longrightarrow>
   poke (scatter m bufs bs) s [VIRTIO_BLK_S_OK] = scatter m (bufs @ [(s, 1)]) (bs @ [VIRTIO_BLK_S_OK])"
  by (simp add: scatter_append)

lemma disk_round:
  assumes "disk_holds q disk s" "queue_ok m q" "pending m q = dr_head r # hs" "laid_out m q r" "step_in_bounds r disk"
  shows "\<exists>m' s'. blk_round m s = Some (Inr (m', s')) \<and>
    disk_holds (q\<lparr>q_last_avail := q_last_avail q + 1\<rparr>) (store_step r disk) s' \<and> same_requests q m m' \<and>
    used_step q (disk_completion r) m m' \<and> writes_only m q (touched r) m' \<and> step_answered m' r disk"
proof -
  obtain d irq where s: "s = (d, irq)" by (cases s)
  have d: "q_cur d = Inr q" "fs_good (blk_file d)" "fs_data (blk_file d) = disk" "irq_fd_ok irq"
    using assms(1) by (simp_all add: disk_holds_def s)
  obtain st where req: "request_at m q (dr_head r) (dr_type r) (dr_sector r) (dr_bufs r) st"
    and sa: "desc_addr_at m q st = dr_status r" and pos: "0 \<le> sint (dr_sector r * 512)" and ev: "event_mem m q"
    using assms(4) by (auto simp: laid_out_def)
  have h: "unat (dr_head r) < unat (q_size q)" "bufs_ok m q (dr_bufs r @ [(dr_status r, 1)])"
    "bufs_ok m q [(dr_status r, 1)]"
    using req sa by (auto simp: request_at_def bufs_ok_def)
  show ?thesis
  proof (cases "dr_op r")
    case Fetch
    let ?bs = "take (total_len (dr_bufs r)) (drop (dr_pos r) disk)"
    have type: "request_at m q (dr_head r) VIRTIO_BLK_T_IN (dr_sector r) (dr_bufs r) st"
      using req by (simp add: dr_type_def Fetch)
    have bound: "unat (dr_sector r * 512) + total_len (dr_bufs r) \<le> length (fs_data (blk_file d))"
      using assms(5) by (simp add: step_in_bounds_def Fetch dr_pos_def d(3))
    then have len: "length ?bs = total_len (dr_bufs r)" by (simp add: d(3) dr_pos_def)
    let ?m' = "completion (scatter m (touched r) (?bs @ [VIRTIO_BLK_S_OK])) q (ucast (dr_head r)) (total32 (dr_bufs r) + 1)"
    have t: "touched r = dr_bufs r @ [(dr_status r, 1)]" by (simp add: touched_def Fetch)
    from blk_round_serves[OF d(1) assms(2,3) h(1) blk_request_in[OF assms(2) type d(2) pos bound] _ ev d(4)]
    obtain d' irq' where r: "blk_round m (d, irq) = Some (Inr (?m', d', irq'))"
      "q_cur d' = Inr (q\<lparr>q_last_avail := q_last_avail q + 1\<rparr>)" "irq_fd_ok irq'"
      "blk_file d' = (blk_file d)\<lparr>fs_pos := unat (dr_sector r * 512) + total_len (dr_bufs r)\<rparr>"
      by (auto simp: sa t dr_pos_def[symmetric] d(3) status_scatter[OF len, symmetric])
    have "gather ?m' (dr_bufs r) = ?bs" "peek ?m' (dr_status r) 1 = [VIRTIO_BLK_S_OK]"
      using read_round_memory(1,2)[OF assms(2) type len, unfolded sa]
      by (simp_all add: t served_def status_scatter[OF len, symmetric])
    with r d service_memory(1-3)[OF assms(2) h(2), where bs = "?bs @ [VIRTIO_BLK_S_OK]" and start = "ucast (dr_head r)"
        and len = "total32 (dr_bufs r) + 1"]
    show ?thesis
      by (auto simp: s t disk_holds_def store_step_def step_answered_def disk_completion_def Fetch)
  next
    case (Store bs)
    let ?m' = "completion (scatter m (touched r) [VIRTIO_BLK_S_OK]) q (ucast (dr_head r)) (total32 (dr_bufs r) + 1)"
    have t: "touched r = [(dr_status r, 1)]" by (simp add: touched_def Store)
    have type: "request_at m q (dr_head r) VIRTIO_BLK_T_OUT (dr_sector r) (dr_bufs r) st"
      using req by (simp add: dr_type_def Store)
    have data: "gather m (dr_bufs r) = bs" using assms(4) by (simp add: laid_out_def Store)
    from blk_round_serves[OF d(1) assms(2,3) h(1) blk_request_out[OF assms(2) type d(2) pos] _ ev d(4)]
    obtain d' irq' where r: "blk_round m (d, irq) = Some (Inr (?m', d', irq'))"
      "q_cur d' = Inr (q\<lparr>q_last_avail := q_last_avail q + 1\<rparr>)" "irq_fd_ok irq'"
      "blk_file d' = file_write bs ((blk_file d)\<lparr>fs_pos := dr_pos r\<rparr>)"
      by (auto simp: sa t data dr_pos_def)
    have status: "gather ?m' [(dr_status r, 1)] = [VIRTIO_BLK_S_OK]"
      using service_memory(4)[OF assms(2) h(3,3), of "[VIRTIO_BLK_S_OK]"] peek_poke_same[of "[VIRTIO_BLK_S_OK]" m "dr_status r"] by (simp add: t)
    then show ?thesis
      using r d service_memory(1-3)[OF assms(2) h(3), where bs = "[VIRTIO_BLK_S_OK]" and start = "ucast (dr_head r)"
          and len = "total32 (dr_bufs r) + 1"]
      by (auto simp: s t disk_holds_def store_step_def step_answered_def disk_completion_def Store file_write_def)
  qed
qed

interpretation disk_service: ring_service dr_head laid_out footprint touched step_in_bounds store_step
    step_answered "\<lambda>r _. disk_completion r" disk_holds blk_round
proof unfold_locales
  fix q a s m r hs
  assume "disk_holds q a s" "queue_ok m q" "pending m q = dr_head r # hs" "laid_out m q r" "step_in_bounds r a"
  then show "\<exists>m' s'. blk_round m s = Some (Inr (m', s')) \<and>
      disk_holds (q\<lparr>q_last_avail := q_last_avail q + 1\<rparr>) (store_step r a) s' \<and> same_requests q m m' \<and>
      used_step q (disk_completion r) m m' \<and> writes_only m q (touched r) m' \<and> step_answered m' r a"
    by (rule disk_round)
next
  show "set (touched r) \<subseteq> set (footprint r)" for r
    by (cases "dr_op r") (auto simp: touched_def footprint_def)
qed (simp_all add: laid_out_footprint laid_out_same step_answered_same)

definition disk_batches :: "queue \<Rightarrow> (gmem \<times> disk_request list) list \<Rightarrow> u8 list \<Rightarrow> bool" where
  "disk_batches = batches dr_head laid_out footprint step_in_bounds store_step"

definition disk_done :: "queue \<Rightarrow> (gmem \<times> disk_request list) list \<Rightarrow> gmem list \<Rightarrow> u8 list \<Rightarrow> bool" where
  "disk_done = batches_done step_answered (\<lambda>r _. disk_completion r) store_step"

section \<open>Properties\<close>

text \<open>C8: The disk is the block store a driver expects, for as long as its queue lives: on the machine as
  \<^verbatim>\<open>start\<close> builds it, after the set-up of the queue through its registers, the driver publishes
  batches of reads and writes in any order, and between two batches does what it likes with its
  memory. As many rounds of the disk's thread carry the requests out, one after the other in the
  order of publication. The file ends as the abstract store does, every status byte is OK, each read
  has the bytes its place in the order calls for, those of earlier writes included, and the used
  ring names the requests of a batch with the bytes moved in the same order.\<close>

theorem guest_uses_disk:
  assumes "vm_mmio v = pc_bus env" "be_disk env = Some disk" "q = queue_of sz desc avail used"
    and "disk_batches q bs disk"
  shows "\<exists>v1 ms v2 d irq. serve_exits (register_stores 0xd0000000 (queue_setup 0 sz desc avail used)) v = Inr v1 \<and>
    device_batches rx 0 (map (\<lambda>(m, rs). (m, length rs)) bs) v1 = Some (Inr (ms, v2)) \<and>
    ms_state (vm_mmio v2 ! 0) = (Vblk d, irq) \<and>
    fs_data (blk_file d) = fold store_step (concat (map snd bs)) disk \<and> disk_done q bs ms disk"
proof -
  let ?d = "disk_ready disk (be_blk env) q" and ?irq = "interrupt_new 12 True"
  obtain v1 where v1: "serve_exits (register_stores 0xd0000000 (queue_setup 0 sz desc avail used)) v = Inr v1"
    and s1: "disk_on_bus.sits 0 0xd0000000 ?d ?irq v1"
    using disk_set_up[OF assms(1,2)] assms(3) by blast
  have "disk_holds q disk (?d, ?irq)" by (simp add: disk_holds_def disk_ready_fields file_open_def)
  from disk_service.serves_batches[OF this assms(4)[unfolded disk_batches_def]] obtain ms d' irq' where
    r: "batch_rounds blk_round (map (\<lambda>(m, rs). (m, length rs)) bs) (?d, ?irq) = Some (Inr (ms, d', irq'))"
      "fs_data (blk_file d') = fold store_step (concat (map snd bs)) disk" "disk_done q bs ms disk"
    by (auto simp: disk_holds_def disk_done_def)
  have "\<exists>v2. device_batches rx 0 (map (\<lambda>(m, rs). (m, length rs)) bs) v1 = Some (Inr (ms, v2)) \<and>
      disk_on_bus.sits 0 0xd0000000 d' irq' v2"
    by (rule disk_on_bus.batches_on_bus[where rnd = blk_round]) (use s1 r(1) in simp_all)
  with v1 r(2,3) disk_on_bus.sits_state show ?thesis by blast
qed

text \<open>A write of two bytes, and once it has been served a read of three, on a ring of eight entries.\<close>

definition batch_demo_mem :: "u8 \<Rightarrow> gmem" where
  "batch_demo_mem n = \<lparr>gm_size = 4096, gm_byte = (\<lambda>_. 0)
     (1 := 3, 12 := 1, 14 := 1, 17 := 4, 24 := 2, 28 := 1, 30 := 2, 33 := 5, 44 := 2,
      48 := 32, 49 := 3, 60 := 1, 62 := 4, 64 := 76, 65 := 4, 72 := 3, 76 := 1, 78 := 5, 80 := 10, 81 := 5, 92 := 2,
      130 := n, 134 := 3, 768 := 1, 1024 := 11, 1025 := 22)\<rparr>"

definition write_demo :: disk_request where
  "write_demo = \<lparr>dr_head = 0, dr_op = Store [11, 22], dr_sector = 0, dr_header = 768, dr_bufs = [(1024, 2)], dr_status = 1280\<rparr>"

definition read_demo :: disk_request where
  "read_demo = \<lparr>dr_head = 3, dr_op = Fetch, dr_sector = 0, dr_header = 800, dr_bufs = [(1100, 3)], dr_status = 1290\<rparr>"

definition batch_queue :: queue where
  "batch_queue = queue_of 8 0 128 256"

lemma batch_demo_desc:
  "desc_addr_at (batch_demo_mem n) batch_queue 0 = 768" "desc_next_at (batch_demo_mem n) batch_queue 0 = 1"
  "desc_addr_at (batch_demo_mem n) batch_queue 1 = 1024" "desc_next_at (batch_demo_mem n) batch_queue 1 = 2"
  "desc_addr_at (batch_demo_mem n) batch_queue 2 = 1280" "desc_len_at (batch_demo_mem n) batch_queue 1 = 2"
  "desc_flags_at (batch_demo_mem n) batch_queue 1 = 1" "desc_flags_at (batch_demo_mem n) batch_queue 2 = 2"
  "desc_addr_at (batch_demo_mem n) batch_queue 3 = 800" "desc_next_at (batch_demo_mem n) batch_queue 3 = 4"
  "desc_addr_at (batch_demo_mem n) batch_queue 4 = 1100" "desc_next_at (batch_demo_mem n) batch_queue 4 = 5"
  "desc_addr_at (batch_demo_mem n) batch_queue 5 = 1290" "desc_len_at (batch_demo_mem n) batch_queue 4 = 3"
  "desc_flags_at (batch_demo_mem n) batch_queue 4 = 1" "desc_flags_at (batch_demo_mem n) batch_queue 5 = 2"
  by (simp_all add: desc_addr_at_def desc_next_at_def desc_len_at_def desc_flags_at_def batch_queue_def queue_of_def
      batch_demo_mem_def peek_le_def peek_def upt_rec)

lemma batch_demo_queue:
  "queue_ok (batch_demo_mem n) batch_queue" "event_mem (batch_demo_mem n) batch_queue" "q_size batch_queue = 8"
  "pending (batch_demo_mem 1) batch_queue = [0]" "pending (batch_demo_mem 2) (advance 1 batch_queue) = [3]"
  by (simp_all add: queue_ok_def batch_queue_def queue_of_def batch_demo_mem_def in_mem_def disjoint_ranges_def advance_def
      QUEUE_SIZE_MAX_def event_mem_def pending_def avail_entry_def peek_avail_idx_def peek_le_def peek_def upt_rec)

lemma batch_demo_buffer:
  "unat a + k \<le> 4096 \<Longrightarrow> 324 \<le> unat a \<Longrightarrow> buffer_ok (batch_demo_mem n) batch_queue a k"
  by (simp add: buffer_ok_def in_mem_def batch_demo_mem_def batch_queue_def queue_of_def disjoint_ranges_def)

lemma batch_demo_laid:
  "laid_out (batch_demo_mem n) batch_queue write_demo" "laid_out (batch_demo_mem n) batch_queue read_demo"
proof -
  have peeks: "peek32 (batch_demo_mem n) 768 = 1" "peek64 (batch_demo_mem n) 776 = 0" "peek32 (batch_demo_mem n) 800 = 0"
    "peek64 (batch_demo_mem n) 808 = 0" "peek (batch_demo_mem n) 1024 2 = [11, 22]"
    by (simp_all add: peek_le_def peek_def batch_demo_mem_def upt_rec)
  have mem: "in_mem (batch_demo_mem n) 768 16" "in_mem (batch_demo_mem n) 800 16"
    by (simp_all add: in_mem_def batch_demo_mem_def)
  have "request_at (batch_demo_mem n) batch_queue 0 VIRTIO_BLK_T_OUT 0 [(1024, 2)] 2"
    "request_at (batch_demo_mem n) batch_queue 3 VIRTIO_BLK_T_IN 0 [(1100, 3)] 5"
    by (simp_all add: request_at_def batch_demo_desc batch_demo_queue batch_demo_buffer peeks mem disjoint_ranges_def
        VRING_DESC_F_NEXT_def VIRTIO_BLK_T_OUT_def VIRTIO_BLK_T_IN_def)
  with batch_demo_desc show "laid_out (batch_demo_mem n) batch_queue write_demo"
    "laid_out (batch_demo_mem n) batch_queue read_demo"
    by (auto simp: write_demo_def read_demo_def laid_out_def dr_type_def batch_demo_buffer batch_demo_queue peeks)
qed

lemma batch_demo_ok:
  "disk_batches batch_queue [(batch_demo_mem 1, [write_demo]), (batch_demo_mem 2, [read_demo])] [1, 2, 3, 4]"
proof -
  have "step_in_bounds write_demo [1, 2, 3, 4]" "step_in_bounds read_demo (store_step write_demo [1, 2, 3, 4])"
    by (simp_all add: write_demo_def read_demo_def step_in_bounds_def store_step_def dr_pos_def splice_def)
  moreover have "laid_out (batch_demo_mem 2) (advance 1 batch_queue) read_demo" "queue_ok (batch_demo_mem 2) (advance 1 batch_queue)"
    using batch_demo_laid(2) batch_demo_queue(1) by (simp_all add: advance_def)
  ultimately show ?thesis
    using batch_demo_laid(1) batch_demo_queue
    by (simp add: disk_batches_def batch_defs write_demo_def read_demo_def) (simp add: advance_def batch_demo_queue)
qed

theorem guest_uses_disk_witness:
  "\<exists>v1 m1 m2 v2 d irq. serve_exits (register_stores 0xd0000000 (queue_setup 0 8 0 128 256))
       (demo_bus (demo_env\<lparr>be_disk := Some [1, 2, 3, 4]\<rparr>)) = Inr v1 \<and>
     device_batches True 0 [(batch_demo_mem 1, 1), (batch_demo_mem 2, 1)] v1 = Some (Inr ([m1, m2], v2)) \<and>
     ms_state (vm_mmio v2 ! 0) = (Vblk d, irq) \<and> fs_data (blk_file d) = [11, 22, 3, 4] \<and>
     gather m2 [(1100, 3)] = [11, 22, 3]"
proof -
  let ?env = "demo_env\<lparr>be_disk := Some [1, 2, 3, 4]\<rparr>"
  let ?bs = "[(batch_demo_mem 1, [write_demo]), (batch_demo_mem 2, [read_demo])]"
  have bus: "vm_mmio (demo_bus ?env) = pc_bus ?env" by (simp add: demo_bus_def)
  have disk: "be_disk ?env = Some [1, 2, 3, 4]" by simp
  have lens: "map (\<lambda>(m, rs). (m, length rs)) ?bs = [(batch_demo_mem 1, 1), (batch_demo_mem 2, 1)]" by simp
  have run: "fold store_step (concat (map snd ?bs)) [1, 2, 3, 4] = [11, 22, 3, 4]"
    by (simp add: write_demo_def read_demo_def store_step_def dr_pos_def splice_def)
  have read: "disk_done batch_queue ?bs ms [1, 2, 3, 4] \<Longrightarrow>
      \<exists>m1 m2. ms = [m1, m2] \<and> gather m2 [(1100, 3)] = [11, 22, 3]" for ms
    by (auto simp: disk_done_def write_demo_def read_demo_def step_answered_def store_step_def dr_pos_def splice_def
        split: list.splits)
  from guest_uses_disk[OF bus disk batch_queue_def batch_demo_ok, of True, unfolded lens run]
  show ?thesis using read by blast
qed

end
