(* ===== verification/Entropy_Driver.thy ===== *)
theory Entropy_Driver
  imports Virtio_Driver
begin

text \<open>
  The entropy device (\<^verbatim>\<open>src/kvm/virtio/rng.h\<close>) as a driver in the guest meets it. It has no thread:
  \<^verbatim>\<open>update\<close> runs on the processor that left the guest, after every MMIO exit whatever its address, and
  serves one request each time. A driver that publishes requests and notifies the device once per
  request therefore finds all of them served, in order, when the last notification returns.
\<close>

section \<open>The device on the bus\<close>

interpretation entropy_on_bus: wrapped_device rng_class Vrng
  by unfold_locales (simp_all add: on_rng_def)

lemma bus_one_busy:
  "i < length ss \<Longrightarrow> (\<forall>j < length ss. j \<noteq> i \<longrightarrow> at_rest (ss ! j)) \<Longrightarrow>
   mmio_update vio_update m ss = and_then (vio_update m (ms_state (ss ! i))) (\<lambda>(m, st).
     Inr (m, ss[i := (ss ! i)\<lparr>ms_state := st\<rparr>]))"
proof (induction ss arbitrary: i m)
  case (Cons s ss)
  show ?case
  proof (cases i)
    case 0
    with Cons.prems have "list_all at_rest ss" by (auto simp: list_all_length)
    then show ?thesis using 0 by (simp add: bus_at_rest case_prod_beta cong: and_then_cong)
  next
    case (Suc j)
    with Cons.prems have "at_rest s" by (auto dest: spec[of _ 0])
    moreover have "\<forall>k < length ss. k \<noteq> j \<longrightarrow> at_rest (ss ! k)" "j < length ss"
      using Cons.prems Suc by (auto dest: spec[of _ "Suc _"])
    ultimately show ?thesis
      using Cons.IH[of j m] Suc by (simp add: update_at_rest and_then_assoc case_prod_beta cong: and_then_cong)
  qed
qed simp

definition entropy_sits :: "nat \<Rightarrow> u64 \<Rightarrow> rng \<Rightarrow> interrupt \<Rightarrow> machine \<Rightarrow> bool" where
  "entropy_sits i base d irq v \<longleftrightarrow> entropy_on_bus.placed i base d irq v \<and>
     (\<forall>j < length (vm_mmio v). j \<noteq> i \<longrightarrow> at_rest (vm_mmio v ! j))"

definition with_entropy :: "nat \<Rightarrow> gmem \<Rightarrow> rng \<Rightarrow> interrupt \<Rightarrow> machine \<Rightarrow> machine" where
  "with_entropy i m d irq v = (entropy_on_bus.with_device i d irq v)\<lparr>vm_memory := m\<rparr>"

lemma with_entropy_simps [simp]:
  "vm_memory (with_entropy i m d irq v) = m"
  "with_entropy i m d irq (with_entropy i m' d' irq' v) = with_entropy i m d irq v"
  by (simp_all add: with_entropy_def)

lemma with_entropy_eq:
  "v\<lparr>vm_memory := m, vm_mmio := vm_mmio (entropy_on_bus.with_device i d irq v)\<rparr> = with_entropy i m d irq v"
  by (cases v) (simp add: with_entropy_def entropy_on_bus.with_device_def)

lemma entropy_sits_with:
  "entropy_sits i base d irq v \<Longrightarrow> entropy_sits i base d' irq' (with_entropy i m d' irq' v)"
  using entropy_on_bus.placed_with_device[of i base d irq v d' irq']
  by (simp add: entropy_sits_def with_entropy_def) (simp add: entropy_on_bus.with_device_def)

lemma entropy_bus_update:
  assumes "entropy_sits i base d irq v"
  shows "mmio_update vio_update m (vm_mmio (entropy_on_bus.with_device i d' irq' v)) =
    and_then (rng_update m (d', irq')) (\<lambda>(m, d, irq). Inr (m, vm_mmio (entropy_on_bus.with_device i d irq v)))"
proof -
  let ?ss = "vm_mmio (entropy_on_bus.with_device i d' irq' v)"
  have i: "i < length (vm_mmio v)" using assms by (simp add: entropy_sits_def entropy_on_bus.placed_def)
  have "i < length ?ss" "\<forall>j < length ?ss. j \<noteq> i \<longrightarrow> at_rest (?ss ! j)" "ms_state (?ss ! i) = (Vrng d', irq')"
    using assms i by (auto simp: entropy_sits_def entropy_on_bus.with_device_def)
  from bus_one_busy[OF this(1,2), of m, unfolded this(3)] i show ?thesis
    by (simp add: on_rng_def rng_class_def entropy_on_bus.with_device_def and_then_assoc case_prod_beta cong: and_then_cong)
qed

lemma entropy_store:
  assumes "entropy_sits i base d irq v" "off < 0x100"
  shows "handle_exit (mmio_store (base + off) w) v =
    and_then (reg_write off w (d, irq)) (\<lambda>s. and_then (rng_update (vm_memory v) s) (\<lambda>(m, d, irq).
      Inr (None, mmio_store (base + off) w, with_entropy i m d irq v)))"
proof -
  have "entropy_on_bus.placed i base d irq v" using assms(1) by (simp add: entropy_sits_def)
  from entropy_on_bus.store_updates[OF this assms(2)] show ?thesis
    by (simp add: entropy_bus_update[OF assms(1)] with_entropy_eq and_then_assoc case_prod_beta cong: and_then_cong)
qed

lemma entropy_load:
  assumes "entropy_sits i base d irq v" "off < 0x100" "reg_read_value rng_class off d irq = Inr (Some w)" "length bs = 4"
    and "rng_update (vm_memory v) (d, irq) = Inr (vm_memory v, d, irq)"
  shows "handle_exit (mmio_load (base + off) bs) v = Inr (None, mmio_load (base + off) (le_bytes 4 w), v)"
proof -
  have p: "entropy_on_bus.placed i base d irq v" using assms(1) by (simp add: entropy_sits_def)
  then have same: "entropy_on_bus.with_device i d irq v = v" by (rule entropy_on_bus.with_device_same)
  from entropy_on_bus.load_updates[OF p assms(2-4)] entropy_bus_update[OF assms(1), of "vm_memory v" d irq] assms(5)
  show ?thesis by (simp add: same)
qed

section \<open>Setting the queue up\<close>

definition entropy_queue :: "queue \<Rightarrow> rng \<Rightarrow> bool" where
  "entropy_queue q d \<longleftrightarrow> vd_queue_index d = 0 \<and> vd_queues d = [q]"

lemma entropy_queue_cur: "entropy_queue q d \<Longrightarrow> q_cur d = Inr q"
  by (simp add: entropy_queue_def q_cur_def)

text \<open>The device leaves everything as it is while its queue is not ready, and when no request waits.\<close>

lemma entropy_idle:
  assumes "entropy_queue q d" "\<not> q_ready q \<or> queue_ok m q \<and> pending m q = []"
  shows "rng_update m (d, irq) = Inr (m, d, irq)"
proof -
  have "queue_next m q = Inr (None, q)"
    using assms(2) queue_next_empty[of m q] by (cases "q_ready q") (simp_all add: queue_next_def)
  then show ?thesis
    using q_cur_same[OF entropy_queue_cur[OF assms(1)]] by (simp add: rng_update_def entropy_queue_cur[OF assms(1)])
qed

text \<open>Stores that leave the selector at 0 and the queue not ready.\<close>

definition quiet_store :: "u64 \<times> u32 \<Rightarrow> bool" where
  "quiet_store = (\<lambda>(off, w). off < 0x100 \<and> off \<noteq> VIRTIO_MMIO_QUEUE_READY \<and>
     off \<noteq> VIRTIO_MMIO_QUEUE_NOTIFY \<and> (off = VIRTIO_MMIO_QUEUE_SEL \<longrightarrow> w = 0))"

lemma quiet_store_keeps:
  assumes "quiet_store (off, w)" "entropy_queue q d" "\<not> q_ready q" "reg_write off w (d, irq) = Inr (d', irq')"
  shows "\<exists>q'. entropy_queue q' d' \<and> \<not> q_ready q'"
  using assms
  by (auto simp: quiet_store_def entropy_queue_def reg_write_def Let_def q_cur_update_def write_status_def
      split: if_splits)

lemma serve_quiet_stores:
  "entropy_sits i base d irq v \<Longrightarrow> entropy_queue q d \<Longrightarrow> \<not> q_ready q \<Longrightarrow> list_all quiet_store ws \<Longrightarrow>
   serve_exits (register_stores base ws @ xs) v =
     and_then (reg_writes ws (d, irq)) (\<lambda>(d, irq). serve_exits xs (with_entropy i (vm_memory v) d irq v))"
proof (induction ws arbitrary: d irq v q)
  case Nil
  have "entropy_on_bus.with_device i d irq v = v"
    by (rule entropy_on_bus.with_device_same[of i base]) (use Nil(1) in \<open>simp add: entropy_sits_def\<close>)
  then have "with_entropy i (vm_memory v) d irq v = v" by (cases v) (simp add: with_entropy_def)
  then show ?case by (simp add: register_stores_def)
next
  case (Cons ow ws)
  obtain off w where ow: "ow = (off, w)" by (cases ow)
  have off: "off < 0x100" "quiet_store (off, w)" using Cons.prems(4) ow by (simp_all add: quiet_store_def)
  show ?case
  proof (cases "reg_write off w (d, irq)")
    case (Inr r)
    obtain d1 irq1 where r: "r = (d1, irq1)" by (cases r)
    obtain q1 where q1: "entropy_queue q1 d1" "\<not> q_ready q1"
      using quiet_store_keeps[OF off(2) Cons.prems(2,3)] Inr r by blast
    have idle: "rng_update (vm_memory v) (d1, irq1) = Inr (vm_memory v, d1, irq1)"
      by (rule entropy_idle[OF q1(1)]) (simp add: q1(2))
    have "serve_exits (register_stores base ws @ xs) (with_entropy i (vm_memory v) d1 irq1 v) =
        and_then (reg_writes ws (d1, irq1)) (\<lambda>(d, irq). serve_exits xs (with_entropy i (vm_memory v) d irq v))"
      using Cons.IH[OF entropy_sits_with[OF Cons.prems(1)] q1] Cons.prems(4) by simp
    then show ?thesis
      using entropy_store[OF Cons.prems(1) off(1)] Inr r idle ow by (simp add: register_stores_def)
  qed (use entropy_store[OF Cons.prems(1) off(1)] ow in \<open>simp add: register_stores_def\<close>)
qed

text \<open>A driver sets the queue up while its rings are empty: nothing is served then.\<close>

lemma entropy_set_up:
  assumes "entropy_sits i base (rng_new pool) irq v" "q = queue_of sz desc avail used"
    and "queue_ok (vm_memory v) q" "pending (vm_memory v) q = []"
  shows "\<exists>d. serve_exits (register_stores base (queue_setup 0 sz desc avail used)) v =
      Inr (with_entropy i (vm_memory v) d irq v) \<and> entropy_queue q d \<and> rng_pool d = pool"
proof -
  let ?ws = "butlast (queue_setup 0 sz desc avail used)"
  let ?d = "\<lambda>q. (rng_new pool)\<lparr>vd_queue_index := 0, vd_queues := [q]\<rparr>"
  have new: "entropy_queue queue_new (rng_new pool)"
    by (simp add: entropy_queue_def rng_new_def vdev.extend_def vdev_new_def)
  have split: "register_stores base (queue_setup 0 sz desc avail used) =
      register_stores base ?ws @ [mmio_store (base + VIRTIO_MMIO_QUEUE_READY) 1]"
    by (simp add: register_stores_def queue_setup_def)
  have quiet: "list_all quiet_store ?ws" "\<not> q_ready queue_new"
    by (simp_all add: queue_setup_def quiet_store_def mmio_regs queue_new_def)
  have "reg_writes ?ws (rng_new pool, irq) = Inr (?d (q\<lparr>q_ready := False\<rparr>), irq)"
    using new by (simp add: queue_setup_def reg_write_def Let_def q_cur_update_def mmio_regs or_halves
        queue_of_def assms(2) entropy_queue_def) (simp add: queue_new_def or_halves)
  then have first: "serve_exits (register_stores base (queue_setup 0 sz desc avail used)) v =
      serve_exits [mmio_store (base + VIRTIO_MMIO_QUEUE_READY) 1]
        (with_entropy i (vm_memory v) (?d (q\<lparr>q_ready := False\<rparr>)) irq v)"
    using serve_quiet_stores[OF assms(1) new quiet(2,1)] unfolding split by simp
  have ready: "reg_write VIRTIO_MMIO_QUEUE_READY 1 (?d (q\<lparr>q_ready := False\<rparr>), irq) = Inr (?d q, irq)"
    by (simp add: reg_write_def Let_def q_cur_update_def mmio_regs set_ready_def assms(2) queue_of_def)
  have q: "entropy_queue q (?d q)" by (simp add: entropy_queue_def)
  have "rng_update (vm_memory v) (?d q, irq) = Inr (vm_memory v, ?d q, irq)"
    by (rule entropy_idle[OF q]) (simp add: assms(3,4))
  with ready entropy_store[OF entropy_sits_with[OF assms(1)], of VIRTIO_MMIO_QUEUE_READY 1 _ "?d (q\<lparr>q_ready := False\<rparr>)" irq]
  have "serve_exits [mmio_store (base + VIRTIO_MMIO_QUEUE_READY) 1]
      (with_entropy i (vm_memory v) (?d (q\<lparr>q_ready := False\<rparr>)) irq v) = Inr (with_entropy i (vm_memory v) (?d q) irq v)"
    by (simp add: mmio_regs)
  with first q show ?thesis by (intro exI[of _ "?d q"]) (simp add: rng_new_def vdev.extend_def)
qed

section \<open>Requests for random bytes\<close>

record entropy_request =
  er_head :: u16
  er_buf :: "u64 \<times> u32"

definition er_len :: "entropy_request \<Rightarrow> nat" where
  "er_len r = unat (snd (er_buf r))"

text \<open>The abstract device: the bytes the host's generator will deliver, and the level of the line.\<close>

definition entropy_step :: "entropy_request \<Rightarrow> u8 list \<times> bool \<Rightarrow> u8 list \<times> bool" where
  "entropy_step r = (\<lambda>(pool, line). (drop (er_len r) pool, True))"

lemma entropy_step_simp [simp]: "entropy_step r (pool, line) = (drop (er_len r) pool, True)"
  by (simp add: entropy_step_def)

definition entropy_can :: "entropy_request \<Rightarrow> u8 list \<times> bool \<Rightarrow> bool" where
  "entropy_can r = (\<lambda>(pool, line). er_len r \<le> length pool)"

definition entropy_answered :: "gmem \<Rightarrow> entropy_request \<Rightarrow> u8 list \<times> bool \<Rightarrow> bool" where
  "entropy_answered m r = (\<lambda>(pool, line). gather m [er_buf r] = take (er_len r) pool)"

definition entropy_completion :: "entropy_request \<Rightarrow> u32 \<times> u32" where
  "entropy_completion r = (ucast (er_head r), snd (er_buf r))"

definition entropy_laid :: "gmem \<Rightarrow> queue \<Rightarrow> entropy_request \<Rightarrow> bool" where
  "entropy_laid m q r \<longleftrightarrow> unat (er_head r) < unat (q_size q) \<and>
     er_buf r = (desc_addr_at m q (er_head r), desc_len_at m q (er_head r)) \<and> bufs_ok m q [er_buf r]"

definition entropy_holds :: "queue \<Rightarrow> u8 list \<times> bool \<Rightarrow> rng \<times> interrupt \<Rightarrow> bool" where
  "entropy_holds q = (\<lambda>(pool, line) (d, irq). (\<exists>k. entropy_queue (q\<lparr>q_notify := k\<rparr>) d) \<and> rng_pool d = pool \<and>
     irq_state irq = line \<and> irq_fd_ok irq)"

text \<open>What a notification makes the device do.\<close>

definition entropy_round :: "gmem \<Rightarrow> rng \<times> interrupt \<Rightarrow> (gmem \<times> rng \<times> interrupt) res option" where
  "entropy_round m s = Some (and_then (reg_write VIRTIO_MMIO_QUEUE_NOTIFY 0 s) (rng_update m))"

lemma entropy_serves:
  assumes "entropy_holds q a s" "queue_ok m q" "pending m q = er_head r # hs" "entropy_laid m q r" "entropy_can r a"
  shows "\<exists>m' s'. entropy_round m s = Some (Inr (m', s')) \<and>
    entropy_holds (q\<lparr>q_last_avail := q_last_avail q + 1\<rparr>) (entropy_step r a) s' \<and> same_requests q m m' \<and>
    used_step q (entropy_completion r) m m' \<and> writes_only m q [er_buf r] m' \<and> entropy_answered m' r a"
proof -
  obtain d irq where s: "s = (d, irq)" by (cases s)
  obtain pool line where a: "a = (pool, line)" by (cases a)
  obtain k where k: "entropy_queue (q\<lparr>q_notify := k\<rparr>) d" "rng_pool d = pool" "irq_fd_ok irq"
    using assms(1) by (auto simp: entropy_holds_def s a)
  let ?q = "q\<lparr>q_notify := k + 1\<rparr>" and ?x = "er_head r"
  let ?d = "d\<lparr>vd_queues := [?q]\<rparr>"
  have buf: "er_buf r = (desc_addr_at m q ?x, desc_len_at m q ?x)" "unat ?x < unat (q_size q)"
    "buffer_ok m q (desc_addr_at m q ?x) (unat (desc_len_at m q ?x))" "bufs_ok m q [er_buf r]"
    using assms(4) by (auto simp: entropy_laid_def)
  have len: "unat (desc_len_at m q ?x) \<le> length pool" using assms(5) buf(1) by (simp add: entropy_can_def a er_len_def)
  have notify: "reg_write VIRTIO_MMIO_QUEUE_NOTIFY 0 (d, irq) = Inr (?d, irq)"
    using k(1) by (simp add: reg_write_def Let_def mmio_regs entropy_queue_def set_notify_def)
  have cur: "q_cur ?d = Inr ?q" using k(1) by (simp add: entropy_queue_def q_cur_def)
  let ?m' = "completion (scatter m [er_buf r] pool) q (ucast ?x) (desc_len_at m q ?x)"
  have "\<exists>d' irq'. rng_update m (?d, irq) = Inr (?m', d', irq') \<and>
      q_cur d' = Inr (?q\<lparr>q_last_avail := q_last_avail ?q + 1\<rparr>) \<and>
      rng_pool d' = drop (unat (desc_len_at m ?q ?x)) (rng_pool ?d) \<and> irq_state irq' \<and> irq_fd_ok irq'"
    using rng_update_serves[OF cur, of m ?x hs irq] assms(2,3) buf len k(2,3) by simp
  then obtain d' irq' where u: "rng_update m (?d, irq) = Inr (?m', d', irq')"
      "q_cur d' = Inr (?q\<lparr>q_last_avail := q_last_avail q + 1\<rparr>)"
      "rng_pool d' = drop (unat (desc_len_at m q ?x)) pool" "irq_state irq'" "irq_fd_ok irq'"
    by (auto simp: k(2))
  have "length (vd_queues d') = 1" "vd_queue_index d' = 0"
    using rng_update_inv[OF u(1)] k(1) by (simp_all add: entropy_queue_def)
  then have "entropy_queue (?q\<lparr>q_last_avail := q_last_avail q + 1\<rparr>) d'"
    using u(2) by (cases "vd_queues d'") (simp_all add: entropy_queue_def q_cur_def)
  moreover have "?q\<lparr>q_last_avail := q_last_avail q + 1\<rparr> = q\<lparr>q_last_avail := q_last_avail q + 1, q_notify := k + 1\<rparr>"
    by (cases q) simp
  ultimately have holds: "entropy_holds (q\<lparr>q_last_avail := q_last_avail q + 1\<rparr>) (entropy_step r a) (d', irq')"
    using u(3-5) buf(1) by (auto simp: entropy_holds_def entropy_step_def a er_len_def)
  have "gather ?m' [er_buf r] = gather (scatter m [er_buf r] pool) [er_buf r]"
    by (rule service_memory(4)[OF assms(2) buf(4,4)])
  also have "\<dots> = take (er_len r) pool"
    using peek_poke_same[of "take (er_len r) pool" m "desc_addr_at m q ?x"] len unat_less32[of "desc_len_at m q ?x"]
    by (simp add: buf(1) er_len_def)
  finally have "entropy_answered ?m' r a" by (simp add: entropy_answered_def a)
  moreover have "entropy_round m s = Some (Inr (?m', d', irq'))" by (simp add: entropy_round_def s notify u(1))
  moreover note holds service_memory(1-3)[OF assms(2) buf(4), where bs = pool and start = "ucast ?x" and len = "desc_len_at m q ?x"]
  moreover have "entropy_completion r = (ucast ?x, desc_len_at m q ?x)" by (simp add: entropy_completion_def buf(1))
  ultimately show ?thesis by metis
qed

interpretation entropy_service: ring_service er_head entropy_laid "\<lambda>r. [er_buf r]" "\<lambda>r. [er_buf r]"
    entropy_can entropy_step entropy_answered "\<lambda>r _. entropy_completion r" entropy_holds entropy_round
proof unfold_locales
  fix q a s m r hs
  assume "entropy_holds q a s" "queue_ok m q" "pending m q = er_head r # hs" "entropy_laid m q r" "entropy_can r a"
  then show "\<exists>m' s'. entropy_round m s = Some (Inr (m', s')) \<and>
      entropy_holds (q\<lparr>q_last_avail := q_last_avail q + 1\<rparr>) (entropy_step r a) s' \<and> same_requests q m m' \<and>
      used_step q (entropy_completion r) m m' \<and> writes_only m q [er_buf r] m' \<and> entropy_answered m' r a"
    by (rule entropy_serves)
next
  fix m q r m'
  assume "entropy_laid m q r" "same_requests q m m'"
  then show "entropy_laid m' q r"
    by (auto simp: entropy_laid_def same_requests_ok) (simp_all add: same_requests_def)
next
  fix m r a m'
  assume "entropy_answered m r a"
    and same: "\<And>b n. (b, n) \<in> set [er_buf r] \<Longrightarrow> peek m' b (unat n) = peek m b (unat n)"
  moreover have "gather m' [er_buf r] = gather m [er_buf r]" by (rule gather_same) (rule same)
  ultimately show "entropy_answered m' r a" by (simp add: entropy_answered_def split: prod.splits)
qed (auto simp: entropy_laid_def)

definition entropy_batch :: "gmem \<Rightarrow> queue \<Rightarrow> entropy_request list \<Rightarrow> u8 list \<times> bool \<Rightarrow> bool" where
  "entropy_batch = batch er_head entropy_laid (\<lambda>r. [er_buf r]) entropy_can entropy_step"

text \<open>All buffers together hold one stretch of the generator's bytes.\<close>

lemma entropy_gather:
  "along (entropy_answered m) entropy_step rs (pool, line) \<Longrightarrow> along entropy_can entropy_step rs (pool, line) \<Longrightarrow>
   gather m (map er_buf rs) = take (total_len (map er_buf rs)) pool \<and>
   fold entropy_step rs (pool, line) = (drop (total_len (map er_buf rs)) pool, line \<or> rs \<noteq> [])"
proof (induction rs arbitrary: pool line)
  case (Cons r rs)
  obtain a n where r: "er_buf r = (a, n)" by (cases "er_buf r")
  have "gather m (map er_buf rs) = take (total_len (map er_buf rs)) (drop (unat n) pool) \<and>
      fold entropy_step rs (drop (unat n) pool, True) = (drop (total_len (map er_buf rs)) (drop (unat n) pool), True)"
    using Cons.IH[of "drop (unat n) pool" True] Cons.prems by (simp add: er_len_def r)
  then show ?case
    using Cons.prems by (simp add: entropy_answered_def er_len_def r take_add add.commute)
qed simp

section \<open>Notifications\<close>

lemma entropy_notified:
  assumes "entropy_sits i base d irq v" "entropy_round (vm_memory v) (d, irq) = Some (Inr (m', d', irq'))"
  shows "handle_exit (mmio_store (base + VIRTIO_MMIO_QUEUE_NOTIFY) 0) v =
    Inr (None, mmio_store (base + VIRTIO_MMIO_QUEUE_NOTIFY) 0, with_entropy i m' d' irq' v)"
  using entropy_store[OF assms(1), of VIRTIO_MMIO_QUEUE_NOTIFY 0] assms(2)
  by (cases "reg_write VIRTIO_MMIO_QUEUE_NOTIFY 0 (d, irq)") (auto simp: entropy_round_def mmio_regs)

lemma entropy_notifications:
  "entropy_sits i base d irq v \<Longrightarrow> rounds entropy_round n (vm_memory v) (d, irq) = Some (Inr (m', d', irq')) \<Longrightarrow>
   \<exists>v'. serve_exits (replicate n (mmio_store (base + VIRTIO_MMIO_QUEUE_NOTIFY) 0)) v = Inr v' \<and>
     entropy_sits i base d' irq' v' \<and> vm_memory v' = m'"
proof (induction n arbitrary: d irq v)
  case (Suc n)
  then obtain m1 d1 irq1 where one: "entropy_round (vm_memory v) (d, irq) = Some (Inr (m1, d1, irq1))"
    and rest: "rounds entropy_round n m1 (d1, irq1) = Some (Inr (m', d', irq'))"
    by (auto split: option.splits sum.splits)
  have "entropy_sits i base d1 irq1 (with_entropy i m1 d1 irq1 v)" by (rule entropy_sits_with[OF Suc.prems(1)])
  from Suc.IH[OF this] rest entropy_notified[OF Suc.prems(1) one] show ?case by simp
qed simp

lemma entropy_interrupt:
  assumes "entropy_sits i base d irq v" "entropy_queue q d" "queue_ok (vm_memory v) q" "pending (vm_memory v) q = []"
    and "irq_state irq" "irq_fd_ok irq"
  shows "interrupt_handled base v"
proof -
  have idle: "rng_update (vm_memory v) (d, irq') = Inr (vm_memory v, d, irq')" for irq'
    by (rule entropy_idle[OF assms(2)]) (simp add: assms(3,4))
  have status: "handle_exit (mmio_load (base + VIRTIO_MMIO_INTERRUPT_STATUS) [0, 0, 0, 0]) w =
      Inr (None, mmio_load (base + VIRTIO_MMIO_INTERRUPT_STATUS) [if irq_state irq' then 1 else 0, 0, 0, 0], w)"
    if "entropy_sits i base d irq' w" "vm_memory w = vm_memory v" for w irq'
    using entropy_load[OF that(1) _ entropy_on_bus.status_value] idle that(2)
    by (simp add: mmio_regs entropy_on_bus.status_bytes)
  let ?w = "with_entropy i (vm_memory v) d (irq\<lparr>irq_state := False\<rparr>) v"
  have "handle_exit (mmio_store (base + VIRTIO_MMIO_INTERRUPT_ACK) 1) v =
      Inr (None, mmio_store (base + VIRTIO_MMIO_INTERRUPT_ACK) 1, ?w)"
    using entropy_store[OF assms(1), of VIRTIO_MMIO_INTERRUPT_ACK 1] entropy_on_bus.ack_write[OF assms(5,6)] idle
    by (simp add: mmio_regs)
  with status[OF assms(1)] status[OF entropy_sits_with[OF assms(1)]] show ?thesis
    using assms(5) by (auto simp: interrupt_handled_def)
qed

lemma pc_bus_entropy:
  assumes "vm_mmio v = pc_bus env" "be_random env = Some pool"
  shows "entropy_sits 1 0xd0001000 (rng_new pool) (interrupt_new 13 True) v"
proof -
  have "at_rest (vm_mmio v ! j)" if "j < length (vm_mmio v)" for j
    using pc_bus_rest[of env] that by (simp add: assms(1) list_all_length)
  then show ?thesis
    using pc_bus_apart[of env] assms
    by (simp add: entropy_sits_def entropy_on_bus.placed_def) (simp add: pc_bus_def file_bytes_def)
qed

section \<open>Properties\<close>

text \<open>C11: Random numbers, end to end: on the machine as \<^verbatim>\<open>start\<close> builds it the driver sets up the
  queue of the entropy device through its registers, publishes a batch of requests and notifies the
  device once per request. Then every request has been served: the buffers
  hold, in the order of the requests, the next bytes of the host's generator, the used ring names
  each request and its length in that order, and the driver's interrupt handler finds the line
  raised and lowers it.\<close>

theorem guest_gets_entropy:
  assumes "vm_mmio v = pc_bus env" "be_random env = Some pool" "q = queue_of sz desc avail used"
    and "queue_ok (vm_memory v) q" "pending (vm_memory v) q = []"
    and "entropy_batch m q rs (pool, False)" "rs \<noteq> []"
  shows "\<exists>v1 v2. serve_exits (register_stores 0xd0001000 (queue_setup 0 sz desc avail used)) v = Inr v1 \<and>
    serve_exits (replicate (length rs) (mmio_store (0xd0001000 + VIRTIO_MMIO_QUEUE_NOTIFY) 0)) (v1\<lparr>vm_memory := m\<rparr>) =
      Inr v2 \<and>
    gather (vm_memory v2) (map er_buf rs) = take (total_len (map er_buf rs)) pool \<and>
    used_run q (map entropy_completion rs) m (vm_memory v2) \<and> interrupt_handled 0xd0001000 v2"
proof -
  let ?irq = "interrupt_new 13 True"
  note sits = pc_bus_entropy[OF assms(1,2)]
  obtain d where v1: "serve_exits (register_stores 0xd0001000 (queue_setup 0 sz desc avail used)) v =
      Inr (with_entropy 1 (vm_memory v) d ?irq v)" and d: "entropy_queue q d" "rng_pool d = pool"
    using entropy_set_up[OF sits assms(3-5)] by blast
  have "q\<lparr>q_notify := q_notify q\<rparr> = q" by (cases q) simp
  then have "entropy_holds q (pool, False) (d, ?irq)" using d by (auto simp: entropy_holds_def intro: exI[of _ "q_notify q"])
  from entropy_service.serves_batch[OF this assms(6)[unfolded entropy_batch_def]] obtain m' d' irq' q' where
    r: "rounds entropy_round (length rs) m (d, ?irq) = Some (Inr (m', d', irq'))"
      "entropy_holds q' (fold entropy_step rs (pool, False)) (d', irq')" "queue_ok m' q'" "pending m' q' = []"
      "along (entropy_answered m') entropy_step rs (pool, False)" "used_run q (map entropy_completion rs) m m'"
    by (auto simp: trace_const[where g = entropy_completion])
  have g: "gather m' (map er_buf rs) = take (total_len (map er_buf rs)) pool"
    "fold entropy_step rs (pool, False) = (drop (total_len (map er_buf rs)) pool, rs \<noteq> [])"
    using entropy_gather[OF r(5)] assms(6) by (simp_all add: entropy_batch_def batch_defs)
  obtain k where k: "entropy_queue (q'\<lparr>q_notify := k\<rparr>) d'" "irq_state irq'" "irq_fd_ok irq'"
    using r(2) assms(7) by (auto simp: entropy_holds_def g(2))
  have s: "entropy_sits 1 0xd0001000 d ?irq (with_entropy 1 m d ?irq v)" by (rule entropy_sits_with[OF sits])
  have same: "(with_entropy 1 (vm_memory v) d ?irq v)\<lparr>vm_memory := m\<rparr> = with_entropy 1 m d ?irq v"
    by (simp add: with_entropy_def)
  from entropy_notifications[OF s, of "length rs" m' d' irq'] r(1) obtain v2 where
    v2: "serve_exits (replicate (length rs) (mmio_store (0xd0001000 + VIRTIO_MMIO_QUEUE_NOTIFY) 0))
        (with_entropy 1 m d ?irq v) = Inr v2" "entropy_sits 1 0xd0001000 d' irq' v2" "vm_memory v2 = m'"
    by auto
  have "interrupt_handled 0xd0001000 v2"
    using entropy_interrupt[OF v2(2) k(1) _ _ k(2,3)] r(3,4) by (simp add: v2(3))
  with v1 v2(1,3) g(1) r(6) same show ?thesis by auto
qed

definition entropy_demo_mem :: gmem where
  "entropy_demo_mem = rng_demo_mem\<lparr>gm_byte := (gm_byte rng_demo_mem)(17 := 4, 24 := 1)\<rparr>"

definition entropy_demo :: "entropy_request list" where
  "entropy_demo = [\<lparr>er_head = 3, er_buf = (512, 3)\<rparr>, \<lparr>er_head = 1, er_buf = (1024, 1)\<rparr>]"

lemma entropy_demo_batch: "entropy_batch entropy_demo_mem demo_queue entropy_demo ([7, 8, 9, 10, 11], False)"
  by (simp add: entropy_batch_def batch_defs entropy_demo_def entropy_laid_def entropy_can_def entropy_step_def er_len_def
      all_apart_def queue_ok_def demo_queue_def entropy_demo_mem_def rng_demo_mem_def demo_mem_def in_mem_def
      disjoint_ranges_def QUEUE_SIZE_MAX_def pending_def avail_entry_def peek_avail_idx_def peek_le_def peek_def
      upt_rec desc_addr_at_def desc_len_at_def buffer_ok_def)

lemma entropy_demo_fresh:
  "queue_ok (vm_memory (demo_bus env)) demo_queue" "pending (vm_memory (demo_bus env)) demo_queue = []"
  by (simp_all add: demo_bus_def demo_fresh_def queue_ok_def demo_queue_def in_mem_def disjoint_ranges_def
      QUEUE_SIZE_MAX_def pending_def peek_avail_idx_def peek_le_def peek_def upt_rec)

theorem guest_gets_entropy_witness:
  "\<exists>v1 v2. serve_exits (register_stores 0xd0001000 (queue_setup 0 4 0 64 128))
       (demo_bus (demo_env\<lparr>be_random := Some [7, 8, 9, 10, 11]\<rparr>)) = Inr v1 \<and>
     serve_exits (replicate 2 (mmio_store (0xd0001000 + VIRTIO_MMIO_QUEUE_NOTIFY) 0))
       (v1\<lparr>vm_memory := entropy_demo_mem\<rparr>) = Inr v2 \<and>
     gather (vm_memory v2) [(512, 3), (1024, 1)] = [7, 8, 9, 10]"
proof -
  let ?env = "demo_env\<lparr>be_random := Some [7, 8, 9, 10, 11]\<rparr>"
  have bus: "vm_mmio (demo_bus ?env) = pc_bus ?env" by (simp add: demo_bus_def)
  have pool: "be_random ?env = Some [7, 8, 9, 10, 11]" by simp
  have two: "length entropy_demo = 2" and bufs: "map er_buf entropy_demo = [(512, 3), (1024, 1)]" and some: "entropy_demo \<noteq> []"
    by (simp_all add: entropy_demo_def)
  from guest_gets_entropy[OF bus pool demo_queue_of entropy_demo_fresh entropy_demo_batch some]
  show ?thesis unfolding bufs two by fastforce
qed

end
