(* ===== verification/Net_Frames.thy ===== *)
theory Net_Frames
  imports Virtio_Driver
begin

text \<open>
  Streams of frames through the network device (\<^verbatim>\<open>src/kvm/virtio/net.h\<close>): the two threads as
  services of their queues, and what a driver and the host's tap see of a batch of frames.
\<close>

section \<open>Frames sent\<close>

record tx_frame =
  tf_head :: u16
  tf_bufs :: buffers
  tf_data :: "u8 list"

text \<open>The abstract device: the tap, and the level of the interrupt line.\<close>

definition tx_step :: "tx_frame \<Rightarrow> tap \<times> bool \<Rightarrow> tap \<times> bool" where
  "tx_step f = (\<lambda>(t, line). (t\<lparr>tap_writes := tl (tap_writes t), tap_sent := tap_sent t @ [tf_data f]\<rparr>, True))"

definition tx_can :: "tx_frame \<Rightarrow> tap \<times> bool \<Rightarrow> bool" where
  "tx_can f = (\<lambda>(t, line). case tap_writes t of [] \<Rightarrow> False | ret # rets \<Rightarrow> 0 \<le> ret)"

definition tx_completion :: "tx_frame \<Rightarrow> tap \<times> bool \<Rightarrow> u32 \<times> u32" where
  "tx_completion f = (\<lambda>(t, line). (ucast (tf_head f), word_of_int (hd (tap_writes t))))"

definition tx_laid :: "gmem \<Rightarrow> queue \<Rightarrow> tx_frame \<Rightarrow> bool" where
  "tx_laid m q f \<longleftrightarrow> frame_at m q (tf_head f) (tf_bufs f) \<and> bufs_ok m q (tf_bufs f) \<and>
     total_len (tf_bufs f) \<le> net_buffer_len \<and> gather m (tf_bufs f) = tf_data f"

definition tx_holds :: "queue \<Rightarrow> tap \<times> bool \<Rightarrow> net \<times> interrupt \<Rightarrow> bool" where
  "tx_holds q = (\<lambda>(t, line) (d, irq). net_tap d = t \<and> length (net_tx_buffer d) = net_buffer_len \<and>
     q_at tx_queue d = Inr q \<and> irq_state irq = line \<and> irq_fd_ok irq)"

lemma bufs_ok_stays [simp]: "bufs_ok m (q\<lparr>q_last_avail := a\<rparr>) = bufs_ok m q"
  by (simp add: bufs_ok_def fun_eq_iff)

lemma tx_serves:
  assumes "tx_holds q a s" "queue_ok m q" "pending m q = tf_head f # hs" "tx_laid m q f" "tx_can f a"
  shows "\<exists>m' s'. run_tx m s = Some (Inr (m', s')) \<and>
    tx_holds (q\<lparr>q_last_avail := q_last_avail q + 1\<rparr>) (tx_step f a) s' \<and> same_requests q m m' \<and>
    used_step q (tx_completion f a) m m' \<and> writes_only m q [] m'"
proof -
  obtain d irq where s: "s = (d, irq)" by (cases s)
  obtain t line where a: "a = (t, line)" by (cases a)
  obtain ret rets where ret: "tap_writes t = ret # rets" "0 \<le> ret"
    using assms(5) by (auto simp: tx_can_def a split: list.splits)
  have d: "length (net_tx_buffer d) = net_buffer_len" "q_at tx_queue d = Inr q" "net_tap d = t" "irq_fd_ok irq"
    using assms(1) by (simp_all add: tx_holds_def s a)
  have f: "frame_at m q (tf_head f) (tf_bufs f)" "bufs_in m (tf_bufs f)" "total_len (tf_bufs f) \<le> net_buffer_len"
    "gather m (tf_bufs f) = tf_data f"
    using assms(4) bufs_ok_in by (auto simp: tx_laid_def)
  let ?m' = "completion m q (ucast (tf_head f)) (word_of_int ret)"
  have "tap_writes (net_tap d) = ret # rets" using ret(1) d(3) by simp
  from net_tx_exact[OF d(1,2) assms(2,3) f(1-3) this ret(2) d(4)] obtain d' irq' where
    r: "run_tx m s = Some (Inr (?m', d', irq'))"
      "net_tap d' = t\<lparr>tap_writes := rets, tap_sent := tap_sent t @ [tf_data f]\<rparr>"
      "q_at tx_queue d' = Inr (q\<lparr>q_last_avail := q_last_avail q + 1\<rparr>)"
      "length (net_tx_buffer d') = net_buffer_len" "irq_state irq'" "irq_fd_ok irq'"
    by (auto simp: s d(3) f(4))
  have "bufs_ok m q []" by simp
  from service_memory(1-3)[OF assms(2) this, where bs = "[]" and start = "ucast (tf_head f)" and len = "word_of_int ret"] r
  show ?thesis by (auto simp: a tx_holds_def tx_step_def tx_completion_def ret(1))
qed

interpretation tx_service: ring_service tf_head tx_laid tf_bufs "\<lambda>_. []" tx_can tx_step "\<lambda>_ _ _. True"
    tx_completion tx_holds run_tx
proof unfold_locales
  fix q a s m f hs
  assume "tx_holds q a s" "queue_ok m q" "pending m q = tf_head f # hs" "tx_laid m q f" "tx_can f a"
  then show "\<exists>m' s'. run_tx m s = Some (Inr (m', s')) \<and>
      tx_holds (q\<lparr>q_last_avail := q_last_avail q + 1\<rparr>) (tx_step f a) s' \<and> same_requests q m m' \<and>
      used_step q (tx_completion f a) m m' \<and> writes_only m q [] m' \<and> True"
    using tx_serves by simp
next
  fix m q f m'
  assume "tx_laid m q f" "same_requests q m m'"
    and same: "\<And>a n. (a, n) \<in> set (tf_bufs f) \<Longrightarrow> peek m' a (unat n) = peek m a (unat n)"
  moreover have "gather m' (tf_bufs f) = gather m (tf_bufs f)" by (rule gather_same) (rule same)
  ultimately show "tx_laid m' q f" by (simp add: tx_laid_def frame_at_same same_requests_ok)
qed (simp_all add: tx_laid_def)

lemma tx_run:
  "tap_writes t = rets @ rest \<Longrightarrow> length rets = length fs \<Longrightarrow> list_all (\<lambda>r. 0 \<le> r) rets \<Longrightarrow>
   along tx_can tx_step fs (t, line) \<and>
   trace tx_completion tx_step fs (t, line) = map2 (\<lambda>f ret. (ucast (tf_head f), word_of_int ret)) fs rets \<and>
   tap_sent (fst (fold tx_step fs (t, line))) = tap_sent t @ map tf_data fs \<and>
   snd (fold tx_step fs (t, line)) = (line \<or> fs \<noteq> [])"
proof (induction fs arbitrary: t rets line)
  case (Cons f fs)
  then obtain ret rets' where "rets = ret # rets'" by (cases rets) auto
  with Cons show ?case by (simp add: tx_can_def tx_step_def tx_completion_def)
qed simp

section \<open>Frames received\<close>

record rx_chain =
  rc_head :: u16
  rc_bufs :: buffers

definition rx_frame :: "tap \<Rightarrow> u8 list" where
  "rx_frame t = the (hd (tap_reads t))"

definition rx_count :: "rx_chain \<Rightarrow> u8 list \<Rightarrow> nat" where
  "rx_count c frame = min (length frame) (total_len (rc_bufs c))"

definition rx_step :: "rx_chain \<Rightarrow> tap \<times> bool \<Rightarrow> tap \<times> bool" where
  "rx_step c = (\<lambda>(t, line). (t\<lparr>tap_polls := tl (tap_polls t), tap_reads := tl (tap_reads t)\<rparr>, True))"

definition rx_can :: "rx_chain \<Rightarrow> tap \<times> bool \<Rightarrow> bool" where
  "rx_can c = (\<lambda>(t, line). tap_polls t \<noteq> [] \<and> hd (tap_polls t) = (1, NET_POLLIN) \<and>
     (case tap_reads t of Some frame # rs \<Rightarrow> length frame \<le> net_buffer_len | _ \<Rightarrow> False))"

definition rx_delivered :: "gmem \<Rightarrow> rx_chain \<Rightarrow> u8 list \<Rightarrow> bool" where
  "rx_delivered m c frame \<longleftrightarrow> take (rx_count c frame) (gather m (rc_bufs c)) = take (rx_count c frame) frame"

definition rx_answered :: "gmem \<Rightarrow> rx_chain \<Rightarrow> tap \<times> bool \<Rightarrow> bool" where
  "rx_answered m c = (\<lambda>(t, line). rx_delivered m c (rx_frame t))"

definition rx_completion :: "rx_chain \<Rightarrow> tap \<times> bool \<Rightarrow> u32 \<times> u32" where
  "rx_completion c = (\<lambda>(t, line). (ucast (rc_head c), of_nat (rx_count c (rx_frame t))))"

definition rx_laid :: "gmem \<Rightarrow> queue \<Rightarrow> rx_chain \<Rightarrow> bool" where
  "rx_laid m q c \<longleftrightarrow> frame_at m q (rc_head c) (rc_bufs c) \<and> bufs_ok m q (rc_bufs c) \<and> bufs_apart (rc_bufs c)"

definition rx_holds :: "queue \<Rightarrow> tap \<times> bool \<Rightarrow> net \<times> interrupt \<Rightarrow> bool" where
  "rx_holds q = (\<lambda>(t, line) (d, irq). net_tap d = t \<and> length (net_rx_buffer d) = net_buffer_len \<and>
     q_at rx_queue d = Inr q \<and> irq_state irq = line \<and> irq_fd_ok irq)"

lemma rx_serves:
  assumes "rx_holds q a s" "queue_ok m q" "pending m q = rc_head c # hs" "rx_laid m q c" "rx_can c a"
  shows "\<exists>m' s'. run_rx m s = Some (Inr (m', s')) \<and>
    rx_holds (q\<lparr>q_last_avail := q_last_avail q + 1\<rparr>) (rx_step c a) s' \<and> same_requests q m m' \<and>
    used_step q (rx_completion c a) m m' \<and> writes_only m q (rc_bufs c) m' \<and> rx_answered m' c a"
proof -
  obtain d irq where s: "s = (d, irq)" by (cases s)
  obtain t line where a: "a = (t, line)" by (cases a)
  obtain ps frame rs where t: "tap_polls t = (1, NET_POLLIN) # ps" "tap_reads t = Some frame # rs"
      "length frame \<le> net_buffer_len"
    using assms(5) by (cases "tap_polls t") (auto simp: rx_can_def a split: list.splits option.splits)
  have d: "length (net_rx_buffer d) = net_buffer_len" "q_at rx_queue d = Inr q" "net_tap d = t" "irq_fd_ok irq"
    using assms(1) by (simp_all add: rx_holds_def s a)
  have c: "frame_at m q (rc_head c) (rc_bufs c)" "bufs_ok m q (rc_bufs c)" "bufs_apart (rc_bufs c)"
    using assms(4) by (simp_all add: rx_laid_def)
  let ?m' = "completion (scatter m (rc_bufs c) frame) q (ucast (rc_head c)) (of_nat (rx_count c frame))"
  have tap: "tap_polls (net_tap d) = (1, NET_POLLIN) # ps" "tap_reads (net_tap d) = Some frame # rs"
    using t d(3) by simp_all
  from net_rx_exact[OF d(1,2) assms(2,3) c(1,2) tap t(3) d(4)] obtain d' irq' where
    r: "run_rx m s = Some (Inr (?m', d', irq'))" "net_tap d' = t\<lparr>tap_polls := ps, tap_reads := rs\<rparr>"
      "q_at rx_queue d' = Inr (q\<lparr>q_last_avail := q_last_avail q + 1\<rparr>)"
      "length (net_rx_buffer d') = net_buffer_len" "irq_state irq'" "irq_fd_ok irq'"
    by (auto simp: s d(3) rx_count_def)
  have "gather ?m' (rc_bufs c) = gather (scatter m (rc_bufs c) frame) (rc_bufs c)"
    by (rule service_memory(4)[OF assms(2) c(2,2)])
  then have "rx_delivered ?m' c frame"
    using gather_scatter_frame[OF bufs_ok_in[OF c(2)] c(3)] by (simp add: rx_delivered_def rx_count_def)
  with r service_memory(1-3)[OF assms(2) c(2), where bs = frame and start = "ucast (rc_head c)"
      and len = "of_nat (rx_count c frame)"]
  show ?thesis
    by (auto simp: a rx_holds_def rx_step_def rx_completion_def rx_answered_def rx_frame_def t(1,2))
qed

interpretation rx_service: ring_service rc_head rx_laid rc_bufs rc_bufs rx_can rx_step rx_answered
    rx_completion rx_holds run_rx
proof unfold_locales
  fix q a s m c hs
  assume "rx_holds q a s" "queue_ok m q" "pending m q = rc_head c # hs" "rx_laid m q c" "rx_can c a"
  then show "\<exists>m' s'. run_rx m s = Some (Inr (m', s')) \<and>
      rx_holds (q\<lparr>q_last_avail := q_last_avail q + 1\<rparr>) (rx_step c a) s' \<and> same_requests q m m' \<and>
      used_step q (rx_completion c a) m m' \<and> writes_only m q (rc_bufs c) m' \<and> rx_answered m' c a"
    by (rule rx_serves)
next
  fix m c a m'
  assume "rx_answered m c a"
    and same: "\<And>b n. (b, n) \<in> set (rc_bufs c) \<Longrightarrow> peek m' b (unat n) = peek m b (unat n)"
  moreover have "gather m' (rc_bufs c) = gather m (rc_bufs c)" by (rule gather_same) (rule same)
  ultimately show "rx_answered m' c a" by (simp add: rx_answered_def rx_delivered_def split: prod.splits)
qed (simp_all add: rx_laid_def frame_at_same same_requests_ok)

lemma rx_run:
  "tap_polls t = replicate (length cs) (1, NET_POLLIN) @ ps \<Longrightarrow> tap_reads t = map Some frames @ rest \<Longrightarrow>
   length frames = length cs \<Longrightarrow> list_all (\<lambda>f. length f \<le> net_buffer_len) frames \<Longrightarrow>
   along rx_can rx_step cs (t, line) \<and>
   trace rx_completion rx_step cs (t, line) = map2 (\<lambda>c f. (ucast (rc_head c), of_nat (rx_count c f))) cs frames \<and>
   along (rx_answered m) rx_step cs (t, line) = list_all2 (rx_delivered m) cs frames \<and>
   snd (fold rx_step cs (t, line)) = (line \<or> cs \<noteq> [])"
proof (induction cs arbitrary: t frames line)
  case (Cons c cs)
  then obtain f frames' where "frames = f # frames'" by (cases frames) auto
  with Cons show ?case by (simp add: rx_can_def rx_step_def rx_completion_def rx_answered_def rx_frame_def)
qed simp

section \<open>Properties\<close>

text \<open>C9: Frames sent, end to end: the driver sets up the transmit queue of the network device through
  its registers and publishes chains of buffers, one per frame. As many rounds of the transmitting
  thread write the frames to the tap, each in one piece with exactly the bytes of its chain, in the
  order of publication; every chain comes back to the driver in that order with the result of its
  write, and the interrupt is raised.\<close>

theorem guest_sends_frames:
  assumes "vm_mmio v = pc_bus env" "q = queue_of sz desc avail used"
    and "waiting tf_head tx_laid tf_bufs m q fs" "fs \<noteq> []"
    and "tap_writes (be_tap env) = rets @ rest" "length rets = length fs" "list_all (\<lambda>r. 0 \<le> r) rets"
  shows "\<exists>v1 v2 d irq. serve_exits (register_stores 0xd0002000 (queue_setup 1 sz desc avail used)) v = Inr v1 \<and>
    device_rounds (length fs) False 2 (v1\<lparr>vm_memory := m\<rparr>) = Some (Inr v2) \<and>
    ms_state (vm_mmio v2 ! 2) = (Vnet d, irq) \<and>
    tap_sent (net_tap d) = tap_sent (be_tap env) @ map tf_data fs \<and>
    used_run q (map2 (\<lambda>f ret. (ucast (tf_head f), word_of_int ret)) fs rets) m (vm_memory v2) \<and>
    interrupt_handled 0xd0002000 v2"
proof -
  let ?d = "net_ready (be_tap env) (be_net env) 1 q" and ?irq = "interrupt_new 14 True"
  let ?a = "(be_tap env, False)"
  obtain v1 where v1: "serve_exits (register_stores 0xd0002000 (queue_setup 1 sz desc avail used)) v = Inr v1"
    and s1: "net_on_bus.sits 2 0xd0002000 ?d ?irq v1"
    using net_set_up[OF assms(1), of 1 sz desc avail used] assms(2) by auto
  have q: "q_at tx_queue ?d = Inr q" using net_ready_fields(1)[of 1] by (simp add: tx_queue_def)
  note run = tx_run[OF assms(5-7), of False]
  have "tx_holds q ?a (?d, ?irq)" using q by (simp add: tx_holds_def net_ready_fields(2,4))
  moreover have "batch tf_head tx_laid tf_bufs tx_can tx_step m q fs ?a" using assms(3) run by (simp add: batch_def)
  ultimately obtain m' d' irq' q' where
    r: "rounds run_tx (length fs) m (?d, ?irq) = Some (Inr (m', d', irq'))"
      "tx_holds q' (fold tx_step fs ?a) (d', irq')" "used_run q (trace tx_completion tx_step fs ?a) m m'"
    using tx_service.serves_batch[of q ?a "(?d, ?irq)" m fs] by auto
  have "irq_state irq'" "irq_fd_ok irq'" "tap_sent (net_tap d') = tap_sent (be_tap env) @ map tf_data fs"
    using r(2) run assms(4) by (auto simp: tx_holds_def split: prod.splits)
  moreover have "\<exists>v2. device_rounds (length fs) False 2 (v1\<lparr>vm_memory := m\<rparr>) = Some (Inr v2) \<and>
      net_on_bus.sits 2 0xd0002000 d' irq' v2 \<and> vm_memory v2 = m'"
    by (rule net_on_bus.rounds_on_bus[where rnd = run_tx]) (use s1 r(1) in simp_all)
  moreover have "used_run q (map2 (\<lambda>f ret. (ucast (tf_head f), word_of_int ret)) fs rets) m m'" using r(3) run by simp
  ultimately show ?thesis
    using v1 net_on_bus.interrupt_handler net_on_bus.sits_state by blast
qed

text \<open>C10: Frames received, end to end: the driver sets up the receive queue and publishes empty chains;
  frames wait at the tap. As many rounds of the receiving thread put the frames into the chains in
  the order of arrival, the first frame into the first chain (a chain too short gets the part that
  fits), report the number of bytes of each, and raise the interrupt.\<close>

theorem guest_receives_frames:
  assumes "vm_mmio v = pc_bus env" "q = queue_of sz desc avail used"
    and "waiting rc_head rx_laid rc_bufs m q cs" "cs \<noteq> []"
    and "tap_polls (be_tap env) = replicate (length cs) (1, NET_POLLIN) @ ps"
    and "tap_reads (be_tap env) = map Some frames @ rest" "length frames = length cs"
    and "list_all (\<lambda>f. length f \<le> net_buffer_len) frames"
  shows "\<exists>v1 v2. serve_exits (register_stores 0xd0002000 (queue_setup 0 sz desc avail used)) v = Inr v1 \<and>
    device_rounds (length cs) True 2 (v1\<lparr>vm_memory := m\<rparr>) = Some (Inr v2) \<and>
    list_all2 (rx_delivered (vm_memory v2)) cs frames \<and>
    used_run q (map2 (\<lambda>c f. (ucast (rc_head c), of_nat (rx_count c f))) cs frames) m (vm_memory v2) \<and>
    interrupt_handled 0xd0002000 v2"
proof -
  let ?d = "net_ready (be_tap env) (be_net env) 0 q" and ?irq = "interrupt_new 14 True"
  let ?a = "(be_tap env, False)"
  obtain v1 where v1: "serve_exits (register_stores 0xd0002000 (queue_setup 0 sz desc avail used)) v = Inr v1"
    and s1: "net_on_bus.sits 2 0xd0002000 ?d ?irq v1"
    using net_set_up[OF assms(1), of 0 sz desc avail used] assms(2) by auto
  have q: "q_at rx_queue ?d = Inr q" using net_ready_fields(1)[of 0] by (simp add: rx_queue_def)
  note run = rx_run[OF assms(5-8), of False]
  have "rx_holds q ?a (?d, ?irq)" by (simp add: rx_holds_def net_ready_fields(2,3) q)
  moreover have "batch rc_head rx_laid rc_bufs rx_can rx_step m q cs ?a" using assms(3) run by (simp add: batch_def)
  ultimately obtain m' d' irq' q' where
    r: "rounds run_rx (length cs) m (?d, ?irq) = Some (Inr (m', d', irq'))"
      "rx_holds q' (fold rx_step cs ?a) (d', irq')" "used_run q (trace rx_completion rx_step cs ?a) m m'"
      "along (rx_answered m') rx_step cs ?a"
    using rx_service.serves_batch[of q ?a "(?d, ?irq)" m cs] by auto
  have "irq_state irq'" "irq_fd_ok irq'"
    using r(2) run assms(4) by (auto simp: rx_holds_def split: prod.splits)
  moreover have "\<exists>v2. device_rounds (length cs) True 2 (v1\<lparr>vm_memory := m\<rparr>) = Some (Inr v2) \<and>
      net_on_bus.sits 2 0xd0002000 d' irq' v2 \<and> vm_memory v2 = m'"
    by (rule net_on_bus.rounds_on_bus[where rnd = run_rx]) (use s1 r(1) in simp_all)
  moreover have "list_all2 (rx_delivered m') cs frames" using r(4) run by simp
  moreover have "used_run q (map2 (\<lambda>c f. (ucast (rc_head c), of_nat (rx_count c f))) cs frames) m m'"
    using r(3) run by simp
  ultimately show ?thesis
    using v1 net_on_bus.interrupt_handler by blast
qed

section \<open>Examples\<close>

text \<open>Two chains on a ring of four entries, of two buffers and of one.\<close>

definition frames_demo_mem :: gmem where
  "frames_demo_mem = net_demo_mem\<lparr>gm_byte := (gm_byte net_demo_mem)(33 := 6, 40 := 2, 66 := 2, 70 := 2, 1536 := 8, 1537 := 9)\<rparr>"

definition tx_demo :: "tx_frame list" where
  "tx_demo = [\<lparr>tf_head = 0, tf_bufs = [(1024, 2), (1280, 1)], tf_data = [5, 6, 7]\<rparr>,
     \<lparr>tf_head = 2, tf_bufs = [(1536, 2)], tf_data = [8, 9]\<rparr>]"

definition rx_demo :: "rx_chain list" where
  "rx_demo = [\<lparr>rc_head = 0, rc_bufs = [(1024, 2), (1280, 1)]\<rparr>, \<lparr>rc_head = 2, rc_bufs = [(1536, 2)]\<rparr>]"

lemma frames_demo_facts:
  "queue_ok frames_demo_mem demo_queue" "pending frames_demo_mem demo_queue = [0, 2]"
  "frame_at frames_demo_mem demo_queue 0 [(1024, 2), (1280, 1)]" "frame_at frames_demo_mem demo_queue 2 [(1536, 2)]"
  "bufs_ok frames_demo_mem demo_queue [(1024, 2), (1280, 1)]" "bufs_ok frames_demo_mem demo_queue [(1536, 2)]"
  "gather frames_demo_mem [(1024, 2), (1280, 1)] = [5, 6, 7]" "gather frames_demo_mem [(1536, 2)] = [8, 9]"
  by (simp_all add: queue_ok_def demo_queue_def frames_demo_mem_def net_demo_mem_def in_mem_def disjoint_ranges_def
      QUEUE_SIZE_MAX_def pending_def avail_entry_def peek_avail_idx_def peek_le_def peek_def upt_rec
      desc_addr_at_def desc_len_at_def desc_next_at_def desc_flags_at_def VRING_DESC_F_NEXT_def buffer_ok_def)

lemma demo_waiting:
  "waiting tf_head tx_laid tf_bufs frames_demo_mem demo_queue tx_demo"
  "waiting rc_head rx_laid rc_bufs frames_demo_mem demo_queue rx_demo"
  using frames_demo_facts
  by (simp_all add: waiting_def tx_demo_def rx_demo_def tx_laid_def rx_laid_def all_apart_def disjoint_ranges_def
      net_buffer_len_def demo_size del: bufs_simps gather_simps frame_at.simps)

definition frames_demo_tap :: tap where
  "frames_demo_tap = \<lparr>tap_polls = [(1, NET_POLLIN), (1, NET_POLLIN)], tap_reads = [Some [1, 2], Some [3, 4, 5]],
     tap_writes = [3, 2], tap_sent = []\<rparr>"

theorem guest_sends_frames_witness:
  "\<exists>v1 v2 d irq. serve_exits (register_stores 0xd0002000 (queue_setup 1 4 0 64 128))
       (demo_bus (demo_env\<lparr>be_tap := frames_demo_tap\<rparr>)) = Inr v1 \<and>
     device_rounds 2 False 2 (v1\<lparr>vm_memory := frames_demo_mem\<rparr>) = Some (Inr v2) \<and>
     ms_state (vm_mmio v2 ! 2) = (Vnet d, irq) \<and> tap_sent (net_tap d) = [[5, 6, 7], [8, 9]]"
proof -
  let ?env = "demo_env\<lparr>be_tap := frames_demo_tap\<rparr>"
  have bus: "vm_mmio (demo_bus ?env) = pc_bus ?env" by (simp add: demo_bus_def)
  have some: "tx_demo \<noteq> []" and two: "length tx_demo = 2" and data: "map tf_data tx_demo = [[5, 6, 7], [8, 9]]"
    by (simp_all add: tx_demo_def)
  have tap: "tap_writes (be_tap ?env) = [3, 2] @ []" "length [3, 2 :: int] = length tx_demo" "list_all (\<lambda>r. 0 \<le> r) [3, 2 :: int]"
    and none: "tap_sent (be_tap ?env) = []"
    by (simp_all add: frames_demo_tap_def two)
  from guest_sends_frames[OF bus demo_queue_of demo_waiting(1) some tap] show ?thesis
    unfolding two data none by fastforce
qed

theorem guest_receives_frames_witness:
  "\<exists>v1 v2. serve_exits (register_stores 0xd0002000 (queue_setup 0 4 0 64 128))
       (demo_bus (demo_env\<lparr>be_tap := frames_demo_tap\<rparr>)) = Inr v1 \<and>
     device_rounds 2 True 2 (v1\<lparr>vm_memory := frames_demo_mem\<rparr>) = Some (Inr v2) \<and>
     take 2 (gather (vm_memory v2) [(1024, 2), (1280, 1)]) = [1, 2] \<and> gather (vm_memory v2) [(1536, 2)] = [3, 4]"
proof -
  let ?env = "demo_env\<lparr>be_tap := frames_demo_tap\<rparr>"
  have bus: "vm_mmio (demo_bus ?env) = pc_bus ?env" by (simp add: demo_bus_def)
  have some: "rx_demo \<noteq> []" and two: "length rx_demo = 2" by (simp_all add: rx_demo_def)
  have tap: "tap_polls (be_tap ?env) = replicate (length rx_demo) (1, NET_POLLIN) @ []"
    "tap_reads (be_tap ?env) = map Some [[1, 2], [3, 4, 5]] @ []" "length [[1, 2], [3, 4, 5 :: u8]] = length rx_demo"
    "list_all (\<lambda>f. length f \<le> net_buffer_len) [[1, 2], [3, 4, 5 :: u8]]"
    by (simp_all add: frames_demo_tap_def two net_buffer_len_def numeral_2_eq_2)
  have read: "list_all2 (rx_delivered m) rx_demo [[1, 2], [3, 4, 5]] \<Longrightarrow>
      take 2 (gather m [(1024, 2), (1280, 1)]) = [1, 2] \<and> gather m [(1536, 2)] = [3, 4]" for m
    by (simp add: rx_demo_def rx_delivered_def rx_count_def)
  from guest_receives_frames[OF bus demo_queue_of demo_waiting(2) some tap] show ?thesis
    unfolding two using read by blast
qed

end
