(* ===== verification/Spec2Isabelle.thy ===== *)
theory Spec2Isabelle
  imports Prelude Guest_Memory Interrupt Fifo Io_Device I8042 Terminal Uart Virtqueue
    Virtio_Device Virtio_Mmio Rng Descriptor_Chain Host_File Blk Net
    Gdt Long_Mode Mptable Elf Kvm_Api Cpuid Irq_Routing Vcpu_Setup Rtc
    Vm_Memory Vm Vm_Ports Machine_Shape Vmm Vmm_Threads Virtio_Driver Vm_Teardown Vmm_Schedule
    Program Apic_Regs Vm_Mmio Ring_Frames Ring_Service Disk_Requests Entropy_Driver Net_Frames
begin

text \<open>
  kthxvm is a virtual machine monitor for x86 guests on top of KVM. The process maps the guest's
  memory, loads a kernel into it, writes the tables a Linux kernel expects, prepares the processors
  through \<^verbatim>\<open>ioctl\<close>, and then runs one thread per processor. A processor leaves the guest with an
  exit; accesses to ports go to the keyboard controller and the four serial ports, accesses to
  physical addresses above memory to the three virtio devices. Disk and network device have
  threads of their own, which find their work in rings in guest memory and finish it by raising an
  interrupt. One more thread carries the host's terminal to the first serial port.

  \<^bold>\<open>Outcomes.\<close> Every operation that can go wrong returns a value of \<open>'a res\<close> (theory Prelude): \<open>Inr x\<close>
  when the code returns, \<open>Inl (Exn e)\<close> when it throws, \<open>Inl (UB u)\<close> where the C++ program would
  leave a buffer, the guest mapping or an array, or follow a null pointer, and \<open>Inl Blocked\<close> where
  a system call has no more recorded answers, that is, where the thread waits. Integers have the
  width of the source (\<open>u8\<close> to \<open>u64\<close> are words and wrap around).

  \<^bold>\<open>Theories and sources\<close> (paths below \<^verbatim>\<open>src/\<close> of the repository).

  \<^item> Prelude: words, outcomes, little-endian layouts, arrays with bounds; the collections \<open>word_nat\<close>
    and \<open>flag_bits\<close>.
  \<^item> Guest_Memory, Host_File, Descriptor_Chain: the guest mapping with the pointer arithmetic of
    \<^verbatim>\<open>queue::translate\<close>, \<^verbatim>\<open>std::fstream\<close>, and the loops over chains of descriptors. The links of a
    chain are guest memory, so a chain may be cyclic: \<open>iterate\<close> is defined as a partial function
    and \<open>None\<close> is divergence, never a default value.
  \<^item> Interrupt (\<^verbatim>\<open>kvm/interrupt.h\<close>), Io_Device (\<^verbatim>\<open>kvm/device/io_device.h\<close>), Fifo (the contract of the
    byte queues inside the devices).
  \<^item> I8042, Uart, Rtc (\<^verbatim>\<open>kvm/device/*.h\<close>) and Terminal (\<^verbatim>\<open>os/terminal.h\<close>).
  \<^item> Virtqueue, Virtio_Device, Virtio_Mmio, Blk, Net, Rng (\<^verbatim>\<open>kvm/virtio/*.h\<close>).
  \<^item> Gdt, Long_Mode, Mptable, Vcpu_Setup, Irq_Routing, Cpuid (\<^verbatim>\<open>kvm/gdt.h\<close>, \<^verbatim>\<open>regs.h\<close>, \<^verbatim>\<open>mptable.h\<close>,
    \<^verbatim>\<open>msr.h\<close>, \<^verbatim>\<open>apic.h\<close>, \<^verbatim>\<open>irq.h\<close>, \<^verbatim>\<open>cpuid.h\<close>) and Elf (\<^verbatim>\<open>elf/elf.h\<close>): what the guest finds when it starts;
    Apic_Regs (\<^verbatim>\<open>include/apicdef.h\<close>): the register page of the local APIC, member by member.
  \<^item> Kvm_Api (\<^verbatim>\<open>kvm/kvm.h\<close>, \<^verbatim>\<open>vcpu.h\<close>, \<^verbatim>\<open>util.h\<close>): every call of the kernel interface.
  \<^item> Vm_Memory, Vm, Vm_Ports (\<^verbatim>\<open>kvm/vm.h\<close>): the memory slots and boot parameters, the machine with its
    devices and the loop of a processor, and what exits on ports do to the whole machine.
  \<^item> Machine_Shape: the rounds of the device threads on the machine, and what no step changes.
  \<^item> Vmm, Vmm_Threads (\<^verbatim>\<open>kvm/vmm.h\<close>): the construction of the machine and its threads, as a step
    relation; Vmm_Schedule: the same threads as a function of a schedule.
  \<^item> Virtio_Driver, Vm_Mmio: the virtio devices as a driver in the guest meets them, through exits.
  \<^item> Ring_Frames, Ring_Service: what serving a request leaves alone, and the contract of a service of
    a queue with its consequence for batches of requests, and for batch after batch while the driver
    changes its memory in between; Disk_Requests, Entropy_Driver, Net_Frames:
    the disk as an abstract block store, the entropy device, and streams of frames, from the stores
    that set a queue up to the interrupt handler.
  \<^item> Vm_Teardown (\<^verbatim>\<open>~vm\<close>, \<^verbatim>\<open>~mmio\<close>, \<^verbatim>\<open>~blk\<close>, \<^verbatim>\<open>~net\<close>): the destructors against the device threads.
  \<^item> Program (\<^verbatim>\<open>main.cpp\<close>): the entry, and the program from its start to the end of the machine.

  A class is a record with the names of its fields behind a short prefix, a method a function from
  the arguments and the record to the outcome with the new record. Virtual functions are the fields
  of \<open>virtio_class\<close> and the case distinctions \<open>dev_read\<close>, \<open>vio_read\<close> and the like. Devices on one
  line share the interrupt object: a port device names its line, and the machine holds the objects.

  \<^bold>\<open>Interfaces.\<close> \<open>byte_fifo\<close> (keyboard buffer, receive buffer), \<open>signal_line\<close> (interrupts),
  \<open>port_device\<close> and \<open>total_port_device\<close> (devices behind a window), \<open>virtio_dev\<close> (the registers of a
  virtio device, which is itself a \<open>port_device\<close>), \<open>request_source\<close> (virtqueues),
  \<open>waiting_device\<close> (port devices that may wait for the host), \<open>wrapped_device\<close> and its extension
  \<open>bus_device\<close> (a virtio device among the devices of the bus), \<open>careful_device\<close> (a virtio device
  under a driver that keeps the rules) and \<open>ring_service\<close> (a round that serves one request of a
  queue, interpreted for disk, entropy device and both threads of the network device) are locales; each is interpreted on
  the model of the code that provides it, and the properties rest on the interpretations.

  \<^bold>\<open>What is shown.\<close>

  \<^item> Start: on a willing host the monitor builds exactly the machine of a PC with three virtio
    devices, and memory then holds the kernel, the page tables, the boot parameters and the MP
    table; the boot processor gets the registers of 64-bit mode; the command line names the devices
    that are on the bus; the CPUID table is the host's but for the registers the filter is about; no
    refused \<^verbatim>\<open>ioctl\<close> on the KVM descriptors goes unnoticed (\<^verbatim>\<open>eventfd\<close> and the \<^verbatim>\<open>open\<close> of the tap are not
    checked by the code); the interrupt pins, read in the register page, are those of a PC.
  \<^item> The whole program: a machine whose first processor halts returns from \<^verbatim>\<open>start\<close> with the
    console's output delivered, and its destructor reaches the end.
  \<^item> Ports and bus: no exit on a port can leave a buffer or throw, whatever the threads did before,
    and no exit on the bus as long as the driver selects and notifies queues that exist; the console
    delivers every byte in order to a guest that writes its registers byte by byte and does
    not program the divisor latch through the data port; a string output loses bytes and a byte for
    the latch is sent. An access reaches the one device whose window contains it and changes nothing
    else.
  \<^item> Virtqueues: requests are taken in order and once, completions reach the driver and change no other
    byte of memory, nine register writes configure a queue. End to end,
    from the stores that set up a queue to the interrupt handler: a disk that behaves as an abstract
    block store under batches of reads and writes and keeps what is written to it, frames in both
    directions in order, random bytes served inside the notifying exits.
  \<^item> Devices: output, input (from the terminal to the guest's reads) and loopback of the serial port,
    the keyboard controller, entropy, interrupt edges, the register window with its bounds.
  \<^item> Threads: no step changes the shape of the machine, which device stands where, and which lines
    exist with which number and event descriptor; the order of shutdown and when it waits for
    input; memory outlives the device threads, and destruction can always complete.
  \<^item> Limits of the code as it is (each also in the manifest's findings): a queue hands out the
    first 65535 requests of its driver and then none for ever, cyclic chains hang the disk thread, oversized transmit chains overflow
    the frame buffer, errors of the host file and the tap are not reported to the guest.

  \<^bold>\<open>Parameters and bounds.\<close> The kernel is a record of answers and a log of calls (\<open>kvm_host\<close>), the
  tap, the terminal and \<^verbatim>\<open>/dev/random\<close> are lists of recorded answers, and fields the code leaves
  uninitialised are arguments. \<open>run_cpu\<close> ends because each round consumes a recorded answer of
  \<^verbatim>\<open>KVM_RUN\<close>; all statements are for every such record, so no bound is lost. A step of \<open>vmm_step\<close> is an
  exit with its handling, a round of a device thread, or a system call of the terminal's reader
  with what follows it; the mutexes of the code make the operations inside these atomic, the
  unprotected accesses between device threads and processors are interleaved at this grain only.

  \<^verbatim>\<open>should_run\<close> is a plain \<^verbatim>\<open>bool\<close> that several threads use; the model reads and writes it in one step.

  \<^bold>\<open>Not modelled.\<close> \<^verbatim>\<open>Makefile\<close>; the constants of \<^verbatim>\<open>apicdef.h\<close> for registers outside its structure;
  the constants of \<^verbatim>\<open>def.h\<close>, \<^verbatim>\<open>cpuid.h\<close>, \<^verbatim>\<open>vring_def.h\<close> and \<^verbatim>\<open>mpspec_def.h\<close> and the structures of the latter
  that no code uses; \<^verbatim>\<open>cpuid_native\<close>, one assembler instruction that nothing calls; the text that
  \<^verbatim>\<open>errno_msg\<close> and \<^verbatim>\<open>ioctl_warn\<close> print. Of the concurrency, what lies inside a step: a processor and a
  device thread that touch the registers of one queue at the same moment, and the memory model.
\<close>

end
